(* ===== verification/Prelude.thy ===== *)
theory Prelude
  imports Main "HOL-Library.Word" "HOL-Library.Sublist"
begin

text \<open>
  Shared vocabulary of the development.

  A JavaScript string is a list of code units.  The parsers whose grammar is ASCII
  (\<open>web/ip.ts\<close>, \<open>apply-patch\<close>, \<open>scheduling/cron.ts\<close>, \<open>diff.ts\<close>) read it as
  \<open>string\<close>, that is a list of code units below 256; the byte accounting of \<open>jsonl.ts\<close>
  depends on the width of a unit and reads it as a list of 16-bit words.  The part of the
  JavaScript standard library the program uses is defined here once (\<open>trim\<close>, \<open>split\<close>,
  \<open>startsWith\<close>, \<open>indexOf\<close>, reads out of range), together with the lemmas on it.

  The collection \<open>js\<close> holds the executable definitions used to evaluate concrete
  inputs.  The locale \<open>guarded_system\<close> is the contract every state machine of the
  development meets: an invariant that holds at the start and is kept by every step.
\<close>

named_theorems js \<open>definitions of the JavaScript library, for evaluation\<close>

type_synonym 'a js_array = "'a list"

text \<open>\<open>x ?? d\<close>.\<close>

definition or_else :: "'a option \<Rightarrow> 'a \<Rightarrow> 'a" where
  [js]: "or_else x d = (case x of Some y \<Rightarrow> y | None \<Rightarrow> d)"

subsection \<open>Indexing\<close>

text \<open>\<open>xs[i]\<close> is \<open>undefined\<close> out of range.\<close>

definition js_nth :: "'a list \<Rightarrow> nat \<Rightarrow> 'a option" where
  [js]: "js_nth xs i = (if i < length xs then Some (xs ! i) else None)"

lemma js_nth_Nil [simp]: "js_nth [] i = None"
  by (simp add: js_nth_def)

lemma js_nth_Cons_0 [simp]: "js_nth (x # xs) 0 = Some x"
  by (simp add: js_nth_def)

lemma js_nth_Cons_Suc [simp]: "js_nth (x # xs) (Suc i) = js_nth xs i"
  by (simp add: js_nth_def)

lemma js_nth_Cons_numeral [simp]:
  "js_nth (x # xs) (numeral k) = js_nth xs (pred_numeral k)"
  by (simp add: numeral_eq_Suc)

lemma js_nth_Some_iff: "js_nth xs i = Some x \<longleftrightarrow> i < length xs \<and> xs ! i = x"
  by (simp add: js_nth_def)

lemma js_nth_None_iff: "js_nth xs i = None \<longleftrightarrow> length xs \<le> i"
  by (simp add: js_nth_def)

text \<open>\<open>xs.slice(i, j)\<close> for indices that are not negative.\<close>

definition slice :: "'a list \<Rightarrow> nat \<Rightarrow> nat \<Rightarrow> 'a list" where
  [js]: "slice xs i j = take (j - i) (drop i xs)"

lemma slice_append_slice:
  assumes "i \<le> j" "j \<le> k"
  shows "slice xs i j @ slice xs j k = slice xs i k"
proof -
  have "drop j xs = drop (j - i) (drop i xs)" and "k - i = (j - i) + (k - j)"
    using assms by simp_all
  then show ?thesis by (simp add: slice_def take_add)
qed

lemma slice_append_drop: "i \<le> j \<Longrightarrow> slice xs i j @ drop j xs = drop i xs"
  by (simp add: slice_def) (metis append_take_drop_id drop_drop le_add_diff_inverse2)

lemma slice_0 [simp]: "slice xs 0 j = take j xs"
  by (simp add: slice_def)

text \<open>\<open>xs.findIndex(p)\<close>, with \<open>None\<close> for \<open>-1\<close>.\<close>

fun find_index :: "('a \<Rightarrow> bool) \<Rightarrow> 'a list \<Rightarrow> nat option" where
  "find_index p [] = None"
| "find_index p (x # xs) = (if p x then Some 0 else map_option Suc (find_index p xs))"

lemma find_index_SomeD: "find_index p xs = Some i \<Longrightarrow> i < length xs \<and> p (xs ! i)"
  by (induction xs arbitrary: i) (auto split: if_splits)

lemma find_index_least: "find_index p xs = Some i \<Longrightarrow> j < i \<Longrightarrow> \<not> p (xs ! j)"
  by (induction xs arbitrary: i j) (auto split: if_splits simp: nth_Cons')

lemma find_index_None_iff: "find_index p xs = None \<longleftrightarrow> (\<forall>x \<in> set xs. \<not> p x)"
  by (induction xs) auto

text \<open>\<open>for (i = lo; i < hi; i += 1) if (p(i)) return i\<close>.\<close>

function find_from :: "(nat \<Rightarrow> bool) \<Rightarrow> nat \<Rightarrow> nat \<Rightarrow> nat option" where
  "find_from p lo hi =
     (if lo < hi then (if p lo then Some lo else find_from p (Suc lo) hi) else None)"
  by pat_completeness auto
termination
  by (relation "measure (\<lambda>(p, lo, hi). hi - lo)") auto

declare find_from.simps [simp del]

lemma find_from_SomeD: "find_from p lo hi = Some i \<Longrightarrow> lo \<le> i \<and> i < hi \<and> p i"
proof (induction p lo hi rule: find_from.induct)
  case (1 p lo hi)
  then show ?case
    by (auto simp: find_from.simps [of p lo hi] split: if_splits)
qed

lemma find_from_None_iff: "find_from p lo hi = None \<longleftrightarrow> (\<forall>i. lo \<le> i \<longrightarrow> i < hi \<longrightarrow> \<not> p i)"
proof (induction p lo hi rule: find_from.induct)
  case (1 p lo hi)
  show ?case
  proof (cases "lo < hi \<and> \<not> p lo")
    case True
    then have "find_from p lo hi = None \<longleftrightarrow> (\<forall>i. Suc lo \<le> i \<longrightarrow> i < hi \<longrightarrow> \<not> p i)"
      using 1 by (simp add: find_from.simps [of p lo hi])
    with True show ?thesis by (metis Suc_leI le_neq_implies_less Suc_leD)
  next
    case False
    then show ?thesis by (auto simp: find_from.simps [of p lo hi])
  qed
qed

lemma find_from_first: "lo < hi \<Longrightarrow> p lo \<Longrightarrow> find_from p lo hi = Some lo"
  by (simp add: find_from.simps [of p lo hi])

subsection \<open>Strings\<close>

text \<open>White space of \<open>trim\<close> and of \<open>\\s\<close>, among the code units below 256.\<close>

definition js_space :: "char \<Rightarrow> bool" where
  [js]: "js_space c \<longleftrightarrow>
     (let n = (of_char c :: nat) in (9 \<le> n \<and> n \<le> 13) \<or> n = 32 \<or> n = 160)"

definition trim_start :: "string \<Rightarrow> string" where
  [js]: "trim_start s = dropWhile js_space s"

definition trim_end :: "string \<Rightarrow> string" where
  [js]: "trim_end s = rev (dropWhile js_space (rev s))"

definition trim :: "string \<Rightarrow> string" where
  [js]: "trim s = trim_end (trim_start s)"

definition starts_with :: "'a list \<Rightarrow> 'a list \<Rightarrow> bool" where
  [js]: "starts_with s p \<longleftrightarrow> take (length p) s = p"

definition ends_with :: "'a list \<Rightarrow> 'a list \<Rightarrow> bool" where
  [js]: "ends_with s p \<longleftrightarrow> length p \<le> length s \<and> drop (length s - length p) s = p"

lemma starts_with_iff_prefix: "starts_with s p \<longleftrightarrow> prefix p s"
  unfolding starts_with_def prefix_def by (metis append_eq_conv_conj append_take_drop_id)

lemma starts_with_append [simp]: "starts_with (p @ s) p"
  by (simp add: starts_with_def)

lemma starts_with_refl [simp]: "starts_with s s"
  by (simp add: starts_with_def)

lemma starts_with_Nil [simp]: "starts_with s []"
  by (simp add: starts_with_def)

lemma starts_with_Nil_left [simp]: "starts_with [] p \<longleftrightarrow> p = []"
  by (auto simp: starts_with_def)

lemma starts_with_Cons [simp]:
  "starts_with (c # s) (d # p) \<longleftrightarrow> c = d \<and> starts_with s p"
  by (auto simp: starts_with_def)

lemma trim_Nil [simp]: "trim [] = []" "trim_start [] = []" "trim_end [] = []"
  by (simp_all add: trim_def trim_start_def trim_end_def)

lemma dropWhile_hd: "dropWhile p xs \<noteq> [] \<Longrightarrow> \<not> p (hd (dropWhile p xs))"
  by (rule hd_dropWhile)

lemma dropWhile_dropWhile [simp]: "dropWhile p (dropWhile p xs) = dropWhile p xs"
  by (induction xs) auto

lemma trim_end_idem [simp]: "trim_end (trim_end s) = trim_end s"
  by (simp add: trim_end_def)

lemma trim_start_idem [simp]: "trim_start (trim_start s) = trim_start s"
  by (simp add: trim_start_def)

lemma trim_end_snoc_other: "\<not> js_space c \<Longrightarrow> trim_end (s @ [c]) = s @ [c]"
  by (simp add: trim_end_def)

lemma trim_end_snoc_space: "js_space c \<Longrightarrow> trim_end (s @ [c]) = trim_end s"
  by (simp add: trim_end_def)

lemma trim_start_Cons_other: "\<not> js_space c \<Longrightarrow> trim_start (c # s) = c # s"
  by (simp add: trim_start_def)

lemma trim_start_trim_end: "trim_start (trim_end s) = trim_end (trim_start s)"
proof (induction s rule: rev_induct)
  case (snoc c s)
  show ?case
  proof (cases "js_space c")
    case True
    have "trim_end (trim_start (s @ [c])) = trim_end (trim_start s)"
      using True by (cases "\<forall>d\<in>set s. js_space d")
        (auto simp: trim_start_def trim_end_def dropWhile_append dest: set_dropWhileD)
    with True snoc.IH show ?thesis by (simp add: trim_end_snoc_space)
  next
    case False
    then show ?thesis
      by (simp add: trim_end_snoc_other trim_start_def dropWhile_append trim_end_def)
  qed
qed simp

lemma trim_idem [simp]: "trim (trim s) = trim s"
  by (simp add: trim_def trim_start_trim_end)

lemma trim_trim_end [simp]: "trim (trim_end s) = trim s"
  by (simp add: trim_def trim_start_trim_end)

lemma trim_no_space:
  assumes "s \<noteq> []" "\<not> js_space (hd s)" "\<not> js_space (last s)"
  shows "trim s = s"
proof -
  have "trim_start s = s" using assms by (cases s) (auto simp: trim_start_def)
  moreover have "trim_end s = s"
    using assms by (cases s rule: rev_cases) (auto simp: trim_end_def)
  ultimately show ?thesis by (simp add: trim_def)
qed

text \<open>\<open>s.split(c)\<close> for a one-unit separator, and \<open>xs.join(sep)\<close>.\<close>

fun split_on :: "'a \<Rightarrow> 'a list \<Rightarrow> 'a list list" where
  "split_on c [] = [[]]"
| "split_on c (x # xs) =
     (if x = c then [] # split_on c xs
      else (x # hd (split_on c xs)) # tl (split_on c xs))"

fun join :: "'a list \<Rightarrow> 'a list list \<Rightarrow> 'a list" where
  "join sep [] = []"
| "join sep [x] = x"
| "join sep (x # y # ys) = x @ sep @ join sep (y # ys)"

lemma split_on_not_Nil [simp]: "split_on c s \<noteq> []"
  by (cases s) auto

lemma split_on_case:
  "split_on c (x # xs) =
     (if x = c then [] # split_on c xs else case split_on c xs of y # ys \<Rightarrow> (x # y) # ys)"
  by (simp split: list.split)

lemma length_split_on: "length (split_on c s) = Suc (count_list s c)"
  by (induction s) auto

lemma split_on_no_sep: "x \<in> set (split_on c s) \<Longrightarrow> c \<notin> set x"
proof (induction s arbitrary: x)
  case (Cons a s)
  then show ?case
    by (cases "split_on c s") (auto split: if_splits)
qed simp

lemma split_on_plain [simp]: "c \<notin> set x \<Longrightarrow> split_on c x = [x]"
  by (induction x) auto

lemma split_on_append_sep: "split_on c (x @ c # y) = split_on c x @ split_on c y"
  by (induction x) (auto simp: hd_append tl_append split: list.split)

lemma join_Cons: "xs \<noteq> [] \<Longrightarrow> join sep (x # xs) = x @ sep @ join sep xs"
  by (cases xs) auto

lemma join_split_on [simp]: "join [c] (split_on c s) = s"
proof (induction s)
  case (Cons a s)
  then show ?case
    by (cases "split_on c s" rule: list.exhaust; cases "tl (split_on c s)")
       (auto simp: join_Cons)
qed simp

lemma split_on_join:
  "xs \<noteq> [] \<Longrightarrow> \<forall>x \<in> set xs. c \<notin> set x \<Longrightarrow> split_on c (join [c] xs) = xs"
  by (induction "[c]" xs rule: join.induct) (auto simp: split_on_append_sep)

text \<open>\<open>s.split(/\r?\n/)\<close>: split at line feeds, dropping one carriage return before each.\<close>

definition LF :: char where [js]: "LF = CHR 0x0A"
definition CR :: char where [js]: "CR = CHR 0x0D"
definition TAB :: char where [js]: "TAB = CHR 0x09"
definition NUL :: char where [js]: "NUL = CHR 0x00"

definition chop_cr :: "string \<Rightarrow> string" where
  [js]: "chop_cr s = (if s \<noteq> [] \<and> last s = CR then butlast s else s)"

definition split_lines :: "string \<Rightarrow> string list" where
  [js]: "split_lines s = (let ls = split_on LF s in map chop_cr (butlast ls) @ [last ls])"

lemma split_lines_not_Nil [simp]: "split_lines s \<noteq> []"
  by (simp add: split_lines_def Let_def)

lemma split_lines_join:
  assumes "xs \<noteq> []" and "\<forall>x \<in> set xs. LF \<notin> set x \<and> (x \<noteq> [] \<longrightarrow> last x \<noteq> CR)"
  shows "split_lines (join [LF] xs) = xs"
proof -
  have "map chop_cr (butlast xs) = butlast xs"
    using assms(2) by (intro map_idI) (auto simp: chop_cr_def dest: in_set_butlastD)
  with assms show ?thesis by (simp add: split_lines_def split_on_join)
qed

text \<open>\<open>toLowerCase\<close> on a code unit below 256.\<close>

definition js_lower :: "char \<Rightarrow> char" where
  [js]: "js_lower c = (let n = (of_char c :: nat) in
     if (65 \<le> n \<and> n \<le> 90) \<or> (192 \<le> n \<and> n \<le> 222 \<and> n \<noteq> 215) then char_of (n + 32) else c)"

text \<open>\<open>Buffer.byteLength(s, "utf8")\<close> of a string of code units below 256.\<close>

definition byte_length :: "string \<Rightarrow> nat" where
  [js]: "byte_length s = sum_list (map (\<lambda>c. if (of_char c :: nat) < 128 then 1 else 2) s)"

lemma byte_length_Nil [simp]: "byte_length [] = 0"
  by (simp add: byte_length_def)

lemma byte_length_append [simp]: "byte_length (s @ t) = byte_length s + byte_length t"
  by (simp add: byte_length_def)

text \<open>Decimal digits and the value of a digit string.\<close>

definition is_digit :: "char \<Rightarrow> bool" where
  [js]: "is_digit c \<longleftrightarrow> (let n = (of_char c :: nat) in 48 \<le> n \<and> n \<le> 57)"

definition digit_val :: "char \<Rightarrow> nat" where
  [js]: "digit_val c = of_char c - 48"

definition digits_val :: "string \<Rightarrow> nat" where
  [js]: "digits_val s = foldl (\<lambda>v c. 10 * v + digit_val c) 0 s"

definition digit_char :: "nat \<Rightarrow> char" where
  [js]: "digit_char d = char_of (d + 48)"

fun nat_str :: "nat \<Rightarrow> string" where
  "nat_str n = (if n < 10 then [digit_char n] else nat_str (n div 10) @ [digit_char (n mod 10)])"

declare nat_str.simps [simp del]

lemma is_digit_in: "is_digit c \<Longrightarrow> c \<in> set ''0123456789''"
proof -
  assume "is_digit c"
  then have "(of_char c :: nat) \<in> of_char ` set ''0123456789''"
    by (simp add: is_digit_def Let_def) presburger
  moreover have "inj (of_char :: char \<Rightarrow> nat)" by (rule inj_of_char)
  ultimately show ?thesis by (simp only: inj_image_mem_iff)
qed

lemma of_char_char_of_small: "n < 256 \<Longrightarrow> of_char (char_of n :: char) = (n :: nat)"
  by simp

lemma is_digit_digit_char [simp]: "d < 10 \<Longrightarrow> is_digit (digit_char d)"
  by (simp add: is_digit_def digit_char_def of_char_char_of_small)

lemma digit_val_digit_char [simp]: "d < 10 \<Longrightarrow> digit_val (digit_char d) = d"
  by (simp add: digit_val_def digit_char_def of_char_char_of_small)

lemma digit_char_digit_val [simp]: "is_digit c \<Longrightarrow> digit_char (digit_val c) = c"
  by (simp add: is_digit_def digit_val_def digit_char_def Let_def)

lemma digit_val_less [simp]: "is_digit c \<Longrightarrow> digit_val c < 10"
  by (auto simp: is_digit_def digit_val_def Let_def)

lemma digits_val_Nil [simp]: "digits_val [] = 0"
  by (simp add: digits_val_def)

lemma digits_val_snoc [simp]: "digits_val (s @ [c]) = 10 * digits_val s + digit_val c"
  by (simp add: digits_val_def)

lemma nat_str_not_Nil [simp]: "nat_str n \<noteq> []"
  by (subst nat_str.simps) auto

lemma nat_str_digits: "\<forall>c \<in> set (nat_str n). is_digit c"
  by (induction n rule: nat_str.induct) (subst nat_str.simps, auto)

lemma digits_val_nat_str [simp]: "digits_val (nat_str n) = n"
proof (induction n rule: nat_str.induct)
  case (1 n)
  then show ?case
    by (subst nat_str.simps) (auto simp: digits_val_def)
qed

text \<open>A digit string without superfluous leading zeros is the spelling of its value.\<close>

definition canonical_digits :: "string \<Rightarrow> bool" where
  "canonical_digits s \<longleftrightarrow> s \<noteq> [] \<and> list_all is_digit s \<and>
     (1 < length s \<longrightarrow> \<not> starts_with s ''0'')"

lemma digit_val_0_iff: "is_digit c \<Longrightarrow> digit_val c = 0 \<longleftrightarrow> c = CHR ''0''"
proof
  assume "is_digit c" "digit_val c = 0"
  then have "c = digit_char 0" by (metis digit_char_digit_val)
  also have "digit_char 0 = CHR ''0''" by code_simp
  finally show "c = CHR ''0''" .
qed (simp add: digit_val_def)

lemma digits_val_pos:
  assumes "s \<noteq> []" "list_all is_digit s" "\<not> starts_with s ''0''"
  shows "0 < digits_val s"
  using assms
proof (induction s rule: rev_induct)
  case (snoc c s)
  then have "s = [] \<Longrightarrow> 0 < digit_val c"
    using digit_val_0_iff [of c] by (auto simp: starts_with_def)
  moreover from snoc have "s \<noteq> [] \<Longrightarrow> 0 < digits_val s"
    by (cases s) (auto simp: starts_with_def)
  ultimately show ?case by (cases "s = []") (auto simp: digits_val_def)
qed simp

lemma nat_str_digits_val: "canonical_digits s \<Longrightarrow> nat_str (digits_val s) = s"
proof (induction s rule: rev_induct)
  case (snoc c s)
  show ?case
  proof (cases "s = []")
    case True
    with snoc.prems show ?thesis
      by (subst nat_str.simps) (simp add: canonical_digits_def digits_val_def)
  next
    case False
    then have s: "canonical_digits s" "\<not> starts_with s ''0''" "is_digit c"
      using snoc.prems by (cases s; auto simp: canonical_digits_def)+
    then have "0 < digits_val s" using False
      by (intro digits_val_pos) (auto simp: canonical_digits_def)
    with s snoc.IH show ?thesis
      by (subst nat_str.simps) auto
  qed
qed (simp add: canonical_digits_def)

lemma hd_nat_str_pos: "0 < n \<Longrightarrow> hd (nat_str n) \<noteq> CHR ''0''"
proof (induction n rule: nat_str.induct)
  case (1 n)
  then show ?case
    by (subst nat_str.simps) (auto simp: hd_append digit_val_0_iff [symmetric])
qed

lemma canonical_nat_str: "canonical_digits (nat_str n)"
proof -
  have "1 < length (nat_str n) \<Longrightarrow> 0 < n" by (subst (asm) nat_str.simps) (auto split: if_splits)
  then show ?thesis
    using nat_str_digits [of n] hd_nat_str_pos [of n]
    by (cases "nat_str n") (auto simp: canonical_digits_def list_all_iff)
qed

lemma length_nat_str:
  "length (nat_str n) = (if n < 10 then 1 else Suc (length (nat_str (n div 10))))"
  by (subst nat_str.simps) auto

text \<open>The index of the first occurrence of a code unit, \<open>None\<close> for \<open>-1\<close>.\<close>

definition index_of :: "'a \<Rightarrow> 'a list \<Rightarrow> nat option" where
  [js]: "index_of c s = find_index (\<lambda>x. x = c) s"

lemma index_of_None_iff: "index_of c s = None \<longleftrightarrow> c \<notin> set s"
  by (auto simp: index_of_def find_index_None_iff)

subsection \<open>The contract of a state machine\<close>

text \<open>
  Every stateful component is an initial predicate and a step relation; its invariant holds
  at the start and every step keeps it.  The reachable states and the induction over them
  are stated once here.
\<close>

locale guarded_system =
  fixes init :: "'s \<Rightarrow> bool"
    and step :: "'s \<Rightarrow> 's \<Rightarrow> bool"
    and inv :: "'s \<Rightarrow> bool"
  assumes init_inv: "init s \<Longrightarrow> inv s"
    and step_inv: "inv s \<Longrightarrow> step s t \<Longrightarrow> inv t"
begin

lemma run_inv: "step\<^sup>*\<^sup>* s t \<Longrightarrow> inv s \<Longrightarrow> inv t"
  by (induction rule: rtranclp_induct) (auto intro: step_inv)

lemma reachable_inv: "init s \<Longrightarrow> step\<^sup>*\<^sup>* s t \<Longrightarrow> inv t"
  by (rule run_inv) (auto intro: init_inv)

end

text \<open>
  A state machine that implements an abstract one: along an abstraction function every step is a
  step of the abstract machine or leaves the abstract state alone.
\<close>

locale refined_system = guarded_system init step inv
  for init :: "'s \<Rightarrow> bool" and step :: "'s \<Rightarrow> 's \<Rightarrow> bool" and inv :: "'s \<Rightarrow> bool" +
  fixes abs :: "'s \<Rightarrow> 'a"
    and astep :: "'a \<Rightarrow> 'a \<Rightarrow> bool"
  assumes simulates: "inv s \<Longrightarrow> step s t \<Longrightarrow> abs t = abs s \<or> astep (abs s) (abs t)"
begin

lemma run_refines: "step\<^sup>*\<^sup>* s t \<Longrightarrow> inv s \<Longrightarrow> astep\<^sup>*\<^sup>* (abs s) (abs t)"
proof (induction rule: rtranclp_induct)
  case (step t u)
  then show ?case using simulates [OF run_inv, of s t u] by (metis rtranclp.simps)
qed simp

lemma reachable_refines: "init s \<Longrightarrow> step\<^sup>*\<^sup>* s t \<Longrightarrow> astep\<^sup>*\<^sup>* (abs s) (abs t)"
  by (rule run_refines) (auto intro: init_inv)

end

text \<open>Running a list of events is a run of the machine whose steps are the events.\<close>

lemma fold_run: "(\<lambda>s t. \<exists>e. t = f e s)\<^sup>*\<^sup>* s (fold f es s)"
proof (induction es arbitrary: s)
  case (Cons e es)
  have "(\<lambda>s t. \<exists>e. t = f e s) s (f e s)" by blast
  from converse_rtranclp_into_rtranclp [OF this Cons] show ?case by simp
qed simp

end
