(* ===== verification/Web_Ip_Blocks.thy ===== *)
theory Web_Ip_Blocks
  imports Web_Ip_Spec
begin

text \<open>
  The address tables of \<open>Web_Ip\<close> against the CIDR blocks their comments list, and the
  effect of the local-network opt-in on the whole decision.
\<close>

subsection \<open>The documented address blocks\<close>

text \<open>An IPv4 address as a number, and membership in a block \<open>a.b.c.d/len\<close>.\<close>

definition addr32 :: "nat list \<Rightarrow> nat" where
  "addr32 bs = foldl (\<lambda>v b. v * 256 + b) 0 bs"

definition in_cidr :: "nat list \<Rightarrow> nat list \<times> nat \<Rightarrow> bool" where
  "in_cidr bs blk \<longleftrightarrow> addr32 bs div 2 ^ (32 - snd blk) = addr32 (fst blk) div 2 ^ (32 - snd blk)"

text \<open>The blocks listed in the comments of the two IPv4 tables.\<close>

definition local_blocks :: "(nat list \<times> nat) list" where
  "local_blocks = [([127,0,0,0], 8), ([10,0,0,0], 8), ([172,16,0,0], 12), ([192,168,0,0], 16),
     ([169,254,0,0], 16)]"

definition special_blocks :: "(nat list \<times> nat) list" where
  "special_blocks = [([0,0,0,0], 8), ([10,0,0,0], 8), ([100,64,0,0], 10), ([127,0,0,0], 8),
     ([169,254,0,0], 16), ([172,16,0,0], 12), ([192,0,0,0], 24), ([192,0,2,0], 24),
     ([192,88,99,0], 24), ([192,168,0,0], 16), ([198,18,0,0], 15), ([198,51,100,0], 24),
     ([203,0,113,0], 24), ([224,0,0,0], 4), ([240,0,0,0], 4)]"

definition in_blocks :: "u8 list \<Rightarrow> (nat list \<times> nat) list \<Rightarrow> bool" where
  "in_blocks bytes blks \<longleftrightarrow> list_ex (in_cidr (map unat bytes)) blks"

lemma addr_div:
  assumes "a < 256" "b < 256" "c < 256" "d < (256::nat)"
  shows "addr32 [a, b, c, d] div 2 ^ 28 = a div 16"
    "addr32 [a, b, c, d] div 2 ^ 24 = a"
    "addr32 [a, b, c, d] div 2 ^ 22 = a * 4 + b div 64"
    "addr32 [a, b, c, d] div 2 ^ 20 = a * 16 + b div 16"
    "addr32 [a, b, c, d] div 2 ^ 17 = a * 128 + b div 2"
    "addr32 [a, b, c, d] div 2 ^ 16 = a * 256 + b"
    "addr32 [a, b, c, d] div 2 ^ 8 = a * 65536 + b * 256 + c"
  using assms unfolding addr32_def by simp_all

lemma mixed_radix:
  assumes "b < m" "b' < (m :: nat)"
  shows "a * m + b = a' * m + b' \<longleftrightarrow> a = a' \<and> b = b'"
proof
  assume eq: "a * m + b = a' * m + b'"
  then have "(a * m + b) div m = (a' * m + b') div m" by simp
  with assms have "a = a'" by simp
  with eq show "a = a' \<and> b = b'" by simp
qed simp

lemma mixed_radix3:
  assumes "b < 256" "b' < 256" "c < 256" "c' < (256 :: nat)"
  shows "a * 65536 + b * 256 + c = a' * 65536 + b' * 256 + c' \<longleftrightarrow> a = a' \<and> b = b' \<and> c = c'"
  using mixed_radix [OF assms(3,4), of "a * 256 + b" "a' * 256 + b'"] mixed_radix [OF assms(1,2), of a a']
  by (simp add: distrib_right mult.commute)

lemma nat_div_eq: "0 < m \<Longrightarrow> (b :: nat) div m = k \<longleftrightarrow> k * m \<le> b \<and> b < Suc k * m"
  by (metis div_less_iff_less_mult le_antisym less_Suc_eq_le less_eq_div_iff_mult_less_eq order_refl)

lemma range_div:
  fixes b :: nat
  shows "b div 64 = 1 \<longleftrightarrow> 64 \<le> b \<and> b \<le> 127" "b div 16 = 1 \<longleftrightarrow> 16 \<le> b \<and> b \<le> 31"
    "b div 2 = 9 \<longleftrightarrow> b = 18 \<or> b = 19" "b div 16 = 14 \<longleftrightarrow> 224 \<le> b \<and> b < 240"
    "b < 256 \<Longrightarrow> b div 16 = 15 \<longleftrightarrow> 240 \<le> b"
  by (simp_all add: nat_div_eq) arith+

lemma if_True_or: "(if P then True else Q) \<longleftrightarrow> P \<or> Q"
  by simp

lemma block_tests:
  assumes "a < 256" "b < 256" "c < 256" "d < (256::nat)"
  shows block8: "x < 256 \<Longrightarrow> in_cidr [a, b, c, d] ([x, 0, 0, 0], 8) \<longleftrightarrow> a = x"
    and block16: "x < 256 \<Longrightarrow> y < 256 \<Longrightarrow>
      in_cidr [a, b, c, d] ([x, y, 0, 0], 16) \<longleftrightarrow> a = x \<and> b = y"
    and block24: "x < 256 \<Longrightarrow> y < 256 \<Longrightarrow> z < 256 \<Longrightarrow>
      in_cidr [a, b, c, d] ([x, y, z, 0], 24) \<longleftrightarrow> a = x \<and> b = y \<and> c = z"
    and block_cgnat: "in_cidr [a, b, c, d] ([100, 64, 0, 0], 10) \<longleftrightarrow> a = 100 \<and> 64 \<le> b \<and> b \<le> 127"
    and block_172: "in_cidr [a, b, c, d] ([172, 16, 0, 0], 12) \<longleftrightarrow> a = 172 \<and> 16 \<le> b \<and> b \<le> 31"
    and block_198: "in_cidr [a, b, c, d] ([198, 18, 0, 0], 15) \<longleftrightarrow> a = 198 \<and> (b = 18 \<or> b = 19)"
    and block_multicast: "in_cidr [a, b, c, d] ([224, 0, 0, 0], 4) \<longleftrightarrow> 224 \<le> a \<and> a < 240"
    and block_reserved: "in_cidr [a, b, c, d] ([240, 0, 0, 0], 4) \<longleftrightarrow> 240 \<le> a"
proof -
  show "x < 256 \<Longrightarrow> in_cidr [a, b, c, d] ([x, 0, 0, 0], 8) \<longleftrightarrow> a = x"
    using assms addr_div(2) [of a b c d] addr_div(2) [of x 0 0 0] by (simp add: in_cidr_def)
  show "x < 256 \<Longrightarrow> y < 256 \<Longrightarrow> in_cidr [a, b, c, d] ([x, y, 0, 0], 16) \<longleftrightarrow> a = x \<and> b = y"
    using assms addr_div(6) [of a b c d] addr_div(6) [of x y 0 0] by (simp add: in_cidr_def mixed_radix)
  show "x < 256 \<Longrightarrow> y < 256 \<Longrightarrow> z < 256 \<Longrightarrow>
      in_cidr [a, b, c, d] ([x, y, z, 0], 24) \<longleftrightarrow> a = x \<and> b = y \<and> c = z"
    using assms addr_div(7) [of a b c d] addr_div(7) [of x y z 0] mixed_radix3 [of b y c z a x]
    by (simp add: in_cidr_def)
  show "in_cidr [a, b, c, d] ([100, 64, 0, 0], 10) \<longleftrightarrow> a = 100 \<and> 64 \<le> b \<and> b \<le> 127"
    using assms addr_div(3) [of a b c d] addr_div(3) [of 100 64 0 0]
      mixed_radix [of "b div 64" 4 1 a 100] range_div(1) [of b] by (simp add: in_cidr_def)
  show "in_cidr [a, b, c, d] ([172, 16, 0, 0], 12) \<longleftrightarrow> a = 172 \<and> 16 \<le> b \<and> b \<le> 31"
    using assms addr_div(4) [of a b c d] addr_div(4) [of 172 16 0 0]
      mixed_radix [of "b div 16" 16 1 a 172] range_div(2) [of b] by (simp add: in_cidr_def)
  show "in_cidr [a, b, c, d] ([198, 18, 0, 0], 15) \<longleftrightarrow> a = 198 \<and> (b = 18 \<or> b = 19)"
    using assms addr_div(5) [of a b c d] addr_div(5) [of 198 18 0 0]
      mixed_radix [of "b div 2" 128 9 a 198] range_div(3) [of b] by (simp add: in_cidr_def)
  show "in_cidr [a, b, c, d] ([224, 0, 0, 0], 4) \<longleftrightarrow> 224 \<le> a \<and> a < 240"
    using assms addr_div(1) [of a b c d] addr_div(1) [of 224 0 0 0] range_div(4) [of a]
    by (simp add: in_cidr_def)
  show "in_cidr [a, b, c, d] ([240, 0, 0, 0], 4) \<longleftrightarrow> 240 \<le> a"
    using assms addr_div(1) [of a b c d] addr_div(1) [of 240 0 0 0] range_div(5) [of a]
    by (simp add: in_cidr_def)
qed

lemma unat_u8_less: "unat (w :: u8) < 256"
  using unat_u8_le [of w] by simp

lemmas cidr_simps =
  block8 [OF unat_u8_less unat_u8_less unat_u8_less unat_u8_less]
  block16 [OF unat_u8_less unat_u8_less unat_u8_less unat_u8_less]
  block24 [OF unat_u8_less unat_u8_less unat_u8_less unat_u8_less]
  block_cgnat [OF unat_u8_less unat_u8_less unat_u8_less unat_u8_less]
  block_172 [OF unat_u8_less unat_u8_less unat_u8_less unat_u8_less]
  block_198 [OF unat_u8_less unat_u8_less unat_u8_less unat_u8_less]
  block_multicast [OF unat_u8_less unat_u8_less unat_u8_less unat_u8_less]
  block_reserved [OF unat_u8_less unat_u8_less unat_u8_less unat_u8_less]

lemma isLocalIPv4_blocks:
  assumes "length bytes = 4" shows "isLocalIPv4 bytes \<longleftrightarrow> in_blocks bytes local_blocks"
proof -
  from assms obtain a b c d where "bytes = [a, b, c, d]" by (auto simp: length_Suc_conv eval_nat_numeral)
  then show ?thesis
    by (simp add: isLocalIPv4_def in_blocks_def local_blocks_def cidr_simps byte_in_def word_unat_eq_iff
        if_True_or)
qed

lemma isBlockedIPv4_blocks_default:
  assumes "length bytes = 4" shows "isBlockedIPv4 bytes False \<longleftrightarrow> in_blocks bytes special_blocks"
proof -
  from assms obtain a b c d where bytes: "bytes = [a, b, c, d]" by (auto simp: length_Suc_conv eval_nat_numeral)
  have high: "byte_in (Some a) 224 255 \<longleftrightarrow> (224 \<le> unat a \<and> unat a < 240) \<or> 240 \<le> unat a"
    using unat_u8_le [of a] by (auto simp: byte_in_def)
  have "isBlockedIPv4 bytes False \<longleftrightarrow>
    unat a = 0 \<or> unat a = 10 \<or> unat a = 100 \<and> 64 \<le> unat b \<and> unat b \<le> 127 \<or> unat a = 127 \<or>
    unat a = 169 \<and> unat b = 254 \<or> unat a = 172 \<and> 16 \<le> unat b \<and> unat b \<le> 31 \<or>
    unat a = 192 \<and> unat b = 0 \<and> unat c = 0 \<or> unat a = 192 \<and> unat b = 0 \<and> unat c = 2 \<or>
    unat a = 192 \<and> unat b = 88 \<and> unat c = 99 \<or> unat a = 192 \<and> unat b = 168 \<or>
    unat a = 198 \<and> unat b = 18 \<or> unat a = 198 \<and> unat b = 19 \<or> unat a = 198 \<and> unat b = 51 \<and> unat c = 100 \<or>
    unat a = 203 \<and> unat b = 0 \<and> unat c = 113 \<or> (224 \<le> unat a \<and> unat a < 240) \<or> 240 \<le> unat a"
    unfolding isBlockedIPv4_def bytes js_nth_Cons_0 Let_def if_True_or high [symmetric]
    by (simp add: byte_in_def word_unat_eq_iff conj_disj_distribL)
  also have "\<dots> \<longleftrightarrow> in_blocks bytes special_blocks"
    unfolding in_blocks_def special_blocks_def bytes
    by (simp add: cidr_simps conj_disj_distribL)
  finally show ?thesis .
qed

lemma isBlockedIPv4_optin: "isBlockedIPv4 bytes al \<longleftrightarrow> isBlockedIPv4 bytes False \<and> \<not> (al \<and> isLocalIPv4 bytes)"
  by (simp add: isBlockedIPv4_def Let_def)

lemma isBlockedIPv4_iff_blocks:
  assumes "length bytes = 4"
  shows "isBlockedIPv4 bytes allowLocal \<longleftrightarrow>
     in_blocks bytes special_blocks \<and> \<not> (allowLocal \<and> in_blocks bytes local_blocks)"
  using isBlockedIPv4_optin [of bytes allowLocal] isBlockedIPv4_blocks_default [OF assms]
    isLocalIPv4_blocks [OF assms] by simp

subsection \<open>Prefix tests compare bits\<close>

text \<open>Bit \<open>i\<close> of an address, counted from the most significant bit of the first byte.\<close>

definition addr_bit :: "u8 list \<Rightarrow> nat \<Rightarrow> bool" where
  "addr_bit bytes i = bit (bytes ! (i div 8)) (7 - i mod 8)"

lemma byte_eq_bits: "(a :: u8) = b \<longleftrightarrow> (\<forall>j<8. bit a (7 - j) = bit b (7 - j))"
proof
  assume bits: "\<forall>j<8. bit a (7 - j) = bit b (7 - j)"
  show "a = b"
  proof (rule bit_word_eqI)
    fix n assume "n < LENGTH(8)"
    then have "7 - (7 - n) = n" "7 - n < 8" by simp_all
    with bits show "bit a n = bit b n" by metis
  qed
qed simp

lemma bit_high_mask:
  "r < 8 \<Longrightarrow> bit (push_bit (8 - r) 0xff AND 0xff :: u8) n \<longleftrightarrow> 8 - r \<le> n \<and> n < 8"
proof -
  have m: "(0xff :: u8) = mask 8" by (simp add: mask_eq_exp_minus_1)
  show "r < 8 \<Longrightarrow> bit (push_bit (8 - r) 0xff AND 0xff :: u8) n \<longleftrightarrow> 8 - r \<le> n \<and> n < 8"
    unfolding m by (auto simp: bit_simps)
qed

lemma masked_eq_bits:
  fixes a b :: u8
  assumes "r < 8" and m: "m = push_bit (8 - r) 0xff AND 0xff"
  shows "a AND m = b AND m \<longleftrightarrow> (\<forall>j<r. bit a (7 - j) = bit b (7 - j))"
proof
  assume eq: "a AND m = b AND m"
  show "\<forall>j<r. bit a (7 - j) = bit b (7 - j)"
  proof (intro allI impI)
    fix j assume "j < r"
    then have "8 - r \<le> 7 - j \<and> 7 - j < 8" using assms(1) by auto
    with assms have "bit m (7 - j)" by (simp add: bit_high_mask)
    then show "bit a (7 - j) = bit b (7 - j)"
      using arg_cong [OF eq, of "\<lambda>w. bit w (7 - j)"] by (simp add: bit_and_iff)
  qed
next
  assume bits: "\<forall>j<r. bit a (7 - j) = bit b (7 - j)"
  show "a AND m = b AND m"
  proof (rule bit_word_eqI)
    fix n assume "n < LENGTH(8)"
    show "bit (a AND m) n = bit (b AND m) n"
    proof (cases "8 - r \<le> n")
      case True
      with \<open>n < LENGTH(8)\<close> have "7 - (7 - n) = n" "7 - n < r" by auto
      with bits have "bit a n = bit b n" by metis
      then show ?thesis by (simp add: bit_and_iff)
    next
      case False
      then have "\<not> bit m n" by (simp only: m bit_high_mask [OF assms(1)]) simp
      then show ?thesis by (simp add: bit_and_iff)
    qed
  qed
qed

lemma all_less_split:
  fixes n :: nat
  shows "(\<forall>i<n. P i) \<longleftrightarrow> (\<forall>k<n div 8. \<forall>j<8. P (8 * k + j)) \<and> (\<forall>j<n mod 8. P (8 * (n div 8) + j))"
  (is "?all \<longleftrightarrow> ?split")
proof
  assume ?all
  moreover have "8 * k + j < n" if "k < n div 8" "j < 8" for k j using that by simp
  moreover have "8 * (n div 8) + j < n" if "j < n mod 8" for j
    using that mult_div_mod_eq [of 8 n] by linarith
  ultimately show ?split by blast
next
  assume s: ?split
  show ?all
  proof (intro allI impI)
    fix i assume "i < n"
    have i: "8 * (i div 8) + i mod 8 = i" "i mod 8 < 8" by simp_all
    show "P i"
    proof (cases "i div 8 < n div 8")
      case True
      with s i show ?thesis by metis
    next
      case False
      with \<open>i < n\<close> have "i div 8 = n div 8" by (meson div_le_mono le_antisym less_imp_le not_less)
      moreover from this \<open>i < n\<close> have "i mod 8 < n mod 8"
        using i(1) mult_div_mod_eq [of 8 n] by linarith
      ultimately show ?thesis using s i by metis
    qed
  qed
qed

text \<open>
  The prefix test compares bits: on addresses long enough, \<open>prefixMatches\<close> holds exactly
  when the first \<open>bits\<close> bits agree, partial last byte included.
\<close>

theorem prefixMatches_iff_bits:
  assumes "bits \<le> 8 * length bytes" "bits \<le> 8 * length pre"
  shows "prefixMatches bytes pre bits \<longleftrightarrow> (\<forall>i<bits. addr_bit bytes i = addr_bit pre i)"
proof -
  let ?f = "bits div 8" and ?r = "bits mod 8"
  have full: "js_nth bytes k = js_nth pre k \<longleftrightarrow>
      (\<forall>j<8. addr_bit bytes (8 * k + j) = addr_bit pre (8 * k + j))" if "k < ?f" for k
  proof -
    have "k < length bytes" "k < length pre" using that assms by auto
    then show ?thesis by (simp add: js_nth_def byte_eq_bits addr_bit_def)
  qed
  have rest: "(0 < ?r \<longrightarrow> mask_byte (js_nth bytes ?f) m = mask_byte (js_nth pre ?f) m) \<longleftrightarrow>
      (\<forall>j<?r. addr_bit bytes (8 * ?f + j) = addr_bit pre (8 * ?f + j))"
    if m: "m = push_bit (8 - ?r) 0xff AND 0xff" for m
  proof (cases "?r = 0")
    case False
    then have "?f < length bytes" "?f < length pre"
      using assms mult_div_mod_eq [of 8 bits] by linarith+
    moreover have "\<And>j. j < ?r \<Longrightarrow> (8 * ?f + j) div 8 = ?f \<and> (8 * ?f + j) mod 8 = j"
      using mod_less_divisor [of 8 bits] by (auto intro: less_trans)
    ultimately show ?thesis
      using False m masked_eq_bits [of ?r m "bytes ! ?f" "pre ! ?f"]
      by (simp add: js_nth_def mask_byte_def addr_bit_def)
  qed simp
  show ?thesis
    unfolding all_less_split [of bits] prefixMatches_def Let_def list_all_iff
    using full rest by auto
qed

lemma prefixMatches_iff_bits_witness:
  "prefixMatches [0xfe, 0x80] [0xfe, 0xbf] 10 \<longleftrightarrow>
     (\<forall>i<10. addr_bit [0xfe, 0x80] i = addr_bit [0xfe, 0xbf] i)"
  by (rule prefixMatches_iff_bits) simp_all

subsection \<open>The whole decision\<close>

lemma isBlockedIPv6_mapped:
  assumes "length b = 4"
  shows "isBlockedIPv6 (mapped_bytes b) al = isBlockedIPv4 b al"
proof -
  from assms obtain w x y z where b: "b = [w, x, y, z]"
    by (auto simp: length_Suc_conv eval_nat_numeral)
  have z: "zeroBytes (mapped_bytes b) 0 10" "\<not> zeroBytes (mapped_bytes b) 0 15"
    by (simp_all add: zeroBytes_def mapped_bytes_def list_all_iff js_nth_def b nth_append nth_Cons'
        replicate_10 upt_rec)
  have p: "\<not> prefixMatches (mapped_bytes b) [0xfc] 7"
    "\<not> prefixMatches (mapped_bytes b) [0xfe, 0x80] 10"
    "\<not> prefixMatches (mapped_bytes b) [0xfe, 0xc0] 10"
    "\<not> prefixMatches (mapped_bytes b) [0x00, 0x64, 0xff, 0x9b, 0x00, 0x01] 48"
    by (simp_all add: prefixMatches_def mapped_bytes_def js_nth_def mask_byte_def replicate_10 upt_rec
        b Let_def)
  have at: "js_nth (mapped_bytes b) 10 = Some 0xff" "js_nth (mapped_bytes b) 11 = Some 0xff"
    "drop 12 (mapped_bytes b) = b"
    by (simp_all add: mapped_bytes_def js_nth_def nth_append)
  show ?thesis using z p at by (simp add: isBlockedIPv6_def isLocalIPv6_def)
qed

lemma digit_char_facts: "is_digit c \<Longrightarrow> js_lower c = c \<and> \<not> js_space c"
  by (auto simp: is_digit_def js_lower_def js_space_def Let_def)

lemma format_ipv4_chars:
  "c \<in> set (format_ipv4 b) \<Longrightarrow> is_digit c \<or> c = CHR ''.''"
proof (induction b rule: induct_list012)
  case (2 x)
  then show ?case using nat_str_digits by (auto simp: format_ipv4_def)
next
  case (3 x y zs)
  then show ?case using nat_str_digits by (auto simp: format_ipv4_def)
qed (simp add: format_ipv4_def)

lemma dot_facts: "js_lower CHR ''.'' = CHR ''.''" "\<not> js_space CHR ''.''" "js_lower CHR '':'' = CHR '':''"
  "\<not> js_space CHR '':''" "js_lower CHR ''f'' = CHR ''f''" "\<not> is_digit CHR '':''" "\<not> is_digit CHR ''.''"
  by (simp_all add: js)

lemma plain_text:
  assumes "s \<noteq> []" "\<forall>c \<in> set s. js_lower c = c \<and> \<not> js_space c"
  shows "map js_lower (trim s) = s"
proof -
  have "trim s = s" using assms by (intro trim_no_space) auto
  with assms show ?thesis by (simp add: map_idI)
qed

lemma format_ipv4_plain: "\<forall>c \<in> set (format_ipv4 b). js_lower c = c \<and> \<not> js_space c"
  using format_ipv4_chars digit_char_facts dot_facts by blast

lemma format_ipv4_dotted:
  assumes "length b = 4"
  shows "CHR ''.'' \<in> set (format_ipv4 b)" "CHR '':'' \<notin> set (format_ipv4 b)"
proof -
  from assms obtain w x y z where b: "b = [w, x, y, z]"
    by (auto simp: length_Suc_conv eval_nat_numeral)
  then show "CHR ''.'' \<in> set (format_ipv4 b)" by (simp add: format_ipv4_def)
  show "CHR '':'' \<notin> set (format_ipv4 b)" using format_ipv4_chars dot_facts by blast
qed

lemma isBlockedAddress_dotted:
  assumes "length b = 4"
  shows "isBlockedAddress (format_ipv4 b) al = isBlockedIPv4 b al"
proof -
  have "format_ipv4 b \<noteq> []" using format_ipv4_dotted [OF assms] by auto
  then have "map js_lower (trim (format_ipv4 b)) = format_ipv4 b"
    using format_ipv4_plain by (rule plain_text)
  then show ?thesis
    using format_ipv4_dotted [OF assms] assms parseIPv4_format [of "format_ipv4 b" b]
    by (simp add: isBlockedAddress_def parseIp_def)
qed

lemma isBlockedAddress_mapped:
  assumes "length b = 4"
  shows "isBlockedAddress (''::ffff:'' @ format_ipv4 b) al = isBlockedIPv4 b al"
proof -
  have "map js_lower (trim (''::ffff:'' @ format_ipv4 b)) = ''::ffff:'' @ format_ipv4 b"
    using format_ipv4_plain [of b] dot_facts by (intro plain_text) (auto simp: js_space_def)
  then show ?thesis
    using parseIPv6_mapped [OF assms] isBlockedIPv6_mapped [OF assms]
    by (simp add: isBlockedAddress_def parseIp_def)
qed

text \<open>
  C9. Every IPv4 address, written as a dotted quad or mapped into IPv6 as \<open>::ffff:a.b.c.d\<close>, is
  blocked exactly when it lies in one of the special-purpose CIDR blocks the source lists, save
  the local blocks when the local-network opt-in is given.
\<close>

theorem blocked_spellings_agree:
  assumes "length b = 4"
  shows "(isBlockedAddress (format_ipv4 b) al \<longleftrightarrow>
      in_blocks b special_blocks \<and> \<not> (al \<and> in_blocks b local_blocks)) \<and>
    (isBlockedAddress (''::ffff:'' @ format_ipv4 b) al \<longleftrightarrow>
      in_blocks b special_blocks \<and> \<not> (al \<and> in_blocks b local_blocks))"
  using assms by (simp only: isBlockedAddress_dotted isBlockedAddress_mapped isBlockedIPv4_iff_blocks)

lemma blocked_spellings_agree_witness:
  "(isBlockedAddress (format_ipv4 [10, 0, 0, 1]) True \<longleftrightarrow>
      in_blocks [10, 0, 0, 1] special_blocks \<and> \<not> (True \<and> in_blocks [10, 0, 0, 1] local_blocks)) \<and>
    (isBlockedAddress (''::ffff:'' @ format_ipv4 [10, 0, 0, 1]) True \<longleftrightarrow>
      in_blocks [10, 0, 0, 1] special_blocks \<and> \<not> (True \<and> in_blocks [10, 0, 0, 1] local_blocks))"
  by (rule blocked_spellings_agree) simp

text \<open>The IPv6 bytes that carry an IPv4 address the opt-in may admit.\<close>

definition optin_admits_v6 :: "u8 list \<Rightarrow> bool" where
  "optin_admits_v6 bytes \<longleftrightarrow> isLocalIPv6 bytes \<or> isLocalIPv4 (drop 12 bytes) \<or>
     isLocalIPv4 (slice bytes 2 6)"

lemma if_mono: "(x \<longrightarrow> x') \<Longrightarrow> (y \<longrightarrow> y') \<Longrightarrow> (if a then x else y) \<longrightarrow> (if a then x' else y')"
  by simp

lemma if_diff:
  "(x \<and> \<not> x' \<longrightarrow> r) \<Longrightarrow> (y \<and> \<not> y' \<longrightarrow> r) \<Longrightarrow>
   (if a then x else y) \<and> \<not> (if a then x' else y') \<longrightarrow> r"
  by simp

lemma isBlockedIPv6_optin:
  shows isBlockedIPv6_mono: "isBlockedIPv6 bytes True \<longrightarrow> isBlockedIPv6 bytes False"
    and isBlockedIPv6_diff:
      "isBlockedIPv6 bytes False \<and> \<not> isBlockedIPv6 bytes True \<longrightarrow> optin_admits_v6 bytes"
proof -
  have v4: "isBlockedIPv4 b True \<longrightarrow> isBlockedIPv4 b False"
    "isBlockedIPv4 b False \<and> \<not> isBlockedIPv4 b True \<longrightarrow> isLocalIPv4 b" for b
    using isBlockedIPv4_optin [of b True] by auto
  show "isBlockedIPv6 bytes True \<longrightarrow> isBlockedIPv6 bytes False"
  proof (cases "isLocalIPv6 bytes")
    case False
    then have e: "isLocalIPv6 bytes = False" by simp
    show ?thesis
      unfolding isBlockedIPv6_def e simp_thms if_False by (rule if_mono v4(1) | simp)+
  qed (simp add: isBlockedIPv6_def)
  show "isBlockedIPv6 bytes False \<and> \<not> isBlockedIPv6 bytes True \<longrightarrow> optin_admits_v6 bytes"
  proof (cases "isLocalIPv6 bytes")
    case False
    have l: "isBlockedIPv4 (drop 12 bytes) False \<and> \<not> isBlockedIPv4 (drop 12 bytes) True \<longrightarrow> optin_admits_v6 bytes"
      "isBlockedIPv4 (slice bytes 2 6) False \<and> \<not> isBlockedIPv4 (slice bytes 2 6) True \<longrightarrow> optin_admits_v6 bytes"
      using v4(2) by (auto simp: optin_admits_v6_def)
    have e: "isLocalIPv6 bytes = False" using False by simp
    have p: "prefixMatches bytes [0x00, 0x64, 0xff, 0x9b, 0x00, 0x01] 48 = False"
      using False by (simp add: isLocalIPv6_def split: if_splits)
    show ?thesis
      unfolding isBlockedIPv6_def e p simp_thms if_False
      by (rule if_diff l | simp)+
  qed (simp add: optin_admits_v6_def)
qed



end
