(* ===== verification/Patch_Engine.thy ===== *)
theory Patch_Engine
  imports Prelude
begin

text \<open>
  The V4A diff engine of the ApplyPatch tool, \<open>src/src/apply-patch/engine.ts\<close>: a headerless
  update diff is parsed into chunks against the lines of the input (anchors move a cursor,
  context lines are located exactly, then up to trailing and then surrounding white space),
  and the chunks are applied in order.

  Every \<open>throw\<close> is a constructor of \<open>patch_error\<close>.  The parser keeps the index into the
  diff lines, as the code does; its loops end because that index grows.
\<close>

datatype patch_error =
    InvalidLine "string option"
  | InvalidAnchor nat string
  | InvalidEofContext nat string
  | InvalidContext nat string
  | NothingInSection nat "string option"
  | ChunkBeyondInput nat nat
  | OverlappingChunk nat nat

record chunk =
  origIndex :: nat
  delLines :: "string list"
  insLines :: "string list"

record parser_state =
  lines :: "string list"
  index :: nat
  fuzz :: nat

datatype line_mode = KeepMode | AddMode | DeleteMode

definition END_PATCH :: string where [js]: "END_PATCH = ''*** End Patch''"
definition END_FILE :: string where [js]: "END_FILE = ''*** End of File''"

definition END_SECTION_MARKERS :: "string list" where
  [js]: "END_SECTION_MARKERS =
     [END_PATCH, ''*** Update File:'', ''*** Delete File:'', ''*** Add File:'', END_FILE]"

subsection \<open>Reading the diff\<close>

definition normalizeDiffLines :: "string \<Rightarrow> string list" where
  "normalizeDiffLines diff =
     (let ls = map chop_cr (split_lines diff) in
      if last ls = [] then butlast ls else ls)"

definition isDone :: "parser_state \<Rightarrow> string list \<Rightarrow> bool" where
  "isDone st pres =
     (if index st \<ge> length (lines st) then True
      else list_ex (starts_with (lines st ! index st)) pres)"

definition readStr :: "parser_state \<Rightarrow> string \<Rightarrow> string \<times> parser_state" where
  "readStr st pre =
     (case js_nth (lines st) (index st) of
        Some current \<Rightarrow>
          (if starts_with current pre
           then (drop (length pre) current, st\<lparr>index := Suc (index st)\<rparr>)
           else ([], st))
      | None \<Rightarrow> ([], st))"

lemma readStr_lines [simp]: "lines (snd (readStr st pre)) = lines st"
  by (auto simp: readStr_def split: option.splits)

lemma readStr_fuzz [simp]: "fuzz (snd (readStr st pre)) = fuzz st"
  by (auto simp: readStr_def split: option.splits)

lemma readStr_index:
  "index (snd (readStr st pre)) = index st \<or>
   index st < length (lines st) \<and> index (snd (readStr st pre)) = Suc (index st)"
  by (auto simp: readStr_def js_nth_def split: option.splits)

text \<open>
  One turn of the anchor loop, \<open>None\<close> when nothing is consumed; then the anchors before a
  section: the parser state after them, the anchor texts and their number (a bare \<open>@@\<close>
  counts and names no text).
\<close>

definition readAnchor :: "parser_state \<Rightarrow> (string \<times> parser_state) option" where
  "readAnchor st =
     (let (anchor, st1) = readStr st ''@@ '' in
      if index st1 \<noteq> index st then Some (anchor, st1)
      else if js_nth (lines st1) (index st1) = Some ''@@''
           then Some (anchor, st1\<lparr>index := Suc (index st1)\<rparr>)
      else None)"

lemma readAnchor_Some:
  assumes "readAnchor st = Some (a, st')"
  shows "index st < length (lines st) \<and> index st' = Suc (index st) \<and> lines st' = lines st \<and>
    fuzz st' = fuzz st"
  using assms by (auto simp: readAnchor_def readStr_def Let_def js_nth_Some_iff js_nth_def
      split: if_splits option.splits)

function readAnchors :: "parser_state \<Rightarrow> string list \<Rightarrow> nat \<Rightarrow> parser_state \<times> string list \<times> nat" where
  "readAnchors st anchors anchorCount =
     (case readAnchor st of
        None \<Rightarrow> (st, anchors, anchorCount)
      | Some (anchor, st') \<Rightarrow>
          readAnchors st' (if trim anchor \<noteq> [] then anchors @ [anchor] else anchors)
            (Suc anchorCount))"
  by pat_completeness auto
termination
  by (relation "measure (\<lambda>(st, a, n). length (lines st) - index st)")
     (auto dest: readAnchor_Some)

declare readAnchors.simps [simp del]

subsection \<open>Moving the cursor\<close>

definition advanceCursorToAnchor ::
  "string \<Rightarrow> string list \<Rightarrow> nat \<Rightarrow> nat \<Rightarrow> bool \<Rightarrow> bool \<Rightarrow> patch_error + (nat \<times> nat)" where
  "advanceCursorToAnchor anchor inputLines cursor fz requireMatch forceForwardSearch =
     (let n = length inputLines;
          exactBefore = (\<not> forceForwardSearch \<and> list_ex (\<lambda>l. l = anchor) (take cursor inputLines)) in
      if exactBefore then Inr (cursor, fz)
      else case find_from (\<lambda>i. inputLines ! i = anchor) cursor n of
          Some i \<Rightarrow> Inr (Suc i, fz)
        | None \<Rightarrow>
            (if \<not> forceForwardSearch \<and>
                list_ex (\<lambda>l. trim l = trim anchor) (take cursor inputLines)
             then Inr (cursor, fz)
             else case find_from (\<lambda>i. trim (inputLines ! i) = trim anchor) cursor n of
                 Some i \<Rightarrow> Inr (Suc i, Suc fz)
               | None \<Rightarrow>
                   (if requireMatch then Inl (InvalidAnchor cursor anchor) else Inr (cursor, fz))))"

subsection \<open>Reading a section\<close>

record section_state =
  ctxt :: "string list"
  dels :: "string list"
  inss :: "string list"
  chunks :: "chunk list"
  mode :: line_mode

definition flush_chunk :: "section_state \<Rightarrow> section_state" where
  "flush_chunk s =
     (if inss s \<noteq> [] \<or> dels s \<noteq> []
      then s\<lparr>chunks := chunks s @ [\<lparr>origIndex = length (ctxt s) - length (dels s),
                                     delLines = dels s, insLines = inss s\<rparr>],
             dels := [], inss := []\<rparr>
      else s)"

definition section_stop :: "string \<Rightarrow> bool" where
  "section_stop raw \<longleftrightarrow>
     starts_with raw ''@@'' \<or> starts_with raw END_PATCH \<or> starts_with raw ''*** Update File:'' \<or>
     starts_with raw ''*** Delete File:'' \<or> starts_with raw ''*** Add File:'' \<or>
     starts_with raw END_FILE"

definition line_mode_of :: "string \<Rightarrow> line_mode option" where
  "line_mode_of line =
     (if js_nth line 0 = Some CHR ''+'' then Some AddMode
      else if js_nth line 0 = Some CHR ''-'' then Some DeleteMode
      else if js_nth line 0 = Some CHR '' '' then Some KeepMode
      else None)"

definition section_line :: "section_state \<Rightarrow> string \<Rightarrow> patch_error + section_state" where
  "section_line s raw =
     (let lastMode = mode s; line = (if raw = [] then '' '' else raw) in
      case line_mode_of line of
        None \<Rightarrow> Inl (InvalidLine (Some line))
      | Some m \<Rightarrow>
          (let text = drop 1 line;
               s1 = (if m = KeepMode \<and> lastMode \<noteq> m then flush_chunk (s\<lparr>mode := m\<rparr>)
                     else s\<lparr>mode := m\<rparr>) in
           case m of
             DeleteMode \<Rightarrow> Inr (s1\<lparr>dels := dels s1 @ [text], ctxt := ctxt s1 @ [text]\<rparr>)
           | AddMode \<Rightarrow> Inr (s1\<lparr>inss := inss s1 @ [text]\<rparr>)
           | KeepMode \<Rightarrow> Inr (s1\<lparr>ctxt := ctxt s1 @ [text]\<rparr>)))"

function section_loop ::
  "string list \<Rightarrow> nat \<Rightarrow> section_state \<Rightarrow> patch_error + (section_state \<times> nat)" where
  "section_loop ls i s =
     (if i < length ls then
        (let raw = ls ! i in
         if section_stop raw then Inr (s, i)
         else if raw = ''***'' then Inr (s, i)
         else if starts_with raw ''***'' then Inl (InvalidLine (Some raw))
         else case section_line s raw of
             Inl e \<Rightarrow> Inl e
           | Inr s' \<Rightarrow> section_loop ls (Suc i) s')
      else Inr (s, i))"
  by pat_completeness auto
termination
  by (relation "measure (\<lambda>(ls, i, s). length ls - i)") auto

declare section_loop.simps [simp del]

definition section_init :: section_state where
  "section_init = \<lparr>ctxt = [], dels = [], inss = [], chunks = [], mode = KeepMode\<rparr>"

definition readSection ::
  "string list \<Rightarrow> nat \<Rightarrow> patch_error + (string list \<times> chunk list \<times> nat \<times> bool)" where
  "readSection ls startIndex =
     (case section_loop ls startIndex section_init of
        Inl e \<Rightarrow> Inl e
      | Inr (s, i) \<Rightarrow>
          (let s' = flush_chunk s in
           if js_nth ls i = Some END_FILE then Inr (ctxt s', chunks s', Suc i, True)
           else if i = startIndex then Inl (NothingInSection i (js_nth ls i))
           else Inr (ctxt s', chunks s', i, False)))"

subsection \<open>Locating a context\<close>

definition equalsSlice :: "string list \<Rightarrow> string list \<Rightarrow> nat \<Rightarrow> (string \<Rightarrow> string) \<Rightarrow> bool" where
  "equalsSlice source target start mapFn =
     (if start + length target > length source then False
      else list_all (\<lambda>i. mapFn (source ! (start + i)) = mapFn (target ! i)) [0..<length target])"

definition findContextCore ::
  "string list \<Rightarrow> string list \<Rightarrow> nat \<Rightarrow> (nat \<times> nat) option" where
  "findContextCore ls ctx start =
     (if ctx = [] then Some (start, 0)
      else case find_from (\<lambda>i. equalsSlice ls ctx i id) start (length ls) of
          Some i \<Rightarrow> Some (i, 0)
        | None \<Rightarrow>
            (case find_from (\<lambda>i. equalsSlice ls ctx i trim_end) start (length ls) of
               Some i \<Rightarrow> Some (i, 1)
             | None \<Rightarrow>
                 (case find_from (\<lambda>i. equalsSlice ls ctx i trim) start (length ls) of
                    Some i \<Rightarrow> Some (i, 100)
                  | None \<Rightarrow> None)))"

definition findContext ::
  "string list \<Rightarrow> string list \<Rightarrow> nat \<Rightarrow> bool \<Rightarrow> (nat \<times> nat) option" where
  "findContext ls ctx start eof =
     (if eof then
        (let searchLines = (if length ls > 1 \<and> last ls = [] then butlast ls else ls);
             endStart = length searchLines - length ctx in
         case findContextCore searchLines ctx endStart of
           Some r \<Rightarrow> Some r
         | None \<Rightarrow>
             map_option (\<lambda>(i, f). (i, f + 10000))
               (findContextCore searchLines ctx (min start (length searchLines))))
      else findContextCore ls ctx start)"

subsection \<open>Parsing and applying\<close>

fun advanceAll ::
  "string list \<Rightarrow> nat \<Rightarrow> string list \<Rightarrow> nat \<Rightarrow> nat \<Rightarrow> bool \<Rightarrow> patch_error + (nat \<times> nat)" where
  "advanceAll [] k inputLines cursor fz req = Inr (cursor, fz)"
| "advanceAll (a # rest) k inputLines cursor fz req =
     (case advanceCursorToAnchor a inputLines cursor fz req (k > 0) of
        Inl e \<Rightarrow> Inl e
      | Inr (cursor', fz') \<Rightarrow> advanceAll rest (Suc k) inputLines cursor' fz' req)"

definition shift_chunk :: "nat \<Rightarrow> chunk \<Rightarrow> chunk" where
  "shift_chunk n ch = ch\<lparr>origIndex := origIndex ch + n\<rparr>"

text \<open>One iteration of the section loop: the next parser state, chunks and cursor.\<close>

definition parse_step ::
  "string list \<Rightarrow> parser_state \<Rightarrow> chunk list \<Rightarrow> nat \<Rightarrow>
     patch_error + (parser_state \<times> chunk list \<times> nat)" where
  "parse_step inputLines st cs cursor =
     (let (st1, anchors, anchorCount) = readAnchors st [] 0 in
      if \<not> (anchorCount > 0 \<or> cursor = 0) then Inl (InvalidLine (js_nth (lines st1) (index st1)))
      else case advanceAll anchors 0 inputLines cursor (fuzz st1) (anchorCount > 1) of
          Inl e \<Rightarrow> Inl e
        | Inr (cursor1, fz1) \<Rightarrow>
            (case readSection (lines st1) (index st1) of
               Inl e \<Rightarrow> Inl e
             | Inr (nextContext, sectionChunks, endIndex, eof) \<Rightarrow>
                 (case findContext inputLines nextContext cursor1 eof of
                    None \<Rightarrow>
                      (if eof then Inl (InvalidEofContext cursor1 (join [LF] nextContext))
                       else Inl (InvalidContext cursor1 (join [LF] nextContext)))
                  | Some (newIndex, fz2) \<Rightarrow>
                      Inr (st1\<lparr>fuzz := fz1 + fz2, index := endIndex\<rparr>,
                           cs @ map (shift_chunk newIndex) sectionChunks,
                           newIndex + length nextContext))))"

lemma readAnchors_facts:
  "lines (fst (readAnchors st acc n)) = lines st \<and> index st \<le> index (fst (readAnchors st acc n)) \<and>
   (index st \<le> length (lines st) \<longrightarrow> index (fst (readAnchors st acc n)) \<le> length (lines st))"
proof (induction st acc n rule: readAnchors.induct)
  case (1 st anchors anchorCount)
  show ?case
  proof (cases "readAnchor st")
    case None
    then show ?thesis by (simp add: readAnchors.simps [of st])
  next
    case (Some r)
    obtain a st' where r: "r = (a, st')" by (cases r)
    show ?thesis
      using 1 [OF Some r [symmetric]] readAnchor_Some [OF Some [unfolded r]] Some r
      by (auto simp: readAnchors.simps [of st])
  qed
qed

lemma section_loop_index:
  "section_loop ls i s = Inr (s', j) \<Longrightarrow> i \<le> j"
  by (induction ls i s rule: section_loop.induct)
     (subst (asm) section_loop.simps, fastforce simp: Let_def split: if_splits sum.splits)

lemma readSection_index:
  "readSection ls i = Inr (c, cs, e, eof) \<Longrightarrow> i < e"
  using section_loop_index [of ls i section_init]
  by (fastforce simp: readSection_def Let_def split: sum.splits prod.splits if_splits)

lemma parse_step_index:
  assumes "parse_step inputLines st cs cursor = Inr (st', cs', cursor')"
  shows "lines st' = lines st \<and> index st < index st'"
  using assms readAnchors_facts [of st "[]" 0]
  by (auto simp: parse_step_def Let_def split: prod.splits sum.splits option.splits if_splits
      dest!: readSection_index)

function parse_loop ::
  "string list \<Rightarrow> parser_state \<Rightarrow> chunk list \<Rightarrow> nat \<Rightarrow> patch_error + (chunk list \<times> nat)" where
  "parse_loop inputLines st cs cursor =
     (if isDone st END_SECTION_MARKERS then Inr (cs, fuzz st)
      else case parse_step inputLines st cs cursor of
          Inl e \<Rightarrow> Inl e
        | Inr (st', cs', cursor') \<Rightarrow> parse_loop inputLines st' cs' cursor')"
  by pat_completeness auto
termination
proof (relation "measure (\<lambda>(inp, st, cs, c). length (lines st) - index st)", goal_cases)
  case (2 inp st cs c r st' y cs' c')
  then have "lines st' = lines st" "index st < index st'" by (auto dest!: parse_step_index)
  with 2 show ?case by (auto simp: isDone_def split: if_splits)
qed simp

declare parse_loop.simps [simp del]

definition parseUpdateDiff :: "string list \<Rightarrow> string \<Rightarrow> patch_error + (chunk list \<times> nat)" where
  "parseUpdateDiff ls input =
     parse_loop (split_on LF input) \<lparr>lines = ls @ [END_PATCH], index = 0, fuzz = 0\<rparr> [] 0"

fun applyChunks_loop ::
  "string list \<Rightarrow> nat \<Rightarrow> string list \<Rightarrow> chunk list \<Rightarrow> patch_error + (nat \<times> string list)" where
  "applyChunks_loop origLines i destLines [] = Inr (i, destLines)"
| "applyChunks_loop origLines i destLines (ch # chs) =
     (if origIndex ch > length origLines then
        Inl (ChunkBeyondInput (origIndex ch) (length origLines))
      else if i > origIndex ch then Inl (OverlappingChunk (origIndex ch) i)
      else applyChunks_loop origLines (origIndex ch + length (delLines ch))
             (destLines @ slice origLines i (origIndex ch) @ insLines ch) chs)"

definition applyChunks :: "string \<Rightarrow> chunk list \<Rightarrow> patch_error + string" where
  "applyChunks input chs =
     (let origLines = split_on LF input in
      case applyChunks_loop origLines 0 [] chs of
        Inl e \<Rightarrow> Inl e
      | Inr (i, destLines) \<Rightarrow> Inr (join [LF] (destLines @ drop i origLines)))"

definition applyDiff :: "string \<Rightarrow> string \<Rightarrow> patch_error + string" where
  "applyDiff input diff =
     (case parseUpdateDiff (normalizeDiffLines diff) input of
        Inl e \<Rightarrow> Inl e
      | Inr (chs, _) \<Rightarrow> applyChunks input chs)"

end
