(* ===== verification/Patch_Engine_Spec.thy ===== *)
theory Patch_Engine_Spec
  imports Patch_Engine
begin

text \<open>
  What the V4A engine promises.  A parsed chunk names a range of input lines equal, up to
  surrounding white space, to the lines the diff deletes; a successful application replaces
  exactly those ranges, and what it inserts and deletes are exactly the \<open>+\<close> and \<open>-\<close> lines
  of the diff, in order.
\<close>

subsection \<open>Chunks that fit their text\<close>

definition chunk_at :: "(string \<Rightarrow> string) \<Rightarrow> string list \<Rightarrow> chunk \<Rightarrow> bool" where
  "chunk_at f xs ch \<longleftrightarrow>
     origIndex ch + length (delLines ch) \<le> length xs \<and>
     map f (take (length (delLines ch)) (drop (origIndex ch) xs)) = map f (delLines ch)"

text \<open>The chunks lie in order between positions \<open>i\<close> and \<open>e\<close> of the text.\<close>

fun fits :: "(string \<Rightarrow> string) \<Rightarrow> string list \<Rightarrow> nat \<Rightarrow> chunk list \<Rightarrow> nat \<Rightarrow> bool" where
  "fits f xs i [] e \<longleftrightarrow> i \<le> e"
| "fits f xs i (ch # chs) e \<longleftrightarrow>
     i \<le> origIndex ch \<and> chunk_at f xs ch \<and> fits f xs (origIndex ch + length (delLines ch)) chs e"

lemma fits_append: "fits f xs i (a @ b) e \<longleftrightarrow> (\<exists>m. fits f xs i a m \<and> fits f xs m b e)"
proof (induction a arbitrary: i)
  case Nil
  have "i \<le> m \<Longrightarrow> fits f xs m b e \<Longrightarrow> fits f xs i b e" for m
    by (cases b) auto
  then show ?case by auto
qed auto

lemma fits_weaken: "fits f xs i a e \<Longrightarrow> e \<le> e' \<Longrightarrow> fits f xs i a e'"
  by (induction a arbitrary: i) auto

lemma fits_start_mono: "fits f xs i a e \<Longrightarrow> j \<le> i \<Longrightarrow> fits f xs j a e"
  by (cases a) auto

lemma fits_mono: "fits f xs i a e \<Longrightarrow> i \<le> e"
  by (induction a arbitrary: i) fastforce+

lemma chunk_at_extend: "chunk_at f xs ch \<Longrightarrow> chunk_at f (xs @ ys) ch"
  by (auto simp: chunk_at_def)

lemma fits_extend: "fits f xs i a e \<Longrightarrow> fits f (xs @ ys) i a e"
  by (induction a arbitrary: i) (auto intro: chunk_at_extend)

lemma fits_extend_weaken: "fits f xs i a e \<Longrightarrow> e \<le> e' \<Longrightarrow> fits f (xs @ ys) i a e'"
  by (auto intro: fits_extend fits_weaken)

lemma fits_chunk_at: "fits f xs i a e \<Longrightarrow> list_all (chunk_at f xs) a"
  by (induction a arbitrary: i) auto

lemma chunk_at_shift:
  assumes "chunk_at (\<lambda>l. l) ctx ch"
    and "map trim (take (length ctx) (drop n xs)) = map trim ctx"
    and "n + length ctx \<le> length xs"
  shows "chunk_at trim xs (shift_chunk n ch)"
proof -
  let ?o = "origIndex ch" and ?d = "delLines ch"
  have le: "?o + length ?d \<le> length ctx" and d: "take (length ?d) (drop ?o ctx) = ?d"
    using assms(1) by (auto simp: chunk_at_def)
  have k: "min (length ?d) (length ctx - ?o) = length ?d" using le by simp
  have "map trim (take (length ?d) (drop (?o + n) xs)) =
      take (length ?d) (drop ?o (take (length ctx) (map trim (drop n xs))))"
    by (simp only: drop_take take_take k drop_map take_map drop_drop)
  also have "take (length ctx) (map trim (drop n xs)) = map trim ctx"
    using assms(2) by (simp only: take_map)
  also have "take (length ?d) (drop ?o (map trim ctx)) = map trim ?d"
    by (simp only: drop_map take_map d)
  finally show ?thesis using le assms(3) by (simp add: chunk_at_def shift_chunk_def)
qed

lemma fits_shift:
  assumes "map trim (take (length ctx) (drop n xs)) = map trim ctx"
    and "n + length ctx \<le> length xs"
  shows "fits (\<lambda>l. l) ctx i a e \<Longrightarrow> fits trim xs (i + n) (map (shift_chunk n) a) (e + n)"
proof (induction a arbitrary: i)
  case (Cons ch a)
  then show ?case
    using chunk_at_shift [OF _ assms, of ch] Cons.IH [of "origIndex ch + length (delLines ch)"]
    by (auto simp: shift_chunk_def ac_simps)
qed simp

subsection \<open>What a section holds\<close>

definition added :: "string list \<Rightarrow> string list" where
  "added ls = map (drop 1) (filter (\<lambda>l. starts_with l ''+'') ls)"

definition removed :: "string list \<Rightarrow> string list" where
  "removed ls = map (drop 1) (filter (\<lambda>l. starts_with l ''-'') ls)"

lemma added_append [simp]: "added (xs @ ys) = added xs @ added ys"
  by (simp add: added_def)

lemma removed_append [simp]: "removed (xs @ ys) = removed xs @ removed ys"
  by (simp add: removed_def)

lemma added_Nil [simp]: "added [] = []" by (simp add: added_def)
lemma removed_Nil [simp]: "removed [] = []" by (simp add: removed_def)

definition sec_inv :: "section_state \<Rightarrow> bool" where
  "sec_inv s \<longleftrightarrow>
     length (dels s) \<le> length (ctxt s) \<and>
     drop (length (ctxt s) - length (dels s)) (ctxt s) = dels s \<and>
     fits (\<lambda>l. l) (ctxt s) 0 (chunks s) (length (ctxt s) - length (dels s)) \<and>
     (mode s = KeepMode \<longrightarrow> dels s = [] \<and> inss s = [])"

definition sec_added :: "section_state \<Rightarrow> string list" where
  "sec_added s = concat (map insLines (chunks s)) @ inss s"

definition sec_removed :: "section_state \<Rightarrow> string list" where
  "sec_removed s = concat (map delLines (chunks s)) @ dels s"

lemma sec_inv_init [simp]: "sec_inv section_init"
  by (simp add: sec_inv_def section_init_def)

lemma sec_content_init [simp]: "sec_added section_init = []" "sec_removed section_init = []"
  by (simp_all add: sec_added_def sec_removed_def section_init_def)

lemma flush_chunk_content [simp]:
  "sec_added (flush_chunk s) = sec_added s" "sec_removed (flush_chunk s) = sec_removed s"
  by (auto simp: flush_chunk_def sec_added_def sec_removed_def)

lemma flush_chunk_fields [simp]:
  "ctxt (flush_chunk s) = ctxt s" "mode (flush_chunk s) = mode s"
  "inss (flush_chunk s) = []" "dels (flush_chunk s) = []"
  by (auto simp: flush_chunk_def)

lemma flush_chunk_fits:
  assumes "length (dels s) \<le> length (ctxt s)"
    and "drop (length (ctxt s) - length (dels s)) (ctxt s) = dels s"
    and "fits (\<lambda>l. l) (ctxt s) 0 (chunks s) (length (ctxt s) - length (dels s))"
  shows "fits (\<lambda>l. l) (ctxt s) 0 (chunks (flush_chunk s)) (length (ctxt s))"
  using assms
  by (auto simp: flush_chunk_def fits_append chunk_at_def intro: fits_weaken [OF assms(3)])

lemma flush_chunk_inv: "sec_inv s \<Longrightarrow> sec_inv (flush_chunk s)"
  using flush_chunk_fits [of s] by (simp add: sec_inv_def)

lemma flush_mode_inv:
  assumes "sec_inv s"
  shows "sec_inv (flush_chunk (s\<lparr>mode := m\<rparr>))"
proof -
  have "chunks (flush_chunk (s\<lparr>mode := m\<rparr>)) = chunks (flush_chunk s)"
    by (simp add: flush_chunk_def)
  then show ?thesis using assms flush_chunk_fits [of s] by (simp add: sec_inv_def)
qed


lemma line_mode_of_cases:
  assumes "line_mode_of line = Some m"
  shows "\<exists>c r. line = c # r \<and>
     (case m of AddMode \<Rightarrow> c = CHR ''+'' | DeleteMode \<Rightarrow> c = CHR ''-'' | KeepMode \<Rightarrow> c = CHR '' '')"
  using assms by (cases line) (auto simp: line_mode_of_def split: if_splits)

lemma section_line_inv:
  assumes "section_line s raw = Inr s'" and "sec_inv s"
  shows "sec_inv s'"
proof -
  let ?line = "if raw = [] then '' '' else raw"
  obtain m where m: "line_mode_of ?line = Some m"
    using assms(1) by (auto simp: section_line_def Let_def split: option.splits)
  show ?thesis
  proof (cases m)
    case KeepMode
    let ?s1 = "if mode s \<noteq> KeepMode then flush_chunk (s\<lparr>mode := KeepMode\<rparr>) else s\<lparr>mode := KeepMode\<rparr>"
    have inv1: "sec_inv ?s1" "dels ?s1 = []" "inss ?s1 = []" "mode ?s1 = KeepMode"
      using flush_mode_inv [OF assms(2)] assms(2) by (auto simp: sec_inv_def)
    have "s' = ?s1\<lparr>ctxt := ctxt ?s1 @ [drop 1 ?line]\<rparr>"
      using assms(1) m KeepMode by (simp add: section_line_def Let_def)
    with inv1 show ?thesis
      by (auto simp: sec_inv_def intro: fits_extend_weaken)
  qed (use assms m in \<open>auto simp: section_line_def Let_def sec_inv_def intro: fits_extend\<close>)
qed

lemma section_line_content:
  assumes "section_line s raw = Inr s'"
  shows "sec_added s' = sec_added s @ added [raw] \<and> sec_removed s' = sec_removed s @ removed [raw]"
proof -
  let ?line = "if raw = [] then '' '' else raw"
  obtain m where m: "line_mode_of ?line = Some m"
    using assms(1) by (auto simp: section_line_def Let_def split: option.splits)
  have flush: "sec_added (flush_chunk (s\<lparr>mode := k\<rparr>)) = sec_added s"
    "sec_removed (flush_chunk (s\<lparr>mode := k\<rparr>)) = sec_removed s" for k
    by (auto simp: flush_chunk_def sec_added_def sec_removed_def)
  show ?thesis
    using line_mode_of_cases [OF m] assms m flush [of KeepMode]
    by (cases m) (auto simp: section_line_def Let_def sec_added_def sec_removed_def added_def
        removed_def split: if_splits)
qed

lemma section_loop_spec:
  "section_loop ls i s = Inr (s', j) \<Longrightarrow> sec_inv s \<Longrightarrow> i \<le> length ls \<Longrightarrow>
     sec_inv s' \<and> i \<le> j \<and> j \<le> length ls \<and>
     sec_added s' = sec_added s @ added (slice ls i j) \<and>
     sec_removed s' = sec_removed s @ removed (slice ls i j)"
proof (induction ls i s rule: section_loop.induct)
  case (1 ls i s)
  show ?case
  proof (cases "i < length ls \<and> \<not> section_stop (ls ! i) \<and> ls ! i \<noteq> ''***''")
    case True
    with 1(2) obtain s1 where s1: "section_line s (ls ! i) = Inr s1"
        "\<not> starts_with (ls ! i) ''***''" and rest: "section_loop ls (Suc i) s1 = Inr (s', j)"
      by (subst (asm) section_loop.simps) (auto simp: Let_def split: if_splits sum.splits)
    have IH: "sec_inv s' \<and> Suc i \<le> j \<and> j \<le> length ls \<and>
        sec_added s' = sec_added s1 @ added (slice ls (Suc i) j) \<and>
        sec_removed s' = sec_removed s1 @ removed (slice ls (Suc i) j)"
      using 1(1) [of "ls ! i" s1] True s1 rest 1(3) section_line_inv [OF s1(1) 1(3)] by auto
    have sl: "slice ls i j = [ls ! i] @ slice ls (Suc i) j"
      using slice_append_slice [of i "Suc i" j ls] IH True
      by (simp add: slice_def take_Suc_conv_app_nth Cons_nth_drop_Suc [symmetric])
    show ?thesis using IH section_line_content [OF s1(1)]
      unfolding sl added_append removed_append by simp
  next
    case False
    then have "s' = s \<and> j = i"
      using 1(2) by (subst (asm) section_loop.simps) (auto simp: Let_def split: if_splits)
    then show ?thesis using 1(3,4) by (simp add: slice_def)
  qed
qed

lemma no_op_line [simp]:
  "starts_with l ''@@'' \<Longrightarrow> added [l] = [] \<and> removed [l] = []"
  by (cases l) (auto simp: added_def removed_def)

lemma readSection_spec:
  assumes "readSection ls i = Inr (ctx, cs, e, eof)" and "i \<le> length ls"
  shows "fits (\<lambda>l. l) ctx 0 cs (length ctx) \<and> i < e \<and> e \<le> length ls \<and>
     concat (map insLines cs) = added (slice ls i e) \<and>
     concat (map delLines cs) = removed (slice ls i e) \<and>
     (eof \<longrightarrow> END_FILE \<in> set ls)"
proof -
  obtain s j where loop: "section_loop ls i section_init = Inr (s, j)"
    using assms(1) by (auto simp: readSection_def split: sum.splits)
  let ?t = "flush_chunk s"
  have spec: "sec_inv s" "i \<le> j" "j \<le> length ls" "sec_added s = added (slice ls i j)"
      "sec_removed s = removed (slice ls i j)"
    using section_loop_spec [OF loop _ assms(2)] by auto
  have fit: "fits (\<lambda>l. l) (ctxt ?t) 0 (chunks ?t) (length (ctxt ?t))"
    using flush_chunk_fits [of s] spec(1) by (simp add: sec_inv_def)
  have content: "concat (map insLines (chunks ?t)) = added (slice ls i j)"
      "concat (map delLines (chunks ?t)) = removed (slice ls i j)"
    using spec(4,5) flush_chunk_content [of s] unfolding sec_added_def sec_removed_def by auto
  show ?thesis
  proof (cases "js_nth ls j = Some END_FILE")
    case True
    then have j: "j < length ls" "ls ! j = END_FILE" by (auto simp: js_nth_Some_iff)
    have "slice ls i (Suc j) = slice ls i j @ [END_FILE]"
      using slice_append_slice [of i j "Suc j" ls] spec(2) j
      by (simp add: slice_def Cons_nth_drop_Suc [symmetric] take_Suc_conv_app_nth)
    moreover have "added [END_FILE] = []" "removed [END_FILE] = []"
      by (simp_all add: added_def removed_def END_FILE_def)
    ultimately show ?thesis
      using assms(1) loop True fit content spec(2) j
      by (auto simp: readSection_def Let_def in_set_conv_nth)
  next
    case False
    then show ?thesis
      using assms(1) loop fit content spec(2,3)
      by (auto simp: readSection_def Let_def split: if_splits)
  qed
qed

subsection \<open>Where a context is found\<close>

lemma equalsSlice_trim:
  assumes "equalsSlice src tgt start f" and "\<And>a b. f a = f b \<Longrightarrow> trim a = trim b"
  shows "start + length tgt \<le> length src \<and>
     map trim (take (length tgt) (drop start src)) = map trim tgt"
proof -
  have le: "start + length tgt \<le> length src"
    and eq: "\<And>i. i < length tgt \<Longrightarrow> f (src ! (start + i)) = f (tgt ! i)"
    using assms(1) by (auto simp: equalsSlice_def list_all_iff split: if_splits)
  have "map trim (take (length tgt) (drop start src)) = map trim tgt"
  proof (rule nth_equalityI)
    fix i assume "i < length (map trim (take (length tgt) (drop start src)))"
    with le have "i < length tgt" "start + i < length src" by auto
    then show "map trim (take (length tgt) (drop start src)) ! i = map trim tgt ! i"
      using assms(2) [OF eq [of i]] by simp
  qed (use le in simp)
  with le show ?thesis by simp
qed

lemma trim_end_eq_trim: "trim_end a = trim_end b \<Longrightarrow> trim a = trim b"
  by (metis trim_trim_end)

lemma findContextCore_spec:
  assumes "findContextCore ls ctx start = Some (n, f)" and "start \<le> length ls"
  shows "start \<le> n \<and> n + length ctx \<le> length ls \<and>
     map trim (take (length ctx) (drop n ls)) = map trim ctx"
proof -
  note D = find_from_SomeD
  consider "ctx = []" "n = start" | "start \<le> n" "equalsSlice ls ctx n id" |
      "start \<le> n" "equalsSlice ls ctx n trim_end" | "start \<le> n" "equalsSlice ls ctx n trim"
    using assms(1) by (auto simp: findContextCore_def split: if_splits option.splits dest!: D)
  then show ?thesis
  proof cases
    case 2
    then show ?thesis using equalsSlice_trim [OF 2(2)] by simp
  next
    case 3
    then show ?thesis using equalsSlice_trim [OF 3(2)] trim_end_eq_trim by blast
  next
    case 4
    then show ?thesis using equalsSlice_trim [OF 4(2)] by simp
  qed (use assms(2) in simp)
qed

lemma findContext_eof:
  assumes "findContext ls ctx start True = Some (n, f)"
  defines "sl \<equiv> if length ls > 1 \<and> last ls = [] then butlast ls else ls"
  shows "\<exists>st f'. findContextCore sl ctx st = Some (n, f') \<and> st \<le> length sl"
proof -
  let ?e = "length sl - length ctx" and ?m = "min start (length sl)"
  have "findContext ls ctx start True = (case findContextCore sl ctx ?e of Some r \<Rightarrow> Some r
     | None \<Rightarrow> map_option (\<lambda>(i, f). (i, f + 10000)) (findContextCore sl ctx ?m))"
    unfolding findContext_def Let_def sl_def by (simp only: if_True)
  with assms(1) have "findContextCore sl ctx ?e = Some (n, f) \<or>
      (\<exists>f'. findContextCore sl ctx ?m = Some (n, f'))"
    by (cases "findContextCore sl ctx ?e") auto
  then show ?thesis by (meson diff_le_self min.cobounded2)
qed

lemma findContext_spec:
  assumes "findContext ls ctx start eof = Some (n, f)" and "start \<le> length ls"
  shows "n + length ctx \<le> length ls \<and>
     map trim (take (length ctx) (drop n ls)) = map trim ctx \<and> (\<not> eof \<longrightarrow> start \<le> n)"
proof (cases eof)
  case True
  define sl where "sl = (if length ls > 1 \<and> last ls = [] then butlast ls else ls)"
  obtain st f' where "findContextCore sl ctx st = Some (n, f')" "st \<le> length sl"
    using findContext_eof [of ls ctx start n f] assms(1) True unfolding sl_def by auto
  note core = findContextCore_spec [OF this]
  have "\<exists>tl. ls = sl @ tl"
  proof (cases "length ls > 1 \<and> last ls = []")
    case True
    then have "butlast ls @ [last ls] = ls" by (intro append_butlast_last_id) auto
    with True show ?thesis unfolding sl_def by (simp only: if_True simp_thms) metis
  qed (auto simp: sl_def)
  then obtain tl where tl: "ls = sl @ tl" ..
  have "take (length ctx) (drop n ls) = take (length ctx) (drop n sl)"
    using core by (simp add: tl)
  then show ?thesis using core True by (simp add: tl)
next
  case False
  then show ?thesis
    using assms findContextCore_spec by (auto simp: findContext_def)
qed

lemma advanceCursor_spec:
  assumes "advanceCursorToAnchor a inp cursor fz req fwd = Inr (cursor', fz')"
    and "cursor \<le> length inp"
  shows "cursor \<le> cursor' \<and> cursor' \<le> length inp"
  using assms by (auto simp: advanceCursorToAnchor_def Let_def split: if_splits option.splits
      dest!: find_from_SomeD)

lemma advanceAll_spec:
  "advanceAll as k inp cursor fz req = Inr (cursor', fz') \<Longrightarrow> cursor \<le> length inp \<Longrightarrow>
     cursor \<le> cursor' \<and> cursor' \<le> length inp"
proof (induction as k inp cursor fz req rule: advanceAll.induct)
  case (2 a rest k inp cursor fz req)
  then show ?case
    by (auto split: sum.splits dest!: advanceCursor_spec) (meson order_trans)
qed simp

lemma readAnchor_line: "readAnchor st = Some (a, st') \<Longrightarrow> starts_with (lines st ! index st) ''@@''"
  by (auto simp: readAnchor_def readStr_def Let_def js_nth_def starts_with_iff_prefix
      split: if_splits option.splits dest: append_prefixD [of "''@@''" "'' ''", simplified])

lemma readAnchors_content:
  "readAnchors st acc n = (st', as, k) \<Longrightarrow>
     index st \<le> index st' \<and> added (slice (lines st) (index st) (index st')) = [] \<and>
     removed (slice (lines st) (index st) (index st')) = [] \<and> lines st' = lines st"
proof (induction st acc n rule: readAnchors.induct)
  case (1 st anchors anchorCount)
  show ?case
  proof (cases "readAnchor st")
    case None
    then show ?thesis using 1(2) by (simp add: readAnchors.simps [of st] slice_def)
  next
    case (Some r)
    obtain a st1 where r: "r = (a, st1)" by (cases r)
    note f = readAnchor_Some [OF Some [unfolded r]]
    let ?i = "index st" and ?l = "lines st" and ?j = "index st'"
    have IH: "Suc ?i \<le> ?j \<and> added (slice ?l (Suc ?i) ?j) = [] \<and> removed (slice ?l (Suc ?i) ?j) = []
        \<and> lines st' = ?l"
      using 1(1) [OF Some r [symmetric]] 1(2) Some r f by (auto simp: readAnchors.simps [of st])
    have sl: "slice ?l ?i ?j = [?l ! ?i] @ slice ?l (Suc ?i) ?j"
      using slice_append_slice [of ?i "Suc ?i" ?j ?l] IH f
      by (simp add: slice_def take_Suc_conv_app_nth Cons_nth_drop_Suc [symmetric])
    show ?thesis
      using IH readAnchor_line [OF Some [unfolded r]]
      unfolding sl added_append removed_append by simp
  qed
qed

subsection \<open>The whole diff\<close>

text \<open>What parsing promises of the chunks \<open>new\<close> read between the diff lines \<open>i\<close> and \<open>j\<close>.\<close>

definition chunks_of ::
  "string list \<Rightarrow> string list \<Rightarrow> nat \<Rightarrow> nat \<Rightarrow> chunk list \<Rightarrow> bool" where
  "chunks_of inp ls i j new \<longleftrightarrow>
     i \<le> j \<and> j \<le> length ls \<and> list_all (chunk_at trim inp) new \<and>
     concat (map insLines new) = added (slice ls i j) \<and>
     concat (map delLines new) = removed (slice ls i j)"

lemma chunks_of_append:
  assumes "chunks_of inp ls i j a" and "chunks_of inp ls j k b"
  shows "chunks_of inp ls i k (a @ b)"
  using assms slice_append_slice [of i j k ls]
  by (auto simp: chunks_of_def simp flip: added_append removed_append)

lemma parse_step_spec:
  assumes "parse_step inp st cs cursor = Inr (st', cs', cursor')"
    and "cursor \<le> length inp" and "index st \<le> length (lines st)"
  shows "\<exists>new. cs' = cs @ new \<and> lines st' = lines st \<and> cursor' \<le> length inp \<and>
     chunks_of inp (lines st) (index st) (index st') new \<and>
     (END_FILE \<notin> set (lines st) \<longrightarrow> fits trim inp cursor new cursor')"
proof -
  obtain st1 as k where ra: "readAnchors st [] 0 = (st1, as, k)" by (cases "readAnchors st [] 0")
  note A = readAnchors_content [OF ra]
  have le1: "index st1 \<le> length (lines st1)"
    using readAnchors_facts [of st "[]" 0] assms(3) ra A by simp
  obtain c1 fz1 ctx sec e eof n fz2 where
    adv: "advanceAll as 0 inp cursor (fuzz st1) (k > 1) = Inr (c1, fz1)" and
    sec: "readSection (lines st1) (index st1) = Inr (ctx, sec, e, eof)" and
    find: "findContext inp ctx c1 eof = Some (n, fz2)" and
    st': "st' = st1\<lparr>fuzz := fz1 + fz2, index := e\<rparr>" and
    cs': "cs' = cs @ map (shift_chunk n) sec" and cur': "cursor' = n + length ctx"
    using assms(1) ra by (auto simp: parse_step_def split: if_splits sum.splits option.splits)
  note C = advanceAll_spec [OF adv assms(2)]
  have S: "fits (\<lambda>l. l) ctx 0 sec (length ctx)" "index st1 < e" "e \<le> length (lines st1)"
      "concat (map insLines sec) = added (slice (lines st1) (index st1) e)"
      "concat (map delLines sec) = removed (slice (lines st1) (index st1) e)"
      "eof \<Longrightarrow> END_FILE \<in> set (lines st1)"
    using readSection_spec [OF sec le1] by auto
  have F: "n + length ctx \<le> length inp" "map trim (take (length ctx) (drop n inp)) = map trim ctx"
      "\<not> eof \<Longrightarrow> c1 \<le> n"
    using findContext_spec [OF find] C by auto
  let ?new = "map (shift_chunk n) sec"
  have fit: "fits trim inp n ?new (n + length ctx)"
    using fits_shift [OF F(2,1) S(1)] by (simp add: add.commute)
  have shift: "map insLines ?new = map insLines sec" "map delLines ?new = map delLines sec"
    by (auto simp: shift_chunk_def)
  have "slice (lines st) (index st) e =
      slice (lines st) (index st) (index st1) @ slice (lines st) (index st1) e"
    using A S(2) by (intro slice_append_slice [symmetric]) auto
  then have "chunks_of inp (lines st) (index st) e ?new"
    using A S fits_chunk_at [OF fit] unfolding chunks_of_def shift by auto
  moreover have "END_FILE \<notin> set (lines st) \<longrightarrow> fits trim inp cursor ?new cursor'"
  proof
    assume "END_FILE \<notin> set (lines st)"
    then have "cursor \<le> n" using C F(3) S(6) A by (cases eof) auto
    then show "fits trim inp cursor ?new cursor'" using fits_start_mono [OF fit] cur' by blast
  qed
  ultimately show ?thesis using st' cs' cur' F(1) A by auto
qed

lemma parse_loop_spec:
  "parse_loop inp st cs cursor = Inr (cs', fz) \<Longrightarrow> cursor \<le> length inp \<Longrightarrow>
     index st \<le> length (lines st) \<Longrightarrow>
     \<exists>new j. cs' = cs @ new \<and> chunks_of inp (lines st) (index st) j new \<and>
       (j < length (lines st) \<longrightarrow> list_ex (starts_with (lines st ! j)) END_SECTION_MARKERS) \<and>
       (END_FILE \<notin> set (lines st) \<longrightarrow> fits trim inp cursor new (length inp))"
proof (induction inp st cs cursor rule: parse_loop.induct)
  case (1 inp st cs cursor)
  show ?case
  proof (cases "isDone st END_SECTION_MARKERS")
    case True
    then show ?thesis
      using 1(2-4) by (subst (asm) parse_loop.simps)
        (auto simp: chunks_of_def slice_def isDone_def intro!: exI [of _ "[]"] exI [of _ "index st"]
          split: if_splits)
  next
    case False
    then obtain st1 cs1 c1 where step: "parse_step inp st cs cursor = Inr (st1, cs1, c1)"
        and rest: "parse_loop inp st1 cs1 c1 = Inr (cs', fz)"
      using 1(2) by (subst (asm) parse_loop.simps) (auto split: sum.splits)
    obtain n1 where n1: "cs1 = cs @ n1" "lines st1 = lines st" "c1 \<le> length inp"
        "chunks_of inp (lines st) (index st) (index st1) n1"
        "END_FILE \<notin> set (lines st) \<longrightarrow> fits trim inp cursor n1 c1"
      using parse_step_spec [OF step 1(3,4)] by blast
    have "index st1 \<le> length (lines st1)" using n1(2,4) by (simp add: chunks_of_def)
    from 1(1) [OF False step refl refl rest n1(3) this] obtain n2 j where
      n2: "cs' = cs1 @ n2" "chunks_of inp (lines st) (index st1) j n2"
        "j < length (lines st) \<longrightarrow> list_ex (starts_with (lines st ! j)) END_SECTION_MARKERS"
        "END_FILE \<notin> set (lines st) \<longrightarrow> fits trim inp c1 n2 (length inp)"
      using n1(2) by auto
    have "cs' = cs @ (n1 @ n2)" using n1(1) n2(1) by simp
    moreover have "END_FILE \<notin> set (lines st) \<longrightarrow> fits trim inp cursor (n1 @ n2) (length inp)"
      using n1(5) n2(4) by (auto simp: fits_append)
    ultimately show ?thesis
      using chunks_of_append [OF n1(4) n2(2)] n2(3) by blast
  qed
qed

subsection \<open>Applying the chunks\<close>

lemma applyChunks_loop_total:
  "fits trim inp i chs (length inp) \<Longrightarrow> applyChunks_loop inp i dest chs \<noteq> Inl e"
  by (induction inp i dest chs rule: applyChunks_loop.induct) (auto simp: chunk_at_def)

lemma applyChunks_loop_no_beyond:
  "list_all (chunk_at trim inp) chs \<Longrightarrow> applyChunks_loop inp i dest chs \<noteq> Inl (ChunkBeyondInput a b)"
  by (induction inp i dest chs rule: applyChunks_loop.induct) (auto simp: chunk_at_def)

text \<open>
  An edit script: blocks of kept lines, deleted lines and inserted lines, then a kept tail.
\<close>

type_synonym edit = "string list \<times> string list \<times> string list"

definition edits_old :: "edit list \<Rightarrow> string list \<Rightarrow> string list" where
  "edits_old es rest = concat (map (\<lambda>(k, d, i). k @ d) es) @ rest"

definition edits_new :: "edit list \<Rightarrow> string list \<Rightarrow> string list" where
  "edits_new es rest = concat (map (\<lambda>(k, d, i). k @ i) es) @ rest"

lemma applyChunks_loop_edits:
  "applyChunks_loop inp i dest chs = Inr (j, dest') \<Longrightarrow> list_all (chunk_at trim inp) chs \<Longrightarrow>
     i \<le> length inp \<Longrightarrow>
     \<exists>es. drop i inp = edits_old es (drop j inp) \<and> dest' @ drop j inp = dest @ edits_new es (drop j inp) \<and>
       map trim (concat (map (fst \<circ> snd) es)) = map trim (concat (map delLines chs)) \<and>
       concat (map (snd \<circ> snd) es) = concat (map insLines chs)"
proof (induction inp i dest chs rule: applyChunks_loop.induct)
  case (1 inp i dest)
  then show ?case by (auto simp: edits_old_def edits_new_def intro!: exI [of _ "[]"])
next
  case (2 inp i dest ch chs)
  let ?o = "origIndex ch" and ?d = "delLines ch"
  have c: "\<not> ?o > length inp" "\<not> i > ?o" using 2(2) by (auto split: if_splits)
  have at: "?o + length ?d \<le> length inp" "map trim (take (length ?d) (drop ?o inp)) = map trim ?d"
    using 2(3) by (auto simp: chunk_at_def)
  let ?dest1 = "dest @ slice inp i ?o @ insLines ch"
  have loop: "applyChunks_loop inp (?o + length ?d) ?dest1 chs = Inr (j, dest')"
      "list_all (chunk_at trim inp) chs"
    using 2(2,3) c by simp_all
  from 2(1) [OF c loop at(1)] obtain es where
    es: "drop (?o + length ?d) inp = edits_old es (drop j inp)"
      "dest' @ drop j inp = ?dest1 @ edits_new es (drop j inp)"
      "map trim (concat (map (fst \<circ> snd) es)) = map trim (concat (map delLines chs))"
      "concat (map (snd \<circ> snd) es) = concat (map insLines chs)"
    by blast
  let ?e = "(slice inp i ?o, take (length ?d) (drop ?o inp), insLines ch)"
  have "drop i inp = slice inp i ?o @ take (length ?d) (drop ?o inp) @ drop (?o + length ?d) inp"
    using c slice_append_drop [of i ?o inp]
    by (metis add.commute append_take_drop_id drop_drop leI)
  then have "drop i inp = edits_old (?e # es) (drop j inp)"
    using es(1) by (simp add: edits_old_def)
  then show ?case
    using es at(2) by (intro exI [of _ "?e # es"]) (simp add: edits_new_def comp_def)
qed

lemma parseUpdateDiff_spec:
  assumes "parseUpdateDiff ls input = Inr (chs, fz)"
  shows "\<exists>j. chunks_of (split_on LF input) (ls @ [END_PATCH]) 0 j chs \<and> j \<le> length ls \<and>
     (j < length ls \<longrightarrow> list_ex (starts_with (ls ! j)) END_SECTION_MARKERS) \<and>
     (END_FILE \<notin> set ls \<longrightarrow> fits trim (split_on LF input) 0 chs (length (split_on LF input)))"
proof -
  let ?st = "\<lparr>lines = ls @ [END_PATCH], index = 0, fuzz = 0\<rparr>"
  obtain j where j: "chunks_of (split_on LF input) (ls @ [END_PATCH]) 0 j chs"
      "j < length (lines ?st) \<longrightarrow> list_ex (starts_with (lines ?st ! j)) END_SECTION_MARKERS"
      "END_FILE \<notin> set (lines ?st) \<longrightarrow> fits trim (split_on LF input) 0 chs (length (split_on LF input))"
    using parse_loop_spec [of "split_on LF input" ?st "[]" 0 chs fz] assms
    by (auto simp: parseUpdateDiff_def)
  have marker: "added [END_PATCH] = []" "removed [END_PATCH] = []" "END_FILE \<noteq> END_PATCH"
    by (simp_all add: END_PATCH_def END_FILE_def added_def removed_def)
  have len: "j \<le> Suc (length ls)" using j(1) by (simp add: chunks_of_def)
  let ?k = "min j (length ls)"
  have "added (take j (ls @ [END_PATCH])) = added (take ?k (ls @ [END_PATCH])) \<and>
      removed (take j (ls @ [END_PATCH])) = removed (take ?k (ls @ [END_PATCH]))"
  proof (cases "j \<le> length ls")
    case False
    then have "take j (ls @ [END_PATCH]) = take ?k (ls @ [END_PATCH]) @ [END_PATCH]"
      using len by (simp add: min_def le_Suc_eq)
    with marker show ?thesis by (simp only: added_append removed_append append_Nil2)
  qed simp
  then have "chunks_of (split_on LF input) (ls @ [END_PATCH]) 0 ?k chs"
    using j(1) by (auto simp: chunks_of_def)
  moreover have "?k < length ls \<longrightarrow> list_ex (starts_with (ls ! ?k)) END_SECTION_MARKERS"
    using j(2) by (auto simp: nth_append min_def)
  ultimately show ?thesis using j(3) marker(3) by (intro exI [of _ ?k]) auto
qed

text \<open>The equations that evaluate the engine on a concrete diff.\<close>

lemmas engine_eval = js applyDiff_def parseUpdateDiff_def parse_loop.simps parse_step_def
  readAnchors.simps readAnchor_def readStr_def isDone_def Let_def readSection_def
  section_loop.simps section_line_def section_stop_def section_init_def line_mode_of_def
  findContext_def findContextCore_def equalsSlice_def find_from.simps flush_chunk_def
  shift_chunk_def advanceCursorToAnchor_def applyChunks_def normalizeDiffLines_def upt_rec
  split_on_case

text \<open>
  C2. What a successful application does.  The input is blocks of kept and deleted lines, the
  output is the same blocks with the deleted lines exchanged for inserted ones.  The inserted
  lines are exactly the \<open>+\<close> lines of the diff up to its end marker, in order; the deleted ones
  are its \<open>-\<close> lines, up to the surrounding white space the search forgives.
\<close>

theorem applyDiff_edit_script:
  assumes "applyDiff input diff = Inr out"
  shows "\<exists>es rest n.
     split_on LF input = edits_old es rest \<and> out = join [LF] (edits_new es rest) \<and>
     concat (map (snd \<circ> snd) es) = added (take n (normalizeDiffLines diff)) \<and>
     map trim (concat (map (fst \<circ> snd) es)) = map trim (removed (take n (normalizeDiffLines diff))) \<and>
     (n < length (normalizeDiffLines diff) \<longrightarrow>
        list_ex (starts_with (normalizeDiffLines diff ! n)) END_SECTION_MARKERS)"
proof -
  let ?ls = "normalizeDiffLines diff" and ?inp = "split_on LF input"
  obtain chs fz where parse: "parseUpdateDiff ?ls input = Inr (chs, fz)"
      and apply_ok: "applyChunks input chs = Inr out"
    using assms by (auto simp: applyDiff_def split: sum.splits)
  obtain n where n: "chunks_of ?inp (?ls @ [END_PATCH]) 0 n chs" "n \<le> length ?ls"
      "n < length ?ls \<longrightarrow> list_ex (starts_with (?ls ! n)) END_SECTION_MARKERS"
    using parseUpdateDiff_spec [OF parse] by blast
  obtain j dest where loop: "applyChunks_loop ?inp 0 [] chs = Inr (j, dest)"
      and out: "out = join [LF] (dest @ drop j ?inp)"
    using apply_ok by (auto simp: applyChunks_def Let_def split: sum.splits)
  obtain es where "?inp = edits_old es (drop j ?inp)" "dest @ drop j ?inp = edits_new es (drop j ?inp)"
      "map trim (concat (map (fst \<circ> snd) es)) = map trim (concat (map delLines chs))"
      "concat (map (snd \<circ> snd) es) = concat (map insLines chs)"
    using applyChunks_loop_edits [OF loop] n(1) by (auto simp: chunks_of_def)
  then show ?thesis
    using n out by (intro exI [of _ es] exI [of _ "drop j ?inp"] exI [of _ n]) (simp add: chunks_of_def)
qed

lemma applyDiff_edit_script_witness:
  "\<exists>es rest n. split_on LF (''a'' @ [LF] @ ''b'') = edits_old es rest \<and>
     ''a'' @ [LF] @ ''c'' = join [LF] (edits_new es rest) \<and>
     concat (map (snd \<circ> snd) es) = added (take n (normalizeDiffLines (''-b'' @ [LF] @ ''+c''))) \<and>
     map trim (concat (map (fst \<circ> snd) es)) =
       map trim (removed (take n (normalizeDiffLines (''-b'' @ [LF] @ ''+c'')))) \<and>
     (n < length (normalizeDiffLines (''-b'' @ [LF] @ ''+c'')) \<longrightarrow>
        list_ex (starts_with (normalizeDiffLines (''-b'' @ [LF] @ ''+c'') ! n)) END_SECTION_MARKERS)"
  by (rule applyDiff_edit_script)
    (simp add: engine_eval cong: let_weak_cong del: split_on.simps(2))

definition apply_error :: "patch_error \<Rightarrow> bool" where
  "apply_error e \<longleftrightarrow> (\<exists>a b. e = ChunkBeyondInput a b \<or> e = OverlappingChunk a b)"

lemma advanceCursor_error: "advanceCursorToAnchor a inp c fz req fwd = Inl e \<Longrightarrow> \<not> apply_error e"
  by (auto simp: advanceCursorToAnchor_def Let_def apply_error_def split: if_splits option.splits)

lemma advanceAll_error: "advanceAll as k inp c fz req = Inl e \<Longrightarrow> \<not> apply_error e"
proof (induction as arbitrary: k c fz)
  case (Cons a rest)
  then show ?case
    by (cases "advanceCursorToAnchor a inp c fz req (k > 0)") (auto dest: advanceCursor_error)
qed simp

lemma section_loop_error: "section_loop ls i s = Inl e \<Longrightarrow> \<not> apply_error e"
proof (induction ls i s rule: section_loop.induct)
  case (1 ls i s)
  have "section_line s r = Inl e' \<Longrightarrow> \<not> apply_error e'" for r e'
    by (auto simp: section_line_def Let_def apply_error_def split: option.splits line_mode.splits)
  with 1 show ?case
    by (subst (asm) section_loop.simps)
      (auto simp: Let_def apply_error_def split: if_splits sum.splits)
qed

lemma parse_step_error: "parse_step inp st cs cursor = Inl e \<Longrightarrow> \<not> apply_error e"
  by (auto simp: parse_step_def readSection_def Let_def split: if_splits sum.splits prod.splits
      option.splits dest: advanceAll_error section_loop_error)
    (auto simp: apply_error_def)

lemma parse_loop_error: "parse_loop inp st cs cursor = Inl e \<Longrightarrow> \<not> apply_error e"
proof (induction inp st cs cursor rule: parse_loop.induct)
  case (1 inp st cs cursor)
  then show ?case
  proof (cases "parse_step inp st cs cursor")
    case (Inl e')
    then show ?thesis
      using 1(2) parse_step_error [OF Inl] by (simp add: parse_loop.simps [of inp st] split: if_splits)
  next
    case (Inr r)
    obtain st1 cs1 c1 where r: "r = (st1, cs1, c1)" by (cases r)
    show ?thesis
      using 1(2) 1(1) [OF _ Inr r [symmetric] refl] Inr r
      by (simp add: parse_loop.simps [of inp st] split: if_splits)
  qed
qed

text \<open>
  C35. Of the two errors of the application loop, a chunk beyond the input never happens, and
  chunks overlap only when the diff has an end-of-file section, whose context is searched from
  the end of the file instead of from the cursor.
\<close>

theorem applyDiff_chunk_errors:
  "applyDiff input diff \<noteq> Inl (ChunkBeyondInput a b) \<and>
   (applyDiff input diff = Inl (OverlappingChunk c d) \<longrightarrow> END_FILE \<in> set (normalizeDiffLines diff))"
proof (cases "parseUpdateDiff (normalizeDiffLines diff) input")
  case (Inl e)
  then have "\<not> apply_error e" by (auto simp: parseUpdateDiff_def dest: parse_loop_error)
  with Inl show ?thesis by (auto simp: applyDiff_def apply_error_def)
next
  case (Inr r)
  obtain chs fz where r: "r = (chs, fz)" by (cases r)
  note P = parseUpdateDiff_spec [OF Inr [unfolded r]]
  have "applyDiff input diff = applyChunks input chs" using Inr r by (simp add: applyDiff_def)
  moreover have "list_all (chunk_at trim (split_on LF input)) chs"
    using P by (auto simp: chunks_of_def)
  ultimately show ?thesis
    using P applyChunks_loop_no_beyond [of "split_on LF input" chs 0 "[]" a b]
      applyChunks_loop_total [of "split_on LF input" 0 chs "[]" "OverlappingChunk c d"]
    by (auto simp: applyChunks_def Let_def split: sum.splits)
qed

lemma applyDiff_chunk_errors_witness:
  "END_FILE \<in> set (normalizeDiffLines (join [LF] [''-a'', ''@@'', ''-a'', END_FILE]))"
proof -
  have "applyDiff ''a'' (join [LF] [''-a'', ''@@'', ''-a'', END_FILE]) = Inl (OverlappingChunk 0 1)"
    by (simp add: engine_eval cong: let_weak_cong del: split_on.simps(2))
  then show ?thesis
    using applyDiff_chunk_errors [of "''a''" "join [LF] [''-a'', ''@@'', ''-a'', END_FILE]" 0 0 0 1]
    by blast
qed

end
