(* ===== verification/Unified_Diff.thy ===== *)
theory Unified_Diff
  imports Prelude
begin

text \<open>
  The unified diff of the review gate, \<open>src/src/diff.ts\<close>: a table of common-subsequence
  lengths (or, for large files, a common prefix and suffix) gives a list of edit operations,
  which is cut into hunks with three lines of context and printed.

  The flat \<open>Uint32Array\<close> is a list of rows; its entries are at most 4,000,000, so no entry
  wraps.  Loops over an index are functions of that index.
\<close>

datatype op_type = Equal | Delete | Insert

record diff_op =
  op_type :: op_type
  op_line :: string
  oldLine :: "nat option"
  newLine :: "nat option"

definition equal_op :: "string \<Rightarrow> nat \<Rightarrow> nat \<Rightarrow> diff_op" where
  "equal_op l i j = \<lparr>op_type = Equal, op_line = l, oldLine = Some i, newLine = Some j\<rparr>"

definition delete_op :: "string \<Rightarrow> nat \<Rightarrow> diff_op" where
  "delete_op l i = \<lparr>op_type = Delete, op_line = l, oldLine = Some i, newLine = None\<rparr>"

definition insert_op :: "string \<Rightarrow> nat \<Rightarrow> diff_op" where
  "insert_op l j = \<lparr>op_type = Insert, op_line = l, oldLine = None, newLine = Some j\<rparr>"

lemmas op_defs = equal_op_def delete_op_def insert_op_def

definition splitLines :: "string \<Rightarrow> string list" where
  "splitLines content =
     (if content = [] then []
      else let ls = split_on LF content in if last ls = [] then butlast ls else ls)"

subsection \<open>Edit operations\<close>

text \<open>One row of the table, from the row below it; the rows from the last one up.\<close>

fun lcs_row :: "string \<Rightarrow> string list \<Rightarrow> nat list \<Rightarrow> nat list" where
  "lcs_row old [] below = [0]"
| "lcs_row old (n # ns) [] = [0]"
| "lcs_row old (n # ns) (b # bs) =
     (let rest = lcs_row old ns bs in
      (if old = n then hd bs + 1 else max b (hd rest)) # rest)"

fun lcs_table :: "string list \<Rightarrow> string list \<Rightarrow> nat list list" where
  "lcs_table [] newLines = [replicate (length newLines + 1) 0]"
| "lcs_table (old # olds) newLines =
     (let rows = lcs_table olds newLines in lcs_row old newLines (hd rows) # rows)"

function diff_walk ::
  "nat list list \<Rightarrow> string list \<Rightarrow> string list \<Rightarrow> nat \<Rightarrow> nat \<Rightarrow> nat \<Rightarrow> nat \<Rightarrow> diff_op list" where
  "diff_walk table oldLines newLines oldIndex newIndex ol nl =
     (if oldIndex < length oldLines \<and> newIndex < length newLines then
        (if oldLines ! oldIndex = newLines ! newIndex then
           equal_op (oldLines ! oldIndex) ol nl #
             diff_walk table oldLines newLines (Suc oldIndex) (Suc newIndex) (Suc ol) (Suc nl)
         else if table ! Suc oldIndex ! newIndex \<ge> table ! oldIndex ! Suc newIndex then
           delete_op (oldLines ! oldIndex) ol #
             diff_walk table oldLines newLines (Suc oldIndex) newIndex (Suc ol) nl
         else
           insert_op (newLines ! newIndex) nl #
             diff_walk table oldLines newLines oldIndex (Suc newIndex) ol (Suc nl))
      else if oldIndex < length oldLines then
        delete_op (oldLines ! oldIndex) ol #
          diff_walk table oldLines newLines (Suc oldIndex) newIndex (Suc ol) nl
      else if newIndex < length newLines then
        insert_op (newLines ! newIndex) nl #
          diff_walk table oldLines newLines oldIndex (Suc newIndex) ol (Suc nl)
      else [])"
  by pat_completeness auto
termination
  by (relation "measure (\<lambda>(t, os, ns, i, j, ol, nl). (length os - i) + (length ns - j))") auto

declare diff_walk.simps [simp del]

text \<open>The large-file path: \<open>prefix\<close>, then the ends of the differing middles.\<close>

function common_prefix :: "string list \<Rightarrow> string list \<Rightarrow> nat \<Rightarrow> nat" where
  "common_prefix oldLines newLines pre =
     (if pre < length oldLines \<and> pre < length newLines \<and> oldLines ! pre = newLines ! pre
      then common_prefix oldLines newLines (Suc pre) else pre)"
  by pat_completeness auto
termination
  by (relation "measure (\<lambda>(os, ns, pre). length os - pre)") auto

declare common_prefix.simps [simp del]

text \<open>\<open>oldEnd\<close> and \<open>newEnd\<close> are \<open>oldSuffix + 1\<close> and \<open>newSuffix + 1\<close>.\<close>

fun common_suffix :: "string list \<Rightarrow> string list \<Rightarrow> nat \<Rightarrow> nat \<Rightarrow> nat \<Rightarrow> nat \<times> nat" where
  "common_suffix oldLines newLines pre (Suc oldSuffix) (Suc newSuffix) =
     (if oldSuffix \<ge> pre \<and> newSuffix \<ge> pre \<and> oldLines ! oldSuffix = newLines ! newSuffix
      then common_suffix oldLines newLines pre oldSuffix newSuffix
      else (Suc oldSuffix, Suc newSuffix))"
| "common_suffix oldLines newLines pre oldEnd newEnd = (oldEnd, newEnd)"

definition diffLinesByPrefixSuffix :: "string list \<Rightarrow> string list \<Rightarrow> diff_op list" where
  "diffLinesByPrefixSuffix oldLines newLines =
     (let pre = common_prefix oldLines newLines 0;
          (oldEnd, newEnd) =
            common_suffix oldLines newLines pre (length oldLines) (length newLines) in
      map (\<lambda>i. equal_op (oldLines ! i) (i + 1) (i + 1)) [0..<pre] @
      map (\<lambda>i. delete_op (oldLines ! i) (i + 1)) [pre..<oldEnd] @
      map (\<lambda>i. insert_op (newLines ! i) (i + 1)) [pre..<newEnd] @
      map (\<lambda>k. equal_op (oldLines ! (oldEnd + k)) (oldEnd + k + 1) (newEnd + k + 1))
        [0..<min (length oldLines - oldEnd) (length newLines - newEnd)])"

definition diffLines :: "string list \<Rightarrow> string list \<Rightarrow> diff_op list" where
  "diffLines oldLines newLines =
     (if length oldLines * length newLines > 4000000
      then diffLinesByPrefixSuffix oldLines newLines
      else diff_walk (lcs_table oldLines newLines) oldLines newLines 0 0 1 1)"

subsection \<open>Hunks\<close>

definition is_equal :: "diff_op \<Rightarrow> bool" where
  "is_equal op \<longleftrightarrow> op_type op = Equal"

function skip_equal :: "diff_op list \<Rightarrow> nat \<Rightarrow> nat" where
  "skip_equal ops index =
     (if index < length ops \<and> is_equal (ops ! index) then skip_equal ops (Suc index) else index)"
  by pat_completeness auto
termination
  by (relation "measure (\<lambda>(ops, index). length ops - index)") auto

function scan_end :: "diff_op list \<Rightarrow> nat \<Rightarrow> nat \<Rightarrow> nat" where
  "scan_end ops stop trailingEquals =
     (if stop < length ops then
        (if is_equal (ops ! stop) then
           (if trailingEquals + 1 > 3 * 2 then stop
            else scan_end ops (Suc stop) (trailingEquals + 1))
         else scan_end ops (Suc stop) 0)
      else stop)"
  by pat_completeness auto
termination
  by (relation "measure (\<lambda>(ops, stop, t). length ops - stop)") auto

declare skip_equal.simps [simp del] scan_end.simps [simp del]

definition trim_hunk :: "diff_op list \<Rightarrow> diff_op list" where
  "trim_hunk hunkOps =
     (let trailing = length (takeWhile is_equal (rev hunkOps)) in
      if trailing > 3 then take (length hunkOps - (trailing - 3)) hunkOps else hunkOps)"

lemma scan_end_ge: "e \<le> scan_end ops e t"
proof (induction ops e t rule: scan_end.induct)
  case (1 ops e t)
  then show ?case by (subst scan_end.simps) (auto simp: Suc_le_eq)
qed

lemma skip_equal_ge: "i \<le> skip_equal ops i"
proof (induction ops i rule: skip_equal.induct)
  case (1 ops i)
  then show ?case by (subst skip_equal.simps) auto
qed

lemma skip_equal_stop:
  "skip_equal ops i < length ops \<Longrightarrow> \<not> is_equal (ops ! skip_equal ops i)"
proof (induction ops i rule: skip_equal.induct)
  case (1 ops i)
  then show ?case by (cases "i < length ops \<and> is_equal (ops ! i)") (auto simp: skip_equal.simps [of ops i])
qed

lemma scan_end_gt:
  assumes "e < length ops" "\<not> is_equal (ops ! e)"
  shows "e < scan_end ops e t"
  using assms scan_end_ge [of "Suc e" ops 0] by (simp add: scan_end.simps [of ops e])

function build_hunks :: "diff_op list \<Rightarrow> nat \<Rightarrow> diff_op list list" where
  "build_hunks ops index =
     (if index < length ops then
        (let index1 = skip_equal ops index in
         if index1 \<ge> length ops then []
         else (let start = index1 - 3; stop = scan_end ops index1 0 in
               trim_hunk (slice ops start stop) # build_hunks ops stop))
      else [])"
  by pat_completeness auto
termination
proof (relation "measure (\<lambda>(ops, index). length ops - index)", goal_cases)
  case (2 ops index i1 start e)
  then show ?case
    using skip_equal_ge [of index ops] skip_equal_stop [of ops index]
      scan_end_gt [of "skip_equal ops index" ops 0] by auto
qed simp

declare build_hunks.simps [simp del]

definition rangeHeader :: "nat \<Rightarrow> nat \<Rightarrow> string" where
  "rangeHeader start lineCount =
     (if lineCount = 0 then nat_str (start - 1) @ '',0''
      else if lineCount = 1 then nat_str start
      else nat_str start @ '','' @ nat_str lineCount)"

definition op_text :: "diff_op \<Rightarrow> string" where
  "op_text op =
     (case op_type op of Insert \<Rightarrow> ''+'' | Delete \<Rightarrow> ''-'' | Equal \<Rightarrow> '' '') @ op_line op"

definition first_line :: "(diff_op \<Rightarrow> nat option) \<Rightarrow> diff_op list \<Rightarrow> nat" where
  "first_line field ops =
     (case find (\<lambda>op. field op \<noteq> None) ops of None \<Rightarrow> 0 | Some op \<Rightarrow> the (field op))"

definition formatHunk :: "diff_op list \<Rightarrow> string list" where
  "formatHunk ops =
     (let oldStart = first_line oldLine ops;
          newStart = first_line newLine ops;
          oldCount = length (filter (\<lambda>op. op_type op \<noteq> Insert) ops);
          newCount = length (filter (\<lambda>op. op_type op \<noteq> Delete) ops) in
      (''@@ -'' @ rangeHeader oldStart oldCount @ '' +'' @ rangeHeader newStart newCount @ '' @@'') #
      map op_text ops)"

definition buildHunks :: "string list \<Rightarrow> string list \<Rightarrow> string list" where
  "buildHunks oldLines newLines =
     concat (map formatHunk (build_hunks (diffLines oldLines newLines) 0))"

subsection \<open>Files and the whole patch\<close>

datatype change_status = Added | Modified | Deleted
datatype tracking = Tracked | Untracked

record changed_file =
  path :: string
  status :: change_status
  oldGitMode :: "string option"
  newGitMode :: "string option"
  oldTracking :: "tracking option"
  newTracking :: "tracking option"
  renamedFrom :: "string option"
  diffOmittedReason :: "string option"
  oldContent :: "string option"
  newContent :: "string option"

definition truthy :: "string option \<Rightarrow> bool" where
  [js]: "truthy s \<longleftrightarrow> s \<noteq> None \<and> s \<noteq> Some []"

definition gitModeHeaders :: "changed_file \<Rightarrow> string list" where
  "gitModeHeaders change =
     (let old = oldGitMode change; new = newGitMode change in
      if old = new then []
      else if truthy old \<and> truthy new then [''old mode '' @ the old, ''new mode '' @ the new]
      else if truthy new then [''new file mode '' @ the new]
      else if truthy old then [''deleted file mode '' @ the old]
      else [])"

definition tracking_text :: "tracking \<Rightarrow> string" where
  "tracking_text t = (case t of Tracked \<Rightarrow> ''tracked'' | Untracked \<Rightarrow> ''untracked'')"

definition gitTrackingHeaders :: "changed_file \<Rightarrow> string list" where
  "gitTrackingHeaders change =
     (case (oldTracking change, newTracking change) of
        (Some old, Some new) \<Rightarrow>
          (if old \<noteq> new
           then [''# tracking changed from '' @ tracking_text old @ '' to '' @ tracking_text new]
           else [])
      | _ \<Rightarrow> [])"

definition buildFileDiff :: "changed_file \<Rightarrow> string" where
  "buildFileDiff change =
     (let old = (if status change = Added then [] else or_else (oldContent change) []);
          new = (if status change = Deleted then [] else or_else (newContent change) []);
          sourcePath = or_else (renamedFrom change) (path change);
          oldPath = (if status change = Added then ''/dev/null'' else ''a/'' @ sourcePath);
          newPath = (if status change = Deleted then ''/dev/null'' else ''b/'' @ path change);
          body = buildHunks (splitLines old) (splitLines new) in
      join [LF]
        ([''diff --git a/'' @ sourcePath @ '' b/'' @ path change] @
         gitModeHeaders change @ gitTrackingHeaders change @
         (if truthy (renamedFrom change)
          then [''rename from '' @ the (renamedFrom change), ''rename to '' @ path change] else []) @
         [''--- '' @ oldPath, ''+++ '' @ newPath] @ body @ [[]]))"

definition omitted_change :: "changed_file \<Rightarrow> bool" where
  "omitted_change change \<longleftrightarrow>
     truthy (diffOmittedReason change) \<or>
     oldContent change = None \<and> status change \<noteq> Added \<or>
     newContent change = None \<and> status change \<noteq> Deleted"

definition omitted_reason :: "changed_file \<Rightarrow> string" where
  "omitted_reason change = or_else (diffOmittedReason change) ''content_unavailable''"

definition omitted_section :: "changed_file \<Rightarrow> string" where
  "omitted_section change =
     join [LF]
       ([''diff --git a/'' @ path change @ '' b/'' @ path change] @
        gitModeHeaders change @ gitTrackingHeaders change @
        [''# Diff omitted for '' @ path change @ '': '' @ omitted_reason change, []])"

definition change_section :: "changed_file \<Rightarrow> string" where
  "change_section change =
     (if omitted_change change then omitted_section change else buildFileDiff change)"

record patch_result =
  patch :: string
  truncated :: bool
  omitted :: "(string \<times> string) list"

definition truncation_marker :: "nat \<Rightarrow> string" where
  "truncation_marker maxPatchBytes =
     LF # ''# Patch truncated after reaching maxPatchBytes='' @ nat_str maxPatchBytes @ [LF]"

fun patch_loop :: "changed_file list \<Rightarrow> nat \<Rightarrow> string \<Rightarrow> (string \<times> string) list \<Rightarrow> patch_result" where
  "patch_loop [] maxPatchBytes acc om = \<lparr>patch = acc, truncated = False, omitted = om\<rparr>"
| "patch_loop (change # changes) maxPatchBytes acc om =
     (let om' = (if omitted_change change
                 then om @ [(path change, omitted_reason change)] else om);
          section_text = change_section change in
      if byte_length (acc @ section_text) > maxPatchBytes
      then \<lparr>patch = acc @ take (maxPatchBytes - byte_length acc) (truncation_marker maxPatchBytes),
            truncated = True, omitted = om'\<rparr>
      else patch_loop changes maxPatchBytes (acc @ section_text) om')"

definition buildUnifiedPatch :: "changed_file list \<Rightarrow> nat \<Rightarrow> patch_result" where
  "buildUnifiedPatch changes maxPatchBytes = patch_loop changes maxPatchBytes [] []"

end
