(* ===== verification/Unified_Diff_Spec.thy ===== *)
theory Unified_Diff_Spec
  imports Unified_Diff
begin

text \<open>
  What the diff promises: its operations spell the old and the new file, with their line
  numbers; on the table path they keep a longest common subsequence; the hunks are disjoint
  windows of the operations that miss no change; the patch stays within its byte budget.
\<close>

subsection \<open>The operations spell both files\<close>

definition old_of :: "diff_op list \<Rightarrow> string list" where
  "old_of ops = map op_line (filter (\<lambda>op. op_type op \<noteq> Insert) ops)"

definition new_of :: "diff_op list \<Rightarrow> string list" where
  "new_of ops = map op_line (filter (\<lambda>op. op_type op \<noteq> Delete) ops)"

definition old_numbers :: "diff_op list \<Rightarrow> nat option list" where
  "old_numbers ops = map oldLine (filter (\<lambda>op. op_type op \<noteq> Insert) ops)"

definition new_numbers :: "diff_op list \<Rightarrow> nat option list" where
  "new_numbers ops = map newLine (filter (\<lambda>op. op_type op \<noteq> Delete) ops)"

text \<open>The operations are those of the files from line \<open>ol\<close> and \<open>nl\<close> on.\<close>

definition spells :: "diff_op list \<Rightarrow> string list \<Rightarrow> string list \<Rightarrow> nat \<Rightarrow> nat \<Rightarrow> bool" where
  "spells ops old new ol nl \<longleftrightarrow>
     old_of ops = old \<and> new_of ops = new \<and>
     old_numbers ops = map Some [ol..<ol + length old] \<and>
     new_numbers ops = map Some [nl..<nl + length new]"

lemmas spells_defs = spells_def old_of_def new_of_def old_numbers_def new_numbers_def

lemma spells_Nil [simp]: "spells [] [] [] ol nl"
  by (simp add: spells_defs)

lemma upt_Cons_add: "[n..<Suc (n + k)] = n # [Suc n..<Suc (n + k)]"
  by (rule upt_conv_Cons) simp

lemma spells_equal:
  "spells ops old new (Suc ol) (Suc nl) \<Longrightarrow> spells (equal_op l ol nl # ops) (l # old) (l # new) ol nl"
  by (simp add: spells_defs equal_op_def upt_Cons_add del: upt_Suc)

lemma spells_delete:
  "spells ops old new (Suc ol) nl \<Longrightarrow> spells (delete_op l ol # ops) (l # old) new ol nl"
  by (simp add: spells_defs delete_op_def upt_Cons_add del: upt_Suc)

lemma spells_insert:
  "spells ops old new ol (Suc nl) \<Longrightarrow> spells (insert_op l nl # ops) old (l # new) ol nl"
  by (simp add: spells_defs insert_op_def upt_Cons_add del: upt_Suc)

lemma upt_append_add: "[n..<n + a] @ [n + a..<n + a + b] = [n..<n + (a + b)]"
  by (metis add.assoc upt_add_eq_append le_add1)

lemma spells_append:
  assumes "spells a old new ol nl" and "spells b old' new' (ol + length old) (nl + length new)"
  shows "spells (a @ b) (old @ old') (new @ new') ol nl"
  using assms by (simp add: spells_defs upt_append_add [symmetric])

lemma spells_append':
  assumes "spells a old new ol nl" and "spells b old' new' ol' nl'"
    and "ol' = ol + length old" and "nl' = nl + length new" and "xs = old @ old'" and "ys = new @ new'"
  shows "spells (a @ b) xs ys ol nl"
  using assms spells_append by blast

lemma diff_walk_spells:
  "spells (diff_walk t old new i j ol nl) (drop i old) (drop j new) ol nl"
proof (induction t old new i j ol nl rule: diff_walk.induct)
  case (1 t old new i j ol nl)
  have d: "i < length old \<Longrightarrow> drop i old = old ! i # drop (Suc i) old"
    "j < length new \<Longrightarrow> drop j new = new ! j # drop (Suc j) new"
    by (simp_all add: Cons_nth_drop_Suc)
  consider (both) "i < length old" "j < length new" | (old) "i < length old" "\<not> j < length new" |
      (new) "\<not> i < length old" "j < length new" | (none) "\<not> i < length old" "\<not> j < length new"
    by blast
  then show ?case
  proof cases
    case both
    then show ?thesis
      using 1(1-3) d by (subst diff_walk.simps)
        (auto intro: spells_equal spells_delete spells_insert)
  next
    case old
    then show ?thesis using 1(4) d by (subst diff_walk.simps) (auto intro: spells_delete)
  next
    case new
    then show ?thesis using 1(5) d by (subst diff_walk.simps) (auto intro: spells_insert)
  next
    case none
    then show ?thesis by (subst diff_walk.simps) simp
  qed
qed

subsection \<open>The prefix and suffix path\<close>

lemma common_prefix_spec:
  "pre \<le> length old \<Longrightarrow> pre \<le> length new \<Longrightarrow> take pre old = take pre new \<Longrightarrow>
     pre \<le> common_prefix old new pre \<and> common_prefix old new pre \<le> length old \<and>
     common_prefix old new pre \<le> length new \<and>
     take (common_prefix old new pre) old = take (common_prefix old new pre) new"
proof (induction old new pre rule: common_prefix.induct)
  case (1 old new pre)
  show ?case
  proof (cases "pre < length old \<and> pre < length new \<and> old ! pre = new ! pre")
    case True
    then show ?thesis
      using 1 by (simp add: common_prefix.simps [of old new pre] take_Suc_conv_app_nth)
  next
    case False
    then have "common_prefix old new pre = pre"
      by (simp only: common_prefix.simps [of old new pre] if_False)
    then show ?thesis using 1(2-4) by simp
  qed
qed

lemma common_suffix_spec:
  "common_suffix old new pre oe ne = (oe', ne') \<Longrightarrow> oe \<le> length old \<Longrightarrow> ne \<le> length new \<Longrightarrow>
     pre \<le> oe \<Longrightarrow> pre \<le> ne \<Longrightarrow> drop oe old = drop ne new \<Longrightarrow>
     pre \<le> oe' \<and> pre \<le> ne' \<and> oe' \<le> length old \<and> ne' \<le> length new \<and> drop oe' old = drop ne' new"
proof (induction old new pre oe ne rule: common_suffix.induct)
  case (1 old new pre os ns)
  then show ?case
    by (auto split: if_splits simp: Suc_le_eq simp flip: Cons_nth_drop_Suc)
qed auto

lemma spells_equal_run:
  "old = map f [0..<n] \<Longrightarrow>
     spells (map (\<lambda>k. equal_op (f k) (ol + k) (nl + k)) [0..<n]) old old ol nl"
proof (induction n arbitrary: old)
  case (Suc n)
  have "spells [equal_op (f n) (ol + n) (nl + n)] [f n] [f n] (ol + n) (nl + n)"
    by (rule spells_equal) simp
  then show ?case using spells_append [OF Suc.IH [OF refl]] Suc.prems by simp
qed simp

lemma spells_delete_run:
  "spells (map (\<lambda>k. delete_op (f k) (ol + k)) [0..<n]) (map f [0..<n]) [] ol nl"
proof (induction n)
  case (Suc n)
  have "spells [delete_op (f n) (ol + n)] [f n] [] (ol + n) nl"
    by (rule spells_delete) simp
  then show ?case using spells_append [OF Suc.IH] by simp
qed simp

lemma spells_insert_run:
  "spells (map (\<lambda>k. insert_op (f k) (nl + k)) [0..<n]) [] (map f [0..<n]) ol nl"
proof (induction n)
  case (Suc n)
  have "spells [insert_op (f n) (nl + n)] [] [f n] ol (nl + n)"
    by (rule spells_insert) simp
  then show ?case using spells_append [OF Suc.IH] by simp
qed simp

lemma map_upt_shift: "map f [i..<j] = map (\<lambda>k. f (i + k)) [0..<j - i]"
  by (rule nth_equalityI) auto

lemma map_nth_take_drop: "i + n \<le> length xs \<Longrightarrow> map (\<lambda>k. xs ! (i + k)) [0..<n] = take n (drop i xs)"
  by (rule nth_equalityI) auto

lemma diffLinesByPrefixSuffix_spells: "spells (diffLinesByPrefixSuffix old new) old new 1 1"
proof -
  let ?p = "common_prefix old new 0"
  obtain oe ne where e: "common_suffix old new ?p (length old) (length new) = (oe, ne)"
    by (cases "common_suffix old new ?p (length old) (length new)")
  have P: "?p \<le> length old" "?p \<le> length new" "take ?p old = take ?p new"
    using common_prefix_spec [of 0 old new] by auto
  have S: "?p \<le> oe" "?p \<le> ne" "oe \<le> length old" "ne \<le> length new" "drop oe old = drop ne new"
    using common_suffix_spec [OF e] P by auto
  let ?o = "take (oe - ?p) (drop ?p old)" and ?n = "take (ne - ?p) (drop ?p new)"
  have len: "length old - oe = length new - ne" using S(5) by (metis length_drop)
  have 1: "spells (map (\<lambda>i. equal_op (old ! i) (i + 1) (i + 1)) [0..<?p]) (take ?p old) (take ?p new) 1 1"
    using spells_equal_run [of "take ?p old" "\<lambda>k. old ! k" ?p 1 1] map_nth_take_drop [of 0 ?p old] P
    by simp
  have 2: "spells (map (\<lambda>i. delete_op (old ! i) (i + 1)) [?p..<oe]) ?o [] (1 + ?p) (1 + ?p)"
    using spells_delete_run [of "\<lambda>k. old ! (?p + k)" "1 + ?p" "oe - ?p" "1 + ?p"] S
      map_nth_take_drop [of ?p "oe - ?p" old] by (simp add: map_upt_shift [of _ ?p] comp_def)
  have 3: "spells (map (\<lambda>i. insert_op (new ! i) (i + 1)) [?p..<ne]) [] ?n (1 + oe) (1 + ?p)"
    using spells_insert_run [of "\<lambda>k. new ! (?p + k)" "1 + ?p" "ne - ?p" "1 + oe"] S
      map_nth_take_drop [of ?p "ne - ?p" new] by (simp add: map_upt_shift [of _ ?p] comp_def)
  have 4: "spells (map (\<lambda>k. equal_op (old ! (oe + k)) (oe + k + 1) (ne + k + 1)) [0..<length old - oe])
      (drop oe old) (drop ne new) (1 + oe) (1 + ne)"
    using spells_equal_run [of "drop oe old" "\<lambda>k. old ! (oe + k)" "length old - oe" "1 + oe" "1 + ne"]
      map_nth_take_drop [of oe "length old - oe" old] S len by simp
  have old: "take ?p old @ ?o @ drop oe old = old"
    using slice_append_drop [of ?p oe old] S by (simp add: slice_def)
  have new: "take ?p new @ ?n @ drop ne new = new"
    using slice_append_drop [of ?p ne new] S by (simp add: slice_def)
  have l: "length ?o = oe - ?p" "length ?n = ne - ?p" using S by auto
  note 34 = spells_append' [OF 3 4, of "drop oe old" "?n @ drop ne new"]
  note 234 = spells_append' [OF 2 34, of "?o @ drop oe old" "?n @ drop ne new"]
  note 1234 = spells_append' [OF 1 234, of "take ?p old @ ?o @ drop oe old" "take ?p new @ ?n @ drop ne new"]
  have "spells (diffLinesByPrefixSuffix old new) (take ?p old @ ?o @ drop oe old)
      (take ?p new @ ?n @ drop ne new) 1 1"
    unfolding diffLinesByPrefixSuffix_def Let_def e prod.case len [symmetric] min.idem
    by (rule 1234) (use l S P in \<open>simp_all del: One_nat_def\<close>)
  then show ?thesis by (simp add: old new)
qed

lemma diffLines_spells_lemma: "spells (diffLines old new) old new 1 1"
  using diff_walk_spells [of "lcs_table old new" old new 0 0 1 1]
  by (simp add: diffLines_def diffLinesByPrefixSuffix_spells del: One_nat_def)

subsection \<open>Longest common subsequences\<close>

fun lcs :: "string list \<Rightarrow> string list \<Rightarrow> nat" where
  "lcs [] ys = 0"
| "lcs (x # xs) [] = 0"
| "lcs (x # xs) (y # ys) =
     (if x = y then lcs xs ys + 1 else max (lcs xs (y # ys)) (lcs (x # xs) ys))"

lemma lcs_Nil2 [simp]: "lcs xs [] = 0"
  by (cases xs) auto

fun lcs_line :: "string list \<Rightarrow> string list \<Rightarrow> nat list" where
  "lcs_line xs [] = [0]"
| "lcs_line xs (y # ys) = lcs xs (y # ys) # lcs_line xs ys"

lemma hd_lcs_line [simp]: "hd (lcs_line xs ys) = lcs xs ys"
  by (cases ys) auto

lemma lcs_line_Nil: "lcs_line [] ys = replicate (length ys + 1) 0"
  by (induction ys) auto

lemma lcs_row_line: "lcs_row x ys (lcs_line xs ys) = lcs_line (x # xs) ys"
  by (induction ys) (auto simp: Let_def)

lemma lcs_table_lines: "i \<le> length xs \<Longrightarrow> lcs_table xs ys ! i = lcs_line (drop i xs) ys"
proof (induction xs arbitrary: i)
  case Nil
  then show ?case by (simp add: lcs_line_Nil)
next
  case (Cons x xs)
  have "hd (lcs_table xs ys) = lcs_line xs ys"
    using Cons.IH [of 0] by (cases xs) (auto simp: lcs_line_Nil Let_def)
  with Cons show ?case by (cases i) (auto simp: Let_def lcs_row_line)
qed

lemma lcs_line_nth: "j \<le> length ys \<Longrightarrow> lcs_line xs ys ! j = lcs xs (drop j ys)"
  by (induction ys arbitrary: j) (auto simp: nth_Cons' drop_Cons')

lemma lcs_table_nth:
  "i \<le> length xs \<Longrightarrow> j \<le> length ys \<Longrightarrow> lcs_table xs ys ! i ! j = lcs (drop i xs) (drop j ys)"
  by (simp add: lcs_table_lines lcs_line_nth)

text \<open>No common subsequence is longer than the table says.\<close>

lemma lcs_upper: "subseq zs xs \<Longrightarrow> subseq zs ys \<Longrightarrow> length zs \<le> lcs xs ys"
proof (induction xs ys arbitrary: zs rule: lcs.induct)
  case (3 x xs y ys)
  show ?case
  proof (cases zs)
    case (Cons z zs')
    show ?thesis
    proof (cases "x = y")
      case True
      have "subseq zs' xs" "subseq zs' ys"
        using 3(4,5) Cons by (auto dest: subseq_Cons' split: if_splits)
      then show ?thesis using 3(1) [OF True] True Cons by auto
    next
      case False
      then have "subseq zs xs \<or> subseq zs ys"
        using 3(4,5) Cons by (auto split: if_splits)
      with 3(2,3) [OF False] 3(4,5) False show ?thesis by fastforce
    qed
  qed simp
qed auto

lemma diff_walk_equals:
  "length (filter is_equal (diff_walk (lcs_table old new) old new i j ol nl)) =
     lcs (drop i old) (drop j new)"
proof (induction "lcs_table old new" old new i j ol nl rule: diff_walk.induct)
  case (1 old new i j ol nl)
  have d: "i < length old \<Longrightarrow> drop i old = old ! i # drop (Suc i) old"
    "j < length new \<Longrightarrow> drop j new = new ! j # drop (Suc j) new"
    by (simp_all add: Cons_nth_drop_Suc)
  have op: "\<not> is_equal (delete_op l k)" "\<not> is_equal (insert_op l k)" "is_equal (equal_op l k k')"
    for l k k' by (simp_all add: is_equal_def op_defs)
  consider (both) "i < length old" "j < length new" | (old) "i < length old" "\<not> j < length new" |
      (new) "\<not> i < length old" "j < length new" | (none) "\<not> i < length old" "\<not> j < length new"
    by blast
  then show ?case
  proof cases
    case both
    have t: "lcs_table old new ! Suc i ! j = lcs (drop (Suc i) old) (drop j new)"
      "lcs_table old new ! i ! Suc j = lcs (drop i old) (drop (Suc j) new)"
      using both by (auto intro!: lcs_table_nth)
    show ?thesis
    proof (cases "old ! i = new ! j")
      case True
      then show ?thesis using 1(1) both d op by (subst diff_walk.simps) simp
    next
      case False
      have l: "lcs (drop i old) (drop j new) =
          max (lcs (drop (Suc i) old) (drop j new)) (lcs (drop i old) (drop (Suc j) new))"
        using both d False by simp
      show ?thesis
        using 1(2,3) both op False t unfolding l
        by (subst diff_walk.simps) (auto simp: max_def)
    qed
  next
    case old
    then show ?thesis using 1(4) op by (subst diff_walk.simps) simp
  next
    case new
    then show ?thesis using 1(5) op by (subst diff_walk.simps) simp
  next
    case none
    then show ?thesis by (subst diff_walk.simps) simp
  qed
qed

subsection \<open>Hunks\<close>

definition equal_range :: "diff_op list \<Rightarrow> nat \<Rightarrow> nat \<Rightarrow> bool" where
  "equal_range ops a b \<longleftrightarrow> (\<forall>k. a \<le> k \<and> k < b \<longrightarrow> is_equal (ops ! k))"

lemma equal_range_empty [simp]: "b \<le> a \<Longrightarrow> equal_range ops a b"
  by (auto simp: equal_range_def)

lemma equal_range_join: "equal_range ops a b \<Longrightarrow> equal_range ops b c \<Longrightarrow> equal_range ops a c"
  by (auto simp: equal_range_def) (meson not_le)

lemma equal_range_shrink: "equal_range ops a b \<Longrightarrow> b' \<le> b \<Longrightarrow> equal_range ops a b'"
  by (auto simp: equal_range_def)

lemma equal_range_slice: "equal_range ops a b \<Longrightarrow> b \<le> length ops \<Longrightarrow> list_all is_equal (slice ops a b)"
  by (auto simp: equal_range_def slice_def list_all_length)

lemma slice_equal_range: "list_all is_equal (slice ops a b) \<Longrightarrow> b \<le> length ops \<Longrightarrow> equal_range ops a b"
  by (auto simp: equal_range_def slice_def list_all_length) (metis add_diff_inverse_nat diff_less_mono leD)

lemma skip_equal_range:
  "i \<le> length ops \<Longrightarrow> equal_range ops i (skip_equal ops i) \<and> skip_equal ops i \<le> length ops"
proof (induction ops i rule: skip_equal.induct)
  case (1 ops i)
  show ?case
  proof (cases "i < length ops \<and> is_equal (ops ! i)")
    case True
    have "equal_range ops i k" if "equal_range ops (Suc i) k" for k
      using that True by (auto simp: equal_range_def) (metis Suc_leI le_neq_implies_less)
    with 1 True show ?thesis by (simp add: skip_equal.simps [of ops i])
  next
    case False
    then have "skip_equal ops i = i" by (simp only: skip_equal.simps [of ops i] if_False)
    with 1(2) show ?thesis by simp
  qed
qed

lemma scan_end_spec:
  "e \<le> length ops \<Longrightarrow> t \<le> e \<Longrightarrow> equal_range ops (e - t) e \<Longrightarrow> scan_end ops e t = e' \<Longrightarrow>
     e' \<le> length ops \<and> (e' < length ops \<longrightarrow> is_equal (ops ! e') \<and> 6 \<le> e' \<and> equal_range ops (e' - 6) e')"
proof (induction ops e t rule: scan_end.induct)
  case (1 ops e t)
  show ?case
  proof (cases "e < length ops")
    case True
    show ?thesis
    proof (cases "is_equal (ops ! e)")
      case eq: True
      have r: "equal_range ops (e - t) (Suc e)"
        using 1(5) eq by (auto simp: equal_range_def less_Suc_eq)
      show ?thesis
      proof (cases "t + 1 > 6")
        case six: True
        then have "e' = e" using 1(6) True eq by (simp add: scan_end.simps [of ops e])
        moreover have "equal_range ops (e - 6) e"
          using 1(5) six by (auto simp: equal_range_def)
        ultimately show ?thesis using True eq six 1(4) by simp
      next
        case False
        then show ?thesis using 1(1) [OF True eq] 1(4,6) True eq r by (simp add: scan_end.simps [of ops e])
      qed
    next
      case False
      then show ?thesis using 1(2) [OF True False] 1(6) True
        by (simp add: scan_end.simps [of ops e])
    qed
  next
    case False
    then have "e' = e" using 1(6) by (simp add: scan_end.simps [of ops e])
    with False 1(3) show ?thesis by simp
  qed
qed

lemma trim_hunk_spec:
  defines "t h \<equiv> length (takeWhile is_equal (rev h))"
  shows "trim_hunk h = take (length h - (t h - 3)) h \<and> t (trim_hunk h) \<le> 3 \<and>
    list_all is_equal (drop (length h - (t h - 3)) h)"
proof -
  define s where "s = rev (takeWhile is_equal (rev h))"
  define p where "p = rev (dropWhile is_equal (rev h))"
  have h: "h = p @ s"
    unfolding s_def p_def by (metis rev_append rev_rev_ident takeWhile_dropWhile_id)
  have s: "length s = t h" "list_all is_equal s"
    by (auto simp: s_def t_def list_all_iff dest: set_takeWhileD)
  have p: "p = [] \<or> \<not> is_equal (last p)"
    using hd_dropWhile [of is_equal "rev h"] by (auto simp: p_def last_rev)
  have "takeWhile is_equal (rev (p @ take n s)) = rev (take n s)" for n
  proof -
    have "list_all is_equal (take n s)" using s(2) by (meson list_all_iff in_set_takeD)
    moreover have "takeWhile is_equal (rev p) = []"
      using p by (cases p rule: rev_cases) auto
    ultimately show ?thesis
      using takeWhile_append2 [of "rev (take n s)" is_equal "rev p"] by (simp add: list_all_iff)
  qed
  note tw = this
  have len: "length h - (t h - 3) = length p + (length s - (length s - 3))"
    using h s(1) by simp
  have "trim_hunk h = take (length h - (t h - 3)) h"
    by (simp add: trim_hunk_def t_def Let_def)
  moreover have "take (length h - (t h - 3)) h = p @ take (length s - (length s - 3)) s"
    by (subst (2) h) (simp add: len)
  moreover have "drop (length h - (t h - 3)) h = drop (length s - (length s - 3)) s"
    by (subst (2) h) (simp add: len)
  moreover have "list_all is_equal (drop n s)" for n
    using s(2) by (meson list_all_iff in_set_dropD)
  ultimately show ?thesis using tw [of "length s - (length s - 3)"] by (simp add: t_def)
qed

lemma takeWhile_rev_append:
  "list_all P s \<Longrightarrow> takeWhile P (rev s @ xs) = rev s @ takeWhile P xs"
  by (rule takeWhile_append2) (simp add: list_all_iff)

text \<open>
  One turn of the hunk loop: from a position \<open>q\<close> with only equal operations up to \<open>index\<close>, the
  hunk is the window from \<open>start \<ge> q\<close> to \<open>q'\<close>, and only equal operations lie between \<open>q'\<close> and
  the next index.
\<close>

definition ready :: "diff_op list \<Rightarrow> nat \<Rightarrow> nat \<Rightarrow> bool" where
  "ready ops q index \<longleftrightarrow> q \<le> index \<and> index \<le> length ops \<and> equal_range ops q index \<and>
     (q = 0 \<and> index = 0 \<or> index = length ops \<or> is_equal (ops ! index) \<and> q + 3 \<le> index)"

lemma build_hunks_step:
  assumes "ready ops q index" and "index < length ops" and i1: "i1 = skip_equal ops index"
    and "i1 < length ops" and e: "e = scan_end ops i1 0"
  shows "\<exists>q'. trim_hunk (slice ops (i1 - 3) e) = slice ops (i1 - 3) q' \<and> q \<le> i1 - 3 \<and>
     i1 < q' \<and> q' \<le> length ops \<and> equal_range ops q (i1 - 3) \<and> ready ops q' e"
proof -
  let ?h = "slice ops (i1 - 3) e"
  define t where "t = length (takeWhile is_equal (rev ?h))"
  have ne: "\<not> is_equal (ops ! i1)" using skip_equal_stop [of ops index] assms(3,4) by simp
  have i1r: "equal_range ops index i1" "index \<le> i1"
    using skip_equal_range [of index ops] skip_equal_ge [of index ops] assms(2,3) by auto
  have q: "q \<le> i1 - 3"
  proof (cases "q = 0")
    case False
    then have "is_equal (ops ! index)" "q + 3 \<le> index" using assms(1,2) by (auto simp: ready_def)
    with i1r show ?thesis by simp
  qed simp
  have rq: "equal_range ops q (i1 - 3)"
    using i1r(1) assms(1) equal_range_join [of ops q index i1] equal_range_shrink [of ops q i1 "i1 - 3"]
    by (simp add: ready_def)
  have e': "i1 < e" "e \<le> length ops"
    "e < length ops \<Longrightarrow> is_equal (ops ! e) \<and> 6 \<le> e \<and> equal_range ops (e - 6) e"
    using scan_end_gt [of i1 ops 0] ne assms(4) e scan_end_spec [of i1 ops 0 e] by auto
  have lenh: "length ?h = e - (i1 - 3)" using e' by (simp add: slice_def)
  have T: "trim_hunk ?h = take (length ?h - (t - 3)) ?h" "list_all is_equal (drop (length ?h - (t - 3)) ?h)"
    using trim_hunk_spec [of ?h] by (auto simp: t_def)
  define q' where "q' = e - (t - 3)"
  have tl: "t - 3 \<le> e - i1 - 1"
  proof (rule ccontr)
    assume far: "\<not> t - 3 \<le> e - i1 - 1"
    define d where "d = length ?h - (t - 3)"
    define k where "k = i1 - (i1 - 3)"
    have "d \<le> k" "k < length ?h" using far lenh e' by (auto simp: d_def k_def)
    then have "is_equal (drop d ?h ! (k - d))" and "drop d ?h ! (k - d) = ?h ! k"
      using T(2) unfolding d_def [symmetric] by (auto simp: list_all_length dest: spec [of _ "k - d"])
    moreover have "?h ! k = ops ! i1" using e' by (simp add: slice_def k_def)
    ultimately have "is_equal (ops ! i1)" by simp
    with ne show False ..
  qed
  have hq: "trim_hunk ?h = slice ops (i1 - 3) q'"
  proof -
    have "e - (i1 - 3) - (t - 3) = q' - (i1 - 3)" "q' - (i1 - 3) \<le> e - (i1 - 3)"
      by (auto simp: q'_def)
    then show ?thesis using T(1) unfolding lenh by (simp add: slice_def min_absorb1)
  qed
  have dr: "drop (length ?h - (t - 3)) ?h = slice ops q' e"
    using tl e' by (simp add: lenh q'_def slice_def drop_take)
  have rq': "equal_range ops q' e"
    using T(2) e'(2) slice_equal_range by (simp only: dr)
  have "e < length ops \<longrightarrow> q' + 3 \<le> e"
  proof
    assume lt: "e < length ops"
    have i6: "i1 < e - 6" using e'(3) [OF lt] ne by (auto simp: equal_range_def not_less)
      (metis e'(1) not_le)
    then have "?h = slice ops (i1 - 3) (e - 6) @ slice ops (e - 6) e"
      by (intro slice_append_slice [symmetric]) auto
    moreover have "list_all is_equal (slice ops (e - 6) e)"
      using e'(3) [OF lt] lt by (intro equal_range_slice) auto
    ultimately have "takeWhile is_equal (rev ?h) = rev (slice ops (e - 6) e) @
        takeWhile is_equal (rev (slice ops (i1 - 3) (e - 6)))"
      by (simp add: takeWhile_rev_append)
    then have "6 \<le> t" using e'(3) [OF lt] lt by (simp add: t_def slice_def)
    then show "q' + 3 \<le> e" using tl i6 by (simp add: q'_def)
  qed
  then have "ready ops q' e"
    using e' rq' by (auto simp: ready_def q'_def)
  moreover have "i1 < q'" "q' \<le> length ops" using tl e' by (auto simp: q'_def)
  ultimately show ?thesis using hq q rq by blast
qed

fun interleave :: "'a list list \<Rightarrow> 'a list list \<Rightarrow> 'a list" where
  "interleave (g # gs) (h # hs) = g @ h @ interleave gs hs"
| "interleave gs hs = concat gs"

text \<open>A hunk holds a change, with at most three equal operations around it.\<close>

definition tight :: "diff_op list \<Rightarrow> bool" where
  "tight h \<longleftrightarrow> list_ex (\<lambda>op. \<not> is_equal op) h \<and> length (takeWhile is_equal h) \<le> 3 \<and>
     length (takeWhile is_equal (rev h)) \<le> 3"

definition hunks_of :: "diff_op list \<Rightarrow> diff_op list list \<Rightarrow> bool" where
  "hunks_of ops hs \<longleftrightarrow>
     (\<exists>gaps. length gaps = Suc (length hs) \<and> list_all (list_all is_equal) gaps \<and>
        ops = interleave gaps hs) \<and> list_all tight hs"

lemma hunks_of_Cons:
  assumes "hunks_of rest hs" and "list_all is_equal g" and "tight h"
  shows "hunks_of (g @ h @ rest) (h # hs)"
proof -
  obtain gaps where "length gaps = Suc (length hs)" "list_all (list_all is_equal) gaps"
      "rest = interleave gaps hs"
    using assms(1) by (auto simp: hunks_of_def)
  with assms show ?thesis
    by (auto simp: hunks_of_def intro!: exI [of _ "g # gaps"])
qed

lemma hunks_of_Nil: "list_all is_equal ops \<Longrightarrow> hunks_of ops []"
  by (auto simp: hunks_of_def intro!: exI [of _ "[ops]"])

lemma tight_window:
  assumes "\<not> is_equal (ops ! i)" "i < q'" "q' \<le> length ops"
    and "trim_hunk h = slice ops (i - 3) q'"
  shows "tight (slice ops (i - 3) q')"
proof -
  let ?w = "slice ops (i - 3) q'" and ?k = "i - (i - 3)"
  have k: "?k < length ?w" "?w ! ?k = ops ! i" using assms(2,3) by (auto simp: slice_def)
  have "length (takeWhile is_equal ?w) \<le> ?k"
  proof (rule ccontr)
    assume "\<not> ?thesis"
    then have "?k < length (takeWhile is_equal ?w)" by simp
    then have "is_equal (takeWhile is_equal ?w ! ?k)" "takeWhile is_equal ?w ! ?k = ?w ! ?k"
      by (meson nth_mem set_takeWhileD takeWhile_nth)+
    with k assms(1) show False by simp
  qed
  moreover have "?k \<le> 3" by simp
  moreover have "list_ex (\<lambda>op. \<not> is_equal op) ?w"
    using k assms(1) by (auto simp: list_ex_length)
  moreover have "length (takeWhile is_equal (rev ?w)) \<le> 3"
    using trim_hunk_spec [of h] unfolding assms(4) by (elim conjE)
  ultimately show ?thesis unfolding tight_def by linarith
qed

lemma build_hunks_windows: "ready ops q index \<Longrightarrow> hunks_of (drop q ops) (build_hunks ops index)"
proof (induction ops index arbitrary: q rule: build_hunks.induct)
  case (1 ops index)
  let ?i1 = "skip_equal ops index"
  have r: "q \<le> index" "index \<le> length ops" "equal_range ops q index"
    using 1(2) by (auto simp: ready_def)
  have S: "equal_range ops q ?i1" "?i1 \<le> length ops"
    using skip_equal_range [OF r(2)] equal_range_join [OF r(3)] by auto
  show ?case
  proof (cases "?i1 < length ops")
    case True
    then have lt: "index < length ops" using skip_equal_ge [of index ops] by simp
    obtain q' where q': "trim_hunk (slice ops (?i1 - 3) (scan_end ops ?i1 0)) = slice ops (?i1 - 3) q'"
        "q \<le> ?i1 - 3" "?i1 < q'" "q' \<le> length ops" "equal_range ops q (?i1 - 3)"
        "ready ops q' (scan_end ops ?i1 0)"
      using build_hunks_step [OF 1(2) lt refl True refl] by blast
    have "build_hunks ops index = slice ops (?i1 - 3) q' # build_hunks ops (scan_end ops ?i1 0)"
      using lt True q'(1) by (subst build_hunks.simps) (simp add: Let_def)
    moreover have "hunks_of (drop q' ops) (build_hunks ops (scan_end ops ?i1 0))"
      using 1(1) [OF lt refl _ refl refl q'(6)] True by simp
    moreover have "tight (slice ops (?i1 - 3) q')"
      using tight_window [OF skip_equal_stop [OF True] q'(3,4,1)] .
    moreover have "drop q ops = slice ops q (?i1 - 3) @ slice ops (?i1 - 3) q' @ drop q' ops"
      using q'(2,3) by (simp add: slice_append_drop)
    moreover have "list_all is_equal (slice ops q (?i1 - 3))"
      using q'(4,5) S(2) by (intro equal_range_slice) auto
    ultimately show ?thesis by (simp add: hunks_of_Cons)
  next
    case False
    then have "build_hunks ops index = []"
      by (subst build_hunks.simps) (simp add: Let_def)
    moreover have "list_all is_equal (slice ops q (length ops))"
      using S False by (intro equal_range_slice) auto
    ultimately show ?thesis by (simp add: slice_def hunks_of_Nil)
  qed
qed

lemma ready_0 [simp]: "ready ops 0 0"
  by (simp add: ready_def)

subsection \<open>The patch\<close>

lemma byte_length_ascii: "\<forall>c \<in> set s. (of_char c :: nat) < 128 \<Longrightarrow> byte_length s = length s"
  by (induction s) (auto simp: byte_length_def)

lemma truncation_marker_ascii: "\<forall>c \<in> set (truncation_marker m). (of_char c :: nat) < 128"
proof -
  have "(of_char c :: nat) < 128" if "is_digit c" for c
    using that by (auto simp: is_digit_def Let_def)
  then show ?thesis using nat_str_digits [of m] by (auto simp: truncation_marker_def LF_def)
qed

lemma patch_loop_bound:
  "byte_length acc \<le> m \<Longrightarrow> byte_length (patch (patch_loop cs m acc om)) \<le> m"
proof (induction cs m acc om rule: patch_loop.induct)
  case (2 c cs m acc om)
  have "byte_length (take (m - byte_length acc) (truncation_marker m)) \<le> m - byte_length acc"
    using truncation_marker_ascii [of m] by (subst byte_length_ascii) (auto dest: in_set_takeD)
  with 2 show ?case by (auto simp: Let_def)
qed simp

lemma patch_loop_complete:
  "\<not> truncated (patch_loop cs m acc om) \<Longrightarrow>
     patch (patch_loop cs m acc om) = acc @ concat (map change_section cs) \<and>
     omitted (patch_loop cs m acc om) =
       om @ map (\<lambda>c. (path c, omitted_reason c)) (filter omitted_change cs)"
  by (induction cs m acc om rule: patch_loop.induct) (auto simp: Let_def split: if_splits)

subsection \<open>The theorems\<close>

text \<open>
  C12. The operations spell both files: without the insertions they are the old file, without
  the deletions the new one, and the old and new line numbers count both from 1.  This holds of
  the table path and of the large-file path.
\<close>

theorem diffLines_spells:
  "old_of (diffLines old new) = old \<and> new_of (diffLines old new) = new \<and>
   old_numbers (diffLines old new) = map Some [1..<1 + length old] \<and>
   new_numbers (diffLines old new) = map Some [1..<1 + length new]"
  using diffLines_spells_lemma [of old new] unfolding spells_def .

text \<open>
  Within the table's size limit the diff is minimal: the lines it keeps form a common
  subsequence of the two files (they are what both spellings share) and no common subsequence
  is longer.
\<close>

theorem diffLines_longest_common_subsequence:
  assumes "length old * length new \<le> 4000000" and "subseq zs old" and "subseq zs new"
  shows "length zs \<le> length (filter is_equal (diffLines old new))"
  using assms lcs_upper [OF assms(2,3)] diff_walk_equals [of old new 0 0 1 1]
  by (simp add: diffLines_def)

lemma diffLines_longest_common_subsequence_witness:
  "length [''b''] \<le> length (filter is_equal (diffLines [''a'', ''b''] [''b'', ''c'']))"
  by (rule diffLines_longest_common_subsequence) simp_all

text \<open>
  The hunks of a diff are disjoint windows of its operations, in order: between them lie
  only equal lines, and each hunk holds a change with at most three equal lines before its
  first and after its last change.
\<close>

theorem build_hunks_cover:
  "hunks_of (diffLines old new) (build_hunks (diffLines old new) 0)"
  using build_hunks_windows [OF ready_0, of "diffLines old new"] by simp

text \<open>
  The patch stays within its byte budget, its truncation marker included, and a patch that
  is not truncated is the concatenation of the sections of all changes.
\<close>

theorem buildUnifiedPatch_budget:
  "byte_length (patch (buildUnifiedPatch cs m)) \<le> m \<and>
   (truncated (buildUnifiedPatch cs m) \<or>
    patch (buildUnifiedPatch cs m) = concat (map change_section cs))"
  using patch_loop_bound [of "[]" m cs "[]"] patch_loop_complete [of cs m "[]" "[]"]
  by (auto simp: buildUnifiedPatch_def)

end
