(* ===== verification/Patch_Roundtrip.thy ===== *)
theory Patch_Roundtrip
  imports Patch_Engine_Spec Unified_Diff_Spec
begin

text \<open>
  The two diff dialects of the program agree: the operations \<open>diff.ts\<close> computes between two
  files, printed as section lines, are a V4A diff that \<open>apply-patch/engine.ts\<close> applies to the
  old file to get the new one.
\<close>

lemma applyChunks_loop_append:
  "applyChunks_loop xs i d (a @ b) =
     (case applyChunks_loop xs i d a of Inl e \<Rightarrow> Inl e | Inr (j, d') \<Rightarrow> applyChunks_loop xs j d' b)"
  by (induction xs i d a rule: applyChunks_loop.induct) auto

text \<open>
  The section state after the operations \<open>ops\<close>: its context is their old file, and applying its
  chunks and the pending one gives their new file.
\<close>

definition renders :: "section_state \<Rightarrow> diff_op list \<Rightarrow> bool" where
  "renders s ops \<longleftrightarrow> sec_inv s \<and> old_of ops = ctxt s \<and>
     (\<exists>j dest. j \<le> length (ctxt s) - length (dels s) \<and>
        (\<forall>rest. applyChunks_loop (ctxt s @ rest) 0 [] (chunks s) = Inr (j, dest)) \<and>
        new_of ops = dest @ slice (ctxt s) j (length (ctxt s) - length (dels s)) @ inss s)"

lemma renders_dels: "renders s ops \<Longrightarrow> length (dels s) \<le> length (ctxt s)"
  unfolding renders_def sec_inv_def by blast

lemma renders_init: "renders section_init []"
  by (auto simp: renders_def section_init_def old_of_def new_of_def sec_inv_def)

lemma slice_append_left: "j \<le> length xs \<Longrightarrow> slice (xs @ ys) i j = slice xs i j"
  by (simp add: slice_def)

lemma renders_flush:
  assumes "renders s ops"
  shows "renders (flush_chunk s) ops"
proof (cases "inss s \<noteq> [] \<or> dels s \<noteq> []")
  case True
  obtain j dest where jd: "j \<le> length (ctxt s) - length (dels s)"
      "\<And>rest. applyChunks_loop (ctxt s @ rest) 0 [] (chunks s) = Inr (j, dest)"
      "new_of ops = dest @ slice (ctxt s) j (length (ctxt s) - length (dels s)) @ inss s"
    using assms by (auto simp: renders_def)
  have le: "length (dels s) \<le> length (ctxt s)" by (rule renders_dels [OF assms])
  have "applyChunks_loop (ctxt s @ rest) 0 [] (chunks (flush_chunk s)) =
      Inr (length (ctxt s), new_of ops)" for rest
    using True jd le by (simp add: flush_chunk_def applyChunks_loop_append slice_append_left)
  moreover have "sec_inv (flush_chunk s)" using assms by (simp add: renders_def flush_chunk_inv)
  ultimately show ?thesis using assms by (simp add: renders_def slice_def)
next
  case False
  then show ?thesis using assms by (simp add: flush_chunk_def)
qed

lemma renders_mode:
  assumes "renders s ops" and "m = KeepMode \<longrightarrow> dels s = [] \<and> inss s = []"
  shows "renders (s\<lparr>mode := m\<rparr>) ops"
proof -
  have "sec_inv s" using assms(1) unfolding renders_def by blast
  then have "sec_inv (s\<lparr>mode := m\<rparr>)" using assms(2) by (auto simp: sec_inv_def)
  then show ?thesis using assms(1) by (simp add: renders_def)
qed

lemma old_of_snoc: "old_of (ops @ [op]) = old_of ops @ (if op_type op = Insert then [] else [op_line op])"
  by (simp add: old_of_def)

lemma new_of_snoc: "new_of (ops @ [op]) = new_of ops @ (if op_type op = Delete then [] else [op_line op])"
  by (simp add: new_of_def)

lemma renders_line:
  assumes "renders s ops"
  shows "\<exists>s'. section_line s (op_text op) = Inr s' \<and> renders s' (ops @ [op])"
proof -
  have ne: "op_text op \<noteq> []" by (simp add: op_text_def split: op_type.splits)
  obtain s' where s': "section_line s (op_text op) = Inr s'"
    by (cases "op_type op") (auto simp: section_line_def op_text_def line_mode_of_def Let_def)
  have inv: "sec_inv s'" using section_line_inv [OF s'] assms by (simp add: renders_def)
  have "renders s' (ops @ [op])"
  proof (cases "op_type op")
    case Equal
    define t where "t = (if mode s \<noteq> KeepMode then flush_chunk (s\<lparr>mode := KeepMode\<rparr>) else s)"
    have "flush_chunk (s\<lparr>mode := KeepMode\<rparr>) = (flush_chunk s)\<lparr>mode := KeepMode\<rparr>"
      by (simp add: flush_chunk_def)
    then have t: "renders t ops" "dels t = []" "inss t = []" "mode t = KeepMode"
      using renders_mode [OF renders_flush [OF assms]] assms
      by (auto simp: t_def renders_def sec_inv_def)
    have st: "s' = t\<lparr>ctxt := ctxt t @ [op_line op]\<rparr>"
      using s' ne Equal
      by (auto simp: section_line_def op_text_def line_mode_of_def Let_def t_def)
    obtain j dest where jd: "j \<le> length (ctxt t)"
        "\<And>rest. applyChunks_loop (ctxt t @ rest) 0 [] (chunks t) = Inr (j, dest)"
        "new_of ops = dest @ slice (ctxt t) j (length (ctxt t))"
      using t by (auto simp: renders_def)
    have "new_of (ops @ [op]) =
        dest @ slice (ctxt t @ [op_line op]) j (length (ctxt t @ [op_line op]))"
      using jd(1,3) Equal by (simp add: new_of_snoc slice_def)
    with jd t inv Equal show ?thesis
      unfolding renders_def by (auto simp: st old_of_snoc renders_def)
  next
    case Insert
    then have st: "s' = s\<lparr>mode := AddMode, inss := inss s @ [op_line op]\<rparr>"
      using s' ne by (auto simp: section_line_def op_text_def line_mode_of_def Let_def)
    with assms inv Insert show ?thesis
      by (auto simp: renders_def old_of_snoc new_of_snoc)
  next
    case Delete
    then have st: "s' = s\<lparr>mode := DeleteMode, dels := dels s @ [op_line op],
        ctxt := ctxt s @ [op_line op]\<rparr>"
      using s' ne by (auto simp: section_line_def op_text_def line_mode_of_def Let_def)
    have "length (dels s) \<le> length (ctxt s)" by (rule renders_dels [OF assms])
    with assms inv Delete st show ?thesis
      by (auto simp: renders_def old_of_snoc new_of_snoc slice_append_left)
  qed
  with s' show ?thesis by blast
qed

lemma op_text_first:
  "\<exists>c r. op_text op = c # r \<and> c \<in> {CHR ''+'', CHR ''-'', CHR '' ''}"
  by (cases "op_type op") (auto simp: op_text_def)

lemma op_text_nonempty: "op_text op \<noteq> []"
  using op_text_first [of op] by auto

lemma op_text_plain:
  "\<not> section_stop (op_text op)" "op_text op \<noteq> ''***''" "\<not> starts_with (op_text op) ''***''"
  "\<not> list_ex (starts_with (op_text op)) END_SECTION_MARKERS" "\<not> starts_with (op_text op) ''@@ ''"
  "op_text op \<noteq> ''@@''"
  using op_text_first [of op]
  by (auto simp: section_stop_def END_PATCH_def END_FILE_def END_SECTION_MARKERS_def)

lemma section_loop_renders:
  "i \<le> length ops \<Longrightarrow> renders s (take i ops) \<Longrightarrow>
     \<exists>s'. section_loop (map op_text ops @ [END_PATCH]) i s = Inr (s', length ops) \<and> renders s' ops"
proof (induction "length ops - i" arbitrary: i s)
  case 0
  then show ?case
    by (subst section_loop.simps) (simp add: nth_append section_stop_def)
next
  case (Suc n)
  then have i: "i < length ops" "(map op_text ops @ [END_PATCH]) ! i = op_text (ops ! i)"
    by (auto simp: nth_append)
  obtain s' where s': "section_line s (op_text (ops ! i)) = Inr s'" "renders s' (take (Suc i) ops)"
    using renders_line [OF Suc.prems(2), of "ops ! i"] i by (auto simp: take_Suc_conv_app_nth)
  have "n = length ops - Suc i" using Suc.hyps(2) by simp
  from Suc.hyps(1) [OF this _ s'(2)] i(1) show ?case
    by (subst section_loop.simps) (simp add: i op_text_plain s'(1) less_SucI)
qed

lemma findContext_self:
  assumes "xs \<noteq> []"
  shows "findContext xs xs 0 False = Some (0, 0)"
proof -
  have "find_from (\<lambda>i. equalsSlice xs xs i id) 0 (length xs) = Some 0"
    using assms by (intro find_from_first) (auto simp: equalsSlice_def list_all_iff)
  with assms show ?thesis by (simp add: findContext_def findContextCore_def)
qed

lemma normalizeDiffLines_join:
  assumes "ls \<noteq> []" and "\<forall>l \<in> set ls. l \<noteq> [] \<and> LF \<notin> set l \<and> last l \<noteq> CR"
  shows "normalizeDiffLines (join [LF] ls) = ls"
proof -
  have "map chop_cr ls = ls" using assms(2) by (intro map_idI) (auto simp: chop_cr_def)
  with assms show ?thesis by (simp add: normalizeDiffLines_def split_lines_join)
qed

text \<open>A file line: no line feed inside, no carriage return at its end.\<close>

definition file_line :: "string \<Rightarrow> bool" where
  "file_line l \<longleftrightarrow> LF \<notin> set l \<and> (l = [] \<or> last l \<noteq> CR)"

lemma op_text_line: "file_line (op_line op) \<Longrightarrow> LF \<notin> set (op_text op) \<and> last (op_text op) \<noteq> CR"
  by (auto simp: file_line_def op_text_def js split: op_type.splits)

lemma parse_ops:
  assumes "old_of ops \<noteq> []"
  shows "\<exists>chs fz. parse_loop (old_of ops) \<lparr>lines = map op_text ops @ [END_PATCH], index = 0, fuzz = 0\<rparr> [] 0
           = Inr (chs, fz) \<and>
         (\<exists>j dest. applyChunks_loop (old_of ops) 0 [] chs = Inr (j, dest) \<and>
            dest @ drop j (old_of ops) = new_of ops)"
proof -
  let ?ls = "map op_text ops @ [END_PATCH]"
  let ?st = "\<lparr>lines = ?ls, index = 0, fuzz = 0\<rparr>"
  have ne: "ops \<noteq> []" using assms by (auto simp: old_of_def)
  then have l0: "?ls ! 0 = op_text (ops ! 0)" by (simp add: nth_append)
  obtain s where s: "section_loop ?ls 0 section_init = Inr (s, length ops)" "renders s ops"
    using section_loop_renders [of 0 ops section_init] renders_init by auto
  define t where "t = flush_chunk s"
  have t: "renders t ops" "dels t = []" "inss t = []" and ctxt: "ctxt t = old_of ops"
    using renders_flush [OF s(2)] by (auto simp: t_def renders_def)
  have nth: "js_nth ?ls (length ops) = Some END_PATCH" "END_PATCH \<noteq> END_FILE"
    by (simp_all add: js_nth_def nth_append END_PATCH_def END_FILE_def)
  have sec: "readSection ?ls 0 = Inr (old_of ops, chunks t, length ops, False)"
    using s(1) nth ne ctxt by (simp add: readSection_def Let_def t_def)
  have "readAnchor ?st = None"
    using l0 by (simp add: readAnchor_def readStr_def js_nth_def op_text_plain Let_def)
  then have anc: "readAnchors ?st [] 0 = (?st, [], 0)" by (simp add: readAnchors.simps [of ?st])
  have shift: "map (shift_chunk 0) cs = cs" for cs
    by (simp add: shift_chunk_def map_idI)
  have step: "parse_step (old_of ops) ?st [] 0 =
      Inr (?st\<lparr>index := length ops\<rparr>, chunks t, length (old_of ops))"
    using findContext_self [OF assms] sec anc by (simp add: parse_step_def shift)
  have d0: "\<not> isDone ?st END_SECTION_MARKERS"
    using ne l0 by (simp add: isDone_def op_text_plain)
  have d1: "isDone (?st\<lparr>index := length ops\<rparr>) END_SECTION_MARKERS"
    by (simp add: isDone_def nth_append END_SECTION_MARKERS_def)
  have "parse_loop (old_of ops) ?st [] 0 = Inr (chunks t, 0)"
    using step d0 d1 by (simp add: parse_loop.simps [of _ ?st] parse_loop.simps [of _ "\<lparr>lines = ?ls, index = length ops, fuzz = 0\<rparr>"])
  moreover obtain j dest where jd: "j \<le> length (ctxt t)"
      "\<And>rest. applyChunks_loop (ctxt t @ rest) 0 [] (chunks t) = Inr (j, dest)"
      "new_of ops = dest @ slice (ctxt t) j (length (ctxt t))"
    using t by (auto simp: renders_def)
  moreover have "applyChunks_loop (old_of ops) 0 [] (chunks t) = Inr (j, dest)"
    using jd(2) [of "[]"] ctxt by simp
  ultimately show ?thesis using ctxt by (auto simp: slice_def)
qed

text \<open>
  C1. The engine inverts the diff: for files of lines without stray line endings, applying the
  printed operations of \<open>diffLines\<close> to the old file yields the new file.
\<close>

theorem applyDiff_diffLines:
  assumes "old \<noteq> []" and "list_all file_line (old @ new)"
  shows "applyDiff (join [LF] old) (join [LF] (map op_text (diffLines old new))) = Inr (join [LF] new)"
proof -
  let ?ops = "diffLines old new"
  have sp: "old_of ?ops = old" "new_of ?ops = new"
    using diffLines_spells_lemma [of old new] by (auto simp: spells_def)
  have ne: "?ops \<noteq> []" using sp(1) assms(1) by (auto simp: old_of_def)
  have "op_line op \<in> set (old @ new)" if "op \<in> set ?ops" for op
  proof (cases "op_type op = Insert")
    case True
    then have "op_line op \<in> set (new_of ?ops)" using that by (auto simp: new_of_def)
    with sp show ?thesis by simp
  next
    case False
    then have "op_line op \<in> set (old_of ?ops)" using that by (auto simp: old_of_def)
    with sp show ?thesis by simp
  qed
  then have "\<forall>op \<in> set ?ops. file_line (op_line op)" using assms(2) by (simp add: list_all_iff)
  then have "\<forall>l \<in> set (map op_text ?ops). l \<noteq> [] \<and> LF \<notin> set l \<and> last l \<noteq> CR"
    using op_text_line op_text_nonempty by simp
  then have norm: "normalizeDiffLines (join [LF] (map op_text ?ops)) = map op_text ?ops"
    using ne by (intro normalizeDiffLines_join) auto
  have inp: "split_on LF (join [LF] old) = old"
    using assms by (intro split_on_join) (auto simp: list_all_iff file_line_def)
  obtain chs fz j dest where
    "parse_loop old \<lparr>lines = map op_text ?ops @ [END_PATCH], index = 0, fuzz = 0\<rparr> [] 0 = Inr (chs, fz)"
    "applyChunks_loop old 0 [] chs = Inr (j, dest)" "dest @ drop j old = new"
    using parse_ops [of ?ops] assms(1) unfolding sp by auto
  then show ?thesis
    by (simp add: applyDiff_def norm parseUpdateDiff_def inp applyChunks_def)
qed

lemma applyDiff_diffLines_witness:
  "applyDiff (join [LF] [''a'', ''b'']) (join [LF] (map op_text (diffLines [''a'', ''b''] [''b'', ''c''])))
     = Inr (join [LF] [''b'', ''c''])"
  by (rule applyDiff_diffLines) (simp_all add: js file_line_def)

end
