(* ===== verification/Patch_Envelope.thy ===== *)
theory Patch_Envelope
  imports Patch_Engine
begin

text \<open>
  The parser of canonical ApplyPatch envelopes, \<open>src/src/apply-patch/envelope.ts\<close>, with the
  path marker rule of \<open>src/src/apply-patch/paths.ts\<close>: blank lines around the envelope and a
  heredoc wrapper are dropped, then the lines between the boundary markers are read by a
  machine with the modes \<open>between\<close>, \<open>add\<close>, \<open>delete\<close> and \<open>update\<close>.

  The local variables of the parser are the record \<open>envelope_state\<close>, one turn of its loop is
  \<open>envelope_line\<close>, and every \<open>throw\<close> is a constructor of \<open>envelope_error\<close>.  The last element
  of \<open>ops\<close> is the operation whose hunk is open.
\<close>

datatype op_type = CreateFile | UpdateFile | DeleteFile

record file_op =
  op_kind :: op_type
  op_path :: string
  op_moveTo :: "string option"
  op_diff :: "string option"
  op_createContent :: "string option"

datatype hunk_message =
    PathHasNul string
  | PathEmpty string
  | UpdateHunkEmpty string
  | UpdateHunkNoLines
  | UnexpectedUpdateLine string
  | ExpectedMarker string
  | InvalidHeader string

datatype envelope_error =
    PatchRequired
  | BadFirstLine
  | BadLastLine
  | HunkError hunk_message nat
  | EnvironmentIdUnsupported

datatype envelope_mode = Between | InAdd | InDelete | InUpdate

record envelope_state =
  ops :: "file_op list"
  emode :: envelope_mode
  addContent :: string
  bodyLines :: "string list"
  updateStarted :: bool
  chunkLines :: nat
  sawMoveTo :: bool
  sawEof :: bool
  updateHunkLine :: nat

definition BEGIN_PATCH :: string where [js]: "BEGIN_PATCH = ''*** Begin Patch''"
definition ADD_FILE_PREFIX :: string where [js]: "ADD_FILE_PREFIX = ''*** Add File: ''"
definition DELETE_FILE_PREFIX :: string where [js]: "DELETE_FILE_PREFIX = ''*** Delete File: ''"
definition UPDATE_FILE_PREFIX :: string where [js]: "UPDATE_FILE_PREFIX = ''*** Update File: ''"
definition MOVE_TO_PREFIX :: string where [js]: "MOVE_TO_PREFIX = ''*** Move to: ''"
definition EOF_MARKER :: string where [js]: "EOF_MARKER = ''*** End of File''"
definition ENVIRONMENT_ID_PREFIX :: string where
  [js]: "ENVIRONMENT_ID_PREFIX = ''*** Environment ID:''"

definition normalizeApplyPatchPathMarker :: "string \<Rightarrow> string" where
  [js]: "normalizeApplyPatchPathMarker v =
     (let candidate = trim v in
      if starts_with candidate ''@'' then trim (drop 1 candidate) else candidate)"

subsection \<open>Boundaries\<close>

text \<open>The two loops that move \<open>start\<close> and \<open>end\<close> past blank lines.\<close>

definition blank :: "string \<Rightarrow> bool" where
  [js]: "blank l \<longleftrightarrow> trim l = []"

definition drop_blank_ends :: "string list \<Rightarrow> string list" where
  [js]: "drop_blank_ends ls = rev (dropWhile blank (rev (dropWhile blank ls)))"

definition heredoc_start :: "string \<Rightarrow> bool" where
  [js]: "heredoc_start l \<longleftrightarrow> l = ''<<EOF'' \<or> l = ''<<'' @ [CHR 0x27] @ ''EOF'' @ [CHR 0x27] \<or>
     l = ''<<'' @ [CHR 0x22] @ ''EOF'' @ [CHR 0x22]"

definition unwrap_heredoc :: "string list \<Rightarrow> string list" where
  [js]: "unwrap_heredoc ls =
     (if length ls \<ge> 4 \<and> heredoc_start (trim (ls ! 0)) \<and>
         ends_with (trim (ls ! (length ls - 1))) ''EOF''
      then butlast (drop 1 ls) else ls)"

text \<open>\<open>while (last > 0 && lines[last].trim() === "") last -= 1\<close>.\<close>

fun last_content :: "string list \<Rightarrow> nat \<Rightarrow> nat" where
  "last_content ls 0 = 0"
| "last_content ls (Suc n) = (if blank (ls ! Suc n) then last_content ls n else Suc n)"

subsection \<open>Headers and the end of an update hunk\<close>

definition isFileHeader :: "string \<Rightarrow> bool" where
  [js]: "isFileHeader l \<longleftrightarrow> starts_with l ADD_FILE_PREFIX \<or> starts_with l DELETE_FILE_PREFIX \<or>
     starts_with l UPDATE_FILE_PREFIX"

definition headerPath :: "string \<Rightarrow> string \<Rightarrow> nat \<Rightarrow> envelope_error + string" where
  "headerPath l pre lineNo =
     (let raw = drop (length pre) l in
      if NUL \<in> set raw then Inl (HunkError (PathHasNul (trim l)) lineNo)
      else (let path = normalizeApplyPatchPathMarker raw in
            if path = [] then Inl (HunkError (PathEmpty (trim pre)) lineNo) else Inr path))"

definition set_last :: "(file_op \<Rightarrow> file_op) \<Rightarrow> file_op list \<Rightarrow> file_op list" where
  "set_last f xs = butlast xs @ [f (last xs)]"

definition closeUpdateHunk ::
  "string \<Rightarrow> nat \<Rightarrow> envelope_state \<Rightarrow> envelope_error + envelope_state" where
  "closeUpdateHunk terminator lineNo st =
     (if emode st \<noteq> InUpdate then Inr st
      else if \<not> updateStarted st
      then Inl (HunkError (UpdateHunkEmpty (op_path (last (ops st)))) (updateHunkLine st))
      else if chunkLines st = 0
      then (if terminator = END_PATCH then Inl (HunkError UpdateHunkNoLines lineNo)
            else Inl (HunkError (UnexpectedUpdateLine terminator) lineNo))
      else Inr (st\<lparr>ops := set_last (\<lambda>op. op\<lparr>op_diff := Some (join [LF] (bodyLines st))\<rparr>) (ops st),
                   bodyLines := []\<rparr>))"

subsection \<open>One line\<close>

definition chunk_marker :: "string \<Rightarrow> bool" where
  [js]: "chunk_marker ul \<longleftrightarrow> ul = ''@@'' \<or> starts_with ul ''@@ ''"

definition change_line :: "string \<Rightarrow> bool" where
  [js]: "change_line l \<longleftrightarrow> l = [] \<or> starts_with l '' '' \<or> starts_with l ''+'' \<or> starts_with l ''-''"

text \<open>A line inside an update hunk that is no header and not the end marker.\<close>

definition update_line ::
  "string \<Rightarrow> nat \<Rightarrow> envelope_state \<Rightarrow> envelope_error + envelope_state" where
  "update_line l lineNo st =
     (let ul = trim_end l in
      if sawEof st then
        (if ul = [] then Inr st
         else if chunk_marker ul
         then Inr (st\<lparr>sawEof := False, chunkLines := 0, bodyLines := bodyLines st @ [l],
                      updateStarted := True\<rparr>)
         else Inl (HunkError (ExpectedMarker l) lineNo))
      else if \<not> updateStarted st \<and> \<not> sawMoveTo st \<and> starts_with ul MOVE_TO_PREFIX then
        (case headerPath ul MOVE_TO_PREFIX lineNo of
           Inl e \<Rightarrow> Inl e
         | Inr p \<Rightarrow> Inr (st\<lparr>ops := set_last (\<lambda>op. op\<lparr>op_moveTo := Some p\<rparr>) (ops st),
                           sawMoveTo := True\<rparr>))
      else if chunk_marker ul \<and> updateStarted st \<and> chunkLines st = 0
      then Inl (HunkError (UnexpectedUpdateLine l) lineNo)
      else if chunk_marker ul
      then Inr (st\<lparr>bodyLines := bodyLines st @ [l], updateStarted := True, chunkLines := 0\<rparr>)
      else if ul = EOF_MARKER then
        (if \<not> updateStarted st then Inr st
         else if chunkLines st = 0 then Inl (HunkError UpdateHunkNoLines lineNo)
         else Inr (st\<lparr>bodyLines := bodyLines st @ [l], sawEof := True\<rparr>))
      else if change_line l
      then Inr (st\<lparr>bodyLines := bodyLines st @ [l], updateStarted := True,
                   chunkLines := Suc (chunkLines st)\<rparr>)
      else if updateStarted st \<and> chunkLines st > 0
      then Inl (HunkError (ExpectedMarker l) lineNo)
      else Inl (HunkError (UnexpectedUpdateLine l) lineNo))"

text \<open>The dispatch on a header line, \<open>t\<close> being the trimmed line.\<close>

definition header_line ::
  "string \<Rightarrow> nat \<Rightarrow> envelope_state \<Rightarrow> envelope_error + envelope_state" where
  "header_line t lineNo st =
     (if t = END_PATCH then Inr st
      else if starts_with t ENVIRONMENT_ID_PREFIX then Inl EnvironmentIdUnsupported
      else if starts_with t ADD_FILE_PREFIX then
        (case headerPath t ADD_FILE_PREFIX lineNo of
           Inl e \<Rightarrow> Inl e
         | Inr p \<Rightarrow> Inr (st\<lparr>ops := ops st @ [\<lparr>op_kind = CreateFile, op_path = p, op_moveTo = None,
                             op_diff = None, op_createContent = Some []\<rparr>],
                           emode := InAdd, addContent := []\<rparr>))
      else if starts_with t DELETE_FILE_PREFIX then
        (case headerPath t DELETE_FILE_PREFIX lineNo of
           Inl e \<Rightarrow> Inl e
         | Inr p \<Rightarrow> Inr (st\<lparr>ops := ops st @ [\<lparr>op_kind = DeleteFile, op_path = p, op_moveTo = None,
                             op_diff = None, op_createContent = None\<rparr>],
                           emode := InDelete\<rparr>))
      else if starts_with t UPDATE_FILE_PREFIX then
        (case headerPath t UPDATE_FILE_PREFIX lineNo of
           Inl e \<Rightarrow> Inl e
         | Inr p \<Rightarrow> Inr (st\<lparr>ops := ops st @ [\<lparr>op_kind = UpdateFile, op_path = p, op_moveTo = None,
                             op_diff = None, op_createContent = None\<rparr>],
                           emode := InUpdate, bodyLines := [], updateStarted := False,
                           chunkLines := 0, sawMoveTo := False, sawEof := False,
                           updateHunkLine := lineNo\<rparr>))
      else Inl (HunkError (InvalidHeader t) lineNo))"

text \<open>A line in the modes that match headers on the fully trimmed line.\<close>

definition outer_line ::
  "string \<Rightarrow> nat \<Rightarrow> envelope_state \<Rightarrow> envelope_error + envelope_state" where
  "outer_line l lineNo st =
     (let t = trim l in
      case emode st of
        InAdd \<Rightarrow>
          (if t \<noteq> END_PATCH \<and> \<not> isFileHeader t then
             (if \<not> starts_with l ''+'' then Inl (HunkError (InvalidHeader t) lineNo)
              else Inr (st\<lparr>addContent := addContent st @ drop 1 l @ [LF]\<rparr>))
           else header_line t lineNo
             (st\<lparr>ops := set_last (\<lambda>op. op\<lparr>op_createContent := Some (addContent st)\<rparr>) (ops st),
                 addContent := [], emode := Between\<rparr>))
      | InDelete \<Rightarrow>
          (if t \<noteq> END_PATCH \<and> \<not> isFileHeader t then Inl (HunkError (InvalidHeader t) lineNo)
           else header_line t lineNo (st\<lparr>emode := Between\<rparr>))
      | _ \<Rightarrow> header_line t lineNo st)"

definition envelope_line ::
  "string \<Rightarrow> nat \<Rightarrow> envelope_state \<Rightarrow> envelope_error + envelope_state" where
  "envelope_line l lineNo st =
     (if emode st = InUpdate then
        (let ul = trim_end l in
         if ul = END_PATCH \<or> isFileHeader ul then
           (case closeUpdateHunk ul lineNo st of
              Inl e \<Rightarrow> Inl e
            | Inr st' \<Rightarrow>
                (if ul = END_PATCH then Inr (st'\<lparr>emode := Between\<rparr>)
                 else outer_line l lineNo (st'\<lparr>emode := Between\<rparr>)))
         else update_line l lineNo st)
      else outer_line l lineNo st)"

subsection \<open>The parser\<close>

definition envelope_init :: envelope_state where
  "envelope_init = \<lparr>ops = [], emode = Between, addContent = [], bodyLines = [],
     updateStarted = False, chunkLines = 0, sawMoveTo = False, sawEof = False,
     updateHunkLine = 0\<rparr>"

fun envelope_lines ::
  "string list \<Rightarrow> nat \<Rightarrow> envelope_state \<Rightarrow> envelope_error + envelope_state" where
  "envelope_lines [] lineNo st = Inr st"
| "envelope_lines (l # ls) lineNo st =
     (case envelope_line l lineNo st of
        Inl e \<Rightarrow> Inl e
      | Inr st' \<Rightarrow> envelope_lines ls (Suc lineNo) st')"

text \<open>The lines of the loop \<open>for (let i = 1; i <= last; i += 1)\<close>, with their boundary checks.\<close>

definition envelope_body :: "string \<Rightarrow> envelope_error + string list" where
  "envelope_body patch =
     (let ls = unwrap_heredoc (drop_blank_ends (split_lines patch)) in
      if ls = [] \<or> trim (ls ! 0) \<noteq> BEGIN_PATCH then Inl BadFirstLine
      else (let lst = last_content ls (length ls - 1) in
            if trim (ls ! lst) \<noteq> END_PATCH then Inl BadLastLine
            else Inr (slice ls 1 (Suc lst))))"

definition parseApplyPatchEnvelope :: "string option \<Rightarrow> envelope_error + file_op list" where
  "parseApplyPatchEnvelope p =
     (case p of
        None \<Rightarrow> Inl PatchRequired
      | Some patch \<Rightarrow>
          (if trim patch = [] then Inl PatchRequired
           else (case envelope_body patch of
                   Inl e \<Rightarrow> Inl e
                 | Inr ls \<Rightarrow> map_sum (\<lambda>e. e) ops (envelope_lines ls 2 envelope_init))))"

subsection \<open>The paths an envelope intends to mutate\<close>

definition op_candidates :: "file_op \<Rightarrow> (string \<times> string) list" where
  "op_candidates op = (op_path op, ''patch'') #
     (case op_moveTo op of
        Some m \<Rightarrow> (if m \<noteq> [] then [(m, ''patch.move'')] else [])
      | None \<Rightarrow> [])"

text \<open>
  The header scan of a malformed envelope.  \<open>t.slice(t.indexOf(": ") + 2)\<close> drops the header
  prefix: the first \<open>": "\<close> of a header line is the one of its prefix.
\<close>

fun colon_space_index :: "string \<Rightarrow> nat option" where
  "colon_space_index (c # d # s) =
     (if c = CHR '':'' \<and> d = CHR '' '' then Some 0
      else map_option Suc (colon_space_index (d # s)))"
| "colon_space_index _ = None"

definition after_colon :: "string \<Rightarrow> string" where
  [js]: "after_colon t =
     (case colon_space_index t of Some i \<Rightarrow> drop (i + 2) t | None \<Rightarrow> drop 1 t)"

definition line_candidates :: "string \<Rightarrow> (string \<times> string) list" where
  "line_candidates l =
     (let t = trim l in
      if starts_with t ADD_FILE_PREFIX \<or> starts_with t UPDATE_FILE_PREFIX \<or>
         starts_with t DELETE_FILE_PREFIX then
        (let path = normalizeApplyPatchPathMarker (after_colon t) in
         if path \<noteq> [] then [(path, ''patch'')] else [])
      else if starts_with t MOVE_TO_PREFIX then
        (let path = normalizeApplyPatchPathMarker (drop (length MOVE_TO_PREFIX) t) in
         if path \<noteq> [] then [(path, ''patch.move'')] else [])
      else [])"

definition scan_candidates :: "string \<Rightarrow> (string \<times> string) list" where
  "scan_candidates patch = concat (map line_candidates (split_lines patch))"

definition extractEnvelopeCandidatePaths :: "string \<Rightarrow> (string \<times> string) list" where
  "extractEnvelopeCandidatePaths patch =
     (case parseApplyPatchEnvelope (Some patch) of
        Inr os \<Rightarrow> concat (map op_candidates os)
      | Inl _ \<Rightarrow> scan_candidates patch)"

end
