(* ===== verification/Patch_Envelope_Spec.thy ===== *)
theory Patch_Envelope_Spec
  imports Patch_Envelope
begin

text \<open>
  What the envelope parser guarantees.  The grammar of an update hunk is stated without the
  parser's counters (\<open>hunk_body\<close>); the invariant of the line machine relates the two, and
  yields that every parsed operation is well formed.  A printer of operations states the
  round trip.
\<close>

subsection \<open>The grammar of the operations\<close>

definition opt_list :: "'a option \<Rightarrow> 'a list" where
  [simp]: "opt_list x = (case x of None \<Rightarrow> [] | Some y \<Rightarrow> [y])"

text \<open>A chunk: an optional marker, its change lines, an optional end-of-file marker.\<close>

type_synonym src_chunk = "string option \<times> string list \<times> string option"

fun chunk_text :: "src_chunk \<Rightarrow> string list" where
  "chunk_text (mk, cs, e) = opt_list mk @ cs @ opt_list e"

fun chunk_parts_ok :: "src_chunk \<Rightarrow> bool" where
  "chunk_parts_ok (mk, cs, e) \<longleftrightarrow>
     list_all (\<lambda>m. chunk_marker (trim_end m)) (opt_list mk) \<and> list_all change_line cs \<and>
     list_all (\<lambda>x. trim_end x = EOF_MARKER) (opt_list e)"

fun chunk_filled :: "src_chunk \<Rightarrow> bool" where
  "chunk_filled (mk, cs, e) \<longleftrightarrow> cs \<noteq> []"

fun chunk_marked :: "src_chunk \<Rightarrow> bool" where
  "chunk_marked (mk, cs, e) \<longleftrightarrow> mk \<noteq> None"

definition hunk_body :: "string list \<Rightarrow> bool" where
  "hunk_body ls \<longleftrightarrow> (\<exists>chs. chs \<noteq> [] \<and> ls = concat (map chunk_text chs) \<and>
     list_all chunk_parts_ok chs \<and> list_all chunk_filled chs \<and> list_all chunk_marked (tl chs))"

definition path_ok :: "string \<Rightarrow> bool" where
  "path_ok p \<longleftrightarrow> p \<noteq> [] \<and> trim p = p \<and> NUL \<notin> set p \<and> LF \<notin> set p"

definition content_ok :: "string \<Rightarrow> bool" where
  "content_ok c \<longleftrightarrow> (\<exists>ls. c = concat (map (\<lambda>l. l @ [LF]) ls) \<and> list_all (\<lambda>l. LF \<notin> set l) ls)"

definition diff_ok :: "string \<Rightarrow> bool" where
  "diff_ok d \<longleftrightarrow> (\<exists>ls. d = join [LF] ls \<and> hunk_body ls \<and> list_all (\<lambda>l. LF \<notin> set l) ls)"

definition op_typed :: "file_op \<Rightarrow> bool" where
  "op_typed op \<longleftrightarrow> path_ok (op_path op) \<and>
     (case op_kind op of
        CreateFile \<Rightarrow> op_moveTo op = None \<and> op_diff op = None \<and>
          (\<exists>c. op_createContent op = Some c \<and> content_ok c)
      | DeleteFile \<Rightarrow> op_moveTo op = None \<and> op_diff op = None \<and> op_createContent op = None
      | UpdateFile \<Rightarrow> op_createContent op = None \<and> list_all path_ok (opt_list (op_moveTo op)) \<and>
          list_all diff_ok (opt_list (op_diff op)))"

definition op_complete :: "file_op \<Rightarrow> bool" where
  "op_complete op \<longleftrightarrow> op_typed op \<and> (op_kind op = UpdateFile \<longrightarrow> op_diff op \<noteq> None)"

text \<open>The end marker of the envelope has no white space before it.\<close>

definition end_marker_flush :: "string \<Rightarrow> bool" where
  "end_marker_flush p \<longleftrightarrow>
     (case envelope_body p of Inr ls \<Rightarrow> trim_end (last ls) = END_PATCH | Inl _ \<Rightarrow> False)"

subsection \<open>Lines and paths\<close>

lemma set_trim: "set (trim s) \<subseteq> set s" "set (trim_end s) \<subseteq> set s"
proof -
  have e: "set (trim_end t) \<subseteq> set t" for t
    unfolding trim_end_def by (auto dest: set_dropWhileD)
  show "set (trim_end s) \<subseteq> set s" by (rule e)
  show "set (trim s) \<subseteq> set s"
    using e [of "trim_start s"] by (auto simp: trim_def trim_start_def dest: set_dropWhileD)
qed

lemma trim_trim_start [simp]: "trim (trim_start s) = trim s"
  by (simp add: trim_def)

lemma path_marker_ok:
  assumes "normalizeApplyPatchPathMarker raw = p" "p \<noteq> []" "NUL \<notin> set raw" "LF \<notin> set raw"
  shows "path_ok p"
proof -
  have "set p \<subseteq> set raw"
    using assms(1) set_trim(1) [of raw] set_trim(1) [of "drop 1 (trim raw)"]
    by (auto simp: normalizeApplyPatchPathMarker_def Let_def split: if_splits dest: in_set_dropD)
  moreover have "trim p = p"
    using assms(1) by (auto simp: normalizeApplyPatchPathMarker_def Let_def split: if_splits)
  ultimately show ?thesis using assms by (auto simp: path_ok_def)
qed

lemma headerPath_ok: "headerPath l pre n = Inr p \<Longrightarrow> LF \<notin> set l \<Longrightarrow> path_ok p"
  by (auto simp: headerPath_def Let_def split: if_splits dest: in_set_dropD intro!: path_marker_ok)

lemma split_lines_no_LF: "l \<in> set (split_lines s) \<Longrightarrow> LF \<notin> set l"
proof -
  assume "l \<in> set (split_lines s)"
  then obtain x where x: "x \<in> set (split_on LF s)" "l = x \<or> l = chop_cr x"
    by (auto simp: split_lines_def Let_def dest: in_set_butlastD)
      (metis last_in_set split_on_not_Nil)
  then show ?thesis
    using split_on_no_sep [OF x(1)] by (auto simp: chop_cr_def dest: in_set_butlastD split: if_splits)
qed

subsection \<open>The invariant of the line machine\<close>

definition open_hunk :: "string list \<Rightarrow> nat \<Rightarrow> bool \<Rightarrow> bool" where
  "open_hunk ls n eof \<longleftrightarrow> (\<exists>chs mk cs e. ls = concat (map chunk_text chs) @ chunk_text (mk, cs, e) \<and>
     list_all chunk_parts_ok chs \<and> chunk_parts_ok (mk, cs, e) \<and> list_all chunk_filled chs \<and>
     list_all chunk_marked (tl (chs @ [(mk, cs, e)])) \<and>
     n = length cs \<and> (eof \<longleftrightarrow> e \<noteq> None) \<and> (eof \<longrightarrow> cs \<noteq> []))"

lemma open_hunkI:
  assumes "ls = concat (map chunk_text chs) @ chunk_text (mk, cs, e)"
    "list_all chunk_parts_ok chs" "chunk_parts_ok (mk, cs, e)" "list_all chunk_filled chs"
    "list_all chunk_marked (tl (chs @ [(mk, cs, e)]))" "n = length cs" "eof = (e \<noteq> None)"
    "eof \<longrightarrow> cs \<noteq> []"
  shows "open_hunk ls n eof"
  unfolding open_hunk_def using assms by blast

lemma open_hunkE:
  assumes "open_hunk ls n eof"
  obtains chs mk cs e where "ls = concat (map chunk_text chs) @ chunk_text (mk, cs, e)"
    "list_all chunk_parts_ok chs" "chunk_parts_ok (mk, cs, e)" "list_all chunk_filled chs"
    "list_all chunk_marked (tl (chs @ [(mk, cs, e)]))" "n = length cs" "eof = (e \<noteq> None)"
    "eof \<longrightarrow> cs \<noteq> []"
  using assms unfolding open_hunk_def by blast

lemma open_hunk_first_marker: "chunk_marker (trim_end l) \<Longrightarrow> open_hunk [l] 0 False"
  by (rule open_hunkI [of _ "[]" "Some l" "[]" None]) auto

lemma open_hunk_first_change: "change_line l \<Longrightarrow> open_hunk [l] (Suc 0) False"
  by (rule open_hunkI [of _ "[]" None "[l]" None]) auto

lemma open_hunk_marker:
  assumes "open_hunk ls n eof" "n \<noteq> 0" "chunk_marker (trim_end l)"
  shows "open_hunk (ls @ [l]) 0 False"
proof -
  obtain chs mk cs e where w: "ls = concat (map chunk_text chs) @ chunk_text (mk, cs, e)"
    "list_all chunk_parts_ok chs" "chunk_parts_ok (mk, cs, e)" "list_all chunk_filled chs"
    "list_all chunk_marked (tl (chs @ [(mk, cs, e)]))" "n = length cs"
    using assms(1) by (rule open_hunkE)
  then have "list_all chunk_marked (tl ((chs @ [(mk, cs, e)]) @ [(Some l, [], None)]))"
    by (simp del: append_assoc)
  with w assms show ?thesis
    by (intro open_hunkI [of _ "chs @ [(mk, cs, e)]" "Some l" "[]" None]) auto
qed

lemma open_hunk_change:
  assumes "open_hunk ls n False" "change_line l"
  shows "open_hunk (ls @ [l]) (Suc n) False"
proof -
  obtain chs mk cs e where w: "ls = concat (map chunk_text chs) @ chunk_text (mk, cs, e)"
    "list_all chunk_parts_ok chs" "chunk_parts_ok (mk, cs, e)" "list_all chunk_filled chs"
    "list_all chunk_marked (tl (chs @ [(mk, cs, e)]))" "n = length cs" "False = (e \<noteq> None)"
    using assms(1) by (rule open_hunkE)
  then have "list_all chunk_marked (tl (chs @ [(mk, cs @ [l], None)]))" by (cases chs) auto
  with w assms show ?thesis
    by (intro open_hunkI [of _ chs mk "cs @ [l]" None]) auto
qed

lemma open_hunk_eof:
  assumes "open_hunk ls n False" "n \<noteq> 0" "trim_end l = EOF_MARKER"
  shows "open_hunk (ls @ [l]) n True"
proof -
  obtain chs mk cs e where w: "ls = concat (map chunk_text chs) @ chunk_text (mk, cs, e)"
    "list_all chunk_parts_ok chs" "chunk_parts_ok (mk, cs, e)" "list_all chunk_filled chs"
    "list_all chunk_marked (tl (chs @ [(mk, cs, e)]))" "n = length cs" "False = (e \<noteq> None)"
    using assms(1) by (rule open_hunkE)
  then have "list_all chunk_marked (tl (chs @ [(mk, cs, Some l)]))" by (cases chs) auto
  with w assms show ?thesis
    by (intro open_hunkI [of _ chs mk cs "Some l"]) auto
qed

lemma open_hunk_body: "open_hunk ls n eof \<Longrightarrow> n \<noteq> 0 \<Longrightarrow> hunk_body ls"
  by (erule open_hunkE) (auto simp: hunk_body_def intro!: exI [of _ "_ @ [_]"])

definition hunk_inv :: "envelope_state \<Rightarrow> bool" where
  "hunk_inv st \<longleftrightarrow> list_all (\<lambda>l. LF \<notin> set l) (bodyLines st) \<and>
     (if updateStarted st then open_hunk (bodyLines st) (chunkLines st) (sawEof st) \<and>
        (sawEof st \<longrightarrow> chunkLines st \<noteq> 0)
      else bodyLines st = [] \<and> chunkLines st = 0 \<and> \<not> sawEof st)"

text \<open>The operations whose hunks are closed, and the state of the open one.\<close>

definition env_inv :: "envelope_state \<Rightarrow> bool" where
  "env_inv st \<longleftrightarrow>
     (case emode st of
        Between \<Rightarrow> list_all op_complete (ops st)
      | InDelete \<Rightarrow> list_all op_complete (ops st)
      | InAdd \<Rightarrow> list_all op_complete (ops st) \<and> ops st \<noteq> [] \<and>
          op_kind (last (ops st)) = CreateFile \<and> content_ok (addContent st)
      | InUpdate \<Rightarrow> list_all op_complete (butlast (ops st)) \<and> ops st \<noteq> [] \<and>
          op_kind (last (ops st)) = UpdateFile \<and> op_typed (last (ops st)) \<and>
          op_diff (last (ops st)) = None \<and> hunk_inv st)"

lemma update_line_inv:
  assumes "env_inv st" "emode st = InUpdate" "update_line l n st = Inr st'" "LF \<notin> set l"
  shows "env_inv st' \<and> emode st' = InUpdate"
proof -
  have "LF \<notin> set (trim_end l)" using assms(4) set_trim by blast
  then show ?thesis
    using assms
    by (auto simp: update_line_def env_inv_def hunk_inv_def Let_def set_last_def op_typed_def
        intro: open_hunk_marker open_hunk_change open_hunk_eof open_hunk_first_marker
          open_hunk_first_change headerPath_ok
        split: if_splits sum.splits)
qed

lemma content_ok_Nil [simp]: "content_ok []"
  unfolding content_ok_def by (intro exI [of _ "[]"]) simp

lemma content_ok_snoc:
  assumes "content_ok c" "LF \<notin> set l"
  shows "content_ok (c @ l @ [LF])"
proof -
  obtain ls where "c = concat (map (\<lambda>l. l @ [LF]) ls)" "list_all (\<lambda>l. LF \<notin> set l) ls"
    using assms(1) by (auto simp: content_ok_def)
  with assms(2) show ?thesis
    unfolding content_ok_def by (intro exI [of _ "ls @ [l]"]) simp
qed

lemma header_line_inv:
  assumes "emode st = Between" "list_all op_complete (ops st)" "header_line t n st = Inr st'" "LF \<notin> set t"
  shows "env_inv st'"
  using assms
  by (auto simp: header_line_def env_inv_def hunk_inv_def Let_def op_typed_def op_complete_def
      intro: headerPath_ok split: if_splits sum.splits)

lemma op_complete_content:
  assumes "op_complete op" "op_kind op = CreateFile" "content_ok c"
  shows "op_complete (op\<lparr>op_createContent := Some c\<rparr>)"
  using assms by (auto simp: op_complete_def op_typed_def)

lemma list_all_last: "list_all p xs \<Longrightarrow> xs \<noteq> [] \<Longrightarrow> list_all p (butlast xs) \<and> p (last xs)"
  by (auto simp: list_all_iff dest: in_set_butlastD)

lemma outer_line_inv:
  assumes "env_inv st" "emode st \<noteq> InUpdate" "outer_line l n st = Inr st'" "LF \<notin> set l"
  shows "env_inv st'"
proof -
  have t: "LF \<notin> set (trim l)" using assms(4) set_trim by blast
  show ?thesis
  proof (cases "emode st")
    case InAdd
    with assms(1) have op: "list_all op_complete (butlast (ops st))" "op_complete (last (ops st))"
      "op_kind (last (ops st)) = CreateFile" "content_ok (addContent st)" "list_all op_complete (ops st)"
      "ops st \<noteq> []"
      by (auto simp: env_inv_def dest: list_all_last)
    have h: "header_line (trim l) n (st\<lparr>ops := set_last (\<lambda>op. op\<lparr>op_createContent := Some (addContent st)\<rparr>)
        (ops st), addContent := [], emode := Between\<rparr>) = Inr st' \<Longrightarrow> env_inv st'"
      using op t by (elim header_line_inv [rotated 2]) (auto simp: set_last_def op_complete_content)
    show ?thesis
    proof (cases "trim l \<noteq> END_PATCH \<and> \<not> isFileHeader (trim l)")
      case True
      then have "st' = st\<lparr>addContent := addContent st @ drop 1 l @ [LF]\<rparr>"
        using assms(3) InAdd by (auto simp: outer_line_def Let_def split: if_splits)
      moreover have "LF \<notin> set (drop 1 l)" using assms(4) by (auto dest: in_set_dropD)
      ultimately show ?thesis
        using op InAdd by (auto simp: env_inv_def intro: content_ok_snoc)
    next
      case False
      with assms(3) InAdd h show ?thesis by (auto simp: outer_line_def Let_def)
    qed
  next
    case InDelete
    with assms t show ?thesis
      by (auto simp: outer_line_def Let_def env_inv_def [of st] split: if_splits elim!: header_line_inv [rotated 2])
  next
    case Between
    with assms t show ?thesis
      by (auto simp: outer_line_def Let_def env_inv_def [of st] elim!: header_line_inv [rotated 2])
  qed (use assms in simp)
qed

lemma open_hunk_diff:
  "open_hunk ls n eof \<Longrightarrow> 0 < n \<Longrightarrow> list_all (\<lambda>l. LF \<notin> set l) ls \<Longrightarrow> diff_ok (join [LF] ls)"
  unfolding diff_ok_def using open_hunk_body by blast

lemma closeUpdateHunk_inv:
  assumes "env_inv st" "emode st = InUpdate" "closeUpdateHunk t n st = Inr st'"
  shows "list_all op_complete (ops st') \<and> emode st' = InUpdate"
  using assms
  by (auto simp: closeUpdateHunk_def env_inv_def set_last_def op_complete_def op_typed_def hunk_inv_def
      split: if_splits intro: open_hunk_diff)

lemma envelope_line_inv:
  assumes "env_inv st" "envelope_line l n st = Inr st'" "LF \<notin> set l"
  shows "env_inv st'"
proof (cases "emode st = InUpdate \<and> (trim_end l = END_PATCH \<or> isFileHeader (trim_end l))")
  case True
  then obtain s where s: "closeUpdateHunk (trim_end l) n st = Inr s"
      "st' = s\<lparr>emode := Between\<rparr> \<or> outer_line l n (s\<lparr>emode := Between\<rparr>) = Inr st'"
    using assms(2) by (auto simp: envelope_line_def Let_def split: sum.splits if_splits)
  then have "env_inv (s\<lparr>emode := Between\<rparr>)"
    using closeUpdateHunk_inv [OF assms(1)] True by (auto simp: env_inv_def)
  with s assms(3) show ?thesis by (auto intro: outer_line_inv)
next
  case False
  with assms show ?thesis
    using update_line_inv [OF assms(1)]
    by (auto simp: envelope_line_def Let_def intro: outer_line_inv split: if_splits)
qed

lemma envelope_lines_inv:
  assumes "env_inv st" "envelope_lines ls n st = Inr st'" "\<forall>l \<in> set ls. LF \<notin> set l"
  shows "env_inv st'"
  using assms
  by (induction ls n st rule: envelope_lines.induct) (auto split: sum.splits dest: envelope_line_inv)

subsection \<open>The parsed operations are well formed\<close>

lemma env_inv_init: "env_inv envelope_init"
  by (simp add: env_inv_def envelope_init_def)

lemma envelope_lines_snoc:
  "envelope_lines (ls @ [l]) n st =
     (case envelope_lines ls n st of Inl e \<Rightarrow> Inl e | Inr s \<Rightarrow> envelope_line l (n + length ls) s)"
  by (induction ls n st rule: envelope_lines.induct) (auto split: sum.splits)

lemma END_PATCH_facts [simp]:
  "trim END_PATCH = END_PATCH" "trim_end END_PATCH = END_PATCH" "\<not> isFileHeader END_PATCH"
  by code_simp+

lemma end_line_mode:
  assumes "envelope_line l n st = Inr st'" "trim_end l = END_PATCH"
  shows "emode st' = Between"
proof -
  have "trim l = END_PATCH" by (metis assms(2) END_PATCH_facts(1) trim_trim_end)
  with assms show ?thesis
    by (auto simp: envelope_line_def outer_line_def header_line_def Let_def
        split: if_splits sum.splits envelope_mode.splits)
qed

lemma last_content_le: "last_content ls n \<le> n"
  by (induction ls n rule: last_content.induct) auto

lemma envelope_body_InrD:
  assumes "envelope_body p = Inr ls"
  shows "ls \<noteq> [] \<and> trim (last ls) = END_PATCH \<and> set ls \<subseteq> set (split_lines p)"
proof -
  define raw where "raw = unwrap_heredoc (drop_blank_ends (split_lines p))"
  define k where "k = last_content raw (length raw - 1)"
  have r: "raw \<noteq> []" "trim (raw ! 0) = BEGIN_PATCH" "trim (raw ! k) = END_PATCH" "ls = slice raw 1 (Suc k)"
    using assms unfolding envelope_body_def Let_def raw_def [symmetric] k_def [symmetric]
    by (auto split: if_splits)
  have "k \<noteq> 0" using r by (auto simp: BEGIN_PATCH_def END_PATCH_def intro: ccontr)
  moreover have k: "k < length raw"
    using last_content_le [of raw "length raw - 1"] r(1) by (cases raw) (auto simp: k_def)
  ultimately have "ls \<noteq> []" "last ls = raw ! k"
    using r(4) by (auto simp: slice_def last_conv_nth)
  moreover have "set raw \<subseteq> set (split_lines p)"
    by (auto simp: raw_def unwrap_heredoc_def drop_blank_ends_def split: if_splits
        dest!: in_set_butlastD in_set_dropD set_dropWhileD)
  ultimately show ?thesis
    using r by (auto simp: slice_def dest!: in_set_takeD in_set_dropD)
qed

lemma parse_InrE:
  assumes "parseApplyPatchEnvelope (Some p) = Inr os"
  obtains ls st where "envelope_body p = Inr ls" "envelope_lines ls 2 envelope_init = Inr st"
    "os = ops st"
  using assms
  by (cases "envelope_lines (projr (envelope_body p)) 2 envelope_init")
    (auto simp: parseApplyPatchEnvelope_def split: if_splits sum.splits)

lemma op_complete_typed: "list_all op_complete xs \<Longrightarrow> list_all op_typed xs"
  by (auto simp: op_complete_def list_all_iff)

lemma env_inv_typed: "env_inv st \<Longrightarrow> list_all op_typed (ops st) \<and> list_all op_complete (butlast (ops st))"
  by (cases "ops st" rule: rev_cases)
    (auto simp: env_inv_def op_complete_def list_all_iff split: envelope_mode.splits)

text \<open>
  C7. Every operation the envelope parser returns is well formed.  Its path, and its rename
  destination if it has one, is a trimmed non-empty path without a NUL or a line feed.  An
  addition carries exactly a content of whole lines, a deletion carries nothing, and the diff of
  an update is a hunk body of the grammar: chunks of an optional marker (only the first may omit
  it), at least one context, added or removed line, and an optional end-of-file marker.  Every
  update has its diff, with exactly one exception, in which the parser breaks the promise of its
  type (\<open>envelope.ts\<close>, the comment on \<open>diff\<close>): when white space stands before the end marker of the
  envelope, the last operation may be an update without a diff, while all before it are complete.
  The exception happens, see \<open>indented_end_marker_drops_update\<close>.
\<close>

theorem parsed_operations_well_formed:
  assumes "parseApplyPatchEnvelope (Some p) = Inr os"
  shows "list_all op_typed os \<and>
    (list_all op_complete os \<or>
     \<not> end_marker_flush p \<and> os \<noteq> [] \<and> op_kind (last os) = UpdateFile \<and> op_diff (last os) = None \<and>
       list_all op_complete (butlast os))"
proof -
  obtain ls st where w: "envelope_body p = Inr ls" "envelope_lines ls 2 envelope_init = Inr st" "os = ops st"
    using assms by (rule parse_InrE)
  note b = envelope_body_InrD [OF w(1)]
  have inv: "env_inv st"
    using w(2) b split_lines_no_LF by (intro envelope_lines_inv [OF env_inv_init]) auto
  have "emode st = Between" if "end_marker_flush p"
  proof -
    have "trim_end (last ls) = END_PATCH" using that w(1) by (simp add: end_marker_flush_def)
    moreover have "ls = butlast ls @ [last ls]" using b by simp
    ultimately show ?thesis
      using w(2) envelope_lines_snoc [of "butlast ls" "last ls"]
      by (auto split: sum.splits intro: end_line_mode)
  qed
  with inv w(3) show ?thesis
    using env_inv_typed [OF inv] by (cases "emode st") (auto simp: env_inv_def)
qed

subsection \<open>Concrete envelopes\<close>

lemmas envelope_eval = parseApplyPatchEnvelope_def envelope_body_def unwrap_heredoc_def drop_blank_ends_def
  blank_def trim_def trim_start_def trim_end_def js_space_def split_lines_def split_on_case chop_cr_def
  LF_def CR_def NUL_def envelope_init_def envelope_line_def outer_line_def update_line_def header_line_def
  closeUpdateHunk_def headerPath_def isFileHeader_def normalizeApplyPatchPathMarker_def set_last_def
  chunk_marker_def change_line_def slice_def heredoc_start_def END_PATCH_def BEGIN_PATCH_def
  ADD_FILE_PREFIX_def DELETE_FILE_PREFIX_def UPDATE_FILE_PREFIX_def MOVE_TO_PREFIX_def EOF_MARKER_def
  ENVIRONMENT_ID_PREFIX_def

definition update_envelope :: string where
  "update_envelope =
     join [LF] [''*** Begin Patch'', ''*** Update File: a'', ''-x'', ''+y'', ''*** End Patch'']"

lemma update_envelope_parses:
  "parseApplyPatchEnvelope (Some update_envelope) =
     Inr [\<lparr>op_kind = UpdateFile, op_path = ''a'', op_moveTo = None, op_diff = Some (''-x'' @ LF # ''+y''),
       op_createContent = None\<rparr>]"
  unfolding update_envelope_def
  by (simp add: envelope_eval cong: let_weak_cong del: split_on.simps(2))

text \<open>An update envelope: the operation is complete, so its diff is a hunk body of the grammar.\<close>

theorem parsed_operations_well_formed_witness:
  "diff_ok (''-x'' @ LF # ''+y'') \<and> path_ok ''a''"
  using parsed_operations_well_formed [OF update_envelope_parses]
  by (simp add: op_complete_def op_typed_def)

text \<open>
  The end marker may be indented: the boundary check trims it, the update hunk only trims its right
  end.  The marker line is then a context line, the hunk is never closed, and the update is returned
  without its diff.
\<close>

theorem indented_end_marker_drops_update:
  "parseApplyPatchEnvelope (Some (join [LF] [''*** Begin Patch'', ''*** Update File: a'', ''-x'', ''+y'',
       '' *** End Patch''])) =
     Inr [\<lparr>op_kind = UpdateFile, op_path = ''a'', op_moveTo = None, op_diff = None, op_createContent = None\<rparr>]"
  by (simp add: envelope_eval cong: let_weak_cong del: split_on.simps(2))

text \<open>An end marker in the middle of the envelope does not end it.\<close>

theorem inner_end_marker_ignored:
  "parseApplyPatchEnvelope (Some (join [LF] [''*** Begin Patch'', ''*** End Patch'', ''*** Delete File: a'',
       ''*** End Patch''])) =
     Inr [\<lparr>op_kind = DeleteFile, op_path = ''a'', op_moveTo = None, op_diff = None, op_createContent = None\<rparr>]"
  by (simp add: envelope_eval cong: let_weak_cong del: split_on.simps(2))

end
