(* ===== verification/Patch_Envelope_Roundtrip.thy ===== *)
theory Patch_Envelope_Roundtrip
  imports Patch_Envelope_Spec
begin

text \<open>
  Printing operations as an envelope and parsing it back gives the operations, and the header
  scan used for malformed envelopes misses none of the paths the parser would return.
\<close>

subsection \<open>The printer\<close>

definition print_op :: "file_op \<Rightarrow> string list" where
  "print_op op =
     (case op_kind op of
        CreateFile \<Rightarrow> (ADD_FILE_PREFIX @ op_path op) #
          map (\<lambda>l. ''+'' @ l) (butlast (split_on LF (the (op_createContent op))))
      | DeleteFile \<Rightarrow> [DELETE_FILE_PREFIX @ op_path op]
      | UpdateFile \<Rightarrow> (UPDATE_FILE_PREFIX @ op_path op) #
          map (\<lambda>m. MOVE_TO_PREFIX @ m) (opt_list (op_moveTo op)) @ split_on LF (the (op_diff op)))"

definition print_envelope :: "file_op list \<Rightarrow> string" where
  "print_envelope os = join [LF] (BEGIN_PATCH # concat (map print_op os) @ [END_PATCH])"

definition plain_path :: "string \<Rightarrow> bool" where
  "plain_path p \<longleftrightarrow> path_ok p \<and> \<not> starts_with p ''@'' \<and> CR \<notin> set p"

definition printable :: "file_op \<Rightarrow> bool" where
  "printable op \<longleftrightarrow> op_complete op \<and> plain_path (op_path op) \<and>
     list_all plain_path (opt_list (op_moveTo op)) \<and>
     list_all (\<lambda>c. CR \<notin> set c) (opt_list (op_createContent op) @ opt_list (op_diff op))"

subsection \<open>Lines of an update hunk\<close>

lemma trim_end_Cons_other: "\<not> js_space c \<Longrightarrow> trim_end (c # s) = c # trim_end s"
  by (simp add: trim_end_def dropWhile_append)

lemma trim_end_Cons: "trim_end (c # s) = [] \<or> trim_end (c # s) = c # trim_end s"
proof (cases "\<forall>d \<in> set s. js_space d")
  case True
  then show ?thesis by (cases "js_space c") (auto simp: trim_end_def dropWhile_append)
next
  case False
  then show ?thesis by (auto simp: trim_end_def dropWhile_append)
qed

definition marker_free :: "string \<Rightarrow> bool" where
  "marker_free ul \<longleftrightarrow> ul \<noteq> END_PATCH \<and> \<not> isFileHeader ul \<and> \<not> starts_with ul MOVE_TO_PREFIX"

lemmas prefix_defs = END_PATCH_def BEGIN_PATCH_def ADD_FILE_PREFIX_def DELETE_FILE_PREFIX_def
  UPDATE_FILE_PREFIX_def MOVE_TO_PREFIX_def EOF_MARKER_def ENVIRONMENT_ID_PREFIX_def

lemma change_line_free:
  assumes "change_line l"
  shows "marker_free (trim_end l) \<and> trim_end l \<noteq> EOF_MARKER \<and> \<not> chunk_marker (trim_end l)"
proof (cases l)
  case (Cons c s)
  then have "c = CHR '' '' \<or> c = CHR ''+'' \<or> c = CHR ''-''"
    using assms by (auto simp: change_line_def)
  then show ?thesis
    using trim_end_Cons [of c s] Cons
    by (auto simp: marker_free_def isFileHeader_def chunk_marker_def prefix_defs)
qed (simp add: marker_free_def isFileHeader_def chunk_marker_def prefix_defs)

lemma chunk_marker_free: "chunk_marker ul \<Longrightarrow> marker_free ul \<and> ul \<noteq> EOF_MARKER \<and> ul \<noteq> []"
  by (auto simp: chunk_marker_def marker_free_def isFileHeader_def prefix_defs starts_with_iff_prefix
      prefix_def)

lemma EOF_MARKER_free: "marker_free EOF_MARKER \<and> \<not> chunk_marker EOF_MARKER"
  by (simp add: chunk_marker_def marker_free_def isFileHeader_def prefix_defs)

text \<open>The state inside an update hunk after the lines \<open>ls\<close> of its body.\<close>

definition in_hunk :: "envelope_state \<Rightarrow> file_op list \<Rightarrow> string list \<Rightarrow> bool \<Rightarrow> bool" where
  "in_hunk st os ls full \<longleftrightarrow> emode st = InUpdate \<and> ops st = os \<and> bodyLines st = ls \<and>
     updateStarted st \<and> (full \<longleftrightarrow> chunkLines st \<noteq> 0)"

definition hunk_start :: "envelope_state \<Rightarrow> file_op list \<Rightarrow> bool" where
  "hunk_start st os \<longleftrightarrow> emode st = InUpdate \<and> ops st = os \<and> bodyLines st = [] \<and>
     \<not> updateStarted st \<and> chunkLines st = 0 \<and> \<not> sawEof st"

lemma update_line_free:
  "emode st = InUpdate \<Longrightarrow> marker_free (trim_end l) \<Longrightarrow> envelope_line l n st = update_line l n st"
  by (simp add: envelope_line_def marker_free_def Let_def)

lemma line_change:
  assumes "in_hunk st os ls full \<or> (hunk_start st os \<and> ls = [])" "\<not> sawEof st" "change_line l"
  shows "\<exists>st'. envelope_line l n st = Inr st' \<and> in_hunk st' os (ls @ [l]) True \<and> \<not> sawEof st'"
  using assms change_line_free [OF assms(3)]
  by (auto simp: update_line_free in_hunk_def hunk_start_def update_line_def Let_def marker_free_def)

lemma line_marker:
  assumes "in_hunk st os ls True \<or> (hunk_start st os \<and> ls = [])" "chunk_marker (trim_end l)"
  shows "\<exists>st'. envelope_line l n st = Inr st' \<and> in_hunk st' os (ls @ [l]) False \<and> \<not> sawEof st'"
  using assms chunk_marker_free [OF assms(2)]
  by (auto simp: update_line_free in_hunk_def hunk_start_def update_line_def Let_def marker_free_def)

lemma line_eof:
  assumes "in_hunk st os ls True" "\<not> sawEof st" "trim_end l = EOF_MARKER"
  shows "\<exists>st'. envelope_line l n st = Inr st' \<and> in_hunk st' os (ls @ [l]) True"
  using assms EOF_MARKER_free
  by (auto simp: update_line_free in_hunk_def update_line_def Let_def marker_free_def)

lemma lines_change:
  assumes "in_hunk st os ls full \<or> (hunk_start st os \<and> ls = [])" "\<not> sawEof st"
    "list_all change_line cs" "cs \<noteq> []"
  shows "\<exists>st'. envelope_lines (cs @ rest) n st = envelope_lines rest (n + length cs) st' \<and>
    in_hunk st' os (ls @ cs) True \<and> \<not> sawEof st'"
  using assms
proof (induction cs arbitrary: st ls full n)
  case (Cons c cs)
  obtain s where s: "envelope_line c n st = Inr s" "in_hunk s os (ls @ [c]) True" "\<not> sawEof s"
    using line_change [OF Cons.prems(1,2), of c n] Cons.prems(3) by auto
  show ?case
  proof (cases "cs = []")
    case False
    with Cons.IH [of s "ls @ [c]" True "Suc n"] s Cons.prems show ?thesis by simp
  qed (use s in auto)
qed simp

lemma lines_chunk:
  assumes "in_hunk st os ls True \<and> chunk_marked ch \<or> (hunk_start st os \<and> ls = [])"
    "chunk_parts_ok ch" "chunk_filled ch"
  shows "\<exists>st'. envelope_lines (chunk_text ch @ rest) n st =
      envelope_lines rest (n + length (chunk_text ch)) st' \<and> in_hunk st' os (ls @ chunk_text ch) True"
proof -
  obtain mk cs e where ch: "ch = (mk, cs, e)" by (cases ch)
  let ?mk = "opt_list mk" and ?e = "opt_list e"
  have parts: "list_all change_line cs" "cs \<noteq> []" using assms(2,3) ch by auto
  obtain s full where s: "envelope_lines (?mk @ cs @ ?e @ rest) n st =
        envelope_lines (cs @ ?e @ rest) (n + length ?mk) s"
      "in_hunk s os (ls @ ?mk) full \<or> (hunk_start s os \<and> ls @ ?mk = [])" "\<not> sawEof s"
  proof (cases mk)
    case None
    with assms ch that [of st] show ?thesis by (auto simp: hunk_start_def)
  next
    case (Some m)
    with assms ch obtain s where "envelope_line m n st = Inr s" "in_hunk s os (ls @ [m]) False" "\<not> sawEof s"
      using line_marker [of st os ls m n] by auto
    with Some that show ?thesis by auto
  qed
  obtain u where u: "envelope_lines (cs @ ?e @ rest) (n + length ?mk) s =
        envelope_lines (?e @ rest) (n + length ?mk + length cs) u"
      "in_hunk u os ((ls @ ?mk) @ cs) True" "\<not> sawEof u"
    using lines_change [OF s(2,3) parts] by blast
  show ?thesis
  proof (cases e)
    case None
    with s u ch show ?thesis by (auto simp: add.assoc)
  next
    case (Some x)
    with assms ch obtain v where "envelope_line x (n + length ?mk + length cs) u = Inr v"
        "in_hunk v os (((ls @ ?mk) @ cs) @ [x]) True"
      using line_eof [OF u(2,3), of x] by auto
    with s u ch Some show ?thesis by (auto simp: add.assoc)
  qed
qed

lemma lines_chunks:
  assumes "in_hunk st os ls True" "list_all chunk_parts_ok chs" "list_all chunk_filled chs"
    "list_all chunk_marked chs"
  shows "\<exists>st'. envelope_lines (concat (map chunk_text chs) @ rest) n st =
      envelope_lines rest (n + length (concat (map chunk_text chs))) st' \<and>
      in_hunk st' os (ls @ concat (map chunk_text chs)) True"
  using assms
proof (induction chs arbitrary: st ls n)
  case (Cons ch chs)
  then obtain s where s: "envelope_lines (chunk_text ch @ concat (map chunk_text chs) @ rest) n st =
        envelope_lines (concat (map chunk_text chs) @ rest) (n + length (chunk_text ch)) s"
      "in_hunk s os (ls @ chunk_text ch) True"
    using lines_chunk [of st os ls ch "concat (map chunk_text chs) @ rest" n] by auto
  with Cons.IH [OF s(2), of "n + length (chunk_text ch)"] Cons.prems show ?case
    by (auto simp: add.assoc)
qed auto

lemma lines_hunk:
  assumes "hunk_start st os" "hunk_body ls"
  shows "\<exists>st'. envelope_lines (ls @ rest) n st = envelope_lines rest (n + length ls) st' \<and>
      in_hunk st' os ls True"
proof -
  obtain ch chs where c: "ls = chunk_text ch @ concat (map chunk_text chs)" "chunk_parts_ok ch"
      "chunk_filled ch" "list_all chunk_parts_ok chs" "list_all chunk_filled chs" "list_all chunk_marked chs"
    using assms(2) by (auto simp: hunk_body_def neq_Nil_conv)
  obtain s where s: "envelope_lines (chunk_text ch @ concat (map chunk_text chs) @ rest) n st =
        envelope_lines (concat (map chunk_text chs) @ rest) (n + length (chunk_text ch)) s"
      "in_hunk s os ([] @ chunk_text ch) True"
    using lines_chunk [of st os "[]" ch "concat (map chunk_text chs) @ rest" n] assms(1) c(2,3) by auto
  with lines_chunks [of s os "chunk_text ch" chs rest "n + length (chunk_text ch)"] c show ?thesis
    by (auto simp: add.assoc)
qed

subsection \<open>Headers\<close>

text \<open>The operations the parser has once the open hunk is closed.\<close>

definition pending :: "envelope_state \<Rightarrow> file_op list \<Rightarrow> bool" where
  "pending st os \<longleftrightarrow>
     (case emode st of
        InAdd \<Rightarrow> os = set_last (\<lambda>op. op\<lparr>op_createContent := Some (addContent st)\<rparr>) (ops st)
      | InUpdate \<Rightarrow> updateStarted st \<and> chunkLines st \<noteq> 0 \<and>
          os = set_last (\<lambda>op. op\<lparr>op_diff := Some (join [LF] (bodyLines st))\<rparr>) (ops st)
      | _ \<Rightarrow> os = ops st)"

lemma header_dispatch:
  assumes "pending st os" "trim t = t" "trim_end t = t" "isFileHeader t"
  shows "\<exists>s. emode s = Between \<and> ops s = os \<and> envelope_line t n st = header_line t n s"
proof (cases "emode st")
  case Between
  with assms show ?thesis by (auto simp: envelope_line_def outer_line_def Let_def pending_def)
next
  case InAdd
  with assms show ?thesis
    by (intro exI [of _ "st\<lparr>ops := os, addContent := [], emode := Between\<rparr>"])
      (auto simp: envelope_line_def outer_line_def Let_def pending_def)
next
  case InDelete
  with assms show ?thesis
    by (intro exI [of _ "st\<lparr>emode := Between\<rparr>"])
      (auto simp: envelope_line_def outer_line_def Let_def pending_def)
next
  case InUpdate
  with assms END_PATCH_facts(3) show ?thesis
    by (intro exI [of _ "st\<lparr>ops := os, bodyLines := [], emode := Between\<rparr>"])
      (auto simp: envelope_line_def outer_line_def closeUpdateHunk_def Let_def pending_def)
qed

lemma end_line:
  assumes "pending st os"
  shows "\<exists>s. envelope_line END_PATCH n st = Inr s \<and> ops s = os"
  using assms
  by (cases "emode st")
    (auto simp: envelope_line_def outer_line_def header_line_def closeUpdateHunk_def Let_def pending_def)

lemma trim_append_path:
  assumes "pre \<noteq> []" "\<not> js_space (hd pre)" "p \<noteq> []" "trim p = p"
  shows "trim (pre @ p) = pre @ p" "trim_end (pre @ p) = pre @ p"
proof -
  have "\<not> js_space (last p)"
  proof
    assume s: "js_space (last p)"
    obtain q c where p: "p = q @ [c]" using assms(3) by (cases p rule: rev_cases) auto
    with s have "trim_end p = trim_end q" by (simp add: trim_end_snoc_space)
    then have "trim p = trim q" by (metis trim_trim_end)
    then have "length (trim p) \<le> length q"
      by (simp add: trim_def trim_end_def trim_start_def)
        (metis (no_types, lifting) length_dropWhile_le length_rev order_trans)
    with assms(4) p show False by simp
  qed
  then have l: "\<not> js_space (last (pre @ p))" using assms(3) by simp
  show "trim (pre @ p) = pre @ p" using assms l by (intro trim_no_space) auto
  have "\<exists>q c. pre @ p = q @ [c] \<and> \<not> js_space c"
    using l assms(3) by (metis append_butlast_last_id append_is_Nil_conv)
  then show "trim_end (pre @ p) = pre @ p" by (auto simp: trim_end_snoc_other)
qed

lemma headerPath_plain:
  assumes "plain_path p"
  shows "headerPath (pre @ p) pre n = Inr p"
  using assms
  by (simp add: headerPath_def Let_def plain_path_def path_ok_def normalizeApplyPatchPathMarker_def)

lemma file_prefixes:
  "pre \<in> {ADD_FILE_PREFIX, DELETE_FILE_PREFIX, UPDATE_FILE_PREFIX} \<Longrightarrow>
     pre \<noteq> [] \<and> \<not> js_space (hd pre) \<and> isFileHeader (pre @ p)"
  by (auto simp: isFileHeader_def ADD_FILE_PREFIX_def DELETE_FILE_PREFIX_def UPDATE_FILE_PREFIX_def
      js_space_def)

lemma header_at:
  assumes "pending st os" "plain_path p" "pre \<in> {ADD_FILE_PREFIX, DELETE_FILE_PREFIX, UPDATE_FILE_PREFIX}"
  shows "\<exists>s. emode s = Between \<and> ops s = os \<and> envelope_line (pre @ p) n st = header_line (pre @ p) n s"
proof -
  have "p \<noteq> []" "trim p = p" using assms(2) by (auto simp: plain_path_def path_ok_def)
  with trim_append_path [of pre p] file_prefixes [OF assms(3), of p] show ?thesis
    by (intro header_dispatch assms(1)) auto
qed

subsection \<open>The lines of one operation\<close>

lemma add_line:
  assumes "emode st = InAdd"
  shows "envelope_line (CHR ''+'' # l) n st =
    Inr (st\<lparr>addContent := addContent st @ l @ [LF]\<rparr>)"
proof -
  have "trim (CHR ''+'' # l) = CHR ''+'' # trim_end l"
    by (simp add: trim_def trim_start_Cons_other trim_end_Cons_other js_space_def)
  then show ?thesis
    using assms by (simp add: envelope_line_def outer_line_def Let_def isFileHeader_def prefix_defs)
qed

lemma add_lines:
  assumes "emode st = InAdd"
  shows "envelope_lines (map ((#) (CHR ''+'')) ls @ rest) n st =
    envelope_lines rest (n + length ls)
      (st\<lparr>addContent := addContent st @ concat (map (\<lambda>l. l @ [LF]) ls)\<rparr>)"
  using assms by (induction ls arbitrary: st n) (auto simp: add_line)

lemma split_content:
  "list_all (\<lambda>l. LF \<notin> set l) ls \<Longrightarrow> split_on LF (concat (map (\<lambda>l. l @ [LF]) ls)) = ls @ [[]]"
  by (induction ls) (auto simp: split_on_append_sep)

lemma chunk_text_not_Nil: "chunk_filled ch \<Longrightarrow> chunk_text ch \<noteq> []"
  by (cases ch) auto

lemma hunk_body_not_Nil: "hunk_body ls \<Longrightarrow> ls \<noteq> []"
  by (auto simp: hunk_body_def neq_Nil_conv [of "_ :: src_chunk list"] chunk_text_not_Nil)

lemma split_diff:
  "hunk_body ls \<Longrightarrow> list_all (\<lambda>l. LF \<notin> set l) ls \<Longrightarrow> split_on LF (join [LF] ls) = ls"
  by (intro split_on_join) (auto simp: hunk_body_not_Nil list_all_iff)

lemma header_lines:
  assumes "emode s = Between" "plain_path p"
  shows "header_line (ADD_FILE_PREFIX @ p) n s = Inr (s\<lparr>ops := ops s @ [\<lparr>op_kind = CreateFile,
      op_path = p, op_moveTo = None, op_diff = None, op_createContent = Some []\<rparr>],
      emode := InAdd, addContent := []\<rparr>)"
    and "header_line (DELETE_FILE_PREFIX @ p) n s = Inr (s\<lparr>ops := ops s @ [\<lparr>op_kind = DeleteFile,
      op_path = p, op_moveTo = None, op_diff = None, op_createContent = None\<rparr>], emode := InDelete\<rparr>)"
    and "\<exists>s'. header_line (UPDATE_FILE_PREFIX @ p) n s = Inr s' \<and> sawMoveTo s' = False \<and> hunk_start s'
      (ops s @ [\<lparr>op_kind = UpdateFile, op_path = p, op_moveTo = None, op_diff = None, op_createContent = None\<rparr>])"
  using headerPath_plain [OF assms(2), of ADD_FILE_PREFIX n] headerPath_plain [OF assms(2), of DELETE_FILE_PREFIX n]
    headerPath_plain [OF assms(2), of UPDATE_FILE_PREFIX n]
  by (simp_all add: header_line_def prefix_defs hunk_start_def)

lemma move_line:
  assumes "hunk_start s os" "\<not> sawMoveTo s" "plain_path m"
  shows "\<exists>s'. envelope_line (MOVE_TO_PREFIX @ m) n s = Inr s' \<and>
    hunk_start s' (set_last (\<lambda>op. op\<lparr>op_moveTo := Some m\<rparr>) os)"
proof -
  have "trim_end (MOVE_TO_PREFIX @ m) = MOVE_TO_PREFIX @ m"
    using assms(3) by (intro trim_append_path(2)) (auto simp: plain_path_def path_ok_def MOVE_TO_PREFIX_def js_space_def)
  moreover have "MOVE_TO_PREFIX @ m \<noteq> END_PATCH" "\<not> isFileHeader (MOVE_TO_PREFIX @ m)"
    by (simp_all add: isFileHeader_def prefix_defs)
  ultimately show ?thesis
    using assms headerPath_plain [OF assms(3), of MOVE_TO_PREFIX n]
    by (auto simp: envelope_line_def update_line_def Let_def hunk_start_def)
qed

lemma lines_move:
  assumes "hunk_start s os" "\<not> sawMoveTo s" "list_all plain_path (opt_list mv)"
    "op_moveTo (last os) = None" "os \<noteq> []"
  shows "\<exists>s'. envelope_lines (map (\<lambda>m. MOVE_TO_PREFIX @ m) (opt_list mv) @ rest) n s =
      envelope_lines rest (n + length (opt_list mv)) s' \<and>
    hunk_start s' (set_last (\<lambda>op. op\<lparr>op_moveTo := mv\<rparr>) os)"
proof (cases mv)
  case None
  have "set_last (\<lambda>op. op\<lparr>op_moveTo := None\<rparr>) os = os"
    using assms(4,5) by (cases os rule: rev_cases) (auto simp: set_last_def)
  with None assms(1) show ?thesis by auto
next
  case (Some m)
  with assms(3) move_line [OF assms(1,2), of m n] show ?thesis by auto
qed

lemma lines_create:
  assumes "pending st os" "plain_path p"
  shows "\<exists>st'. envelope_lines ((ADD_FILE_PREFIX @ p) # map (\<lambda>l. ''+'' @ l) ls @ rest) n st =
      envelope_lines rest (n + Suc (length ls)) st' \<and>
    pending st' (os @ [\<lparr>op_kind = CreateFile, op_path = p, op_moveTo = None, op_diff = None,
      op_createContent = Some (concat (map (\<lambda>l. l @ [LF]) ls))\<rparr>])"
proof -
  obtain s where s: "emode s = Between" "ops s = os"
    "envelope_line (ADD_FILE_PREFIX @ p) n st = header_line (ADD_FILE_PREFIX @ p) n s"
    using header_at [OF assms, of ADD_FILE_PREFIX] by blast
  then show ?thesis
    using header_lines(1) [OF s(1) assms(2), of n]
    by (intro exI [of _ "s\<lparr>ops := os @ [\<lparr>op_kind = CreateFile, op_path = p, op_moveTo = None,
        op_diff = None, op_createContent = Some []\<rparr>], emode := InAdd,
        addContent := concat (map (\<lambda>l. l @ [LF]) ls)\<rparr>"])
      (simp add: add_lines pending_def set_last_def)
qed

lemma lines_delete:
  assumes "pending st os" "plain_path p"
  shows "\<exists>st'. envelope_lines ((DELETE_FILE_PREFIX @ p) # rest) n st = envelope_lines rest (Suc n) st' \<and>
    pending st' (os @ [\<lparr>op_kind = DeleteFile, op_path = p, op_moveTo = None, op_diff = None,
      op_createContent = None\<rparr>])"
proof -
  obtain s where s: "emode s = Between" "ops s = os"
    "envelope_line (DELETE_FILE_PREFIX @ p) n st = header_line (DELETE_FILE_PREFIX @ p) n s"
    using header_at [OF assms, of DELETE_FILE_PREFIX] by blast
  then show ?thesis
    using header_lines(2) [OF s(1) assms(2), of n]
    by (intro exI [of _ "s\<lparr>ops := os @ [\<lparr>op_kind = DeleteFile, op_path = p, op_moveTo = None,
        op_diff = None, op_createContent = None\<rparr>], emode := InDelete\<rparr>"])
      (simp add: pending_def)
qed

lemma lines_update:
  assumes "pending st os" "plain_path p" "list_all plain_path (opt_list mv)" "hunk_body ls"
  shows "\<exists>st'. envelope_lines ((UPDATE_FILE_PREFIX @ p) #
        map (\<lambda>m. MOVE_TO_PREFIX @ m) (opt_list mv) @ ls @ rest) n st =
      envelope_lines rest (n + (Suc (length (opt_list mv)) + length ls)) st' \<and>
    pending st' (os @ [\<lparr>op_kind = UpdateFile, op_path = p, op_moveTo = mv,
      op_diff = Some (join [LF] ls), op_createContent = None\<rparr>])"
proof -
  let ?o = "\<lparr>op_kind = UpdateFile, op_path = p, op_moveTo = None, op_diff = None, op_createContent = None\<rparr>"
  obtain s where s: "emode s = Between" "ops s = os"
    "envelope_line (UPDATE_FILE_PREFIX @ p) n st = header_line (UPDATE_FILE_PREFIX @ p) n s"
    using header_at [OF assms(1,2), of UPDATE_FILE_PREFIX] by blast
  obtain u where u: "header_line (UPDATE_FILE_PREFIX @ p) n s = Inr u" "\<not> sawMoveTo u" "hunk_start u (os @ [?o])"
    using header_lines(3) [OF s(1) assms(2), of n] s(2) by auto
  obtain v where v: "envelope_lines (map (\<lambda>m. MOVE_TO_PREFIX @ m) (opt_list mv) @ ls @ rest) (Suc n) u =
      envelope_lines (ls @ rest) (Suc n + length (opt_list mv)) v" "hunk_start v (os @ [?o\<lparr>op_moveTo := mv\<rparr>])"
    using lines_move [OF u(3,2) assms(3), of "ls @ rest" "Suc n"] by (auto simp: set_last_def)
  obtain w where w: "envelope_lines (ls @ rest) (Suc n + length (opt_list mv)) v =
      envelope_lines rest (Suc n + length (opt_list mv) + length ls) w"
      "in_hunk w (os @ [?o\<lparr>op_moveTo := mv\<rparr>]) ls True"
    using lines_hunk [OF v(2) assms(4)] by blast
  show ?thesis
  proof (intro exI [of _ w] conjI)
    show "envelope_lines ((UPDATE_FILE_PREFIX @ p) # map (\<lambda>m. MOVE_TO_PREFIX @ m) (opt_list mv) @ ls @ rest) n st =
        envelope_lines rest (n + (Suc (length (opt_list mv)) + length ls)) w"
      using s(3) u(1) v(1) w(1) by (simp only: envelope_lines.simps sum.case add_Suc add_Suc_right add.assoc)
  qed (use w(2) in \<open>auto simp: pending_def in_hunk_def set_last_def\<close>)
qed

lemma lines_op:
  assumes "pending st os" "printable op"
  shows "\<exists>st'. envelope_lines (print_op op @ rest) n st =
      envelope_lines rest (n + length (print_op op)) st' \<and> pending st' (os @ [op])"
proof -
  have p: "plain_path (op_path op)" and c: "op_complete op" and mv: "list_all plain_path (opt_list (op_moveTo op))"
    using assms(2) by (auto simp: printable_def)
  show ?thesis
  proof (cases "op_kind op")
    case CreateFile
    then obtain ls where ls: "op = \<lparr>op_kind = CreateFile, op_path = op_path op, op_moveTo = None,
        op_diff = None, op_createContent = Some (concat (map (\<lambda>l. l @ [LF]) ls))\<rparr>"
        "list_all (\<lambda>l. LF \<notin> set l) ls"
      using c by (cases op) (auto simp: op_complete_def op_typed_def content_ok_def)
    then have "op_createContent op = Some (concat (map (\<lambda>l. l @ [LF]) ls))" by (metis file_op.select_convs(5))
    then have "print_op op = (ADD_FILE_PREFIX @ op_path op) # map (\<lambda>l. ''+'' @ l) ls"
      using split_content [OF ls(2)] by (simp add: print_op_def CreateFile)
    with lines_create [OF assms(1) p, of ls rest n] ls(1) show ?thesis by simp
  next
    case DeleteFile
    then have o: "op = \<lparr>op_kind = DeleteFile, op_path = op_path op, op_moveTo = None,
        op_diff = None, op_createContent = None\<rparr>"
      using c by (cases op) (auto simp: op_complete_def op_typed_def)
    have "print_op op = [DELETE_FILE_PREFIX @ op_path op]" by (simp add: print_op_def DeleteFile)
    with lines_delete [OF assms(1) p, of rest n] o show ?thesis by simp
  next
    case UpdateFile
    then obtain ls where ls: "op = \<lparr>op_kind = UpdateFile, op_path = op_path op, op_moveTo = op_moveTo op,
        op_diff = Some (join [LF] ls), op_createContent = None\<rparr>"
        "hunk_body ls" "list_all (\<lambda>l. LF \<notin> set l) ls"
      using c by (cases op) (auto simp: op_complete_def op_typed_def diff_ok_def)
    then have "op_diff op = Some (join [LF] ls)" by (metis file_op.select_convs(4))
    then have "print_op op = (UPDATE_FILE_PREFIX @ op_path op) #
        map (\<lambda>m. MOVE_TO_PREFIX @ m) (opt_list (op_moveTo op)) @ ls"
      using split_diff [OF ls(2,3)] by (simp add: print_op_def UpdateFile)
    with lines_update [OF assms(1) p mv ls(2), of rest n] ls(1) show ?thesis
      by (simp add: add.assoc)
  qed
qed

lemma lines_ops:
  assumes "pending st os" "list_all printable xs"
  shows "\<exists>st'. envelope_lines (concat (map print_op xs) @ rest) n st =
      envelope_lines rest (n + length (concat (map print_op xs))) st' \<and> pending st' (os @ xs)"
  using assms
proof (induction xs arbitrary: st os n)
  case (Cons op xs)
  then obtain s where s: "envelope_lines (print_op op @ concat (map print_op xs) @ rest) n st =
      envelope_lines (concat (map print_op xs) @ rest) (n + length (print_op op)) s" "pending s (os @ [op])"
    using lines_op [of st os op "concat (map print_op xs) @ rest" n] by auto
  with Cons.IH [OF s(2), of "n + length (print_op op)"] Cons.prems(2) show ?case
    by (auto simp: add.assoc)
qed auto

subsection \<open>The round trip\<close>

lemma set_split_on: "x \<in> set (split_on c s) \<Longrightarrow> set x \<subseteq> set s"
proof (induction s arbitrary: x)
  case (Cons a s)
  then show ?case by (cases "split_on c s") (fastforce split: if_splits)+
qed simp

lemma print_op_lines:
  assumes "printable op" "l \<in> set (print_op op)"
  shows "LF \<notin> set l \<and> CR \<notin> set l"
proof -
  have pre: "LF \<notin> set ADD_FILE_PREFIX \<and> CR \<notin> set ADD_FILE_PREFIX" "LF \<notin> set DELETE_FILE_PREFIX \<and> CR \<notin> set DELETE_FILE_PREFIX"
      "LF \<notin> set UPDATE_FILE_PREFIX \<and> CR \<notin> set UPDATE_FILE_PREFIX" "LF \<notin> set MOVE_TO_PREFIX \<and> CR \<notin> set MOVE_TO_PREFIX"
    by (auto simp: prefix_defs LF_def CR_def)
  have part: "LF \<notin> set x \<and> CR \<notin> set x" if "x \<in> set (split_on LF c)" "CR \<notin> set c" for x c
    using that split_on_no_sep [OF that(1)] set_split_on [OF that(1)] by blast
  show ?thesis
    using assms pre
    by (auto simp: print_op_def printable_def plain_path_def path_ok_def op_complete_def op_typed_def LF_def CR_def
        split: op_type.splits option.splits dest!: in_set_butlastD part [unfolded LF_def CR_def])
qed

lemma boundary_lines [simp]:
  "trim BEGIN_PATCH = BEGIN_PATCH" "\<not> blank BEGIN_PATCH" "\<not> blank END_PATCH"
  "\<not> heredoc_start BEGIN_PATCH" "LF \<notin> set BEGIN_PATCH" "LF \<notin> set END_PATCH"
  "last BEGIN_PATCH \<noteq> CR" "last END_PATCH \<noteq> CR"
  by code_simp+

lemma trim_not_Nil: "c \<in> set s \<Longrightarrow> \<not> js_space c \<Longrightarrow> trim s \<noteq> []"
  by (auto simp: trim_def trim_start_def trim_end_def)
    (metis takeWhile_dropWhile_id Un_iff set_append set_takeWhileD)

lemma last_content_here: "\<not> blank (ls ! n) \<Longrightarrow> last_content ls n = n"
  by (cases n) auto

lemma envelope_body_print:
  assumes "list_all (\<lambda>l. LF \<notin> set l \<and> CR \<notin> set l) ls"
  shows "envelope_body (join [LF] (BEGIN_PATCH # ls @ [END_PATCH])) = Inr (ls @ [END_PATCH])"
proof -
  have "split_lines (join [LF] (BEGIN_PATCH # ls @ [END_PATCH])) = BEGIN_PATCH # ls @ [END_PATCH]"
    using assms by (intro split_lines_join) (auto simp: list_all_iff dest: last_in_set)
  moreover have "drop_blank_ends (BEGIN_PATCH # ls @ [END_PATCH]) = BEGIN_PATCH # ls @ [END_PATCH]"
    by (simp add: drop_blank_ends_def)
  moreover have "unwrap_heredoc (BEGIN_PATCH # ls @ [END_PATCH]) = BEGIN_PATCH # ls @ [END_PATCH]"
    by (simp add: unwrap_heredoc_def)
  moreover have "last_content (BEGIN_PATCH # ls @ [END_PATCH]) (Suc (length ls)) = Suc (length ls)"
    by (rule last_content_here) simp
  ultimately show ?thesis by (simp add: envelope_body_def slice_def)
qed

lemma print_envelope_not_blank: "trim (print_envelope os) \<noteq> []"
  by (rule trim_not_Nil [of "CHR ''*''"])
    (auto simp: print_envelope_def join_Cons BEGIN_PATCH_def js_space_def)

text \<open>
  C10. Parsing a printed envelope gives back its operations, in their order and with every field:
  paths, rename destinations, added contents and update diffs.  The operations are the well formed
  ones without carriage returns whose paths do not start with the \<open>@\<close> marker, which the parser
  strips.
\<close>

theorem parse_print_envelope:
  assumes "list_all printable os"
  shows "parseApplyPatchEnvelope (Some (print_envelope os)) = Inr os"
proof -
  let ?ls = "concat (map print_op os)"
  have "list_all (\<lambda>l. LF \<notin> set l \<and> CR \<notin> set l) ?ls"
    using assms print_op_lines by (auto simp: list_all_iff)
  then have b: "envelope_body (print_envelope os) = Inr (?ls @ [END_PATCH])"
    unfolding print_envelope_def by (rule envelope_body_print)
  have "pending envelope_init []" by (simp add: pending_def envelope_init_def)
  from lines_ops [OF this assms, of "[END_PATCH]" 2] obtain st where
    st: "envelope_lines (?ls @ [END_PATCH]) 2 envelope_init =
      envelope_lines [END_PATCH] (2 + length ?ls) st" "pending st os"
    by (metis append_Nil)
  obtain s where "envelope_line END_PATCH (2 + length ?ls) st = Inr s" "ops s = os"
    using end_line [OF st(2)] by blast
  with st(1) b print_envelope_not_blank show ?thesis
    by (simp add: parseApplyPatchEnvelope_def)
qed

text \<open>Two operations: a new file of one line, and an update with an anchored chunk and a rename.\<close>

definition sample_ops :: "file_op list" where
  "sample_ops =
     [\<lparr>op_kind = CreateFile, op_path = ''a'', op_moveTo = None, op_diff = None,
        op_createContent = Some (''x'' @ [LF])\<rparr>,
      \<lparr>op_kind = UpdateFile, op_path = ''b'', op_moveTo = Some ''c'',
        op_diff = Some (join [LF] [''@@ f'', ''-x'', ''+y'']), op_createContent = None\<rparr>]"

lemma sample_ops_printable: "list_all printable sample_ops"
proof -
  have "content_ok (''x'' @ [LF])" unfolding content_ok_def by (intro exI [of _ "[''x'']"]) (simp add: LF_def)
  moreover have "hunk_body [''@@ f'', ''-x'', ''+y'']"
    unfolding hunk_body_def
    by (intro exI [of _ "[(Some ''@@ f'', [''-x'', ''+y''], None)]"])
      (simp add: chunk_marker_def change_line_def trim_end_def js_space_def)
  then have "diff_ok (join [LF] [''@@ f'', ''-x'', ''+y''])"
    unfolding diff_ok_def by (intro exI [of _ "[''@@ f'', ''-x'', ''+y'']"]) (simp add: LF_def)
  ultimately show ?thesis
    by (simp add: sample_ops_def printable_def plain_path_def path_ok_def op_complete_def op_typed_def
        trim_def trim_start_def trim_end_def js_space_def LF_def CR_def NUL_def)
qed

theorem parse_print_envelope_witness:
  "parseApplyPatchEnvelope (Some (print_envelope sample_ops)) = Inr sample_ops"
  by (rule parse_print_envelope [OF sample_ops_printable])

subsection \<open>The header scan\<close>

text \<open>The paths that appear in the operations, as the scan would name them.\<close>

definition named :: "file_op list \<Rightarrow> (string \<times> string) set" where
  "named os = (\<Union>op \<in> set os. set (op_candidates op))"

lemma named_simps [simp]: "named [] = {}" "named (xs @ ys) = named xs \<union> named ys"
  "named (x # xs) = set (op_candidates x) \<union> named xs"
  by (auto simp: named_def)

lemma after_colon_prefix:
  "after_colon (ADD_FILE_PREFIX @ s) = s" "after_colon (DELETE_FILE_PREFIX @ s) = s"
  "after_colon (UPDATE_FILE_PREFIX @ s) = s"
  by (simp_all add: after_colon_def prefix_defs)

lemma line_candidates_file:
  assumes "headerPath (trim l) pre n = Inr p" "starts_with (trim l) pre"
    "pre \<in> {ADD_FILE_PREFIX, DELETE_FILE_PREFIX, UPDATE_FILE_PREFIX}"
  shows "(p, ''patch'') \<in> set (line_candidates l)"
proof -
  obtain s where s: "trim l = pre @ s" using assms(2) by (auto simp: starts_with_iff_prefix prefix_def)
  then have "after_colon (trim l) = s" using assms(3) after_colon_prefix by auto
  moreover have "normalizeApplyPatchPathMarker s = p" "p \<noteq> []"
    using assms(1) s by (auto simp: headerPath_def Let_def split: if_splits)
  moreover have "starts_with (trim l) ADD_FILE_PREFIX \<or> starts_with (trim l) UPDATE_FILE_PREFIX \<or>
      starts_with (trim l) DELETE_FILE_PREFIX"
    using assms(2,3) by auto
  ultimately show ?thesis by (simp add: line_candidates_def)
qed

lemma line_candidates_move:
  assumes "headerPath (trim_end l) MOVE_TO_PREFIX n = Inr p" "starts_with (trim_end l) MOVE_TO_PREFIX"
  shows "(p, ''patch.move'') \<in> set (line_candidates l)"
proof -
  obtain s where s: "trim_end l = MOVE_TO_PREFIX @ s" using assms(2) by (auto simp: starts_with_iff_prefix prefix_def)
  have "trim l = trim_start (trim_end l)" by (simp add: trim_def trim_start_trim_end)
  also have "\<dots> = trim_end l" by (simp add: s MOVE_TO_PREFIX_def trim_start_Cons_other js_space_def)
  finally have t: "trim l = MOVE_TO_PREFIX @ s" using s by simp
  have "normalizeApplyPatchPathMarker s = p" "p \<noteq> []"
    using assms(1) s by (auto simp: headerPath_def Let_def split: if_splits)
  with t show ?thesis by (simp add: line_candidates_def prefix_defs)
qed

lemma named_set_last:
  assumes "xs \<noteq> []" "op_path (f (last xs)) = op_path (last xs)"
    "set (op_candidates (f (last xs))) \<subseteq> set (op_candidates (last xs)) \<union> X"
  shows "named (set_last f xs) \<subseteq> named xs \<union> X"
  using assms by (cases xs rule: rev_cases) (auto simp: set_last_def)

lemma op_candidates_cong:
  "op_path op = op_path op' \<Longrightarrow> op_moveTo op = op_moveTo op' \<Longrightarrow> op_candidates op = op_candidates op'"
  by (simp add: op_candidates_def)

lemma named_set_last_same:
  assumes "xs \<noteq> []" "\<And>op. op_candidates (f op) = op_candidates op"
  shows "named (set_last f xs) = named xs"
  using assms by (cases xs rule: rev_cases) (auto simp: set_last_def)

lemma header_line_named:
  assumes "header_line (trim l) n st = Inr st'"
  shows "named (ops st') \<subseteq> named (ops st) \<union> set (line_candidates l)"
  using assms line_candidates_file [of l _ n]
  by (auto simp: header_line_def op_candidates_def split: if_splits sum.splits)

lemma outer_line_named:
  assumes "outer_line l n st = Inr st'" "emode st = InAdd \<longrightarrow> ops st \<noteq> []"
  shows "named (ops st') \<subseteq> named (ops st) \<union> set (line_candidates l)"
proof (cases "emode st = InAdd")
  case True
  then have "named (set_last (\<lambda>op. op\<lparr>op_createContent := Some (addContent st)\<rparr>) (ops st)) = named (ops st)"
    using assms(2) by (intro named_set_last_same) (auto intro: op_candidates_cong)
  moreover have "ops st' = ops st \<or> (\<exists>s. header_line (trim l) n s = Inr st' \<and>
      ops s = set_last (\<lambda>op. op\<lparr>op_createContent := Some (addContent st)\<rparr>) (ops st))"
    using True assms(1)
    by (auto simp: outer_line_def Let_def split: if_splits
        intro: exI [of _ "st\<lparr>ops := set_last _ (ops st), addContent := _, emode := Between\<rparr>"])
  ultimately show ?thesis using header_line_named by (metis Un_upper1)
next
  case False
  then have "\<exists>s. ops s = ops st \<and> header_line (trim l) n s = Inr st'"
    using assms(1)
    by (cases "emode st") (auto simp: outer_line_def Let_def split: if_splits intro: exI [of _ "st\<lparr>emode := Between\<rparr>"])
  then show ?thesis using header_line_named by metis
qed

lemma update_line_ops:
  assumes "update_line l n st = Inr st'"
  shows "ops st' = ops st \<or> (\<exists>p. headerPath (trim_end l) MOVE_TO_PREFIX n = Inr p \<and>
    starts_with (trim_end l) MOVE_TO_PREFIX \<and>
    ops st' = set_last (\<lambda>op. op\<lparr>op_moveTo := Some p\<rparr>) (ops st))"
proof (cases "\<not> sawEof st \<and> \<not> updateStarted st \<and> \<not> sawMoveTo st \<and> starts_with (trim_end l) MOVE_TO_PREFIX")
  case True
  with assms show ?thesis
    by (cases "headerPath (trim_end l) MOVE_TO_PREFIX n") (auto simp: update_line_def Let_def)
next
  case False
  then have "ops st' = ops st"
    using assms unfolding update_line_def Let_def by (simp split: if_splits) force+
  then show ?thesis ..
qed

lemma update_line_named:
  assumes "update_line l n st = Inr st'" "ops st \<noteq> []"
  shows "named (ops st') \<subseteq> named (ops st) \<union> set (line_candidates l)"
  using update_line_ops [OF assms(1)]
proof
  assume "\<exists>p. headerPath (trim_end l) MOVE_TO_PREFIX n = Inr p \<and>
    starts_with (trim_end l) MOVE_TO_PREFIX \<and>
    ops st' = set_last (\<lambda>op. op\<lparr>op_moveTo := Some p\<rparr>) (ops st)"
  then obtain p where p: "headerPath (trim_end l) MOVE_TO_PREFIX n = Inr p"
      "starts_with (trim_end l) MOVE_TO_PREFIX" "ops st' = set_last (\<lambda>op. op\<lparr>op_moveTo := Some p\<rparr>) (ops st)"
    by blast
  have "(p, ''patch.move'') \<in> set (line_candidates l)" by (rule line_candidates_move [OF p(1,2)])
  then show ?thesis
    unfolding p(3) by (intro named_set_last assms(2)) (auto simp: op_candidates_def)
qed simp

lemma envelope_line_named:
  assumes "env_inv st" "envelope_line l n st = Inr st'"
  shows "named (ops st') \<subseteq> named (ops st) \<union> set (line_candidates l)"
proof (cases "emode st = InUpdate")
  case True
  then have ne: "ops st \<noteq> []" using assms(1) by (simp add: env_inv_def)
  show ?thesis
  proof (cases "trim_end l = END_PATCH \<or> isFileHeader (trim_end l)")
    case True
    with \<open>emode st = InUpdate\<close> assms(2) obtain s where s: "closeUpdateHunk (trim_end l) n st = Inr s"
        "st' = s\<lparr>emode := Between\<rparr> \<or> outer_line l n (s\<lparr>emode := Between\<rparr>) = Inr st'"
      by (auto simp: envelope_line_def Let_def split: sum.splits if_splits)
    have "ops s = set_last (\<lambda>op. op\<lparr>op_diff := Some (join [LF] (bodyLines st))\<rparr>) (ops st)"
      using s(1) \<open>emode st = InUpdate\<close> by (auto simp: closeUpdateHunk_def split: if_splits)
    then have "named (ops s) = named (ops st)"
      using ne by (simp add: named_set_last_same op_candidates_def)
    moreover have "named (ops st') \<subseteq> named (ops s) \<union> set (line_candidates l)"
      using s(2) outer_line_named [of l n "s\<lparr>emode := Between\<rparr>" st'] by force
    ultimately show ?thesis by simp
  next
    case False
    with \<open>emode st = InUpdate\<close> assms(2) have "update_line l n st = Inr st'"
      by (simp add: envelope_line_def Let_def)
    then show ?thesis using ne by (rule update_line_named)
  qed
next
  case False
  then have "outer_line l n st = Inr st'" using assms(2) by (simp add: envelope_line_def)
  moreover have "emode st = InAdd \<longrightarrow> ops st \<noteq> []" using assms(1) by (auto simp: env_inv_def)
  ultimately show ?thesis by (rule outer_line_named)
qed

lemma envelope_lines_named:
  assumes "env_inv st" "envelope_lines ls n st = Inr st'" "\<forall>l \<in> set ls. LF \<notin> set l"
  shows "named (ops st') \<subseteq> named (ops st) \<union> (\<Union>l \<in> set ls. set (line_candidates l))"
  using assms
proof (induction ls n st rule: envelope_lines.induct)
  case (2 l ls n st)
  then obtain s where s: "envelope_line l n st = Inr s" "envelope_lines ls (Suc n) s = Inr st'"
    by (auto split: sum.splits)
  moreover have "env_inv s" using envelope_line_inv [OF 2(2) s(1)] 2(4) by simp
  ultimately show ?case
    using 2 envelope_line_named [OF 2(2) s(1)] by auto
qed simp

text \<open>
  The paths extracted for evidence before a patch runs are always among those of the header
  scan, so a malformed envelope loses none of the paths a parse would have named, and of an
  envelope that parses they are exactly the paths and rename destinations of its operations.
\<close>

theorem candidate_paths_sound:
  "set (extractEnvelopeCandidatePaths p) \<subseteq> set (scan_candidates p) \<and>
   (case parseApplyPatchEnvelope (Some p) of
      Inl _ \<Rightarrow> extractEnvelopeCandidatePaths p = scan_candidates p
    | Inr os \<Rightarrow> map fst (extractEnvelopeCandidatePaths p) =
        concat (map (\<lambda>op. op_path op # opt_list (op_moveTo op)) os))"
proof (cases "parseApplyPatchEnvelope (Some p)")
  case (Inr os)
  then obtain ls st where w: "envelope_body p = Inr ls" "envelope_lines ls 2 envelope_init = Inr st" "os = ops st"
    by (rule parse_InrE)
  note b = envelope_body_InrD [OF w(1)]
  have n: "\<forall>l \<in> set ls. LF \<notin> set l" using b split_lines_no_LF by auto
  have "named os \<subseteq> (\<Union>l \<in> set ls. set (line_candidates l))"
    using envelope_lines_named [OF env_inv_init w(2) n] w(3) by (simp add: envelope_init_def)
  then have "set (extractEnvelopeCandidatePaths p) \<subseteq> set (scan_candidates p)"
    using b Inr by (fastforce simp: extractEnvelopeCandidatePaths_def scan_candidates_def named_def)
  moreover have "list_all op_typed os"
    using env_inv_typed [OF envelope_lines_inv [OF env_inv_init w(2) n]] w(3) by simp
  then have "map fst (concat (map op_candidates os)) = concat (map (\<lambda>op. op_path op # opt_list (op_moveTo op)) os)"
    by (induction os) (auto simp: op_candidates_def op_typed_def path_ok_def split: option.splits op_type.splits)
  ultimately show ?thesis using Inr by (simp add: extractEnvelopeCandidatePaths_def)
qed (simp add: extractEnvelopeCandidatePaths_def)

end
