(* ===== verification/Json.thy ===== *)
theory Json
  imports Prelude "HOL-Library.Countable"
begin

text \<open>
  Values of \<open>JSON.parse\<close> and the tests the code makes on them.  A property that is read is looked
  up among the own properties: the names the code reads are not those of \<open>Object.prototype\<close>.
\<close>

text \<open>JSON values; the numbers are the finite ones, an object lists its own properties.\<close>

datatype json =
    JNull
  | JBool bool
  | JNum rat
  | JStr string
  | JArr "json list"
  | JObj "(string \<times> json) list"

instance json :: countable
  by countable_datatype

text \<open>\<open>x?.name\<close> of a JSON value, and \<open>Object.entries\<close> of one.\<close>

fun field :: "json \<Rightarrow> string \<Rightarrow> json option" where
  "field (JObj kvs) k = map_of kvs k"
| "field _ k = None"

fun object_entries :: "json \<Rightarrow> (string \<times> json) list" where
  "object_entries (JObj kvs) = kvs"
| "object_entries (JArr vs) = zip (map nat_str [0..<length vs]) vs"
| "object_entries _ = []"

fun is_object :: "json option \<Rightarrow> bool" where
  "is_object (Some (JObj _)) = True"
| "is_object (Some (JArr _)) = True"
| "is_object _ = False"

definition isSafeInteger :: "rat \<Rightarrow> bool" where
  "isSafeInteger r \<longleftrightarrow> snd (quotient_of r) = 1 \<and> \<bar>r\<bar> \<le> 9007199254740991"

fun isRecord :: "json option \<Rightarrow> bool" where
  "isRecord (Some (JObj _)) = True"
| "isRecord _ = False"

definition json_string :: "json option \<Rightarrow> string option" where
  "json_string j = (case j of Some (JStr s) \<Rightarrow> Some s | _ \<Rightarrow> None)"

end
