(* ===== verification/Review_Verdict.thy ===== *)
theory Review_Verdict
  imports Json
begin

text \<open>
  From the text of a reviewer to the verdict of the gate: \<open>src/src/schema.ts\<close> and the aggregation
  of \<open>src/src/review.ts\<close>.  \<open>JSON.parse\<close> is the parameter \<open>parse\<close>, \<open>None\<close> when it
  throws; nothing is assumed of it.  Strings are lists of code units below 256.  The fields of a result
  that are only stamped and copied (usage, telemetry, adapter, configuration fingerprint) are left out.
\<close>

datatype verdict = Pass | NeedsChanges | VerdictError
datatype severity = Blocking | NonBlocking
datatype settlement = Confirmed | Unconfirmed

record finding =
  f_reviewerId :: "string option"
  f_severity :: severity
  f_file :: string
  f_line :: "nat option"
  f_issue :: string
  f_recommendation :: string

record review_result =
  reviewerId :: string
  r_verdict :: verdict
  r_summary :: string
  r_guidance :: "string option"
  r_findings :: "finding list"
  rawOutputPath :: "string option"
  r_error :: "string option"
  r_diagnostic :: "string option"
  processSettlement :: "settlement option"
  displayLabel :: "string option"

definition plain_result :: "string \<Rightarrow> verdict \<Rightarrow> string \<Rightarrow> string option \<Rightarrow> string option \<Rightarrow> review_result" where
  "plain_result rid v s path err =
     \<lparr>reviewerId = rid, r_verdict = v, r_summary = s, r_guidance = None, r_findings = [], rawOutputPath = path,
      r_error = err, r_diagnostic = None, processSettlement = None, displayLabel = None\<rparr>"

subsection \<open>Commit identities\<close>

definition commit_id :: "string \<Rightarrow> bool" where
  "commit_id s \<longleftrightarrow> 40 \<le> length s \<and> length s \<le> 64 \<and> list_all (\<lambda>c. c \<in> set ''0123456789abcdef'') s"

datatype identity_error = NotAnObject | BaseNotString | CandidateNotString | BaseNotCommit string | CandidateNotCommit string

definition validateChangeIdentity :: "json \<Rightarrow> identity_error option" where
  "validateChangeIdentity j =
     (if \<not> isRecord (Some j) then Some NotAnObject
      else case json_string (field j ''baseCommit'') of
        None \<Rightarrow> Some BaseNotString
      | Some base \<Rightarrow>
          (case json_string (field j ''candidateCommit'') of
             None \<Rightarrow> Some CandidateNotString
           | Some candidate \<Rightarrow>
               (if \<not> commit_id base then Some (BaseNotCommit base)
                else if \<not> commit_id candidate then Some (CandidateNotCommit candidate)
                else None)))"

subsection \<open>The shape of a review\<close>

definition schemaError :: "string \<Rightarrow> string \<Rightarrow> string option \<Rightarrow> review_result" where
  "schemaError rid message path = plain_result rid VerdictError message path (Some ''schema_error'')"

definition hasAllowedKeysOrNullExtras :: "(string \<times> json) list \<Rightarrow> string list \<Rightarrow> string list \<Rightarrow> bool" where
  "hasAllowedKeysOrNullExtras kvs allowed required \<longleftrightarrow>
     list_all (\<lambda>(k, v). k \<in> set allowed \<or> v = JNull) kvs
     \<and> list_all (\<lambda>k. map_of kvs k \<noteq> None) required"

definition REVIEW_RESULT_KEYS :: "string list" where
  "REVIEW_RESULT_KEYS = [''verdict'', ''summary'', ''guidance'', ''findings'', ''error'']"

definition REQUIRED_REVIEW_RESULT_KEYS :: "string list" where
  "REQUIRED_REVIEW_RESULT_KEYS = [''verdict'', ''summary'', ''findings'']"

definition REVIEW_FINDING_KEYS :: "string list" where
  "REVIEW_FINDING_KEYS = [''severity'', ''file'', ''line'', ''issue'', ''recommendation'']"

definition normalizeFindingFile :: "json option \<Rightarrow> string" where
  "normalizeFindingFile j =
     (case json_string j of
        None \<Rightarrow> ''session''
      | Some s \<Rightarrow> (if trim s = [] then ''session'' else trim s))"

definition severity_of :: "json option \<Rightarrow> severity option" where
  "severity_of j =
     (if json_string j = Some ''blocking'' then Some Blocking
      else if json_string j = Some ''non_blocking'' then Some NonBlocking else None)"

text \<open>A line is null or a positive integer; \<open>None\<close> when it is neither.\<close>

definition line_of :: "json option \<Rightarrow> nat option option" where
  "line_of j =
     (case j of
        Some JNull \<Rightarrow> Some None
      | Some (JNum r) \<Rightarrow> (if snd (quotient_of r) = 1 \<and> r > 0 then Some (Some (nat \<lfloor>r\<rfloor>)) else None)
      | _ \<Rightarrow> None)"

definition parse_finding :: "json \<Rightarrow> string + finding" where
  "parse_finding item =
     (case item of
        JObj kvs \<Rightarrow>
          (if \<not> hasAllowedKeysOrNullExtras kvs REVIEW_FINDING_KEYS REVIEW_FINDING_KEYS
           then Inl ''Each finding must contain exactly severity, file, line, issue, and recommendation.''
           else case severity_of (field item ''severity'') of
             None \<Rightarrow> Inl ''Each finding must include a valid severity.''
           | Some sev \<Rightarrow>
               (case (json_string (field item ''issue''), json_string (field item ''recommendation'')) of
                  (Some issue, Some recommendation) \<Rightarrow>
                    (if field item ''file'' \<noteq> Some JNull \<and> json_string (field item ''file'') = None
                     then Inl ''Each finding must include issue and recommendation strings, with file as a string or null.''
                     else case line_of (field item ''line'') of
                       None \<Rightarrow> Inl ''Finding line must be a positive integer or null.''
                     | Some ln \<Rightarrow>
                         Inr \<lparr>f_reviewerId = None, f_severity = sev,
                              f_file = normalizeFindingFile (field item ''file''), f_line = ln,
                              f_issue = trim issue, f_recommendation = trim recommendation\<rparr>)
                | _ \<Rightarrow> Inl ''Each finding must include issue and recommendation strings, with file as a string or null.''))
      | _ \<Rightarrow> Inl ''Each finding must be an object.'')"

fun parse_findings :: "json list \<Rightarrow> string + finding list" where
  "parse_findings [] = Inr []"
| "parse_findings (item # items) =
     (case parse_finding item of
        Inl e \<Rightarrow> Inl e
      | Inr f \<Rightarrow> (case parse_findings items of Inl e \<Rightarrow> Inl e | Inr fs \<Rightarrow> Inr (f # fs)))"

definition verdict_of :: "json option \<Rightarrow> verdict option" where
  "verdict_of j =
     (if json_string j = Some ''pass'' then Some Pass
      else if json_string j = Some ''needs_changes'' then Some NeedsChanges
      else if json_string j = Some ''error'' then Some VerdictError else None)"

text \<open>A string or nothing: undefined and null pass, any other value does not.\<close>

definition optional_string :: "json option \<Rightarrow> string option" where
  "optional_string j =
     (case j of None \<Rightarrow> Some [] | Some JNull \<Rightarrow> Some [] | Some (JStr s) \<Rightarrow> Some (trim s) | _ \<Rightarrow> None)"

definition nonempty :: "string \<Rightarrow> string option" where
  "nonempty s = (if s = [] then None else Some s)"

definition normalizeReviewResult :: "string \<Rightarrow> json \<Rightarrow> string option \<Rightarrow> review_result" where
  "normalizeReviewResult rid j path =
     (let bad = (\<lambda>message. schemaError rid message path) in
      case j of
        JObj kvs \<Rightarrow>
          (if \<not> hasAllowedKeysOrNullExtras kvs REVIEW_RESULT_KEYS REQUIRED_REVIEW_RESULT_KEYS
           then bad ''Reviewer JSON contains missing or unsupported fields.''
           else case verdict_of (field j ''verdict'') of
             None \<Rightarrow> bad ''Reviewer JSON has an invalid verdict.''
           | Some v \<Rightarrow>
               (let text = (case json_string (field j ''summary'') of Some s \<Rightarrow> trim s | None \<Rightarrow> []) in
                if text = [] then bad ''Reviewer JSON must include a summary string.''
                else case optional_string (field j ''guidance'') of
                  None \<Rightarrow> bad ''Reviewer JSON guidance must be a string or null when supplied.''
                | Some guide \<Rightarrow>
                    (case field j ''findings'' of
                       Some (JArr items) \<Rightarrow>
                         (case parse_findings items of
                            Inl message \<Rightarrow> bad message
                          | Inr fs \<Rightarrow>
                              (case optional_string (field j ''error'') of
                                 None \<Rightarrow> bad ''Reviewer JSON error must be a string or null when supplied.''
                               | Some err \<Rightarrow>
                                   (if v = VerdictError \<and> err = []
                                    then bad ''An error verdict must include a non-empty error string.''
                                    else if v \<noteq> VerdictError \<and> err \<noteq> []
                                    then bad ''A non-error verdict must set error to null.''
                                    else (plain_result rid v text path (nonempty err))
                                           \<lparr>r_guidance := nonempty guide, r_findings := fs\<rparr>)))
                     | _ \<Rightarrow> bad ''Reviewer JSON must include findings array.'')))
      | _ \<Rightarrow> bad ''Reviewer JSON must be an object.'')"

subsection \<open>JSON inside a reply\<close>

definition QUOTE :: char where "QUOTE = CHR 0x22"
definition BACKSLASH :: char where "BACKSLASH = CHR 0x5C"

record scan_state =
  depth :: nat
  inString :: bool
  escaped :: bool
  obj_start :: "nat option"
  objects :: "string list"

definition scan_char :: "string \<Rightarrow> nat \<Rightarrow> scan_state \<Rightarrow> scan_state" where
  "scan_char text i st =
     (let c = text ! i in
      if inString st then
        (if escaped st then st\<lparr>escaped := False\<rparr>
         else if c = BACKSLASH then st\<lparr>escaped := True\<rparr>
         else if c = QUOTE then st\<lparr>inString := False\<rparr>
         else st)
      else if c = QUOTE then st\<lparr>inString := True\<rparr>
      else if c = CHR ''{'' then
        st\<lparr>obj_start := (if depth st = 0 then Some i else obj_start st), depth := depth st + 1\<rparr>
      else if c = CHR ''}'' then
        (let d = (if depth st > 0 then depth st - 1 else depth st); st1 = st\<lparr>depth := d\<rparr> in
         case obj_start st of
           Some start \<Rightarrow>
             (if d = 0 then st1\<lparr>objects := objects st @ [slice text start (i + 1)], obj_start := None\<rparr> else st1)
         | None \<Rightarrow> st1)
      else st)"

definition extractBalancedJsonObjects :: "string \<Rightarrow> string list" where
  "extractBalancedJsonObjects text =
     objects (fold (scan_char text) [0..<length text]
       \<lparr>depth = 0, inString = False, escaped = False, obj_start = None, objects = []\<rparr>)"

definition extractJsonObject :: "string \<Rightarrow> string option" where
  "extractJsonObject text = js_nth (extractBalancedJsonObjects text) 0"

text \<open>Literal control characters inside the strings of a JSON text, escaped.\<close>

definition hex_digit :: "nat \<Rightarrow> char" where
  "hex_digit d = ''0123456789abcdef'' ! d"

fun escape_loop :: "bool \<Rightarrow> bool \<Rightarrow> string \<Rightarrow> string" where
  "escape_loop ins esc [] = []"
| "escape_loop False esc (c # s) = c # escape_loop (c = QUOTE) esc s"
| "escape_loop True esc (c # s) =
     (if c = LF then BACKSLASH # CHR ''n'' # escape_loop True False s
      else if c = CR then BACKSLASH # CHR ''r'' # escape_loop True False s
      else if c = TAB then BACKSLASH # CHR ''t'' # escape_loop True False s
      else if (of_char c :: nat) < 0x20
      then BACKSLASH # ''u00'' @ [hex_digit (of_char c div 16), hex_digit (of_char c mod 16)] @ escape_loop True False s
      else c # (if esc then escape_loop True False s
                else if c = BACKSLASH then escape_loop True True s
                else if c = QUOTE then escape_loop False False s
                else escape_loop True False s))"

definition escapeControlCharactersInJsonStrings :: "string \<Rightarrow> string" where
  "escapeControlCharactersInJsonStrings s = escape_loop False False s"

text \<open>\<open>/```[ \t]*json\b/i\<close> at the start of a text: what follows it.\<close>

definition skip_blanks :: "string \<Rightarrow> string" where
  "skip_blanks s = dropWhile (\<lambda>c. c = CHR '' '' \<or> c = TAB) s"

definition word_char :: "char \<Rightarrow> bool" where
  "word_char c \<longleftrightarrow> (let n = (of_char c :: nat) in
     (48 \<le> n \<and> n \<le> 57) \<or> (65 \<le> n \<and> n \<le> 90) \<or> n = 95 \<or> (97 \<le> n \<and> n \<le> 122))"

definition FENCE :: string where "FENCE = ''```''"

definition fence_head :: "string \<Rightarrow> string option" where
  "fence_head s =
     (if \<not> starts_with s FENCE then None
      else (let r = skip_blanks (drop 3 s); rest = drop 4 r in
            if map js_lower (take 4 r) = ''json'' \<and> (case rest of [] \<Rightarrow> True | c # _ \<Rightarrow> \<not> word_char c)
            then Some rest else None))"

text \<open>The rest of the pattern: blanks, one line end, and the shortest text up to a closing fence.\<close>

definition fence_body :: "string \<Rightarrow> (string \<times> string) option" where
  "fence_body s =
     (let r = skip_blanks s;
          body = (if starts_with r [CR, LF] then drop 2 r else if starts_with r [LF] then drop 1 r else r) in
      case find_from (\<lambda>i. starts_with (drop i body) FENCE) 0 (length body) of
        None \<Rightarrow> None
      | Some i \<Rightarrow> Some (take i body, drop (i + 3) body))"

definition fence_at :: "string \<Rightarrow> (string \<times> string) option" where
  "fence_at s = (case fence_head s of None \<Rightarrow> None | Some rest \<Rightarrow> fence_body rest)"

lemma skip_blanks_suffix: "\<exists>q. s = q @ skip_blanks s"
  unfolding skip_blanks_def by (metis takeWhile_dropWhile_id)

lemma fence_head_suffix:
  assumes "fence_head s = Some r"
  shows "\<exists>q. s = q @ r \<and> q \<noteq> []"
proof -
  obtain q where q: "drop 3 s = q @ skip_blanks (drop 3 s)" using skip_blanks_suffix by blast
  have r: "starts_with s FENCE" "r = drop 4 (skip_blanks (drop 3 s))"
    using assms by (auto simp: fence_head_def Let_def split: if_splits)
  have "s = take 3 s @ drop 3 s" by simp
  also have "\<dots> = take 3 s @ q @ take 4 (skip_blanks (drop 3 s)) @ r" using q r(2) by simp
  finally have "s = (take 3 s @ q @ take 4 (skip_blanks (drop 3 s))) @ r" by simp
  moreover have "take 3 s \<noteq> []" using r(1) by (cases s) (auto simp: FENCE_def)
  ultimately show ?thesis by blast
qed

lemma fence_body_suffix:
  assumes "fence_body s = Some (body, rest)"
  shows "\<exists>p q. s = p @ body @ q @ rest"
proof -
  define r where "r = skip_blanks s"
  define b where "b = (if starts_with r [CR, LF] then drop 2 r else if starts_with r [LF] then drop 1 r else r)"
  obtain i where i: "body = take i b" "rest = drop (i + 3) b"
    using assms unfolding fence_body_def Let_def r_def [symmetric] b_def [symmetric]
    by (auto split: option.splits)
  obtain q where q: "s = q @ r" using skip_blanks_suffix unfolding r_def by blast
  have "\<exists>k. b = drop k r" by (auto simp: b_def intro: exI [of _ 0])
  then obtain p where p: "r = p @ b" by (metis append_take_drop_id)
  have "b = take i b @ take 3 (drop i b) @ drop (i + 3) b"
    using append_take_drop_id [of 3 "drop i b"] by (simp add: add.commute)
  then have "s = (q @ p) @ body @ take 3 (drop i b) @ rest" using q p i by simp
  then show ?thesis by blast
qed

lemma fence_at_suffix:
  assumes "fence_at s = Some (body, rest)"
  shows "\<exists>p q. s = p @ body @ q @ rest \<and> p \<noteq> []"
proof -
  obtain r where r: "fence_head s = Some r" "fence_body r = Some (body, rest)"
    using assms by (auto simp: fence_at_def split: option.splits)
  obtain u where u: "s = u @ r" "u \<noteq> []" using fence_head_suffix [OF r(1)] by blast
  obtain p q where "r = p @ body @ q @ rest" using fence_body_suffix [OF r(2)] by blast
  with u have "s = (u @ p) @ body @ q @ rest \<and> u @ p \<noteq> []" by simp
  then show ?thesis by blast
qed

lemma fence_at_shorter: "fence_at (c # s) = Some (body, rest) \<Longrightarrow> length rest < Suc (length s)"
proof -
  assume "fence_at (c # s) = Some (body, rest)"
  then obtain p q where e: "c # s = p @ body @ q @ rest" "p \<noteq> []" using fence_at_suffix by blast
  have "Suc (length s) = length (p @ body @ q @ rest)" by (simp flip: e(1))
  with e(2) show ?thesis by (cases p) auto
qed

text \<open>The fenced texts, from left to right; a match ends after its closing fence.\<close>

function fences :: "string \<Rightarrow> string list" where
  "fences [] = []"
| "fences (c # s) =
     (case fence_at (c # s) of
        None \<Rightarrow> fences s
      | Some (body, rest) \<Rightarrow> body # fences rest)"
  by pat_completeness auto
termination
  by (relation "measure length") (auto dest: fence_at_shorter)

record json_candidate =
  c_value :: string
  repaired :: bool
  whole :: bool

definition known :: "string \<Rightarrow> json_candidate list \<Rightarrow> bool" where
  "known v cs \<longleftrightarrow> list_ex (\<lambda>c. c_value c = v) cs"

text \<open>\<open>seen\<close> holds the same candidates as the list, by their text.\<close>

definition add_candidate :: "bool \<Rightarrow> bool \<Rightarrow> string \<Rightarrow> json_candidate list \<Rightarrow> json_candidate list" where
  "add_candidate repair isWhole text cs =
     (let v = trim text in
      if v = [] then cs
      else
        let cs1 = (if \<not> known v cs then cs @ [\<lparr>c_value = v, repaired = False, whole = isWhole\<rparr>]
                   else if isWhole then map (\<lambda>c. if c_value c = v then c\<lparr>whole := True\<rparr> else c) cs
                   else cs) in
        if \<not> repair then cs1
        else
          let r = escapeControlCharactersInJsonStrings v in
          if r \<noteq> [] \<and> r \<noteq> v \<and> \<not> known r cs1
          then cs1 @ [\<lparr>c_value = r, repaired = True, whole = isWhole\<rparr>] else cs1)"

definition add_fence :: "bool \<Rightarrow> string \<Rightarrow> json_candidate list \<Rightarrow> json_candidate list" where
  "add_fence repair fenced cs =
     fold (add_candidate repair False) (extractBalancedJsonObjects fenced) (add_candidate repair False fenced cs)"

definition extractJsonCandidates :: "bool \<Rightarrow> string \<Rightarrow> json_candidate list" where
  "extractJsonCandidates repair text =
     (let cs0 = (if trim text \<noteq> [] then add_candidate repair True (trim text) [] else []);
          cs1 = fold (add_fence repair) (fences text) cs0 in
      fold (add_candidate repair False) (extractBalancedJsonObjects text) cs1)"

subsection \<open>The result of a reviewer\<close>

text \<open>\<open>/['"]verdict['"]\s*:/\<close>\<close>

definition quote_char :: "char \<Rightarrow> bool" where
  "quote_char c \<longleftrightarrow> c = QUOTE \<or> c = CHR 0x27"

definition verdict_key_at :: "string \<Rightarrow> bool" where
  "verdict_key_at s =
     (case s of
        [] \<Rightarrow> False
      | c # r \<Rightarrow>
          quote_char c \<and> starts_with r ''verdict''
          \<and> (case drop 7 r of
               [] \<Rightarrow> False
             | c' # r' \<Rightarrow> quote_char c' \<and> starts_with (dropWhile js_space r') '':''))"

definition some_suffix :: "(string \<Rightarrow> bool) \<Rightarrow> string \<Rightarrow> bool" where
  "some_suffix P s \<longleftrightarrow> list_ex (\<lambda>i. P (drop i s)) [0..<length s]"

record parse_state =
  firstParseError :: bool
  firstReviewParseError :: bool
  firstSchemaError :: "review_result option"

fun candidate_loop ::
  "(string \<Rightarrow> json option) \<Rightarrow> string \<Rightarrow> string option \<Rightarrow> json_candidate list \<Rightarrow> parse_state
   \<Rightarrow> review_result + parse_state" where
  "candidate_loop parse rid path [] st = Inr st"
| "candidate_loop parse rid path (c # cs) st =
     (case parse (c_value c) of
        None \<Rightarrow>
          candidate_loop parse rid path cs
            (st\<lparr>firstParseError := True,
               firstReviewParseError := firstReviewParseError st \<or> some_suffix verdict_key_at (c_value c)\<rparr>)
      | Some j \<Rightarrow>
          (let v = normalizeReviewResult rid j path in
           if r_error v = Some ''schema_error''
           then candidate_loop parse rid path cs
                  (st\<lparr>firstSchemaError := (case firstSchemaError st of None \<Rightarrow> Some v | e \<Rightarrow> e)\<rparr>)
           else if repaired c \<and> r_verdict v = Pass then candidate_loop parse rid path cs st
           else if r_verdict v \<noteq> VerdictError \<and> list_ex (\<lambda>f. f_severity f = Blocking) (r_findings v)
           then Inl (v\<lparr>r_verdict := NeedsChanges\<rparr>)
           else Inl v))"

definition parseReviewResult ::
  "(string \<Rightarrow> json option) \<Rightarrow> string \<Rightarrow> string \<Rightarrow> string option \<Rightarrow> review_result" where
  "parseReviewResult parse rid raw path =
     (let invalid = plain_result rid VerdictError ''Reviewer returned invalid JSON.'' path (Some ''invalid_json'') in
      case candidate_loop parse rid path (extractJsonCandidates True raw)
             \<lparr>firstParseError = False, firstReviewParseError = False, firstSchemaError = None\<rparr> of
        Inl r \<Rightarrow> r
      | Inr st \<Rightarrow>
          (if firstReviewParseError st then invalid
           else case firstSchemaError st of
             Some e \<Rightarrow> e
           | None \<Rightarrow>
               (if firstParseError st \<and> (CHR ''{'' \<in> set raw \<or> some_suffix (\<lambda>s. fence_head s \<noteq> None) raw)
                then invalid
                else plain_result rid VerdictError ''Reviewer did not return a JSON object.'' path
                       (Some ''missing_json''))))"

end
