(* ===== verification/Review_State.thy ===== *)
theory Review_State
  imports Unified_Diff Review_Verdict
begin

text \<open>
  The review gate's session state, \<open>src/src/state.ts\<close>: the review window with its requests,
  exchanges and review history, the window kept for reviewer questions, and the deliveries
  waiting for the model.

  Each exported function that changes the state is a function on the record \<open>gate_state\<close>; a
  function that may throw returns the error beside the state it leaves, because a throw does not
  undo what was done before it.  The clock reading is the argument \<open>now\<close>.  Snapshots and
  checkpoint descriptors are only stored and compared here and stay opaque.  The frozen reviewer
  configuration and the reviewer session map of a window are left out.
\<close>

subsection \<open>Data\<close>

type_synonym workspace_snapshot = string
type_synonym git_descriptor = string
type_synonym checkpoint_descriptor = string

datatype feedback_source = AutomaticReview | ManualReview
datatype disposition = SentForCorrection | SentForObservation | SentAtCap | SentReviewError | HeldThenSent
datatype response_mode = Correction | Observation | Deferred
datatype event_phase = ToolCall | ToolResult
datatype request_phase = Initial | MidRun

datatype baseline =
    ToolBaseline string string bool
  | SnapshotBaseline workspace_snapshot
  | GitBaseline git_descriptor string string
  | CheckpointBaseline checkpoint_descriptor string string bool

datatype baseline_kind = KTool | KSnapshot | KGit | KCheckpoint

fun kind :: "baseline \<Rightarrow> baseline_kind" where
  "kind (ToolBaseline _ _ _) = KTool"
| "kind (SnapshotBaseline _) = KSnapshot"
| "kind (GitBaseline _ _ _) = KGit"
| "kind (CheckpointBaseline _ _ _ _) = KCheckpoint"

record user_request =
  ur_sequence :: nat
  ur_phase :: request_phase
  ur_text :: string

record feedback_context =
  fb_sequence :: nat
  fb_source :: feedback_source
  fb_disposition :: disposition
  fb_verdict :: verdict
  reviewerResults :: "review_result list"

record evidence_event =
  ee_sequence :: nat
  ee_exchangeSequence :: "nat option"
  ee_phase :: event_phase
  ee_toolName :: string
  ee_summary :: string
  candidatePaths :: "string list"
  riskSignals :: "string list"
  isError :: bool

record accepted_question =
  aq_sequence :: nat
  aq_question :: string
  acceptedAnswer :: string
  acceptedAt :: string

record evidence_state =
  ev_nextSequence :: nat
  ev_events :: "evidence_event list"
  finalAssistantSummaries :: "string list"
  acceptedReviewerQuestions :: "accepted_question list"

record active_exchange =
  ae_sequence :: nat
  ae_startedAt :: string
  ae_baseline :: "baseline option"
  evidenceEventStart :: nat
  assistantSummaryStart :: nat
  requestHistoryStart :: nat
  ae_causedBySequence :: "nat option"
  ae_causedByVerdict :: "verdict option"
  ae_responseMode :: "response_mode option"

record exchange_context =
  ex_sequence :: nat
  ex_startedAt :: string
  ex_endedAt :: string
  workspaceChanges :: "changed_file list"
  sideEffectChanges :: "changed_file list"
  workspacePatch :: string
  sideEffectPatch :: string
  evidenceEvents :: "evidence_event list"
  assistantSummaries :: "string list"
  userRequests :: "user_request list"
  ex_causedBySequence :: "nat option"
  ex_causedByVerdict :: "verdict option"
  ex_responseMode :: "response_mode option"

record review_window =
  w_id :: nat
  w_startedAt :: string
  requestHistory :: "user_request list"
  correctionCycles :: nat
  lastCappedFollowUp :: "string option"
  w_baseline :: "baseline option"
  evidence :: evidence_state
  reviewHistory :: "feedback_context list"
  exchanges :: "exchange_context list"
  activeExchange :: "active_exchange option"
  nextExchangeSequence :: nat
  bundleDir :: "string option"
  nextReviewSequence :: nat
  retainBundleAfterClose :: bool
  nextExchangeRequestIndex :: nat

datatype delivery_kind = ReviewTransmission | ReviewAuthorization | ReviewerAnswer | QueuedUserInput
  | UnknownKind string
datatype delivery_channel = FollowUp | Steer
datatype delivery_status = Queued | Dispatching | Delivered | Uncertain | Cancelled
datatype transmission_action = CorrectionRequired | Passed | DeferredAction | ReviewErrorAction

record pending_delivery =
  deliveryId :: string
  d_kind :: delivery_kind
  d_channel :: delivery_channel
  d_message :: string
  d_status :: delivery_status
  d_invocationDir :: "string option"
  d_action :: "transmission_action option"
  d_createdAt :: string
  dispatchStartedAt :: "string option"
  deliveredAt :: "string option"
  diagnostic :: "string option"

record gate_state =
  nextReviewWindowId :: nat
  reviewWindow :: "review_window option"
  lastQuestionWindow :: "review_window option"
  ownedBundleDirs :: "string set"
  pendingAcceptedReviewerQuestions :: "accepted_question list"
  reviewsPaused :: bool
  reviewInProgress :: bool
  reviewActivityToken :: "string option"
  queuedUserInputsDuringReview :: "string list"
  pendingModelDeliveries :: "pending_delivery list"
  primarySnapshotFallback :: bool

datatype review_error =
    MixedBaselineKind string baseline_kind baseline_kind
  | CheckpointConflict string
  | SnapshotRequired baseline_kind

subsection \<open>Opening a window\<close>

definition createState :: gate_state where
  "createState = \<lparr>nextReviewWindowId = 1, reviewWindow = None, lastQuestionWindow = None,
     ownedBundleDirs = {}, pendingAcceptedReviewerQuestions = [], reviewsPaused = False,
     reviewInProgress = False, reviewActivityToken = None, queuedUserInputsDuringReview = [],
     pendingModelDeliveries = [], primarySnapshotFallback = False\<rparr>"

definition createEvidenceState :: evidence_state where
  "createEvidenceState = \<lparr>ev_nextSequence = 1, ev_events = [], finalAssistantSummaries = [],
     acceptedReviewerQuestions = []\<rparr>"

definition rememberOwnedBundle :: "review_window option \<Rightarrow> gate_state \<Rightarrow> gate_state" where
  "rememberOwnedBundle w st =
     (case Option.bind w bundleDir of
        None \<Rightarrow> st
      | Some d \<Rightarrow> (if d = [] then st else st\<lparr>ownedBundleDirs := insert d (ownedBundleDirs st)\<rparr>))"

fun renumber :: "nat \<Rightarrow> accepted_question list \<Rightarrow> accepted_question list" where
  "renumber n [] = []"
| "renumber n (q # qs) = q\<lparr>aq_sequence := n\<rparr> # renumber (Suc n) qs"

definition new_window :: "nat \<Rightarrow> string \<Rightarrow> accepted_question list \<Rightarrow> review_window" where
  "new_window n now carried = \<lparr>w_id = n, w_startedAt = now, requestHistory = [],
     correctionCycles = 0, lastCappedFollowUp = None, w_baseline = None,
     evidence = createEvidenceState\<lparr>acceptedReviewerQuestions := renumber 1 carried\<rparr>,
     reviewHistory = [], exchanges = [], activeExchange = None, nextExchangeSequence = 1,
     bundleDir = None, nextReviewSequence = 1, retainBundleAfterClose = False,
     nextExchangeRequestIndex = 0\<rparr>"

definition openReviewWindow :: "string \<Rightarrow> gate_state \<Rightarrow> review_window \<times> gate_state" where
  "openReviewWindow now st =
     (let st1 = rememberOwnedBundle (lastQuestionWindow st) st;
          w = new_window (nextReviewWindowId st) now (pendingAcceptedReviewerQuestions st)
      in (w, st1\<lparr>pendingAcceptedReviewerQuestions := [], lastQuestionWindow := None,
               nextReviewWindowId := Suc (nextReviewWindowId st), reviewWindow := Some w\<rparr>))"

text \<open>\<open>state.reviewWindow ?? openReviewWindow(state)\<close>.\<close>

definition current_window :: "string \<Rightarrow> gate_state \<Rightarrow> review_window \<times> gate_state" where
  "current_window now st =
     (case reviewWindow st of Some w \<Rightarrow> (w, st) | None \<Rightarrow> openReviewWindow now st)"

definition put_window :: "review_window \<Rightarrow> gate_state \<Rightarrow> gate_state" where
  "put_window w st = st\<lparr>reviewWindow := Some w\<rparr>"

subsection \<open>Requests and exchanges\<close>

definition push_request :: "string \<Rightarrow> review_window \<Rightarrow> review_window" where
  "push_request txt w =
     (if requestHistory w = []
      then w\<lparr>requestHistory := [\<lparr>ur_sequence = 1, ur_phase = Initial, ur_text = txt\<rparr>]\<rparr>
      else w\<lparr>requestHistory := requestHistory w @
             [\<lparr>ur_sequence = length (requestHistory w) + 1, ur_phase = MidRun, ur_text = txt\<rparr>]\<rparr>)"

definition appendUserRequest :: "string \<Rightarrow> string \<Rightarrow> gate_state \<Rightarrow> gate_state" where
  "appendUserRequest now txt st =
     (let (w, st1) = current_window now st in put_window (push_request txt w) st1)"

definition rememberUserRequest :: "string \<Rightarrow> string \<Rightarrow> gate_state \<Rightarrow> gate_state" where
  "rememberUserRequest now request st =
     (let txt = trim request in if txt = [] then st else appendUserRequest now txt st)"

definition rememberUserRequestVerbatim :: "string \<Rightarrow> string \<Rightarrow> gate_state \<Rightarrow> gate_state" where
  "rememberUserRequestVerbatim now request st =
     (if request = [] then st else appendUserRequest now request st)"

fun reviewResponseMode :: "disposition \<Rightarrow> response_mode option" where
  "reviewResponseMode SentForCorrection = Some Correction"
| "reviewResponseMode HeldThenSent = Some Correction"
| "reviewResponseMode SentForObservation = Some Observation"
| "reviewResponseMode SentAtCap = Some Deferred"
| "reviewResponseMode SentReviewError = Some Deferred"

text \<open>\<open>[...window.reviewHistory].reverse().find(...)\<close>.\<close>

definition latest_feedback :: "review_window \<Rightarrow> feedback_context option" where
  "latest_feedback w =
     find (\<lambda>item. reviewResponseMode (fb_disposition item) \<noteq> None) (rev (reviewHistory w))"

definition start_exchange :: "string \<Rightarrow> review_window \<Rightarrow> review_window" where
  "start_exchange now w =
     (let feedback = latest_feedback w in
      w\<lparr>activeExchange := Some \<lparr>ae_sequence = nextExchangeSequence w, ae_startedAt = now,
            ae_baseline = None, evidenceEventStart = length (ev_events (evidence w)),
            assistantSummaryStart = length (finalAssistantSummaries (evidence w)),
            requestHistoryStart = nextExchangeRequestIndex w,
            ae_causedBySequence = map_option fb_sequence feedback,
            ae_causedByVerdict = map_option fb_verdict feedback,
            ae_responseMode = Option.bind feedback (\<lambda>f. reviewResponseMode (fb_disposition f))\<rparr>,
         nextExchangeSequence := Suc (nextExchangeSequence w)\<rparr>)"

datatype run_kind = NewRun | Continuation

definition beginAgentRun :: "string \<Rightarrow> gate_state \<Rightarrow> run_kind \<times> gate_state" where
  "beginAgentRun now st =
     (let (w, st1) = current_window now st;
          w1 = (if activeExchange w = None then start_exchange now w else w)
      in (if w_baseline w1 \<noteq> None then Continuation else NewRun, put_window w1 st1))"

record exchange_input =
  in_workspaceChanges :: "changed_file list"
  in_sideEffectChanges :: "changed_file list"
  in_workspacePatch :: string
  in_sideEffectPatch :: string

definition exchange_of :: "string \<Rightarrow> exchange_input \<Rightarrow> review_window \<Rightarrow> active_exchange \<Rightarrow> exchange_context" where
  "exchange_of now input w active =
     \<lparr>ex_sequence = ae_sequence active, ex_startedAt = ae_startedAt active, ex_endedAt = now,
      workspaceChanges = in_workspaceChanges input, sideEffectChanges = in_sideEffectChanges input,
      workspacePatch = in_workspacePatch input, sideEffectPatch = in_sideEffectPatch input,
      evidenceEvents = drop (evidenceEventStart active) (ev_events (evidence w)),
      assistantSummaries = drop (assistantSummaryStart active) (finalAssistantSummaries (evidence w)),
      userRequests = drop (requestHistoryStart active) (requestHistory w),
      ex_causedBySequence = ae_causedBySequence active,
      ex_causedByVerdict = ae_causedByVerdict active, ex_responseMode = ae_responseMode active\<rparr>"

definition completeActiveExchange ::
  "string \<Rightarrow> exchange_input \<Rightarrow> review_window \<Rightarrow> exchange_context option \<times> review_window" where
  "completeActiveExchange now input w =
     (case activeExchange w of
        None \<Rightarrow> (None, w)
      | Some active \<Rightarrow>
          (let ex = exchange_of now input w active in
           (Some ex, w\<lparr>exchanges := exchanges w @ [ex],
              nextExchangeRequestIndex := length (requestHistory w), activeExchange := None\<rparr>)))"

subsection \<open>Baselines\<close>

definition snapshotReviewBaseline :: "workspace_snapshot \<Rightarrow> baseline" where
  "snapshotReviewBaseline s = SnapshotBaseline s"

definition snapshotOfReviewBaseline :: "baseline option \<Rightarrow> review_error + workspace_snapshot option" where
  "snapshotOfReviewBaseline b =
     (case b of
        None \<Rightarrow> Inr None
      | Some (SnapshotBaseline s) \<Rightarrow> Inr (Some s)
      | Some b' \<Rightarrow> Inl (SnapshotRequired (kind b')))"

text \<open>The baselines a window holds, its own first.\<close>

definition window_baselines :: "review_window \<Rightarrow> baseline list" where
  "window_baselines w =
     (case w_baseline w of Some b \<Rightarrow> [b] | None \<Rightarrow> []) @
     (case Option.bind (activeExchange w) ae_baseline of Some b \<Rightarrow> [b] | None \<Rightarrow> [])"

definition assertNoGitBaselineConflict :: "review_window \<Rightarrow> string \<Rightarrow> review_error option" where
  "assertNoGitBaselineConflict w ctx =
     (if list_ex (\<lambda>b. kind b \<noteq> KSnapshot) (window_baselines w)
      then Some (CheckpointConflict ctx) else None)"

definition assertNoMixedBaselineKind :: "review_window \<Rightarrow> baseline \<Rightarrow> string \<Rightarrow> review_error option" where
  "assertNoMixedBaselineKind w incoming ctx =
     (case find (\<lambda>b. kind b \<noteq> kind incoming) (window_baselines w) of
        Some b \<Rightarrow> Some (MixedBaselineKind ctx (kind b) (kind incoming))
      | None \<Rightarrow> None)"

definition default_to :: "'a option \<Rightarrow> 'a \<Rightarrow> 'a option" where
  "default_to x y = (case x of Some _ \<Rightarrow> x | None \<Rightarrow> Some y)"

definition map_active :: "(active_exchange \<Rightarrow> active_exchange) \<Rightarrow> review_window \<Rightarrow> review_window" where
  "map_active f w = w\<lparr>activeExchange := map_option f (activeExchange w)\<rparr>"

definition setReviewWindowCheckpointBaseline ::
  "string \<Rightarrow> baseline \<Rightarrow> gate_state \<Rightarrow> review_error option \<times> gate_state" where
  "setReviewWindowCheckpointBaseline now b st =
     (let (w, st1) = current_window now st in
      case assertNoMixedBaselineKind w b ''setReviewWindowCheckpointBaseline'' of
        Some e \<Rightarrow> (Some e, st1)
      | None \<Rightarrow>
          (let own = the (default_to (w_baseline w) b) in
           (None, put_window (map_active (\<lambda>a. a\<lparr>ae_baseline := default_to (ae_baseline a) own\<rparr>)
              (w\<lparr>w_baseline := Some own\<rparr>)) st1)))"

definition setReviewWindowBaseline ::
  "string \<Rightarrow> workspace_snapshot \<Rightarrow> gate_state \<Rightarrow> review_error option \<times> gate_state" where
  "setReviewWindowBaseline now s st =
     (let (w, st1) = current_window now st in
      case assertNoGitBaselineConflict w ''setReviewWindowBaseline'' of
        Some e \<Rightarrow> (Some e, st1)
      | None \<Rightarrow>
          (None, put_window
             (map_active (\<lambda>a. a\<lparr>ae_baseline := default_to (ae_baseline a) (snapshotReviewBaseline s)\<rparr>)
                (w\<lparr>w_baseline := default_to (w_baseline w) (snapshotReviewBaseline s)\<rparr>)) st1))"

definition set_cause :: "feedback_context option \<Rightarrow> active_exchange \<Rightarrow> active_exchange" where
  "set_cause feedback a =
     (case feedback of
        None \<Rightarrow> a
      | Some f \<Rightarrow> a\<lparr>ae_causedBySequence := Some (fb_sequence f), ae_causedByVerdict := Some (fb_verdict f),
                   ae_responseMode := reviewResponseMode (fb_disposition f)\<rparr>)"

definition armReviewResponseExchange ::
  "string \<Rightarrow> baseline \<Rightarrow> gate_state \<Rightarrow> review_error option \<times> gate_state" where
  "armReviewResponseExchange now b st =
     (let st1 = snd (beginAgentRun now st) in
      case reviewWindow st1 of
        None \<Rightarrow> (None, st1)
      | Some w \<Rightarrow>
          (case activeExchange w of
             None \<Rightarrow> (None, st1)
           | Some active \<Rightarrow>
               (case assertNoMixedBaselineKind w b ''armReviewResponseExchange'' of
                  Some e \<Rightarrow> (Some e, st1)
                | None \<Rightarrow>
                    (let a1 = active\<lparr>ae_baseline := default_to (ae_baseline active) b\<rparr>;
                         a2 = set_cause (latest_feedback w) a1
                     in (None, put_window (w\<lparr>activeExchange := Some a2\<rparr>) st1)))))"

definition checkpointReviewWindow ::
  "workspace_snapshot \<Rightarrow> gate_state \<Rightarrow> review_error option \<times> gate_state" where
  "checkpointReviewWindow s st =
     (case reviewWindow st of
        None \<Rightarrow> (None, st)
      | Some w \<Rightarrow>
          (case assertNoGitBaselineConflict w ''checkpointReviewWindow'' of
             Some e \<Rightarrow> (Some e, st)
           | None \<Rightarrow>
               (None, put_window
                  (map_active (\<lambda>a. a\<lparr>ae_baseline := Some (snapshotReviewBaseline s),
                      evidenceEventStart := length (ev_events (evidence w)),
                      assistantSummaryStart := length (finalAssistantSummaries (evidence w)),
                      requestHistoryStart := length (requestHistory w)\<rparr>)
                    (w\<lparr>w_baseline := Some (snapshotReviewBaseline s)\<rparr>)) st)))"

definition activeExchangeBaseline :: "gate_state \<Rightarrow> baseline option" where
  "activeExchangeBaseline st =
     Option.bind (reviewWindow st) (\<lambda>w. Option.bind (activeExchange w) ae_baseline)"

definition activeExchangeHasBaseline :: "gate_state \<Rightarrow> bool" where
  "activeExchangeHasBaseline st \<longleftrightarrow> activeExchangeBaseline st \<noteq> None"

text \<open>
  The checkpoints the state owns, once per identity.  The identity is a JSON text of the working
  directory and the descriptor, so two owners have one identity exactly when both agree.
\<close>

definition checkpoint_owner :: "baseline \<Rightarrow> (string \<times> checkpoint_descriptor) list" where
  "checkpoint_owner b = (case b of CheckpointBaseline d cwd _ _ \<Rightarrow> [(cwd, d)] | _ \<Rightarrow> [])"

definition state_windows :: "gate_state \<Rightarrow> review_window list" where
  "state_windows st =
     (case reviewWindow st of Some w \<Rightarrow> [w] | None \<Rightarrow> []) @
     (case lastQuestionWindow st of Some w \<Rightarrow> [w] | None \<Rightarrow> [])"

fun insert_owner :: "'a \<Rightarrow> 'a list \<Rightarrow> 'a list" where
  "insert_owner x xs = (if x \<in> set xs then xs else xs @ [x])"

definition ownedReviewCheckpointDescriptors :: "gate_state \<Rightarrow> (string \<times> checkpoint_descriptor) list" where
  "ownedReviewCheckpointDescriptors st =
     fold insert_owner
       (concat (map checkpoint_owner (concat (map window_baselines (state_windows st))))) []"

end
