(* ===== verification/Review_Feedback.thy ===== *)
theory Review_Feedback
  imports Review_State
begin

text \<open>
  The rest of \<open>src/src/state.ts\<close>: reviewer questions, recorded feedback, closing and clearing
  the state, and the request context rendered for a reviewer.  The last section collects every
  operation as a constructor of \<open>gate_op\<close> with its effect \<open>apply_op\<close>.
\<close>

subsection \<open>Evidence\<close>

definition truncate_text :: "string \<Rightarrow> nat \<Rightarrow> string" where
  "truncate_text s n =
     (if length s \<le> n then s else take n s @ [LF] @ ''[... truncated ...]'')"

definition record_accepted_question ::
  "string \<Rightarrow> string \<Rightarrow> string \<Rightarrow> evidence_state \<Rightarrow> accepted_question \<times> evidence_state" where
  "record_accepted_question now q a ev =
     (let entry = \<lparr>aq_sequence = length (acceptedReviewerQuestions ev) + 1,
                   aq_question = truncate_text (trim q) 20000,
                   acceptedAnswer = truncate_text (trim a) 20000,
                   acceptedAt = truncate_text now 100\<rparr>
      in (entry, ev\<lparr>acceptedReviewerQuestions := acceptedReviewerQuestions ev @ [entry]\<rparr>))"

text \<open>A tool result joins the events with the next sequence number.\<close>

definition push_event :: "evidence_event \<Rightarrow> evidence_state \<Rightarrow> evidence_state" where
  "push_event e ev = ev\<lparr>ev_events := ev_events ev @ [e\<lparr>ee_sequence := ev_nextSequence ev\<rparr>],
     ev_nextSequence := Suc (ev_nextSequence ev)\<rparr>"

definition push_summary :: "string \<Rightarrow> evidence_state \<Rightarrow> evidence_state" where
  "push_summary redacted ev =
     (if redacted = [] then ev
      else ev\<lparr>finalAssistantSummaries := finalAssistantSummaries ev @ [truncate_text redacted 4000]\<rparr>)"

subsection \<open>Reviewer questions\<close>

text \<open>The window a question is asked in is one of the state's, or none.\<close>

datatype window_ref = NoContext | ActiveWindow | QuestionWindow

definition getReviewerQuestionWindow :: "gate_state \<Rightarrow> review_window option" where
  "getReviewerQuestionWindow st =
     (case reviewWindow st of Some w \<Rightarrow> Some w | None \<Rightarrow> lastQuestionWindow st)"

definition recordAcceptedReviewerQuestion ::
  "string \<Rightarrow> window_ref \<Rightarrow> string \<Rightarrow> string \<Rightarrow> gate_state \<Rightarrow> accepted_question \<times> gate_state" where
  "recordAcceptedReviewerQuestion now ref q a st =
     (case (if ref = QuestionWindow then lastQuestionWindow st else None) of
        Some w \<Rightarrow>
          (let (entry, ev) = record_accepted_question now q a (evidence w);
               st1 = st\<lparr>lastQuestionWindow := Some (w\<lparr>evidence := ev\<rparr>)\<rparr>
           in (entry, if reviewWindow st = None
                      then st1\<lparr>pendingAcceptedReviewerQuestions := acceptedReviewerQuestions ev\<rparr>
                      else st1))
      | None \<Rightarrow>
          (let (w, st1) = current_window now st;
               (entry, ev) = record_accepted_question now q a (evidence w)
           in (entry, put_window (w\<lparr>evidence := ev\<rparr>) st1)))"

subsection \<open>Feedback\<close>

record feedback_input =
  fi_result :: review_result
  fi_reviewerResults :: "review_result list option"
  fi_reviewSequence :: "nat option"
  fi_source :: feedback_source
  fi_disposition :: disposition
  fi_displayLabels :: "string \<Rightarrow> string option"

definition stamp_label :: "(string \<Rightarrow> string option) \<Rightarrow> review_result \<Rightarrow> review_result" where
  "stamp_label labels r =
     (if displayLabel r \<noteq> None then r
      else case labels (reviewerId r) of
             Some l \<Rightarrow> (if l \<noteq> [] then r\<lparr>displayLabel := Some l\<rparr> else r)
           | None \<Rightarrow> r)"

definition feedback_of :: "feedback_input \<Rightarrow> review_window \<Rightarrow> feedback_context" where
  "feedback_of input w =
     \<lparr>fb_sequence = (case fi_reviewSequence input of Some n \<Rightarrow> n | None \<Rightarrow> length (reviewHistory w) + 1),
      fb_source = fi_source input, fb_disposition = fi_disposition input,
      fb_verdict = r_verdict (fi_result input),
      reviewerResults = map (stamp_label (fi_displayLabels input))
        (case fi_reviewerResults input of Some rs \<Rightarrow> rs | None \<Rightarrow> [fi_result input])\<rparr>"

definition recordReviewerFeedback :: "feedback_input \<Rightarrow> gate_state \<Rightarrow> gate_state" where
  "recordReviewerFeedback input st =
     (case reviewWindow st of
        None \<Rightarrow> st
      | Some w \<Rightarrow> put_window (w\<lparr>reviewHistory := reviewHistory w @ [feedback_of input w]\<rparr>) st)"

definition recordReviewerFeedbackAndArmExchange ::
  "string \<Rightarrow> feedback_input \<Rightarrow> baseline \<Rightarrow> gate_state \<Rightarrow> review_error option \<times> gate_state" where
  "recordReviewerFeedbackAndArmExchange now input b st =
     armReviewResponseExchange now b (recordReviewerFeedback input st)"

fun mark_first_capped :: "feedback_context list \<Rightarrow> feedback_context list" where
  "mark_first_capped [] = []"
| "mark_first_capped (f # fs) =
     (if fb_disposition f = SentAtCap then f\<lparr>fb_disposition := HeldThenSent\<rparr> # fs
      else f # mark_first_capped fs)"

definition markCappedFeedbackSent :: "gate_state \<Rightarrow> gate_state" where
  "markCappedFeedbackSent st =
     (case reviewWindow st of
        None \<Rightarrow> st
      | Some w \<Rightarrow> put_window (w\<lparr>reviewHistory := rev (mark_first_capped (rev (reviewHistory w)))\<rparr>) st)"

definition hasUnresolvedReview :: "review_window option \<Rightarrow> bool" where
  "hasUnresolvedReview w =
     (case w of
        None \<Rightarrow> False
      | Some w \<Rightarrow> reviewHistory w \<noteq> [] \<and> fb_verdict (last (reviewHistory w)) = NeedsChanges)"

definition getCorrectionAttemptCount :: "review_window option \<Rightarrow> nat" where
  "getCorrectionAttemptCount w =
     (case w of
        None \<Rightarrow> 0
      | Some w \<Rightarrow> length (filter (\<lambda>f. fb_disposition f = SentForCorrection \<or>
                                       fb_disposition f = HeldThenSent) (reviewHistory w)))"

subsection \<open>Closing and clearing\<close>

definition closeReviewWindow :: "bool \<Rightarrow> gate_state \<Rightarrow> gate_state" where
  "closeReviewWindow preserve st =
     (let st1 = rememberOwnedBundle (lastQuestionWindow st) st;
          st2 = (if \<not> preserve then rememberOwnedBundle (reviewWindow st) st1 else st1)
      in st2\<lparr>lastQuestionWindow := (if preserve then reviewWindow st else None), reviewWindow := None\<rparr>)"

definition cancel_queued :: "pending_delivery \<Rightarrow> pending_delivery" where
  "cancel_queued d =
     (if d_status d \<noteq> Queued then d
      else d\<lparr>d_status := Cancelled, diagnostic := Some
        ''The review state was explicitly cleared before this queued delivery was released.''\<rparr>)"

definition clearReviewState :: "gate_state \<Rightarrow> gate_state" where
  "clearReviewState st =
     (let st1 = rememberOwnedBundle (lastQuestionWindow st) (rememberOwnedBundle (reviewWindow st) st)
      in st1\<lparr>pendingModelDeliveries := map cancel_queued (pendingModelDeliveries st),
             reviewWindow := None, lastQuestionWindow := None,
             pendingAcceptedReviewerQuestions := [], queuedUserInputsDuringReview := [],
             primarySnapshotFallback := False\<rparr>)"

subsection \<open>The request context\<close>

fun formatDisposition :: "disposition \<Rightarrow> string" where
  "formatDisposition SentForObservation =
     ''complete passing review transmitted to the implementing model''"
| "formatDisposition SentAtCap =
     ''complete feedback transmitted to the implementing model with correction deferred at the cap''"
| "formatDisposition SentReviewError = ''review failure details transmitted to the implementing model''"
| "formatDisposition SentForCorrection = ''feedback sent for correction''"
| "formatDisposition HeldThenSent = ''feedback held at the correction cap, then sent by /review-continue''"

definition no_request :: string where
  "no_request = ''No original request captured.''"

fun remove_nth :: "nat \<Rightarrow> 'a list \<Rightarrow> 'a list" where
  "remove_nth n [] = []"
| "remove_nth 0 (x # xs) = xs"
| "remove_nth (Suc n) (x # xs) = x # remove_nth n xs"

definition renderUserRequestContext :: "review_window \<Rightarrow> string list" where
  "renderUserRequestContext w =
     (let rs = requestHistory w in
      if rs = [] then [no_request]
      else if length rs = 1 then [if ur_text (hd rs) \<noteq> [] then ur_text (hd rs) else no_request]
      else (let i = (case find_index (\<lambda>r. ur_phase r = Initial) rs of Some i \<Rightarrow> i | None \<Rightarrow> 0) in
            [''Initial user request:'', ur_text (rs ! i), [],
             ''Additional user guidance during the same review window:''] @
            map (\<lambda>r. nat_str (ur_sequence r) @ ''. '' @ ur_text r) (remove_nth i rs)))"

fun source_text :: "feedback_source \<Rightarrow> string" where
  "source_text AutomaticReview = ''automatic''"
| "source_text ManualReview = ''manual''"

fun verdict_text :: "verdict \<Rightarrow> string" where
  "verdict_text Pass = ''pass''"
| "verdict_text NeedsChanges = ''needs_changes''"
| "verdict_text VerdictError = ''error''"

fun severity_text :: "severity \<Rightarrow> string" where
  "severity_text Blocking = ''blocking''"
| "severity_text NonBlocking = ''non_blocking''"

definition finding_line :: "finding \<Rightarrow> string" where
  "finding_line f = ''  - '' @ severity_text (f_severity f) @ '' '' @
     (case f_line f of None \<Rightarrow> f_file f | Some n \<Rightarrow> f_file f @ '':'' @ nat_str n) @ '': '' @
     f_issue f @ '' '' @ f_recommendation f"

definition reviewer_lines :: "review_result \<Rightarrow> string list" where
  "reviewer_lines r =
     [''- '' @ (case displayLabel r of Some l \<Rightarrow> l | None \<Rightarrow> reviewerId r) @ '' ('' @
        verdict_text (r_verdict r) @ ''): '' @ r_summary r] @
     (case r_guidance r of Some g \<Rightarrow> (if g \<noteq> [] then [''  Guidance: '' @ g] else []) | None \<Rightarrow> []) @
     map finding_line (r_findings r)"

definition feedback_lines :: "feedback_context \<Rightarrow> string list" where
  "feedback_lines f =
     [[], ''Review '' @ nat_str (fb_sequence f) @ '' ('' @ source_text (fb_source f) @ ''; '' @
        verdict_text (fb_verdict f) @ ''; '' @ formatDisposition (fb_disposition f) @ ''):''] @
     (if reviewerResults f = [] then []
      else ''Complete individual reviewer results delivered to the implementing model:'' #
        concat (map reviewer_lines (reviewerResults f)))"

datatype prior_feedback = AllFeedback | LatestFeedback

definition buildRequestContext :: "review_window option \<Rightarrow> prior_feedback \<Rightarrow> string" where
  "buildRequestContext win prior =
     (case win of
        None \<Rightarrow> ''No active review window or original request captured.''
      | Some w \<Rightarrow> join [LF]
          ([''Review window: '' @ nat_str (w_id w), ''Review window started: '' @ w_startedAt w, []] @
           renderUserRequestContext w @
           (if reviewHistory w = [] then []
            else [[], ''Historical prior review feedback from this same review window:'',
                  ''These findings describe earlier workspace states. Do not assume they remain unresolved; reconcile each one against the current workspace.''] @
              concat (map feedback_lines
                (if prior = LatestFeedback then [last (reviewHistory w)] else reviewHistory w)))))"

subsection \<open>The operations as one step function\<close>

datatype gate_op =
    OpRemember string string
  | OpRememberVerbatim string string
  | OpBeginRun string
  | OpSetCheckpoint string baseline
  | OpSetSnapshot string workspace_snapshot
  | OpArm string baseline
  | OpCheckpointWindow workspace_snapshot
  | OpComplete string exchange_input
  | OpFeedback feedback_input
  | OpFeedbackAndArm string feedback_input baseline
  | OpMarkCapped
  | OpClose bool
  | OpClear
  | OpQuestion string window_ref string string
  | OpEvent evidence_event
  | OpSummary string

definition on_window :: "(review_window \<Rightarrow> review_window) \<Rightarrow> gate_state \<Rightarrow> gate_state" where
  "on_window f st = (case reviewWindow st of None \<Rightarrow> st | Some w \<Rightarrow> put_window (f w) st)"

definition on_evidence :: "(evidence_state \<Rightarrow> evidence_state) \<Rightarrow> review_window \<Rightarrow> review_window" where
  "on_evidence f w = w\<lparr>evidence := f (evidence w)\<rparr>"

fun apply_op :: "gate_op \<Rightarrow> gate_state \<Rightarrow> gate_state" where
  "apply_op (OpRemember now r) st = rememberUserRequest now r st"
| "apply_op (OpRememberVerbatim now r) st = rememberUserRequestVerbatim now r st"
| "apply_op (OpBeginRun now) st = snd (beginAgentRun now st)"
| "apply_op (OpSetCheckpoint now b) st = snd (setReviewWindowCheckpointBaseline now b st)"
| "apply_op (OpSetSnapshot now s) st = snd (setReviewWindowBaseline now s st)"
| "apply_op (OpArm now b) st = snd (armReviewResponseExchange now b st)"
| "apply_op (OpCheckpointWindow s) st = snd (checkpointReviewWindow s st)"
| "apply_op (OpComplete now input) st = on_window (\<lambda>w. snd (completeActiveExchange now input w)) st"
| "apply_op (OpFeedback input) st = recordReviewerFeedback input st"
| "apply_op (OpFeedbackAndArm now input b) st = snd (recordReviewerFeedbackAndArmExchange now input b st)"
| "apply_op OpMarkCapped st = markCappedFeedbackSent st"
| "apply_op (OpClose preserve) st = closeReviewWindow preserve st"
| "apply_op OpClear st = clearReviewState st"
| "apply_op (OpQuestion now ref q a) st = snd (recordAcceptedReviewerQuestion now ref q a st)"
| "apply_op (OpEvent e) st = on_window (on_evidence (push_event e)) st"
| "apply_op (OpSummary s) st = on_window (on_evidence (push_summary s)) st"

end
