(* ===== verification/Review_State_Spec.thy ===== *)
theory Review_State_Spec
  imports Review_Feedback
begin

text \<open>
  What the session state guarantees under every sequence of operations: numbering of windows,
  requests, exchanges and questions, one baseline kind per window, at most one live window, and
  the attribution of user requests to exchanges.
\<close>

subsection \<open>The invariant\<close>

definition requests_ok :: "user_request list \<Rightarrow> bool" where
  "requests_ok rs \<longleftrightarrow> map ur_sequence rs = [1..<Suc (length rs)] \<and>
     map ur_phase rs = (if rs = [] then [] else Initial # replicate (length rs - 1) MidRun)"

definition evidence_ok :: "evidence_state \<Rightarrow> bool" where
  "evidence_ok ev \<longleftrightarrow> map ee_sequence (ev_events ev) = [1..<ev_nextSequence ev] \<and> 1 \<le> ev_nextSequence ev \<and>
     map aq_sequence (acceptedReviewerQuestions ev) = [1..<Suc (length (acceptedReviewerQuestions ev))]"

definition same_kind :: "review_window \<Rightarrow> bool" where
  "same_kind w \<longleftrightarrow> (\<exists>k. \<forall>b \<in> set (window_baselines w). kind b = k)"

definition exchanges_ok :: "review_window \<Rightarrow> bool" where
  "exchanges_ok w \<longleftrightarrow> 1 \<le> nextExchangeSequence w \<and>
     map ex_sequence (exchanges w) @ (case activeExchange w of Some a \<Rightarrow> [ae_sequence a] | None \<Rightarrow> [])
       = [1..<nextExchangeSequence w]"

definition starts_ok :: "review_window \<Rightarrow> bool" where
  "starts_ok w \<longleftrightarrow> nextExchangeRequestIndex w \<le> length (requestHistory w) \<and>
     (case activeExchange w of
        None \<Rightarrow> True
      | Some a \<Rightarrow> nextExchangeRequestIndex w \<le> requestHistoryStart a \<and>
          requestHistoryStart a \<le> length (requestHistory w) \<and>
          evidenceEventStart a \<le> length (ev_events (evidence w)) \<and>
          assistantSummaryStart a \<le> length (finalAssistantSummaries (evidence w)))"

text \<open>The requests the exchanges of a window took, in order.\<close>

definition attributed :: "review_window \<Rightarrow> user_request list" where
  "attributed w = concat (map userRequests (exchanges w))"

definition window_inv :: "review_window \<Rightarrow> bool" where
  "window_inv w \<longleftrightarrow> requests_ok (requestHistory w) \<and> evidence_ok (evidence w) \<and> same_kind w \<and>
     exchanges_ok w \<and> starts_ok w \<and>
     subseq (attributed w) (take (nextExchangeRequestIndex w) (requestHistory w))"



subsection \<open>Operations on one window\<close>


lemma push_request_simps [simp]:
  "evidence (push_request t w) = evidence w" "exchanges (push_request t w) = exchanges w"
  "activeExchange (push_request t w) = activeExchange w" "w_baseline (push_request t w) = w_baseline w"
  "nextExchangeSequence (push_request t w) = nextExchangeSequence w" "w_id (push_request t w) = w_id w"
  "nextExchangeRequestIndex (push_request t w) = nextExchangeRequestIndex w"
  "\<exists>r. requestHistory (push_request t w) = requestHistory w @ [r]"
  by (auto simp: push_request_def)






lemma window_inv_history [simp]: "window_inv (w\<lparr>reviewHistory := h\<rparr>) = window_inv w"
  by (cases "activeExchange w")
    (simp_all add: window_inv_def same_kind_def window_baselines_def exchanges_ok_def starts_ok_def attributed_def)

lemma no_mixed_kind:
  "assertNoMixedBaselineKind w b c = None \<longleftrightarrow> (\<forall>x \<in> set (window_baselines w). kind x = kind b)"
  by (auto simp: assertNoMixedBaselineKind_def find_None_iff find_Some_iff split: option.splits)

lemma no_git_conflict:
  "assertNoGitBaselineConflict w c = None \<longleftrightarrow> (\<forall>x \<in> set (window_baselines w). kind x = KSnapshot)"
  by (auto simp: assertNoGitBaselineConflict_def list_ex_iff)


lemma baseline_kinds:
  assumes "\<forall>x \<in> set (window_baselines w). kind x = k"
  shows "w_baseline w = Some x \<Longrightarrow> kind x = k"
    and "activeExchange w = Some a \<Longrightarrow> ae_baseline a = Some x \<Longrightarrow> kind x = k"
  using assms by (auto simp: window_baselines_def)


definition checkpoint_window :: "workspace_snapshot \<Rightarrow> review_window \<Rightarrow> review_window" where
  "checkpoint_window s w = map_active (\<lambda>a. a\<lparr>ae_baseline := Some (snapshotReviewBaseline s),
      evidenceEventStart := length (ev_events (evidence w)),
      assistantSummaryStart := length (finalAssistantSummaries (evidence w)),
      requestHistoryStart := length (requestHistory w)\<rparr>)
     (w\<lparr>w_baseline := Some (snapshotReviewBaseline s)\<rparr>)"


subsection \<open>Properties every operation keeps\<close>

text \<open>
  The contract between the operations on one window and the operations of the gate: a property of
  windows that holds of a new window and is kept by each elementary change holds of every window of
  every state the gate reaches by allowed operations.
\<close>

definition keeps_fields :: "(active_exchange \<Rightarrow> active_exchange) \<Rightarrow> bool" where
  "keeps_fields f \<longleftrightarrow> (\<forall>a. ae_sequence (f a) = ae_sequence a \<and> requestHistoryStart (f a) = requestHistoryStart a \<and>
     evidenceEventStart (f a) = evidenceEventStart a \<and> assistantSummaryStart (f a) = assistantSummaryStart a)"

locale window_property =
  fixes P :: "review_window \<Rightarrow> bool" and allowed :: "gate_op \<Rightarrow> bool"
  assumes new: "P (new_window n now qs)"
    and push: "P w \<Longrightarrow> P (push_request t w)"
    and start: "P w \<Longrightarrow> activeExchange w = None \<Longrightarrow> P (start_exchange now w)"
    and complete: "P w \<Longrightarrow> P (snd (completeActiveExchange now input w))"
    and baselines: "P w \<Longrightarrow> \<forall>x \<in> set (window_baselines w). kind x = k \<Longrightarrow>
      \<forall>x. b = Some x \<longrightarrow> kind x = k \<Longrightarrow>
      \<forall>a x. activeExchange w = Some a \<longrightarrow> ae_baseline (f a) = Some x \<longrightarrow> kind x = k \<Longrightarrow>
      keeps_fields f \<Longrightarrow> P (map_active f (w\<lparr>w_baseline := b\<rparr>))"
    and history: "P w \<Longrightarrow> P (w\<lparr>reviewHistory := h\<rparr>)"
    and event: "P w \<Longrightarrow> P (on_evidence (push_event e) w)"
    and summary: "P w \<Longrightarrow> P (on_evidence (push_summary s) w)"
    and question: "P w \<Longrightarrow> P (on_evidence (\<lambda>ev. snd (record_accepted_question now q a ev)) w)"
    and checkpoint: "P w \<Longrightarrow> allowed (OpCheckpointWindow s) \<Longrightarrow> P (checkpoint_window s w)"
begin

lemma current:
  assumes "list_all P (state_windows st)" "current_window now st = (w, st1)"
  shows "P w \<and> reviewWindow st1 = Some w \<and> list_all P (state_windows st1)"
  using assms new
  by (auto simp: current_window_def openReviewWindow_def Let_def state_windows_def rememberOwnedBundle_def
      split: option.splits if_splits)

lemma put: "list_all P (state_windows st) \<Longrightarrow> P w \<Longrightarrow> list_all P (state_windows (put_window w st))"
  by (auto simp: state_windows_def put_window_def split: option.splits)

lemma on_window: "list_all P (state_windows st) \<Longrightarrow> (\<And>w. P w \<Longrightarrow> P (f w)) \<Longrightarrow>
    list_all P (state_windows (on_window f st))"
  by (auto simp: state_windows_def on_window_def put_window_def split: option.splits)

lemma begin_run:
  assumes "list_all P (state_windows st)"
  shows "list_all P (state_windows (snd (beginAgentRun now st)))"
  using current [OF assms] start
  by (auto simp: beginAgentRun_def Let_def split: prod.splits intro!: put)

lemma set_checkpoint:
  assumes "list_all P (state_windows st)"
  shows "list_all P (state_windows (snd (setReviewWindowCheckpointBaseline now b st)))"
proof -
  obtain w st1 where c: "current_window now st = (w, st1)" by (cases "current_window now st")
  note cur = current [OF assms c]
  show ?thesis
  proof (cases "assertNoMixedBaselineKind w b ''setReviewWindowCheckpointBaseline''")
    case None
    then obtain kb where k: "\<forall>x \<in> set (window_baselines w). kind x = kb" and kb: "kind b = kb"
      by (auto simp only: no_mixed_kind)
    then have own: "kind (the (default_to (w_baseline w) b)) = kb"
      by (auto simp: default_to_def window_baselines_def split: option.splits)
    have "P (map_active (\<lambda>a. a\<lparr>ae_baseline := default_to (ae_baseline a) (the (default_to (w_baseline w) b))\<rparr>)
        (w\<lparr>w_baseline := Some (the (default_to (w_baseline w) b))\<rparr>))"
      using cur k own baseline_kinds(2) [OF k]
      by (intro baselines [of _ kb]) (auto simp: keeps_fields_def default_to_def split: option.splits)
    with None c cur show ?thesis
      by (simp add: setReviewWindowCheckpointBaseline_def Let_def put)
  qed (use c cur in \<open>simp add: setReviewWindowCheckpointBaseline_def\<close>)
qed

lemma set_snapshot:
  assumes "list_all P (state_windows st)"
  shows "list_all P (state_windows (snd (setReviewWindowBaseline now s st)))"
proof -
  obtain w st1 where c: "current_window now st = (w, st1)" by (cases "current_window now st")
  note cur = current [OF assms c]
  show ?thesis
  proof (cases "assertNoGitBaselineConflict w ''setReviewWindowBaseline''")
    case None
    then have k: "\<forall>x \<in> set (window_baselines w). kind x = KSnapshot" by (simp add: no_git_conflict)
    have "P (map_active (\<lambda>a. a\<lparr>ae_baseline := default_to (ae_baseline a) (snapshotReviewBaseline s)\<rparr>)
        (w\<lparr>w_baseline := default_to (w_baseline w) (snapshotReviewBaseline s)\<rparr>))"
      using cur k baseline_kinds(1) [OF k] baseline_kinds(2) [OF k]
      by (intro baselines [of _ KSnapshot])
        (auto simp: keeps_fields_def default_to_def snapshotReviewBaseline_def split: option.splits)
    with None c cur show ?thesis
      by (simp add: setReviewWindowBaseline_def Let_def put)
  qed (use c cur in \<open>simp add: setReviewWindowBaseline_def\<close>)
qed

lemma arm:
  assumes "list_all P (state_windows st)"
  shows "list_all P (state_windows (snd (armReviewResponseExchange now b st)))"
proof -
  let ?st = "snd (beginAgentRun now st)"
  note b1 = begin_run [OF assms, of now]
  show ?thesis
  proof (cases "reviewWindow ?st")
    case (Some w)
    then have w: "P w" using b1 by (simp add: state_windows_def)
    show ?thesis
    proof (cases "activeExchange w")
      case (Some a)
      show ?thesis
      proof (cases "assertNoMixedBaselineKind w b ''armReviewResponseExchange''")
        case None
        then obtain kb where k: "\<forall>x \<in> set (window_baselines w). kind x = kb" and kb: "kind b = kb"
          by (auto simp only: no_mixed_kind)
        let ?f = "\<lambda>a. set_cause (latest_feedback w) (a\<lparr>ae_baseline := default_to (ae_baseline a) b\<rparr>)"
        have "P (map_active ?f (w\<lparr>w_baseline := w_baseline w\<rparr>))"
          using w k kb baseline_kinds [OF k]
          by (intro baselines [of _ kb])
            (auto simp: keeps_fields_def set_cause_def default_to_def split: option.splits)
        moreover have "map_active ?f (w\<lparr>w_baseline := w_baseline w\<rparr>) = w\<lparr>activeExchange := Some (?f a)\<rparr>"
          using Some by (simp add: map_active_def)
        ultimately show ?thesis
          using None Some \<open>reviewWindow ?st = Some w\<close> b1
          by (simp add: armReviewResponseExchange_def Let_def put)
      qed (use Some \<open>reviewWindow ?st = Some w\<close> b1 in \<open>simp add: armReviewResponseExchange_def Let_def\<close>)
    qed (use \<open>reviewWindow ?st = Some w\<close> b1 in \<open>simp add: armReviewResponseExchange_def Let_def\<close>)
  qed (use b1 in \<open>simp add: armReviewResponseExchange_def Let_def\<close>)
qed

lemma checkpoint_op:
  assumes "list_all P (state_windows st)" "allowed (OpCheckpointWindow s)"
  shows "list_all P (state_windows (snd (checkpointReviewWindow s st)))"
proof (cases "reviewWindow st")
  case (Some w)
  then have "P (checkpoint_window s w)" using assms checkpoint by (simp add: state_windows_def)
  with Some assms(1) show ?thesis
    by (simp add: checkpointReviewWindow_def put checkpoint_window_def [symmetric] split: option.split)
qed (use assms in \<open>simp add: checkpointReviewWindow_def\<close>)

lemma question_op:
  assumes "list_all P (state_windows st)"
  shows "list_all P (state_windows (snd (recordAcceptedReviewerQuestion now ref q a st)))"
proof (cases "if ref = QuestionWindow then lastQuestionWindow st else None")
  case None
  obtain w st1 where c: "current_window now st = (w, st1)" by (cases "current_window now st")
  note cur = current [OF assms c]
  have "P (w\<lparr>evidence := snd (record_accepted_question now q a (evidence w))\<rparr>)"
    using question cur by (simp add: on_evidence_def)
  with None c cur show ?thesis
    by (simp add: recordAcceptedReviewerQuestion_def Let_def put case_prod_beta)
next
  case (Some w)
  then have "lastQuestionWindow st = Some w" by (simp split: if_splits)
  moreover from this have "P (w\<lparr>evidence := snd (record_accepted_question now q a (evidence w))\<rparr>)"
    using question [of w now q a] assms by (simp add: on_evidence_def state_windows_def)
  ultimately show ?thesis
    using Some assms
    by (simp add: recordAcceptedReviewerQuestion_def Let_def state_windows_def case_prod_beta)
qed

lemma remember_op:
  assumes "list_all P (state_windows st)"
  shows "list_all P (state_windows (appendUserRequest now t st))"
  using current [OF assms] push by (auto simp: appendUserRequest_def split: prod.splits intro!: put)

lemma feedback_op:
  "list_all P (state_windows st) \<Longrightarrow> list_all P (state_windows (recordReviewerFeedback input st))"
  using history by (auto simp: recordReviewerFeedback_def state_windows_def put_window_def split: option.splits)

lemma mark_op:
  "list_all P (state_windows st) \<Longrightarrow> list_all P (state_windows (markCappedFeedbackSent st))"
  using history by (auto simp: markCappedFeedbackSent_def state_windows_def put_window_def split: option.splits)

lemma close_op:
  "list_all P (state_windows st) \<Longrightarrow> list_all P (state_windows (closeReviewWindow preserve st))"
  by (auto simp: closeReviewWindow_def state_windows_def rememberOwnedBundle_def Let_def split: option.splits)

lemma clear_op: "list_all P (state_windows (clearReviewState st))"
  by (simp add: clearReviewState_def state_windows_def Let_def)

lemma all_windows:
  assumes "list_all P (state_windows st)" "allowed op"
  shows "list_all P (state_windows (apply_op op st))"
  using assms
  by (cases op)
    (simp_all add: rememberUserRequest_def rememberUserRequestVerbatim_def Let_def remember_op begin_run
      set_checkpoint set_snapshot arm checkpoint_op complete on_window feedback_op mark_op close_op clear_op
      question_op event summary recordReviewerFeedbackAndArmExchange_def)

lemma run_windows:
  "list_all P (state_windows st) \<Longrightarrow> list_all allowed os \<Longrightarrow> list_all P (state_windows (fold apply_op os st))"
  by (induction os arbitrary: st) (auto simp: all_windows)

end






subsection \<open>The shape of the gate state\<close>

lemma w_id_simps [simp]:
  "w_id (start_exchange now w) = w_id w" "w_id (snd (completeActiveExchange now input w)) = w_id w"
  "w_id (map_active f w) = w_id w" "w_id (on_evidence g w) = w_id w"
  by (simp_all add: start_exchange_def Let_def completeActiveExchange_def map_active_def on_evidence_def
      split: option.split)










subsection \<open>Attribution of requests\<close>

definition no_checkpoint :: "gate_op \<Rightarrow> bool" where
  "no_checkpoint op \<longleftrightarrow> (\<forall>s. op \<noteq> OpCheckpointWindow s)"

text \<open>The requests the active exchange would take if it ended now.\<close>

definition current_requests :: "review_window \<Rightarrow> user_request list" where
  "current_requests w =
     (case activeExchange w of
        Some a \<Rightarrow> drop (requestHistoryStart a) (requestHistory w)
      | None \<Rightarrow> drop (nextExchangeRequestIndex w) (requestHistory w))"

definition attribution_ok :: "review_window \<Rightarrow> bool" where
  "attribution_ok w \<longleftrightarrow> nextExchangeRequestIndex w \<le> length (requestHistory w) \<and>
     attributed w = take (nextExchangeRequestIndex w) (requestHistory w) \<and>
     (case activeExchange w of Some a \<Rightarrow> requestHistoryStart a = nextExchangeRequestIndex w | None \<Rightarrow> True)"

lemma attribution_all: "attribution_ok w \<Longrightarrow> attributed w @ current_requests w = requestHistory w"
  by (auto simp: attribution_ok_def current_requests_def split: option.splits)

interpretation attr: window_property attribution_ok no_checkpoint
proof
  fix w k b f
  assume "attribution_ok w" "keeps_fields f"
  then show "attribution_ok (map_active f (w\<lparr>w_baseline := b\<rparr>))"
    by (cases "activeExchange w") (simp_all add: attribution_ok_def attributed_def map_active_def keeps_fields_def)
next
  fix w t
  assume "attribution_ok w"
  moreover obtain r where "requestHistory (push_request t w) = requestHistory w @ [r]"
    using push_request_simps(8) by blast
  ultimately show "attribution_ok (push_request t w)"
    by (cases "activeExchange w") (auto simp: attribution_ok_def attributed_def)
next
  fix w now input
  assume w: "attribution_ok w"
  show "attribution_ok (snd (completeActiveExchange now input w))"
  proof (cases "activeExchange w")
    case (Some a)
    then have "attributed w @ drop (requestHistoryStart a) (requestHistory w) = requestHistory w"
      using attribution_all [OF w] by (simp add: current_requests_def)
    with Some show ?thesis
      by (simp add: completeActiveExchange_def Let_def exchange_of_def attribution_ok_def attributed_def)
  qed (use w in \<open>simp add: completeActiveExchange_def\<close>)
qed (auto simp: attribution_ok_def attributed_def new_window_def start_exchange_def Let_def on_evidence_def
    no_checkpoint_def split: option.splits)

text \<open>
  As long as no landed work re-bases the window, every user request of the window belongs to
  exactly one exchange: the requests the finished exchanges took, followed by those the current
  exchange will take, are the request history, in order, with none lost and none taken twice.
\<close>

theorem requests_attributed_once:
  assumes "list_all no_checkpoint os" "reviewWindow (fold apply_op os createState) = Some w"
  shows "attributed w @ current_requests w = requestHistory w"
proof -
  have "list_all attribution_ok (state_windows createState)" by (simp add: createState_def state_windows_def)
  from attr.run_windows [OF this assms(1)] show ?thesis
    using assms(2) by (intro attribution_all) (simp add: state_windows_def)
qed

definition sample_session :: "gate_op list" where
  "sample_session = [OpRemember ''t1'' ''a'', OpBeginRun ''t2'',
     OpComplete ''t3'' \<lparr>in_workspaceChanges = [], in_sideEffectChanges = [], in_workspacePatch = [], in_sideEffectPatch = []\<rparr>,
     OpRemember ''t4'' ''b'', OpBeginRun ''t5'', OpRemember ''t6'' ''c'']"

theorem requests_attributed_once_witness:
  "\<exists>w. reviewWindow (fold apply_op sample_session createState) = Some w \<and> length (requestHistory w) = 3 \<and>
     length (attributed w) = 1 \<and> attributed w @ current_requests w = requestHistory w"
proof -
  obtain w where w: "reviewWindow (fold apply_op sample_session createState) = Some w"
      "length (requestHistory w) = 3" "length (attributed w) = 1"
    by (simp add: sample_session_def createState_def rememberUserRequest_def appendUserRequest_def current_window_def
        openReviewWindow_def new_window_def rememberOwnedBundle_def push_request_def put_window_def trim_def
        trim_start_def trim_end_def js_space_def beginAgentRun_def start_exchange_def latest_feedback_def
        on_window_def completeActiveExchange_def exchange_of_def attributed_def createEvidenceState_def Let_def)
  moreover have "list_all no_checkpoint sample_session" by (simp add: sample_session_def no_checkpoint_def)
  ultimately show ?thesis using requests_attributed_once by blast
qed

subsection \<open>Refused baselines\<close>

definition held_kinds :: "gate_state \<Rightarrow> baseline_kind set" where
  "held_kinds st = (case reviewWindow st of Some w \<Rightarrow> kind ` set (window_baselines w) | None \<Rightarrow> {})"

lemma mixed_checkpoint_refused:
  assumes "\<not> held_kinds st \<subseteq> {kind b}"
  shows "\<exists>e. setReviewWindowCheckpointBaseline now b st = (Some e, st)"
proof -
  obtain w where w: "reviewWindow st = Some w" "\<not> (\<forall>x \<in> set (window_baselines w). kind x = kind b)"
    using assms by (auto simp: held_kinds_def split: option.splits)
  from w(2) have "assertNoMixedBaselineKind w b ''setReviewWindowCheckpointBaseline'' \<noteq> None"
    by (simp only: no_mixed_kind simp_thms)
  then obtain e where "assertNoMixedBaselineKind w b ''setReviewWindowCheckpointBaseline'' = Some e" by blast
  with w(1) show ?thesis
    by (simp add: setReviewWindowCheckpointBaseline_def current_window_def)
qed

lemma mixed_snapshot_refused:
  assumes "\<not> held_kinds st \<subseteq> {KSnapshot}"
  shows "setReviewWindowBaseline now s st = (Some (CheckpointConflict ''setReviewWindowBaseline''), st)"
  using assms
  by (auto simp: held_kinds_def setReviewWindowBaseline_def current_window_def assertNoGitBaselineConflict_def
      list_ex_iff split: option.splits)

end
