(* ===== verification/Durable_Delivery.thy ===== *)
theory Durable_Delivery
  imports Review_Feedback
begin

text \<open>
  The durable deliveries to the model: \<open>src/src/durable-delivery.ts\<close>, the receipt protocol of
  \<open>src/src/transmission.ts\<close>, the recovery and release of \<open>src/src/activation/pending-delivery.ts\<close>, and
  the places of \<open>index.ts\<close> and \<open>activation/review-turn.ts\<close> that queue and cancel held user input.

  An asynchronous function is cut at its awaits.  What runs between two awaits is a definition on
  the state in memory; a dispatch that waits is a flight with the phase it waits in.  The world
  holds the memory, the state last persisted, the flights, the messages that reached the model and
  the receipts.  Any of the awaited calls may fail, any other code may persist at any moment, and
  the process may end at any moment and restart from the persisted state.
\<close>

subsection \<open>Queueing\<close>

definition isNotificationDeliveryKind :: "delivery_kind \<Rightarrow> bool" where
  "isNotificationDeliveryKind k \<longleftrightarrow> k = ReviewTransmission \<or> k = ReviewAuthorization \<or> k = ReviewerAnswer"

record new_delivery =
  nd_deliveryId :: "string option"
  nd_kind :: delivery_kind
  nd_channel :: delivery_channel
  nd_message :: string
  nd_invocationDir :: "string option"
  nd_action :: "transmission_action option"

text \<open>The digest of the identifying fields is the argument \<open>digest\<close>.\<close>

type_synonym delivery_digest =
  "delivery_kind \<times> delivery_channel \<times> string \<times> transmission_action option \<times> string \<Rightarrow> string"

definition modelDeliveryId :: "delivery_digest \<Rightarrow> new_delivery \<Rightarrow> string" where
  "modelDeliveryId digest d =
     digest (nd_kind d, nd_channel d, (case nd_invocationDir d of Some p \<Rightarrow> p | None \<Rightarrow> []),
       nd_action d, nd_message d)"

definition find_delivery :: "string \<Rightarrow> gate_state \<Rightarrow> pending_delivery option" where
  "find_delivery i st = find (\<lambda>d. deliveryId d = i) (pendingModelDeliveries st)"

definition queueModelDelivery ::
  "delivery_digest \<Rightarrow> string \<Rightarrow> new_delivery \<Rightarrow> gate_state \<Rightarrow> pending_delivery \<times> gate_state" where
  "queueModelDelivery digest now input st =
     (let i = (case nd_deliveryId input of Some j \<Rightarrow> j | None \<Rightarrow> modelDeliveryId digest input) in
      case find_delivery i st of
        Some existing \<Rightarrow> (existing, st)
      | None \<Rightarrow>
          (let d = \<lparr>deliveryId = i, d_kind = nd_kind input, d_channel = nd_channel input,
                   d_message = nd_message input, d_status = Queued,
                   d_invocationDir = nd_invocationDir input, d_action = nd_action input,
                   d_createdAt = now, dispatchStartedAt = None, deliveredAt = None, diagnostic = None\<rparr>
           in (d, st\<lparr>pendingModelDeliveries := pendingModelDeliveries st @ [d]\<rparr>)))"

text \<open>User input that arrives while a review runs is held.\<close>

definition held_input_id :: "gate_state \<Rightarrow> string" where
  "held_input_id st = ''queued-user-input:'' @
     (case reviewWindow st of Some w \<Rightarrow> nat_str (w_id w) | None \<Rightarrow> ''window'') @ '':'' @
     nat_str (length (filter (\<lambda>d. d_kind d = QueuedUserInput) (pendingModelDeliveries st)) + 1)"

definition hold_user_input :: "delivery_digest \<Rightarrow> string \<Rightarrow> string \<Rightarrow> gate_state \<Rightarrow> gate_state" where
  "hold_user_input digest now input st =
     (let queued = trim input in
      if queued = [] then st
      else snd (queueModelDelivery digest now
        \<lparr>nd_deliveryId = Some (held_input_id st), nd_kind = QueuedUserInput, nd_channel = FollowUp,
         nd_message = queued, nd_invocationDir = None, nd_action = None\<rparr>
        (st\<lparr>queuedUserInputsDuringReview := queuedUserInputsDuringReview st @ [queued]\<rparr>)))"

definition cancel_held :: "pending_delivery \<Rightarrow> pending_delivery" where
  "cancel_held d =
     (if d_kind d = QueuedUserInput \<and> d_status d = Queued
      then d\<lparr>d_status := Cancelled, diagnostic := Some
        ''The review was explicitly cancelled before this queued input was released.''\<rparr>
      else d)"

definition cancel_held_inputs :: "gate_state \<Rightarrow> gate_state" where
  "cancel_held_inputs st =
     st\<lparr>pendingModelDeliveries := map cancel_held (pendingModelDeliveries st),
        queuedUserInputsDuringReview := []\<rparr>"

subsection \<open>The segments of a dispatch\<close>

datatype entry_result = AlreadyDelivered | AlreadyCancelled | UncertainPriorDispatch | DispatchStarted

fun dispatch_entry :: "delivery_status \<Rightarrow> entry_result" where
  "dispatch_entry Delivered = AlreadyDelivered"
| "dispatch_entry Cancelled = AlreadyCancelled"
| "dispatch_entry Dispatching = UncertainPriorDispatch"
| "dispatch_entry Uncertain = UncertainPriorDispatch"
| "dispatch_entry Queued = DispatchStarted"

definition begin_dispatch :: "string \<Rightarrow> pending_delivery \<Rightarrow> pending_delivery" where
  "begin_dispatch now d = d\<lparr>d_status := Dispatching, dispatchStartedAt := Some now, diagnostic := None\<rparr>"

definition settle_delivered :: "string \<Rightarrow> pending_delivery \<Rightarrow> pending_delivery" where
  "settle_delivered now d = d\<lparr>d_status := Delivered, deliveredAt := Some now\<rparr>"

definition settle_requeued :: "pending_delivery \<Rightarrow> pending_delivery" where
  "settle_requeued d = d\<lparr>d_status := Queued, dispatchStartedAt := None\<rparr>"

definition settle_uncertain :: "string \<Rightarrow> pending_delivery \<Rightarrow> pending_delivery" where
  "settle_uncertain err d = d\<lparr>d_status := Uncertain, diagnostic := Some err\<rparr>"

definition set_delivery :: "string \<Rightarrow> (pending_delivery \<Rightarrow> pending_delivery) \<Rightarrow> gate_state \<Rightarrow> gate_state" where
  "set_delivery i f st =
     st\<lparr>pendingModelDeliveries :=
        map (\<lambda>d. if deliveryId d = i then f d else d) (pendingModelDeliveries st)\<rparr>"

subsection \<open>Recovery\<close>

datatype recovery = RecoverySkip | RecoveryUpdate pending_delivery | RecoveryDispatch

text \<open>What the recovery does with one delivery; \<open>receipt\<close> tells whether its receipt was found.\<close>

definition keep_diagnostic :: "string \<Rightarrow> pending_delivery \<Rightarrow> pending_delivery" where
  "keep_diagnostic s d = (case diagnostic d of None \<Rightarrow> d\<lparr>diagnostic := Some s\<rparr> | Some _ \<Rightarrow> d)"

definition keep_deliveredAt :: "string \<Rightarrow> pending_delivery \<Rightarrow> pending_delivery" where
  "keep_deliveredAt now d = (case deliveredAt d of None \<Rightarrow> d\<lparr>deliveredAt := Some now\<rparr> | Some _ \<Rightarrow> d)"

definition recover_one :: "string \<Rightarrow> bool \<Rightarrow> pending_delivery \<Rightarrow> recovery" where
  "recover_one now receipt d =
     (if d_status d = Delivered \<or> d_status d = Cancelled then RecoverySkip
      else if d_kind d = QueuedUserInput then RecoverySkip
      else if \<not> isNotificationDeliveryKind (d_kind d)
      then RecoveryUpdate (keep_diagnostic
        ''The persisted delivery kind is unrecognized; it was not sent automatically.'' d)
      else if (\<exists>p. d_invocationDir d = Some p \<and> p \<noteq> []) \<and> receipt
      then RecoveryUpdate (keep_deliveredAt now (d\<lparr>d_status := Delivered, diagnostic := None\<rparr>))
      else if d_status d = Dispatching \<or> d_status d = Uncertain
      then RecoveryUpdate (keep_diagnostic
        ''The prior application ended after dispatch began but before a durable acknowledgement was found.''
        (d\<lparr>d_status := Uncertain\<rparr>))
      else RecoveryDispatch)"

text \<open>The held inputs that a finished review can release, counted by occurrence.\<close>

definition active_messages :: "gate_state \<Rightarrow> string list" where
  "active_messages st = map d_message (filter (\<lambda>d. d_kind d = QueuedUserInput \<and>
     d_status d \<noteq> Delivered \<and> d_status d \<noteq> Cancelled) (pendingModelDeliveries st))"

fun count_releasable :: "string list \<Rightarrow> (string \<Rightarrow> nat) \<Rightarrow> nat" where
  "count_releasable [] act = 0"
| "count_releasable (m # ms) act =
     (if act m > 0 then Suc (count_releasable ms (act(m := act m - 1))) else count_releasable ms act)"

definition splitReleasableQueuedInputs :: "gate_state \<Rightarrow> nat \<times> nat" where
  "splitReleasableQueuedInputs st =
     (let n = count_releasable (queuedUserInputsDuringReview st) (count_list (active_messages st))
      in (n, length (queuedUserInputsDuringReview st) - n))"

text \<open>After a held input was delivered its first occurrence leaves the ledger.\<close>

definition drop_released :: "string \<Rightarrow> gate_state \<Rightarrow> gate_state" where
  "drop_released m st =
     st\<lparr>queuedUserInputsDuringReview := remove1 m (queuedUserInputsDuringReview st)\<rparr>"

subsection \<open>The world\<close>

datatype flight_phase =
    SavingStart            \<comment> \<open>before the message leaves\<close>
  | AtModel
  | HandedOver             \<comment> \<open>the model has it, the call has not returned\<close>
  | SavingEnd
  | SavingFailure

record world =
  mem :: gate_state
  disk :: gate_state
  flights :: "(string \<times> flight_phase) list"
  sent :: "string list"
  receipts :: "string set"

text \<open>What a restart finds: the persisted state without the fields kept at run time only.\<close>

definition persisted :: "gate_state \<Rightarrow> gate_state" where
  "persisted st = st\<lparr>ownedBundleDirs := {}, reviewInProgress := False, reviewActivityToken := None,
     primarySnapshotFallback := False\<rparr>"

definition initial_world :: world where
  "initial_world = \<lparr>mem = createState, disk = createState, flights = [], sent = [], receipts = {}\<rparr>"

datatype delivery_event =
    Queue string new_delivery
  | HoldInput string string
  | Dispatch string string
  | Saved string flight_phase bool
  | SaveFailed string flight_phase string
  | HandOver string
  | Receipt string
  | Accepted string string
  | Declined string
  | Threw string flight_phase string
  | Recover string string
  | Released string
  | CancelHeld
  | Clear
  | Flush
  | Restart

definition move_flight :: "string \<times> flight_phase \<Rightarrow> flight_phase list \<Rightarrow>
  (string \<times> flight_phase) list \<Rightarrow> (string \<times> flight_phase) list" where
  "move_flight f next fs = map (\<lambda>p. (fst f, p)) next @ remove1 f fs"

definition save :: "world \<Rightarrow> world" where
  "save w = w\<lparr>disk := persisted (mem w)\<rparr>"

definition at :: "string \<times> flight_phase \<Rightarrow> flight_phase list \<Rightarrow> (world \<Rightarrow> world) \<Rightarrow> world \<Rightarrow> world" where
  "at f next g w = (if f \<in> set (flights w) then (g w)\<lparr>flights := move_flight f next (flights w)\<rparr> else w)"

definition on_mem :: "(gate_state \<Rightarrow> gate_state) \<Rightarrow> world \<Rightarrow> world" where
  "on_mem f w = w\<lparr>mem := f (mem w)\<rparr>"

definition start_dispatch :: "string \<Rightarrow> string \<Rightarrow> world \<Rightarrow> world" where
  "start_dispatch now i w =
     (case find_delivery i (mem w) of
        None \<Rightarrow> w
      | Some d \<Rightarrow>
          (if dispatch_entry (d_status d) = DispatchStarted
           then (on_mem (set_delivery i (begin_dispatch now)) w)\<lparr>flights := (i, SavingStart) # flights w\<rparr>
           else w))"

definition recover_delivery :: "string \<Rightarrow> string \<Rightarrow> world \<Rightarrow> world" where
  "recover_delivery now i w =
     (case find_delivery i (mem w) of
        None \<Rightarrow> w
      | Some d \<Rightarrow>
          (case recover_one now (i \<in> receipts w) d of
             RecoverySkip \<Rightarrow> w
           | RecoveryUpdate d' \<Rightarrow> on_mem (set_delivery i (\<lambda>_. d')) w
           | RecoveryDispatch \<Rightarrow> start_dispatch now i w))"

definition persist_resolved :: "bool \<Rightarrow> world \<Rightarrow> world" where
  "persist_resolved written w = (if written then save w else w)"

text \<open>
  The transitions.  The first save of a dispatch is outside its \<open>try\<close>, so its failure ends the
  dispatch; every later failure marks the delivery uncertain, and that save ends it.  A save may also
  resolve without writing, when there is no store, the session is inactive or the store was marked
  unavailable: the dispatch goes on all the same.  The flag of \<open>Saved\<close> tells whether the state was
  written.  A save that wrote and then failed is \<open>Flush\<close> followed by \<open>SaveFailed\<close>.
\<close>

fun delivery_step :: "delivery_digest \<Rightarrow> delivery_event \<Rightarrow> world \<Rightarrow> world" where
  "delivery_step digest (Queue now input) w = on_mem (\<lambda>st. snd (queueModelDelivery digest now input st)) w"
| "delivery_step digest (HoldInput now input) w = on_mem (hold_user_input digest now input) w"
| "delivery_step digest (Dispatch now i) w = start_dispatch now i w"
| "delivery_step digest (Saved i SavingStart written) w = at (i, SavingStart) [AtModel] (persist_resolved written) w"
| "delivery_step digest (Saved i SavingEnd written) w = at (i, SavingEnd) [] (persist_resolved written) w"
| "delivery_step digest (Saved i SavingFailure written) w = at (i, SavingFailure) [] (persist_resolved written) w"
| "delivery_step digest (Saved i _ written) w = w"
| "delivery_step digest (SaveFailed i SavingStart err) w = at (i, SavingStart) [] (\<lambda>w. w) w"
| "delivery_step digest (SaveFailed i SavingEnd err) w =
     at (i, SavingEnd) [SavingFailure] (on_mem (set_delivery i (settle_uncertain err))) w"
| "delivery_step digest (SaveFailed i SavingFailure err) w = at (i, SavingFailure) [] (\<lambda>w. w) w"
| "delivery_step digest (SaveFailed i _ err) w = w"
| "delivery_step digest (HandOver i) w = at (i, AtModel) [HandedOver] (\<lambda>w. w\<lparr>sent := sent w @ [i]\<rparr>) w"
| "delivery_step digest (Receipt i) w =
     at (i, HandedOver) [HandedOver] (\<lambda>w. w\<lparr>receipts := insert i (receipts w)\<rparr>) w"
| "delivery_step digest (Accepted now i) w =
     at (i, HandedOver) [SavingEnd] (on_mem (set_delivery i (settle_delivered now))) w"
| "delivery_step digest (Declined i) w =
     at (i, AtModel) [SavingEnd] (on_mem (set_delivery i settle_requeued)) w"
| "delivery_step digest (Threw i phase err) w =
     (if phase = AtModel \<or> phase = HandedOver
      then at (i, phase) [SavingFailure] (on_mem (set_delivery i (settle_uncertain err))) w else w)"
| "delivery_step digest (Recover now i) w = recover_delivery now i w"
| "delivery_step digest (Released m) w = on_mem (drop_released m) w"
| "delivery_step digest CancelHeld w = on_mem cancel_held_inputs w"
| "delivery_step digest Clear w = on_mem clearReviewState w"
| "delivery_step digest Flush w = save w"
| "delivery_step digest Restart w = w\<lparr>mem := disk w, flights := []\<rparr>"

end
