(* ===== verification/Durable_Delivery_Spec.thy ===== *)
theory Durable_Delivery_Spec
  imports Durable_Delivery "HOL-Library.Multiset"
begin

text \<open>
  A message reaches the model at most once, whatever fails and whenever the process ends.  The
  invariant speaks of the status the memory and the disk hold for an id: once a message may have
  left, neither of them says it is still queued; a save that resolves without writing weakens this by one.  The protocol refines an append-only log with a budget of
  repetitions.
\<close>

subsection \<open>The status of an id\<close>

definition status_of :: "gate_state \<Rightarrow> string \<Rightarrow> delivery_status option" where
  "status_of st i = map_option d_status (find_delivery i st)"

definition blocked :: "gate_state \<Rightarrow> string \<Rightarrow> bool" where
  "blocked st i \<longleftrightarrow> status_of st i \<noteq> None \<and> status_of st i \<noteq> Some Queued"

text \<open>What code outside a dispatch does to a status: a new one is queued, a queued one cancelled.\<close>

definition background :: "gate_state \<Rightarrow> gate_state \<Rightarrow> bool" where
  "background st st' \<longleftrightarrow> (\<forall>i. status_of st' i = status_of st i \<or>
     (status_of st i = None \<and> status_of st' i = Some Queued) \<or>
     (status_of st i = Some Queued \<and> status_of st' i = Some Cancelled))"

lemma background_refl: "(\<And>i. status_of st' i = status_of st i) \<Longrightarrow> background st st'"
  by (simp add: background_def)

lemma find_map_keeps:
  "(\<And>d. deliveryId (f d) = deliveryId d) \<Longrightarrow>
     find (\<lambda>d. deliveryId d = i) (map f ds) = map_option f (find (\<lambda>d. deliveryId d = i) ds)"
  by (induction ds) auto

lemma find_append: "find p (xs @ ys) = (case find p xs of None \<Rightarrow> find p ys | Some x \<Rightarrow> Some x)"
  by (induction xs) auto

lemma status_map:
  assumes "\<And>d. deliveryId (f d) = deliveryId d"
  shows "status_of (st\<lparr>pendingModelDeliveries := map f (pendingModelDeliveries st)\<rparr>) i =
    map_option (\<lambda>d. d_status (f d)) (find_delivery i st)"
  using assms by (simp add: status_of_def find_delivery_def find_map_keeps option.map_comp o_def)

lemma status_cong: "pendingModelDeliveries st' = pendingModelDeliveries st \<Longrightarrow> status_of st' i = status_of st i"
  by (simp add: status_of_def find_delivery_def)

lemma background_map:
  assumes "\<And>d. deliveryId (f d) = deliveryId d"
    and "\<And>d. d_status (f d) = d_status d \<or> (d_status d = Queued \<and> d_status (f d) = Cancelled)"
    and "pendingModelDeliveries st' = map f (pendingModelDeliveries st)"
  shows "background st st'"
  unfolding background_def
proof
  fix i
  have "status_of st' i = map_option (\<lambda>d. d_status (f d)) (find_delivery i st)"
    using status_map [of f st i] assms(1,3) by (simp add: status_of_def find_delivery_def)
  then show "status_of st' i = status_of st i \<or> (status_of st i = None \<and> status_of st' i = Some Queued) \<or>
     (status_of st i = Some Queued \<and> status_of st' i = Some Cancelled)"
    using assms(2) [of "the (find_delivery i st)"] status_of_def [of st i]
    by (cases "find_delivery i st") auto
qed

lemma background_add:
  assumes "d_status d = Queued"
  shows "background st (st\<lparr>pendingModelDeliveries := pendingModelDeliveries st @ [d]\<rparr>)"
  using assms
  by (auto simp: background_def status_of_def find_delivery_def find_append split: option.splits)

lemma background_queue: "background st (snd (queueModelDelivery digest now input st))"
  by (auto simp: queueModelDelivery_def Let_def intro!: background_add split: option.splits)
    (auto intro: background_refl)

lemma background_trans_cong:
  "background st st' \<Longrightarrow> pendingModelDeliveries st0 = pendingModelDeliveries st \<Longrightarrow> background st0 st'"
  using status_cong [of st0 st] by (simp add: background_def)

lemma background_hold: "background st (hold_user_input digest now input st)"
  by (auto simp: hold_user_input_def Let_def intro: background_refl background_trans_cong [OF background_queue])

lemma background_cancel: "background st (cancel_held_inputs st)"
  by (rule background_map [of cancel_held]) (auto simp: cancel_held_def cancel_held_inputs_def)

lemma background_clear: "background st (clearReviewState st)"
  by (rule background_map [of cancel_queued]) (auto simp: cancel_queued_def clearReviewState_def Let_def)

lemma background_released: "background st (drop_released m st)"
  by (intro background_refl status_cong) (simp add: drop_released_def)

lemma status_set_delivery:
  assumes "\<And>d. deliveryId d = j \<Longrightarrow> deliveryId (f d) = j \<and> d_status (f d) = s"
  shows "status_of (set_delivery j f st) i = (if i = j \<and> status_of st j \<noteq> None then Some s else status_of st i)"
proof -
  let ?g = "\<lambda>d. if deliveryId d = j then f d else d"
  have g: "deliveryId (?g d) = deliveryId d" for d using assms by simp
  have "deliveryId d = i" if "find_delivery i st = Some d" for d
    using that by (auto simp: find_delivery_def find_Some_iff)
  then show ?thesis
    using assms by (cases "find_delivery i st")
      (auto simp: set_delivery_def status_map [OF g] status_of_def [of st])
qed

lemma status_persisted [simp]: "status_of (persisted st) i = status_of st i"
  by (rule status_cong) (simp add: persisted_def)

subsection \<open>The invariant\<close>

definition open_phase :: "flight_phase \<Rightarrow> bool" where
  "open_phase p \<longleftrightarrow> p = SavingStart \<or> p = AtModel \<or> p = HandedOver"

definition open_flights :: "string \<Rightarrow> (string \<times> flight_phase) list \<Rightarrow> nat" where
  "open_flights i fs = length (filter (\<lambda>(j, p). j = i \<and> open_phase p) fs)"

text \<open>
  Per id, \<open>k\<close> is the number of dispatches so far whose first save resolved without writing.
\<close>

definition at_model_ok :: "nat \<Rightarrow> world \<Rightarrow> string \<Rightarrow> bool" where
  "at_model_ok k w i \<longleftrightarrow>
     count_list (sent w) i \<le> k \<and> (blocked (disk w) i \<or> count_list (sent w) i < k)"

lemma at_model_fields [simp]:
  "at_model_ok k (w\<lparr>flights := fs\<rparr>) i = at_model_ok k w i" "at_model_ok k (w\<lparr>mem := m\<rparr>) i = at_model_ok k w i"
  "at_model_ok k (w\<lparr>receipts := r\<rparr>) i = at_model_ok k w i"
  by (simp_all add: at_model_ok_def)

lemma at_model_count: "at_model_ok k w i \<Longrightarrow> count_list (sent w) i \<le> k"
  by (simp add: at_model_ok_def)

lemma at_model_save: "at_model_ok k w i \<Longrightarrow> blocked (mem w) i \<Longrightarrow> at_model_ok k (save w) i"
  by (simp add: at_model_ok_def save_def blocked_def)

lemma at_model_mono: "at_model_ok k w i \<Longrightarrow> k \<le> k' \<Longrightarrow> at_model_ok k' w i"
  by (auto simp: at_model_ok_def)

definition id_ok :: "nat \<Rightarrow> world \<Rightarrow> string \<Rightarrow> bool" where
  "id_ok k w i \<longleftrightarrow> open_flights i (flights w) \<le> 1 \<and>
     (open_flights i (flights w) = 1 \<longrightarrow> blocked (mem w) i) \<and>
     ((i, SavingStart) \<in> set (flights w) \<longrightarrow> count_list (sent w) i \<le> k) \<and>
     ((i, AtModel) \<in> set (flights w) \<longrightarrow> at_model_ok k w i) \<and>
     ((i, HandedOver) \<in> set (flights w) \<longrightarrow> i \<in> set (sent w)) \<and>
     (count_list (sent w) i > k \<longrightarrow>
        count_list (sent w) i = Suc k \<and> blocked (mem w) i \<and> blocked (disk w) i) \<and>
     (i \<in> receipts w \<longrightarrow> i \<in> set (sent w)) \<and>
     (status_of (mem w) i = Some Delivered \<longrightarrow> i \<in> set (sent w)) \<and>
     (status_of (disk w) i = Some Delivered \<longrightarrow> i \<in> set (sent w))"

definition delivery_inv :: "(string \<Rightarrow> nat) \<Rightarrow> world \<Rightarrow> bool" where
  "delivery_inv k w \<longleftrightarrow> (\<forall>i. id_ok (k i) w i)"

lemma inv_mono:
  assumes "delivery_inv k w" "\<And>i. k i \<le> k' i"
  shows "delivery_inv k' w"
  unfolding delivery_inv_def
proof
  fix i
  have "id_ok (k i) w i" using assms(1) by (simp add: delivery_inv_def)
  then show "id_ok (k' i) w i"
    using assms(2) [of i] at_model_mono [of "k i" w i "k' i"] unfolding id_ok_def by linarith
qed

lemma open_flights_mem:
  "(i, p) \<in> set fs \<Longrightarrow> open_phase p \<Longrightarrow> 1 \<le> open_flights i fs"
  unfolding open_flights_def by (induction fs) auto

lemma open_flights_remove:
  "f \<in> set fs \<Longrightarrow> open_flights i (remove1 f fs) =
     open_flights i fs - (if fst f = i \<and> open_phase (snd f) then 1 else 0)"
proof (induction fs)
  case (Cons g fs)
  then show ?case
    using open_flights_mem [of i "snd f" fs] by (cases f; cases g) (auto simp: open_flights_def)
qed simp

lemma open_flights_move:
  assumes "f \<in> set fs" "open_flights i fs \<le> 1"
  shows "open_flights i (move_flight f next fs) =
    (if fst f = i then (if open_phase (snd f) then 0 else open_flights i fs) + length (filter open_phase next)
     else open_flights i fs)"
proof -
  have "open_flights i (map (\<lambda>p. (fst f, p)) next) = (if fst f = i then length (filter open_phase next) else 0)"
    by (induction "next") (auto simp: open_flights_def)
  moreover have "open_flights i (xs @ ys) = open_flights i xs + open_flights i ys" for xs ys
    by (simp add: open_flights_def)
  moreover have "fst f = i \<Longrightarrow> open_phase (snd f) \<Longrightarrow> open_flights i fs = 1"
    using open_flights_mem [of i "snd f" fs] assms by (cases f) auto
  ultimately show ?thesis
    using open_flights_remove [OF assms(1), of i] by (auto simp: move_flight_def)
qed

lemma move_flight_mem: "(i, p) \<in> set (move_flight f next fs) \<Longrightarrow> (i, p) \<in> set fs \<or> (i = fst f \<and> p \<in> set next)"
  by (auto simp: move_flight_def dest: notin_set_remove1)

lemma background_blocked:
  assumes "background st st'"
  shows "blocked st i \<Longrightarrow> blocked st' i"
    and "status_of st' i = Some Delivered \<Longrightarrow> status_of st i = Some Delivered"
proof -
  have "status_of st' i = status_of st i \<or> (status_of st i = None \<and> status_of st' i = Some Queued) \<or>
     (status_of st i = Some Queued \<and> status_of st' i = Some Cancelled)"
    using assms unfolding background_def by blast
  then show "blocked st i \<Longrightarrow> blocked st' i" "status_of st' i = Some Delivered \<Longrightarrow> status_of st i = Some Delivered"
    unfolding blocked_def by auto
qed

lemma inv_background:
  assumes "delivery_inv k w" "background (mem w) (f (mem w))"
  shows "delivery_inv k (on_mem f w)"
  using assms background_blocked [OF assms(2)]
  by (auto simp: delivery_inv_def id_ok_def on_mem_def)

lemma inv_save: "delivery_inv k w \<Longrightarrow> delivery_inv k (save w)"
proof -
  assume w: "delivery_inv k w"
  have "id_ok (k i) (save w) i" for i
  proof -
    have "(i, AtModel) \<in> set (flights w) \<Longrightarrow> open_flights i (flights w) = 1"
      using w open_flights_mem [of i AtModel "flights w"] by (auto simp: delivery_inv_def id_ok_def open_phase_def le_antisym)
    moreover have "id_ok (k i) w i" using w by (simp add: delivery_inv_def)
    moreover have "blocked (disk (save w)) i = blocked (mem w) i" by (simp add: save_def blocked_def)
    ultimately show ?thesis
      using at_model_save [of "k i" w i] unfolding id_ok_def save_def by simp
  qed
  then show ?thesis by (simp add: delivery_inv_def)
qed

subsection \<open>Elementary changes\<close>

lemma inv_status:
  assumes "delivery_inv k w" "\<And>d. deliveryId d = j \<Longrightarrow> deliveryId (f d) = j \<and> d_status (f d) = s" "s \<noteq> Queued"
    "s = Delivered \<longrightarrow> j \<in> set (sent w)"
  shows "delivery_inv k (on_mem (set_delivery j f) w)"
proof -
  have st: "status_of (set_delivery j f (mem w)) i = (if i = j \<and> status_of (mem w) j \<noteq> None then Some s else status_of (mem w) i)" for i
    by (rule status_set_delivery) (rule assms(2))
  have "id_ok (k i) (on_mem (set_delivery j f) w) i" for i
    using assms(1,3,4) st [of i]
    by (cases "i = j \<and> status_of (mem w) j \<noteq> None")
      (simp_all add: delivery_inv_def id_ok_def on_mem_def blocked_def)
  then show ?thesis using assms(1) by (simp add: delivery_inv_def on_mem_def)
qed

lemma inv_requeue:
  assumes "delivery_inv k w" "\<And>d. deliveryId d = j \<Longrightarrow> deliveryId (f d) = j \<and> d_status (f d) = Queued"
    "open_flights j (flights w) = 0" "count_list (sent w) j \<le> k j"
  shows "delivery_inv k (on_mem (set_delivery j f) w)"
proof -
  have st: "status_of (set_delivery j f (mem w)) i = (if i = j \<and> status_of (mem w) j \<noteq> None then Some Queued else status_of (mem w) i)" for i
    by (rule status_set_delivery) (rule assms(2))
  have "id_ok (k i) (on_mem (set_delivery j f) w) i" for i
  proof -
    have "id_ok (k i) w i" using assms(1) by (simp add: delivery_inv_def)
    then show ?thesis
      using assms(3,4) st [of i]
      by (cases "i = j") (auto simp: id_ok_def on_mem_def blocked_def)
  qed
  then show ?thesis using assms(1) by (simp add: delivery_inv_def on_mem_def)
qed

lemma own_open:
  assumes "(i, p) \<in> set fs" "open_phase p" "open_flights i fs \<le> 1" "(i, q) \<in> set (move_flight (i, p) next fs)" "open_phase q"
  shows "q \<in> set next"
proof (rule ccontr)
  assume "q \<notin> set next"
  then have "(i, q) \<in> set (remove1 (i, p) fs)" using assms(4) by (auto simp: move_flight_def)
  then have "1 \<le> open_flights i (remove1 (i, p) fs)" using assms(5) by (rule open_flights_mem)
  then show False using open_flights_remove [OF assms(1), of i] assms(2,3) by simp
qed

lemma inv_flight:
  assumes inv: "delivery_inv k w" and f: "(j, p) \<in> set (flights w)"
    and own: "open_phase p \<and> next = [] \<or> (open_phase p \<and> (\<exists>q. next = [q] \<and>
      (q = SavingStart \<longrightarrow> count_list (sent w) j \<le> k j) \<and> (q = AtModel \<longrightarrow> at_model_ok (k j) w j) \<and>
      (q = HandedOver \<longrightarrow> j \<in> set (sent w)))) \<or> (\<not> open_phase p \<and> filter open_phase next = [])"
  shows "delivery_inv k (w\<lparr>flights := move_flight (j, p) next (flights w)\<rparr>)"
proof -
  have "id_ok (k i) (w\<lparr>flights := move_flight (j, p) next (flights w)\<rparr>) i" for i
  proof -
    let ?fs = "move_flight (j, p) next (flights w)"
    have ok: "id_ok (k i) w i" and le: "open_flights i (flights w) \<le> 1" using inv by (auto simp: delivery_inv_def id_ok_def)
    have n: "open_flights i ?fs = (if j = i then (if open_phase p then 0 else open_flights i (flights w)) +
        length (filter open_phase next) else open_flights i (flights w))"
      using open_flights_move [OF f le] by simp
    have m: "(i, q) \<in> set (flights w) \<or> (i = j \<and> q \<in> set next)" if "(i, q) \<in> set ?fs" for q
      using move_flight_mem [OF that] by simp
    show ?thesis
    proof (cases "i = j")
      case False
      then show ?thesis using ok n m by (auto simp: id_ok_def)
    next
      case True
      show ?thesis
      proof (cases "open_phase p")
        case op: True
        then have one: "open_flights i (flights w) = 1" using open_flights_mem [OF f op] le True by simp
        have mem: "q \<in> set next" if "(i, q) \<in> set ?fs" "open_phase q" for q
          using own_open [of j p "flights w" q "next"] f op le True that by simp
        have "open_flights i ?fs \<le> 1" using n own op True by (auto simp: open_phase_def)
        moreover have "count_list (sent w) i \<le> k i" if "(i, SavingStart) \<in> set ?fs"
          using mem [OF that] own True op by (auto simp: open_phase_def)
        moreover have "at_model_ok (k i) w i" if "(i, AtModel) \<in> set ?fs"
          using mem [OF that] own True op by (auto simp: open_phase_def)
        moreover have "i \<in> set (sent w)" if "(i, HandedOver) \<in> set ?fs"
          using mem [OF that] own True op by (auto simp: open_phase_def)
        ultimately show ?thesis
          using ok one unfolding id_ok_def by simp
      next
        case False
        then have "filter open_phase next = []" using own by auto
        then have "q \<notin> set next" if "open_phase q" for q using that by (auto simp: filter_empty_conv)
        then have "(i, q) \<in> set (flights w)" if "(i, q) \<in> set ?fs" "open_phase q" for q using m that by blast
        moreover have "open_flights i ?fs = open_flights i (flights w)"
          using n False \<open>filter open_phase next = []\<close> by simp
        ultimately show ?thesis
          using ok unfolding id_ok_def by (simp add: open_phase_def)
      qed
    qed
  qed
  then show ?thesis using inv by (simp add: delivery_inv_def)
qed

subsection \<open>Every event keeps the invariant\<close>

lemma at_cases:
  assumes "delivery_inv k w" "f \<in> set (flights w) \<Longrightarrow> delivery_inv k ((g w)\<lparr>flights := move_flight f next (flights w)\<rparr>)"
  shows "delivery_inv k (at f next g w)"
  using assms by (auto simp: at_def)

lemma id_ok_flight:
  assumes "delivery_inv k w" "(i, p) \<in> set (flights w)" "open_phase p"
  shows "blocked (mem w) i"
proof -
  have "1 \<le> open_flights i (flights w)" by (rule open_flights_mem [OF assms(2,3)])
  moreover have "id_ok (k i) w i" using assms(1) by (simp add: delivery_inv_def)
  ultimately show ?thesis by (simp add: id_ok_def)
qed

lemma id_ok_phases:
  assumes "delivery_inv k w"
  shows "(i, SavingStart) \<in> set (flights w) \<Longrightarrow> count_list (sent w) i \<le> k i"
    and "(i, AtModel) \<in> set (flights w) \<Longrightarrow> at_model_ok (k i) w i"
    and "(i, HandedOver) \<in> set (flights w) \<Longrightarrow> i \<in> set (sent w)"
    and "i \<in> receipts w \<Longrightarrow> i \<in> set (sent w)"
  using assms by (auto simp: delivery_inv_def id_ok_def)

lemma save_fields [simp]: "flights (save w) = flights w" "sent (save w) = sent w" "mem (save w) = mem w"
    "disk (save w) = persisted (mem w)"
  by (simp_all add: save_def)

lemma inv_saved_start:
  assumes "delivery_inv k w"
  shows "delivery_inv k (at (i, SavingStart) [AtModel] save w)"
proof (rule at_cases [OF assms])
  assume f: "(i, SavingStart) \<in> set (flights w)"
  have "blocked (disk (save w)) i"
    using id_ok_flight [OF assms f] by (simp add: open_phase_def blocked_def)
  then show "delivery_inv k ((save w)\<lparr>flights := move_flight (i, SavingStart) [AtModel] (flights w)\<rparr>)"
    using inv_flight [OF inv_save [OF assms], of i SavingStart "[AtModel]"] f id_ok_phases(1) [OF assms f]
    by (simp add: open_phase_def at_model_ok_def)
qed

text \<open>An unwritten save lets the message leave with nothing on the disk: the budget pays for it.\<close>

lemma inv_unwritten_start:
  assumes "delivery_inv k w"
  shows "delivery_inv (k(i := Suc (k i))) (at (i, SavingStart) [AtModel] (\<lambda>w. w) w)"
proof (rule at_cases)
  show inv: "delivery_inv (k(i := Suc (k i))) w" by (rule inv_mono [OF assms]) simp
  assume f: "(i, SavingStart) \<in> set (flights w)"
  show "delivery_inv (k(i := Suc (k i))) (w\<lparr>flights := move_flight (i, SavingStart) [AtModel] (flights w)\<rparr>)"
    using inv_flight [OF inv f, of "[AtModel]"] id_ok_phases(1) [OF assms f]
    by (simp add: open_phase_def at_model_ok_def)
qed

lemma persist_written: "persist_resolved True = save"
  and persist_unwritten: "persist_resolved False = (\<lambda>w. w)"
  by (simp_all add: persist_resolved_def [abs_def])

lemma inv_saved_end:
  assumes "delivery_inv k w" "\<not> open_phase p"
  shows "delivery_inv k (at (i, p) [] (persist_resolved written) w)"
proof (rule at_cases [OF assms(1)])
  assume f: "(i, p) \<in> set (flights w)"
  have "delivery_inv k (persist_resolved written w)"
    using assms(1) inv_save by (simp add: persist_resolved_def)
  moreover have "flights (persist_resolved written w) = flights w" by (simp add: persist_resolved_def)
  ultimately show "delivery_inv k ((persist_resolved written w)\<lparr>flights := move_flight (i, p) [] (flights w)\<rparr>)"
    using inv_flight [of k "persist_resolved written w" i p "[]"] f assms(2) by simp
qed

lemma inv_close:
  assumes "delivery_inv k w" "(i, p) \<in> set (flights w)" "filter open_phase next = []" "length next \<le> 1"
  shows "delivery_inv k (w\<lparr>flights := move_flight (i, p) next (flights w)\<rparr>)"
proof (rule inv_flight [OF assms(1,2)])
  show "open_phase p \<and> next = [] \<or> (open_phase p \<and> (\<exists>q. next = [q] \<and>
      (q = SavingStart \<longrightarrow> count_list (sent w) i \<le> k i) \<and> (q = AtModel \<longrightarrow> at_model_ok (k i) w i) \<and>
      (q = HandedOver \<longrightarrow> i \<in> set (sent w)))) \<or> (\<not> open_phase p \<and> filter open_phase next = [])"
    using assms(3,4) by (cases "next") (auto simp: open_phase_def split: if_splits)
qed

lemma on_mem_flights: "(on_mem g w)\<lparr>flights := fs\<rparr> = on_mem g (w\<lparr>flights := fs\<rparr>)"
  by (simp add: on_mem_def)

lemma inv_settle:
  assumes "delivery_inv k w" "\<And>d. deliveryId d = i \<Longrightarrow> deliveryId (g d) = i \<and> d_status (g d) = s" "s \<noteq> Queued"
    "(i, p) \<in> set (flights w) \<Longrightarrow> s = Delivered \<Longrightarrow> i \<in> set (sent w)" "\<not> open_phase q"
  shows "delivery_inv k (at (i, p) [q] (on_mem (set_delivery i g)) w)"
proof (rule at_cases [OF assms(1)])
  assume f: "(i, p) \<in> set (flights w)"
  show "delivery_inv k ((on_mem (set_delivery i g) w)\<lparr>flights := move_flight (i, p) [q] (flights w)\<rparr>)"
    unfolding on_mem_flights using assms f
    by (intro inv_status [of k _ i g s] inv_close) (simp_all add: assms(2))
qed

lemma inv_declined:
  assumes "delivery_inv k w"
  shows "delivery_inv k (at (i, AtModel) [SavingEnd] (on_mem (set_delivery i settle_requeued)) w)"
proof (rule at_cases [OF assms])
  assume f: "(i, AtModel) \<in> set (flights w)"
  have "open_flights i (flights w) \<le> 1" using assms by (simp add: delivery_inv_def id_ok_def)
  then have "open_flights i (move_flight (i, AtModel) [SavingEnd] (flights w)) = 0"
    using open_flights_move [OF f, of i "[SavingEnd]"] by (simp add: open_phase_def)
  with assms f show "delivery_inv k ((on_mem (set_delivery i settle_requeued) w)
      \<lparr>flights := move_flight (i, AtModel) [SavingEnd] (flights w)\<rparr>)"
    unfolding on_mem_flights
    by (intro inv_requeue inv_close) (simp_all add: settle_requeued_def at_model_count [OF id_ok_phases(2)] open_phase_def)
qed

lemma inv_hand_over:
  assumes "delivery_inv k w"
  shows "delivery_inv k (at (i, AtModel) [HandedOver] (\<lambda>w. w\<lparr>sent := sent w @ [i]\<rparr>) w)"
proof (rule at_cases [OF assms])
  assume f: "(i, AtModel) \<in> set (flights w)"
  let ?w = "w\<lparr>flights := move_flight (i, AtModel) [] (flights w)\<rparr>"
  have m: "blocked (mem w) i" using id_ok_flight [OF assms f] by (simp add: open_phase_def)
  note d = id_ok_phases(2) [OF assms f]
  have le: "open_flights i (flights w) \<le> 1" using assms by (simp add: delivery_inv_def id_ok_def)
  let ?v = "w\<lparr>sent := sent w @ [i], flights := move_flight (i, AtModel) [HandedOver] (flights w)\<rparr>"
  have "id_ok (k j) ?v j" for j
  proof -
    have ok: "id_ok (k j) w j" using assms by (simp add: delivery_inv_def)
    have fl: "(j, q) \<in> set (flights w) \<or> (j = i \<and> q = HandedOver)" if "(j, q) \<in> set (flights ?v)" for q
      using move_flight_mem [of j q "(i, AtModel)" "[HandedOver]" "flights w"] that by simp
    have own: "q = HandedOver" if "(i, q) \<in> set (flights ?v)" "open_phase q" for q
      using own_open [OF f _ le, of q "[HandedOver]"] that by (simp add: open_phase_def)
    have "open_flights j (flights ?v) = open_flights j (flights w)"
      using open_flights_move [OF f, of j "[HandedOver]"] ok open_flights_mem [OF f] le
      by (auto simp: id_ok_def open_phase_def)
    note n = this
    show ?thesis
    proof (cases "j = i")
      case True
      have "(i, SavingStart) \<notin> set (flights ?v)" "(i, AtModel) \<notin> set (flights ?v)"
        using own [of SavingStart] own [of AtModel] by (auto simp: open_phase_def)
      with True ok m d n show ?thesis
        unfolding id_ok_def at_model_ok_def by (simp add: le_Suc_eq) auto
    next
      case False
      with ok n fl [of SavingStart] fl [of AtModel] fl [of HandedOver] show ?thesis
        unfolding id_ok_def at_model_ok_def by auto
    qed
  qed
  then show "delivery_inv k ((w\<lparr>sent := sent w @ [i]\<rparr>)\<lparr>flights := move_flight (i, AtModel) [HandedOver] (flights w)\<rparr>)"
    using assms d by (simp add: delivery_inv_def)
qed

lemma inv_receipt:
  assumes "delivery_inv k w"
  shows "delivery_inv k (at (i, HandedOver) [HandedOver] (\<lambda>w. w\<lparr>receipts := insert i (receipts w)\<rparr>) w)"
proof (rule at_cases [OF assms])
  assume f: "(i, HandedOver) \<in> set (flights w)"
  note s = id_ok_phases(3) [OF assms f]
  have "delivery_inv k (w\<lparr>receipts := insert i (receipts w)\<rparr>)"
    using assms s by (auto simp: delivery_inv_def id_ok_def)
  from inv_flight [OF this, of i HandedOver "[HandedOver]"] f s
  show "delivery_inv k ((w\<lparr>receipts := insert i (receipts w)\<rparr>)\<lparr>flights := move_flight (i, HandedOver) [HandedOver] (flights w)\<rparr>)"
    by (simp add: open_phase_def)
qed

lemma find_delivery_id: "find_delivery i st = Some d \<Longrightarrow> deliveryId d = i"
  by (auto simp: find_delivery_def find_Some_iff)

lemma inv_start:
  assumes "delivery_inv k w"
  shows "delivery_inv k (start_dispatch now i w)"
proof (cases "\<exists>d. find_delivery i (mem w) = Some d \<and> dispatch_entry (d_status d) = DispatchStarted")
  case True
  then have q: "status_of (mem w) i = Some Queued"
    by (auto simp: status_of_def) (metis dispatch_entry.simps entry_result.distinct delivery_status.exhaust)
  let ?w = "on_mem (set_delivery i (begin_dispatch now)) w"
  let ?v = "?w\<lparr>flights := (i, SavingStart) # flights w\<rparr>"
  have inv: "delivery_inv k ?w"
    by (rule inv_status [OF assms, of i _ Dispatching]) (simp_all add: begin_dispatch_def)
  have own: "id_ok (k i) w i" "id_ok (k i) ?w i" using assms inv by (simp_all add: delivery_inv_def)
  then have z: "open_flights i (flights w) = 0" "count_list (sent w) i \<le> k i"
    using q unfolding id_ok_def blocked_def by (simp_all add: not_less [symmetric])
  have b: "blocked (mem ?w) i"
    using q status_set_delivery [of i "begin_dispatch now" Dispatching "mem w" i]
    by (simp add: blocked_def on_mem_def begin_dispatch_def)
  have "id_ok (k j) ?v j" for j
  proof (cases "j = i")
    case True
    have "(i, p) \<notin> set (flights w)" if "open_phase p" for p
      using open_flights_mem [of i p "flights w"] z(1) that by auto
    moreover have "open_flights i (flights ?v) = 1" using z(1) by (simp add: open_flights_def open_phase_def)
    ultimately show ?thesis
      using True own(2) z b by (auto simp: id_ok_def open_phase_def on_mem_def)
  next
    case False
    then show ?thesis using inv by (auto simp: delivery_inv_def id_ok_def open_flights_def on_mem_def)
  qed
  then have "delivery_inv k ?v" using inv by (simp add: delivery_inv_def on_mem_def)
  then show ?thesis using True by (auto simp: start_dispatch_def)
qed (use assms in \<open>auto simp: start_dispatch_def split: option.splits\<close>)

lemma inv_recover:
  assumes "delivery_inv k w"
  shows "delivery_inv k (recover_delivery now i w)"
proof (cases "find_delivery i (mem w)")
  case (Some d)
  show ?thesis
  proof (cases "recover_one now (i \<in> receipts w) d")
    case (RecoveryUpdate d')
    have d': "deliveryId d' = i \<and> (d_status d' = d_status d \<and> d_status d \<noteq> Delivered \<or>
        d_status d' = Delivered \<and> i \<in> receipts w \<or> d_status d' = Uncertain)"
      using RecoveryUpdate find_delivery_id [OF Some]
      by (auto simp: recover_one_def keep_diagnostic_def keep_deliveredAt_def split: if_splits option.splits)
    show ?thesis
    proof (cases "d_status d' = Queued")
      case True
      then have "d_status d = Queued" using d' by auto
      then have st: "status_of (mem w) i = Some Queued" using Some by (simp add: status_of_def)
      have ok: "id_ok (k i) w i" using assms by (simp add: delivery_inv_def)
      then have "open_flights i (flights w) = 0" "count_list (sent w) i \<le> k i"
        using st unfolding id_ok_def blocked_def by (simp_all add: not_less [symmetric])
      with True d' have "delivery_inv k (on_mem (set_delivery i (\<lambda>_. d')) w)"
        by (intro inv_requeue assms) auto
      with Some RecoveryUpdate show ?thesis by (simp add: recover_delivery_def)
    next
      case False
      have "d_status d' = Delivered \<longrightarrow> i \<in> set (sent w)" using d' id_ok_phases(4) [OF assms] by auto
      with False d' have "delivery_inv k (on_mem (set_delivery i (\<lambda>_. d')) w)"
        by (intro inv_status [of k _ i _ "d_status d'"] assms) auto
      with Some RecoveryUpdate show ?thesis by (simp add: recover_delivery_def)
    qed
  qed (use assms Some inv_start in \<open>auto simp: recover_delivery_def\<close>)
qed (use assms in \<open>simp add: recover_delivery_def\<close>)

lemma inv_restart: "delivery_inv k w \<Longrightarrow> delivery_inv k (w\<lparr>mem := disk w, flights := []\<rparr>)"
  by (auto simp: delivery_inv_def id_ok_def open_flights_def)

text \<open>The budget grows by one with each dispatch whose first save resolves without writing.\<close>

fun spend :: "delivery_event \<Rightarrow> (string \<Rightarrow> nat) \<Rightarrow> string \<Rightarrow> nat" where
  "spend (Saved i SavingStart False) k = k(i := Suc (k i))"
| "spend _ k = k"

lemma spend_mono: "k i \<le> spend e k i"
  by (induction e k rule: spend.induct) simp_all

lemma inv_saved: "delivery_inv k w \<Longrightarrow> delivery_inv (spend (Saved i p wr) k) (delivery_step digest (Saved i p wr) w)"
proof (cases p)
  case SavingStart
  assume "delivery_inv k w"
  with SavingStart show ?thesis
    by (cases wr) (simp_all add: inv_saved_start inv_unwritten_start persist_written persist_unwritten)
qed (simp_all add: inv_saved_end open_phase_def)

lemma inv_save_failed:
  assumes w: "delivery_inv k w"
  shows "delivery_inv k (delivery_step digest (SaveFailed i p err) w)"
proof -
  have "delivery_inv k (at (i, q) [] (\<lambda>w. w) w)" for q
    using w inv_close [OF w, of i q "[]"] by (intro at_cases) auto
  moreover have "delivery_inv k (at (i, SavingEnd) [SavingFailure] (on_mem (set_delivery i (settle_uncertain err))) w)"
    by (rule inv_settle [OF w, of i _ Uncertain]) (simp_all add: settle_uncertain_def open_phase_def)
  ultimately show ?thesis using w by (cases p) auto
qed

lemma inv_accepted: "delivery_inv k w \<Longrightarrow> delivery_inv k (delivery_step digest (Accepted now i) w)"
  using id_ok_phases(3)
  by (auto intro!: inv_settle [of k w i _ Delivered] simp: settle_delivered_def open_phase_def)

lemma inv_threw: "delivery_inv k w \<Longrightarrow> delivery_inv k (delivery_step digest (Threw i p err) w)"
  by (auto intro!: inv_settle [of k w i _ Uncertain] simp: settle_uncertain_def open_phase_def)

lemma inv_step: "delivery_inv k w \<Longrightarrow> delivery_inv (spend e k) (delivery_step digest e w)"
  using inv_saved inv_save_failed inv_accepted inv_threw
  by (cases e) (simp_all add: inv_background background_queue background_hold background_cancel background_clear
    background_released inv_start inv_recover inv_declined inv_hand_over inv_receipt inv_save inv_restart)

lemma inv_initial: "delivery_inv k initial_world"
  by (simp add: delivery_inv_def id_ok_def initial_world_def open_flights_def createState_def status_of_def
      find_delivery_def)

subsection \<open>The abstract log\<close>

text \<open>
  The specification of a delivery channel: a log of messages with a budget.  The log grows by a
  message that it holds at most as often as the budget allows; an unwritten save raises the budget.
\<close>

definition budget_log :: "string list \<times> (string \<Rightarrow> nat) \<Rightarrow> string list \<times> (string \<Rightarrow> nat) \<Rightarrow> bool" where
  "budget_log a b \<longleftrightarrow>
     (\<exists>i. count_list (fst a) i \<le> snd a i \<and> fst b = fst a @ [i] \<and> snd b = snd a) \<or>
     (\<exists>i. fst b = fst a \<and> snd b = (snd a)(i := Suc (snd a i)))"

lemma at_sent: "(\<And>v. sent (g v) = sent v) \<Longrightarrow> sent (at f next g w) = sent w"
  by (simp add: at_def)

lemma sent_simps [simp]:
  "sent (on_mem g w) = sent w" "sent (start_dispatch now i w) = sent w" "sent (recover_delivery now i w) = sent w"
  "sent (persist_resolved wr w) = sent w"
  by (auto simp: on_mem_def start_dispatch_def recover_delivery_def persist_resolved_def
      split: option.splits recovery.splits)

lemma step_sent:
  assumes "\<forall>i. e \<noteq> HandOver i"
  shows "sent (delivery_step digest e w) = sent w"
proof (cases e)
  case (Saved i p wr)
  then show ?thesis by (cases p) (simp_all add: at_sent)
next
  case (SaveFailed i p err)
  then show ?thesis by (cases p) (simp_all add: at_sent)
qed (use assms in \<open>simp_all add: at_sent\<close>)

text \<open>The world with the budget beside it.\<close>

definition metered_step :: "delivery_digest \<Rightarrow> delivery_event \<Rightarrow> world \<times> (string \<Rightarrow> nat) \<Rightarrow> world \<times> (string \<Rightarrow> nat)" where
  "metered_step digest e m = (delivery_step digest e (fst m), spend e (snd m))"

lemma spend_cases: "spend e k = k \<or> (\<exists>i. e = Saved i SavingStart False \<and> spend e k = k(i := Suc (k i)))"
  by (induction e k rule: spend.induct) auto

lemma metered_log:
  assumes "delivery_inv (snd m) (fst m)"
  shows "(sent (fst (metered_step digest e m)), snd (metered_step digest e m)) = (sent (fst m), snd m) \<or>
    budget_log (sent (fst m), snd m) (sent (fst (metered_step digest e m)), snd (metered_step digest e m))"
proof (cases "\<exists>i. e = HandOver i")
  case True
  then obtain i where e: "e = HandOver i" by blast
  show ?thesis
  proof (cases "(i, AtModel) \<in> set (flights (fst m))")
    case True
    with e at_model_count [OF id_ok_phases(2) [OF assms True]] show ?thesis
      by (auto simp: metered_step_def at_def budget_log_def)
  qed (simp add: e metered_step_def at_def)
next
  case False
  then have "sent (fst (metered_step digest e m)) = sent (fst m)"
    by (simp add: metered_step_def step_sent)
  then show ?thesis
    using spend_cases [of e "snd m"] by (auto simp: metered_step_def budget_log_def)
qed

interpretation delivery: refined_system "\<lambda>m. m = (initial_world, \<lambda>_. 0)"
  "\<lambda>m m'. \<exists>e. m' = metered_step digest e m" "\<lambda>m. delivery_inv (snd m) (fst m)"
  "\<lambda>m. (sent (fst m), snd m)" budget_log for digest
  by unfold_locales (auto simp: inv_initial inv_step metered_step_def dest: metered_log [unfolded metered_step_def])

lemma fold_metered:
  "fold (metered_step digest) es (w, k) =
     (fold (delivery_step digest) es w, \<lambda>i. k i + count_list es (Saved i SavingStart False))"
proof (induction es arbitrary: w k)
  case (Cons e es)
  have "spend e k i + count_list es (Saved i SavingStart False) =
      k i + count_list (e # es) (Saved i SavingStart False)" for i
    by (induction e k rule: spend.induct) auto
  moreover have "metered_step digest e (w, k) = (delivery_step digest e w, spend e k)"
    by (simp add: metered_step_def)
  ultimately show ?case using Cons [of "delivery_step digest e w" "spend e k"] by (simp del: count_list.simps)
qed simp

lemma delivery_inv_reached:
  "delivery_inv (\<lambda>i. count_list es (Saved i SavingStart False)) (fold (delivery_step digest) es initial_world)"
  using delivery.reachable_inv [OF refl fold_run, of digest es] by (simp add: fold_metered)

text \<open>
  C18. A message is handed to the model at most once, and once more for every dispatch of it whose
  first save resolved without writing; with every such save written, at most once.  And no delivery
  is reported as delivered, in memory or in the persisted state, unless its message reached the
  model.  The events are arbitrary: concurrent dispatches and recoveries of one delivery, saves that
  write, resolve without writing or fail at every await, failing sends, clearing and cancelling while
  a dispatch is under way, persisting at any moment, and ends of the process with a restart from what
  was persisted.
\<close>

theorem delivered_exactly_once:
  "let w = fold (delivery_step digest) es initial_world in
   count_list (sent w) i \<le> 1 + count_list es (Saved i SavingStart False) \<and>
   {i. status_of (mem w) i = Some Delivered} \<union> {i. status_of (disk w) i = Some Delivered} \<subseteq> set (sent w)"
proof -
  have "id_ok (count_list es (Saved i SavingStart False)) (fold (delivery_step digest) es initial_world) i" for i
    using delivery_inv_reached by (simp add: delivery_inv_def)
  note ok = this
  have "count_list (sent (fold (delivery_step digest) es initial_world)) i \<le> 1 + count_list es (Saved i SavingStart False)"
    using ok [of i] unfolding id_ok_def by linarith
  then show ?thesis using ok by (auto simp: Let_def id_ok_def)
qed

text \<open>
  The budget is needed.  A dispatch after the store was marked unavailable leaves the persisted state
  as it was, with the delivery queued; the message reaches the model, the process restarts, and the
  recovery sends it again.
\<close>

definition answer :: new_delivery where
  "answer = \<lparr>nd_deliveryId = Some ''d'', nd_kind = ReviewerAnswer, nd_channel = FollowUp, nd_message = ''m'',
     nd_invocationDir = None, nd_action = None\<rparr>"

definition queued_answer :: pending_delivery where
  "queued_answer = \<lparr>deliveryId = ''d'', d_kind = ReviewerAnswer, d_channel = FollowUp, d_message = ''m'',
     d_status = Queued, d_invocationDir = None, d_action = None, d_createdAt = ''t0'', dispatchStartedAt = None,
     deliveredAt = None, diagnostic = None\<rparr>"

definition unwritten_run :: "delivery_event list" where
  "unwritten_run = [Queue ''t0'' answer, Flush, Dispatch ''t1'' ''d'', Saved ''d'' SavingStart False, HandOver ''d'', Restart]"

definition recovery_run :: "delivery_event list" where
  "recovery_run = [Recover ''t2'' ''d'', Saved ''d'' SavingStart True, HandOver ''d'']"

lemma deliveries_of:
  "pendingModelDeliveries createState = []" "pendingModelDeliveries (persisted st) = pendingModelDeliveries st"
  by (simp_all add: createState_def persisted_def)

lemma queue_answer:
  "find_delivery ''d'' st = None \<Longrightarrow> snd (queueModelDelivery digest ''t0'' answer st) =
     st\<lparr>pendingModelDeliveries := pendingModelDeliveries st @ [queued_answer]\<rparr>"
  by (simp add: queueModelDelivery_def Let_def answer_def queued_answer_def)

lemmas run_defs = find_delivery_def on_mem_def start_dispatch_def set_delivery_def
  begin_dispatch_def at_def move_flight_def persist_resolved_def save_def recover_delivery_def recover_one_def
  isNotificationDeliveryKind_def deliveries_of

lemma unwritten_run_world:
  assumes "w = fold (delivery_step digest) unwritten_run initial_world"
  shows "pendingModelDeliveries (mem w) = [queued_answer]" "flights w = []" "sent w = [''d'']" "receipts w = {}"
  using assms by (simp_all add: unwritten_run_def queue_answer queued_answer_def initial_world_def run_defs)

lemma recovery_run_sends:
  "pendingModelDeliveries (mem w) = [queued_answer] \<Longrightarrow> flights w = [] \<Longrightarrow> receipts w = {} \<Longrightarrow>
     sent (fold (delivery_step digest) recovery_run w) = sent w @ [''d'']"
  by (simp add: recovery_run_def queued_answer_def run_defs)

lemma unwritten_save_sends_twice:
  "sent (fold (delivery_step digest) (unwritten_run @ recovery_run) initial_world) = [''d'', ''d'']"
  using unwritten_run_world [OF refl, of digest] by (simp add: recovery_run_sends)

subsection \<open>Held inputs\<close>

lemma count_releasable_inter:
  "(\<And>m. act m = count M m) \<Longrightarrow> count_releasable ms act = size (mset ms \<inter># M)"
proof (induction ms act arbitrary: M rule: count_releasable.induct)
  case (2 m ms act)
  show ?case
  proof (cases "act m > 0")
    case True
    then have m: "m \<in># M" using 2(3) [of m] by (simp add: count_greater_zero_iff [symmetric] del: count_greater_zero_iff)
    have "(act(m := act m - 1)) k = count (M - {#m#}) k" for k using 2(3) by simp
    from 2(1) [OF True this] have "count_releasable ms (act(m := act m - 1)) = size (mset ms \<inter># (M - {#m#}))" .
    with True m show ?thesis by (simp add: inter_add_left2)
  next
    case False
    then have "m \<notin># M" using 2(3) [of m] by (simp add: not_in_iff)
    with False 2(2) [OF False] 2(3) show ?thesis by (simp add: inter_add_left1)
  qed
qed simp

lemma count_mset_list: "count_list xs x = count (mset xs) x"
  by (induction xs) auto

lemma splitReleasable_inter:
  "splitReleasableQueuedInputs st =
     (let n = size (mset (queuedUserInputsDuringReview st) \<inter># mset (active_messages st))
      in (n, length (queuedUserInputsDuringReview st) - n))"
  unfolding splitReleasableQueuedInputs_def
  using count_releasable_inter [of "count_list (active_messages st)" "mset (active_messages st)"]
  by (simp add: count_mset_list)

end
