(* ===== verification/Jsonl.thy ===== *)
theory Jsonl
  imports Prelude
begin

text \<open>
  Bounded text and JSON line records, \<open>src/src/jsonl.ts\<close>.  A text is a list of 16-bit code
  units, because its size in UTF-8 depends on surrogate pairs.  The callback of the decoder is the
  list of records it was called with, in order.
\<close>

type_synonym units = "16 word list"

definition high_surrogate :: "16 word \<Rightarrow> bool" where
  "high_surrogate u \<longleftrightarrow> 0xD800 \<le> u \<and> u \<le> 0xDBFF"

definition low_surrogate :: "16 word \<Rightarrow> bool" where
  "low_surrogate u \<longleftrightarrow> 0xDC00 \<le> u \<and> u \<le> 0xDFFF"

text \<open>\<open>Buffer.byteLength\<close>: a pair takes four bytes, a unit alone one to three (a lone surrogate
  is written as the replacement character).\<close>

definition unit_bytes :: "16 word \<Rightarrow> nat" where
  "unit_bytes u = (if u < 0x80 then 1 else if u < 0x800 then 2 else 3)"

fun utf8_bytes :: "units \<Rightarrow> nat" where
  "utf8_bytes [] = 0"
| "utf8_bytes [u] = unit_bytes u"
| "utf8_bytes (u # v # s) =
     (if high_surrogate u \<and> low_surrogate v then 4 + utf8_bytes s
      else unit_bytes u + utf8_bytes (v # s))"

definition NL :: "16 word" where "NL = 10"
definition CRU :: "16 word" where "CRU = 13"

definition MEBIBYTE :: nat where "MEBIBYTE = 1024 * 1024"
definition MAX_JSONL_RECORD_BYTES :: nat where "MAX_JSONL_RECORD_BYTES = 16 * MEBIBYTE"

subsection \<open>A prefix within a byte budget\<close>

function prefix_search :: "units \<Rightarrow> nat \<Rightarrow> nat \<Rightarrow> nat \<Rightarrow> nat" where
  "prefix_search s maxBytes low high =
     (if low < high then
        (let midpoint = (low + high + 1) div 2 in
         if utf8_bytes (slice s 0 midpoint) \<le> maxBytes
         then prefix_search s maxBytes midpoint high
         else prefix_search s maxBytes low (midpoint - 1))
      else low)"
  by pat_completeness auto
termination
  by (relation "measure (\<lambda>(s, m, low, high). high - low)") auto

declare prefix_search.simps [simp del]

definition splits_pair :: "units \<Rightarrow> nat \<Rightarrow> bool" where
  "splits_pair s k \<longleftrightarrow> 0 < k \<and> k < length s \<and> high_surrogate (s ! (k - 1)) \<and> low_surrogate (s ! k)"

definition utf8Prefix :: "units \<Rightarrow> nat \<Rightarrow> units" where
  "utf8Prefix s maxBytes =
     (if maxBytes = 0 then []
      else if utf8_bytes s \<le> maxBytes then s
      else (let low = prefix_search s maxBytes 0 (length s) in
            slice s 0 (if splits_pair s low then low - 1 else low)))"

subsection \<open>The accumulator\<close>

record accumulator =
  current :: units
  currentBytes :: nat
  receivedBytes :: nat

definition acc_clear :: "accumulator \<Rightarrow> accumulator" where
  "acc_clear a = a\<lparr>current := [], currentBytes := 0, receivedBytes := 0\<rparr>"

definition acc_append :: "nat \<Rightarrow> units \<Rightarrow> accumulator \<Rightarrow> accumulator" where
  "acc_append maxBytes s a =
     (let a1 = a\<lparr>receivedBytes := receivedBytes a + utf8_bytes s\<rparr> in
      if maxBytes \<le> currentBytes a \<or> s = [] then a1
      else (let addition = utf8Prefix s (maxBytes - currentBytes a) in
            a1\<lparr>current := current a @ addition,
               currentBytes := currentBytes a + utf8_bytes addition\<rparr>))"

definition acc_set :: "nat \<Rightarrow> units \<Rightarrow> accumulator \<Rightarrow> accumulator" where
  "acc_set maxBytes s a = acc_append maxBytes s (acc_clear a)"

definition acc_truncated :: "accumulator \<Rightarrow> bool" where
  "acc_truncated a \<longleftrightarrow> receivedBytes a > currentBytes a"

definition acc_new :: accumulator where
  "acc_new = \<lparr>current = [], currentBytes = 0, receivedBytes = 0\<rparr>"

subsection \<open>The decoder\<close>

record decoder =
  pending :: units
  pendingBytes :: nat
  discardingOversizedRecord :: bool
  oversizedRecords :: nat
  records :: "units list"

definition decoder_new :: decoder where
  "decoder_new = \<lparr>pending = [], pendingBytes = 0, discardingOversizedRecord = False,
     oversizedRecords = 0, records = []\<rparr>"

definition chop_cru :: "units \<Rightarrow> units" where
  "chop_cru s = (if ends_with s [CRU] then butlast s else s)"

definition emitPending :: "decoder \<Rightarrow> decoder" where
  "emitPending d = d\<lparr>pending := [], pendingBytes := 0, records := records d @ [chop_cru (pending d)]\<rparr>"

definition dec_append :: "nat \<Rightarrow> units \<Rightarrow> bool \<Rightarrow> decoder \<Rightarrow> decoder" where
  "dec_append maxBytes segment terminated d =
     (if discardingOversizedRecord d
      then (if terminated then d\<lparr>discardingOversizedRecord := False\<rparr> else d)
      else (let segmentBytes = utf8_bytes segment in
            if pendingBytes d + segmentBytes > maxBytes
            then d\<lparr>pending := [], pendingBytes := 0, oversizedRecords := Suc (oversizedRecords d),
                   discardingOversizedRecord := \<not> terminated\<rparr>
            else (let d1 = d\<lparr>pending := pending d @ segment, pendingBytes := pendingBytes d + segmentBytes\<rparr>
                  in if terminated then emitPending d1 else d1)))"

text \<open>\<open>push\<close>: \<open>chunk\<close> is what follows \<open>offset\<close> in the code.\<close>

function push :: "nat \<Rightarrow> units \<Rightarrow> decoder \<Rightarrow> decoder" where
  "push maxBytes chunk d =
     (case index_of NL chunk of
        None \<Rightarrow> dec_append maxBytes chunk False d
      | Some newline \<Rightarrow>
          push maxBytes (drop (newline + 1) chunk) (dec_append maxBytes (slice chunk 0 newline) True d))"
  by pat_completeness auto
termination
  by (relation "measure (\<lambda>(m, chunk, d). length chunk)")
    (auto simp: index_of_def dest: find_index_SomeD)

declare push.simps [simp del]

definition finish :: "decoder \<Rightarrow> decoder" where
  "finish d =
     (let d1 = (if \<not> discardingOversizedRecord d \<and> pending d \<noteq> [] then emitPending d else d)
      in d1\<lparr>pending := [], pendingBytes := 0, discardingOversizedRecord := False\<rparr>)"

end
