(* ===== verification/Jsonl_Spec.thy ===== *)
theory Jsonl_Spec
  imports Jsonl
begin

text \<open>
  The record decoder does not depend on how its input is cut into chunks, and the byte budgets hold
  without cutting a surrogate pair.
\<close>

subsection \<open>Sizes in UTF-8\<close>

definition joins_pair :: "units \<Rightarrow> units \<Rightarrow> bool" where
  "joins_pair s t \<longleftrightarrow> s \<noteq> [] \<and> t \<noteq> [] \<and> high_surrogate (last s) \<and> low_surrogate (hd t)"

lemma high_not_low: "high_surrogate u \<Longrightarrow> \<not> low_surrogate u"
proof
  assume "high_surrogate u" "low_surrogate u"
  then have "(0xDC00::16 word) \<le> 0xDBFF"
    unfolding high_surrogate_def low_surrogate_def using order_trans by blast
  then show False by simp
qed

lemma utf8_bytes_append:
  "\<not> joins_pair s t \<Longrightarrow> utf8_bytes (s @ t) = utf8_bytes s + utf8_bytes t"
proof (induction s rule: utf8_bytes.induct)
  case (2 u)
  then show ?case by (cases t) (auto simp: joins_pair_def)
next
  case (3 u v s)
  have "\<not> joins_pair s t" "\<not> joins_pair (v # s) t" using 3(3) by (auto simp: joins_pair_def)
  with 3 show ?case by simp
qed simp

lemma unit_bytes_surrogate: "high_surrogate u \<Longrightarrow> unit_bytes u = 3" "low_surrogate u \<Longrightarrow> unit_bytes u = 3"
proof -
  have "\<not> u < 0x80 \<and> \<not> u < 0x800" if "(0xD800::16 word) \<le> u \<or> 0xDC00 \<le> u"
    using that by (auto simp: not_less intro: order_trans [rotated])
  then show "high_surrogate u \<Longrightarrow> unit_bytes u = 3" "low_surrogate u \<Longrightarrow> unit_bytes u = 3"
    by (auto simp: unit_bytes_def high_surrogate_def low_surrogate_def)
qed

lemma utf8_bytes_snoc: "utf8_bytes s \<le> utf8_bytes (s @ [u])"
proof (induction s rule: utf8_bytes.induct)
  case (2 v)
  show ?case using unit_bytes_surrogate(1) [of v] by simp
next
  case (3 v w s)
  then show ?case by auto
qed simp

lemma utf8_bytes_mono: "utf8_bytes s \<le> utf8_bytes (s @ t)"
proof (induction t rule: rev_induct)
  case (snoc u t)
  then show ?case using utf8_bytes_snoc [of "s @ t" u] by (metis append_assoc le_trans)
qed simp

lemma utf8_bytes_take_mono: "j \<le> k \<Longrightarrow> utf8_bytes (take j s) \<le> utf8_bytes (take k s)"
  using utf8_bytes_mono [of "take j s" "take (k - j) (drop j s)"] take_add [of j "k - j" s] by simp

subsection \<open>The longest prefix within a budget\<close>

lemma prefix_search_bounds:
  assumes "low \<le> high" "utf8_bytes (take low s) \<le> m" "\<And>k. high < k \<Longrightarrow> k \<le> length s \<Longrightarrow> m < utf8_bytes (take k s)"
  shows "low \<le> prefix_search s m low high \<and> prefix_search s m low high \<le> high \<and>
    utf8_bytes (take (prefix_search s m low high) s) \<le> m \<and>
    (\<forall>k. prefix_search s m low high < k \<longrightarrow> k \<le> length s \<longrightarrow> m < utf8_bytes (take k s))"
  using assms
proof (induction s m low high rule: prefix_search.induct)
  case (1 s m low high)
  let ?mid = "(low + high + 1) div 2"
  show ?case
  proof (cases "low < high")
    case True
    then have mid: "low < ?mid" "?mid \<le> high" by auto
    show ?thesis
    proof (cases "utf8_bytes (take ?mid s) \<le> m")
      case fits: True
      then have "prefix_search s m low high = prefix_search s m ?mid high"
        using True by (subst prefix_search.simps) (simp add: Let_def)
      moreover note 1(1) [OF True refl _ mid(2) fits 1(5)]
      ultimately show ?thesis using fits mid by simp
    next
      case False
      then have e: "prefix_search s m low high = prefix_search s m low (?mid - 1)"
        using True by (subst prefix_search.simps) (simp add: Let_def)
      have "m < utf8_bytes (take k s)" if "?mid - 1 < k" "k \<le> length s" for k
      proof -
        have "?mid \<le> k" using that(1) by simp
        with False show ?thesis using utf8_bytes_take_mono [of ?mid k s] by simp
      qed
      have "low \<le> ?mid - 1" "?mid - 1 \<le> high" using mid by simp_all
      moreover have "\<not> utf8_bytes (slice s 0 ?mid) \<le> m" using False by simp
      ultimately show ?thesis
        using 1(2) [OF True refl _ _ 1(4)] \<open>\<And>k. ?mid - 1 < k \<Longrightarrow> k \<le> length s \<Longrightarrow> m < utf8_bytes (take k s)\<close>
        unfolding e by (meson order_trans)
    qed
  next
    case False
    then show ?thesis using 1(3-5) by (subst (1 2 3 4) prefix_search.simps) simp
  qed
qed

lemma splits_pair_joins:
  "k \<le> length s \<Longrightarrow> joins_pair (take k s) (drop k s) \<longleftrightarrow> splits_pair s k"
  by (cases k) (auto simp: joins_pair_def splits_pair_def hd_drop_conv_nth take_Suc_conv_app_nth Suc_le_eq)

lemma utf8Prefix_cut:
  "\<exists>k \<le> length s. utf8Prefix s m = take k s \<and> utf8_bytes (take k s) \<le> m \<and> \<not> splits_pair s k \<and>
     (\<forall>j. k < j \<and> j \<le> length s \<and> \<not> splits_pair s j \<longrightarrow> m < utf8_bytes (take j s))"
proof -
  have pos: "0 < utf8_bytes t" if "t \<noteq> []" for t
    using that by (cases t rule: utf8_bytes.cases) (auto simp: unit_bytes_def)
  consider "m = 0" | "0 < m" "utf8_bytes s \<le> m" | "0 < m" "m < utf8_bytes s" by linarith
  then show ?thesis
  proof cases
    case 1
    have "0 < utf8_bytes (take j s)" if "0 < j" "j \<le> length s" for j
      using that by (intro pos) auto
    with 1 show ?thesis by (intro exI [of _ 0]) (auto simp: utf8Prefix_def splits_pair_def)
  next
    case 2
    then show ?thesis by (intro exI [of _ "length s"]) (auto simp: utf8Prefix_def splits_pair_def)
  next
    case 3
    let ?k = "prefix_search s m 0 (length s)"
    have k: "?k \<le> length s" "utf8_bytes (take ?k s) \<le> m" "\<And>j. ?k < j \<Longrightarrow> j \<le> length s \<Longrightarrow> m < utf8_bytes (take j s)"
      using prefix_search_bounds [of 0 "length s" s m] by auto
    show ?thesis
    proof (cases "splits_pair s ?k")
      case True
      then have "0 < ?k" "\<not> splits_pair s (?k - 1)"
        using high_not_low by (auto simp: splits_pair_def)
      moreover have "utf8_bytes (take (?k - 1) s) \<le> m" using utf8_bytes_take_mono [of "?k - 1" ?k s] k(2) by simp
      moreover have "m < utf8_bytes (take j s)" if "?k - 1 < j \<and> j \<le> length s \<and> \<not> splits_pair s j" for j
        using k(3) [of j] True that by (cases "j = ?k") auto
      ultimately show ?thesis
        using 3 k(1) True by (intro exI [of _ "?k - 1"]) (auto simp: utf8Prefix_def Let_def)
    next
      case False
      then show ?thesis using 3 k by (intro exI [of _ ?k]) (auto simp: utf8Prefix_def Let_def)
    qed
  qed
qed

subsection \<open>The decoder\<close>

definition fits :: "nat \<Rightarrow> units \<Rightarrow> bool" where
  "fits m r \<longleftrightarrow> utf8_bytes r \<le> m"

text \<open>The records of a whole text: its lines, the last one only when it is not empty.\<close>

definition text_lines :: "units \<Rightarrow> units list" where
  "text_lines t = (let ls = split_on NL t in if last ls = [] then butlast ls else ls)"

definition decode_text :: "nat \<Rightarrow> units \<Rightarrow> units list \<times> nat" where
  "decode_text m t = (map chop_cru (filter (fits m) (text_lines t)), length (filter (\<lambda>r. \<not> fits m r) (text_lines t)))"

text \<open>The state of the decoder after the text \<open>t\<close>.\<close>

definition decoded :: "nat \<Rightarrow> units \<Rightarrow> decoder \<Rightarrow> bool" where
  "decoded m t d \<longleftrightarrow>
     (let ls = butlast (split_on NL t); cur = last (split_on NL t) in
      records d = map chop_cru (filter (fits m) ls) \<and>
      oversizedRecords d = length (filter (\<lambda>r. \<not> fits m r) (ls @ (if fits m cur then [] else [cur]))) \<and>
      discardingOversizedRecord d = (\<not> fits m cur) \<and>
      pending d = (if fits m cur then cur else []) \<and> pendingBytes d = utf8_bytes (pending d))"

lemma split_on_append_plain:
  "NL \<notin> set s \<Longrightarrow> split_on NL (t @ s) = butlast (split_on NL t) @ [last (split_on NL t) @ s]"
proof (induction t)
  case (Cons a t)
  then show ?case by (cases "split_on NL t") (auto simp: hd_append)
qed simp

lemma split_on_append_line:
  "NL \<notin> set s \<Longrightarrow> split_on NL (t @ s @ [NL]) = butlast (split_on NL t) @ [last (split_on NL t) @ s, []]"
  using split_on_append_sep [of NL "t @ s" "[]"] by (simp add: split_on_append_plain)

lemma last_line_end: "last (split_on NL t) \<noteq> [] \<Longrightarrow> last (last (split_on NL t)) = last t"
proof (induction t rule: rev_induct)
  case (snoc x t)
  then show ?case
    using split_on_append_plain [of "[x]" t] split_on_append_line [of "[]" t] by (cases "x = NL") auto
qed simp

lemma not_fits_append: "\<not> fits m r \<Longrightarrow> \<not> fits m (r @ s)"
  using utf8_bytes_mono [of r s] by (simp add: fits_def)

lemma dec_append_decoded:
  assumes "decoded m t d" "NL \<notin> set s" "\<not> joins_pair t s"
  shows "decoded m (t @ s @ (if term then [NL] else [])) (dec_append m s term d)"
proof -
  let ?cur = "last (split_on NL t)"
  have size: "utf8_bytes (?cur @ s) = utf8_bytes ?cur + utf8_bytes s"
    using assms(3) last_line_end [of t] by (intro utf8_bytes_append) (auto simp: joins_pair_def)
  have sp: "split_on NL (t @ s @ (if term then [NL] else [])) =
      butlast (split_on NL t) @ (if term then [?cur @ s, []] else [?cur @ s])"
    using assms(2) by (simp add: split_on_append_line split_on_append_plain)
  show ?thesis
  proof (cases "fits m ?cur")
    case True
    then show ?thesis
      using assms(1) size unfolding decoded_def sp
      by (simp add: Let_def dec_append_def emitPending_def fits_def butlast_append)
  next
    case False
    then show ?thesis
      using assms(1) not_fits_append [OF False, of s] unfolding decoded_def sp
      by (simp add: Let_def dec_append_def butlast_append fits_def)
  qed
qed

lemma push_decoded:
  "decoded m t d \<Longrightarrow> \<not> joins_pair t c \<Longrightarrow> decoded m (t @ c) (push m c d)"
proof (induction m c d arbitrary: t rule: push.induct)
  case (1 m c d)
  show ?case
  proof (cases "index_of NL c")
    case None
    then have "NL \<notin> set c" by (simp add: index_of_None_iff)
    with dec_append_decoded [OF 1(2) this 1(3), of False] None show ?thesis
      by (simp add: push.simps [of m c])
  next
    case (Some n)
    then have n: "n < length c" "c ! n = NL" "NL \<notin> set (take n c)"
      using find_index_SomeD [of "\<lambda>x. x = NL" c n] find_index_least [of "\<lambda>x. x = NL" c n]
      by (auto simp: index_of_def in_set_conv_nth)
    have "\<not> joins_pair t (take n c)"
    proof
      assume "joins_pair t (take n c)"
      then have "joins_pair t c" by (cases c; cases n) (auto simp: joins_pair_def)
      with 1(3) show False by simp
    qed
    from dec_append_decoded [OF 1(2) n(3) this, of True]
    have "decoded m (t @ take n c @ [NL]) (dec_append m (slice c 0 n) True d)" by simp
    moreover have "\<not> joins_pair (t @ take n c @ [NL]) (drop (n + 1) c)"
      by (simp add: joins_pair_def high_surrogate_def NL_def)
    ultimately have "decoded m ((t @ take n c @ [NL]) @ drop (n + 1) c) (push m (drop (n + 1) c) (dec_append m (slice c 0 n) True d))"
      using 1(1) [OF Some] by blast
    moreover have "take n c @ NL # drop (n + 1) c = c" using n(1,2) id_take_nth_drop [of n c] by simp
    ultimately show ?thesis using Some by (simp add: push.simps [of m c])
  qed
qed

text \<open>No chunk boundary lies between the halves of a surrogate pair.\<close>

fun whole_chunks :: "units \<Rightarrow> units list \<Rightarrow> bool" where
  "whole_chunks t [] \<longleftrightarrow> True"
| "whole_chunks t (c # cs) \<longleftrightarrow> \<not> joins_pair t c \<and> whole_chunks (t @ c) cs"

lemma fold_push_decoded:
  "decoded m t d \<Longrightarrow> whole_chunks t cs \<Longrightarrow> decoded m (t @ concat cs) (fold (push m) cs d)"
proof (induction cs arbitrary: t d)
  case (Cons c cs)
  with push_decoded [of m t d c] have "decoded m ((t @ c) @ concat cs) (fold (push m) cs (push m c d))"
    by (intro Cons.IH) auto
  then show ?case by simp
qed simp

lemma decoded_new: "decoded m [] decoder_new"
  by (simp add: decoded_def decoder_new_def Let_def fits_def)

lemma decoded_finish:
  assumes "decoded m t d"
  shows "(records (finish d), oversizedRecords (finish d)) = decode_text m t"
proof -
  let ?ls = "split_on NL t"
  have "?ls = butlast ?ls @ [last ?ls]" by simp
  then obtain xs x where x: "?ls = xs @ [x]" by blast
  show ?thesis
    using assms unfolding decoded_def decode_text_def text_lines_def x
    by (cases "x = []") (auto simp: Let_def finish_def emitPending_def fits_def)
qed

text \<open>
  C25. The records and the count of oversized ones do not depend on how the text is cut into chunks:
  for every chunking that splits no surrogate pair they are those of the whole text, its lines
  without a final carriage return in order, the oversized ones left out and counted, a last line
  without its line feed included when it is not empty.
\<close>

theorem decoder_chunk_independent:
  assumes "whole_chunks [] cs"
  shows "let d = finish (fold (push m) cs decoder_new) in
    (records d, oversizedRecords d) = decode_text m (concat cs)"
  using decoded_finish [OF fold_push_decoded [OF decoded_new assms, of m]] by (simp add: Let_def)

theorem decoder_chunk_independent_witness:
  "let d = finish (fold (push 2) [[97, 98], [99, 10, 100], [13, 10]] decoder_new) in
    (records d, oversizedRecords d) = decode_text 2 (concat [[97, 98], [99, 10, 100], [13, 10]]) \<and>
    decode_text 2 (concat [[97, 98], [99, 10, 100], [13, 10]]) = ([[100]], 1)"
proof -
  have "whole_chunks [] [[97, 98], [99, 10, 100], [13, 10]]"
    by (simp add: joins_pair_def high_surrogate_def)
  moreover have "decode_text 2 (concat [[97, 98], [99, 10, 100], [13, 10]]) = ([[100]], 1)"
    by (simp add: decode_text_def text_lines_def NL_def Let_def fits_def unit_bytes_def chop_cru_def
        ends_with_def CRU_def high_surrogate_def)
  ultimately show ?thesis using decoder_chunk_independent [of _ 2] by (metis (no_types, lifting))
qed

subsection \<open>Budgets\<close>

text \<open>
  The prefix within a byte budget fits it, does not end between the halves of a surrogate pair,
  and is the longest such prefix: every longer one that cuts no pair exceeds the budget.
\<close>

theorem utf8Prefix_longest:
  "\<exists>k \<le> length s. utf8Prefix s m = take k s \<and> utf8_bytes (utf8Prefix s m) \<le> m \<and> \<not> splits_pair s k \<and>
     {j. k < j \<and> j \<le> length s \<and> \<not> splits_pair s j \<and> utf8_bytes (take j s) \<le> m} = {}"
  using utf8Prefix_cut [of s m] by (auto simp: not_le) (metis not_le)

lemma utf8_bytes_subadd: "utf8_bytes (s @ t) \<le> utf8_bytes s + utf8_bytes t"
proof (induction s rule: utf8_bytes.induct)
  case (2 u)
  then show ?case
    by (cases t rule: utf8_bytes.cases) (auto simp: unit_bytes_surrogate dest: high_not_low)
qed auto

definition acc_ok :: "nat \<Rightarrow> accumulator \<Rightarrow> bool" where
  "acc_ok m a \<longleftrightarrow> utf8_bytes (current a) \<le> currentBytes a \<and> currentBytes a \<le> m \<and> currentBytes a \<le> receivedBytes a"

lemma acc_ok_new: "acc_ok m acc_new"
  by (simp add: acc_ok_def acc_new_def)

lemma acc_ok_append:
  assumes "acc_ok m a"
  shows "acc_ok m (acc_append m s a)"
proof -
  obtain k where k: "utf8Prefix s (m - currentBytes a) = take k s" "utf8_bytes (take k s) \<le> m - currentBytes a"
    using utf8Prefix_cut by blast
  have "utf8_bytes (take k s) \<le> utf8_bytes s" using utf8_bytes_mono [of "take k s" "drop k s"] by simp
  moreover have "utf8_bytes (current a @ take k s) \<le> utf8_bytes (current a) + utf8_bytes (take k s)"
    by (rule utf8_bytes_subadd)
  ultimately show ?thesis
    using assms k by (auto simp: acc_ok_def acc_append_def Let_def)
qed

text \<open>
  Text that arrives after a truncation may still be appended, so the value need not be a prefix of
  what was received: the middle character of the three is lost here, the last one is kept.
\<close>

theorem accumulator_skips_text:
  "current (acc_append 3 [99] (acc_append 3 [97, 98, 0x20AC] acc_new)) = [97, 98, 99]"
proof -
  have "utf8Prefix [97, 98, 0x20AC] 3 = [97, 98]"
    by (simp add: utf8Prefix_def high_surrogate_def low_surrogate_def unit_bytes_def prefix_search.simps
        Let_def slice_def splits_pair_def)
  moreover have "utf8Prefix [99] 1 = [99]" by (simp add: utf8Prefix_def unit_bytes_def)
  ultimately show ?thesis
    by (simp add: acc_append_def acc_new_def Let_def high_surrogate_def unit_bytes_def)
qed

end
