(* ===== verification/Evidence_Cursor.thy ===== *)
theory Evidence_Cursor
  imports Jsonl Json "HOL-Library.AList"
begin

text \<open>
  Evidence snapshots and their cursors, \<open>src/src/execution/evidence/types.ts\<close> and
  \<open>cursor.ts\<close>.  A JavaScript \<open>Map\<close> or object that is iterated is an association
  list in insertion order (\<open>AList.update\<close> replaces in place and appends new keys), a map that is
  only read is a function into options.  \<open>sha256Hex\<close> of \<open>node:crypto\<close> is the parameter
  \<open>sha\<close>; writing a JSON value as base64url text and reading it back are the parameters
  \<open>print\<close> and \<open>parse\<close>.  Error messages are left out, their reasons are kept.
\<close>

subsection \<open>Snapshots\<close>

datatype evidence_kind = KToolCall | KToolResult | KProcess | KClaim | KReview | KLifecycle
datatype evidence_status = EInFlight | EReturned | ESucceeded | EFailed | EUnknown
datatype evidence_provenance = ExecutorObserved | WorkerClaim | ReviewerVerdict
datatype evidence_stream = StreamSession | StreamStdout | StreamArtifact | StreamResult

record source_ref =
  sourceId :: string
  adapter :: string
  stream :: evidence_stream
  sourceFile :: "string option"
  recordKey :: string

record entry_view =
  index :: nat
  entryId :: string
  at_time :: "string option"
  kind :: evidence_kind
  callId :: "string option"
  toolName :: "string option"
  status :: "evidence_status option"
  provenance :: evidence_provenance
  preview :: units
  contentBytes :: nat
  truncatedContent :: bool
  pairedWith :: "string option"
  pairingScopedToSource :: bool
  source :: source_ref

text \<open>The fields that reads only copy (\<open>totalEntries\<close>, \<open>sources\<close>, \<open>unavailable\<close>,
  \<open>capability\<close>, \<open>diagnostics\<close>) are one field of a type of its own.\<close>

record 'd snapshot =
  taskId :: string
  display :: 'd
  contentByEntryId :: "string \<rightharpoonup> units"
  digestByEntryId :: "string \<rightharpoonup> string"
  entries :: "entry_view list"

subsection \<open>Cursor tokens\<close>

record cursor_state =
  last_key :: string
  count :: nat
  chain :: string

type_synonym coverage = "(string \<times> cursor_state) list"

record cursor_payload =
  p_taskId :: string
  issuedAt :: string
  covered :: coverage

datatype cursor_error =
    malformed_cursor
  | cursor_task_mismatch
  | cursor_source_missing
  | cursor_record_missing
  | cursor_content_changed

definition CURSOR_TOKEN_PREFIX :: string where
  "CURSOR_TOKEN_PREFIX = ''ev1.''"

definition state_json :: "cursor_state \<Rightarrow> json" where
  "state_json st = JObj [(''last'', JStr (last_key st)), (''count'', JNum (of_nat (count st))),
     (''chain'', JStr (chain st))]"

definition encodeCursor :: "(json \<Rightarrow> string) \<Rightarrow> string \<Rightarrow> string \<Rightarrow> coverage \<Rightarrow> string" where
  "encodeCursor print now task cov =
     CURSOR_TOKEN_PREFIX @
     print (JObj [(''v'', JNum 2), (''taskId'', JStr task), (''issuedAt'', JStr now),
                  (''covered'', JObj (map (\<lambda>(sid, st). (sid, state_json st)) cov))])"

fun state_of_json :: "json \<Rightarrow> cursor_state option" where
  "state_of_json j =
     (case (field j ''last'', field j ''count'', field j ''chain'') of
        (Some (JStr l), Some (JNum c), Some (JStr ch)) \<Rightarrow>
          (if \<not> isSafeInteger c \<or> c < 0 then None
           else Some \<lparr>last_key = l, count = nat \<lfloor>c\<rfloor>, chain = ch\<rparr>)
      | _ \<Rightarrow> None)"

fun states_of_json :: "(string \<times> json) list \<Rightarrow> coverage option" where
  "states_of_json [] = Some []"
| "states_of_json ((sid, j) # kvs) =
     (case state_of_json j of
        None \<Rightarrow> None
      | Some st \<Rightarrow> map_option ((#) (sid, st)) (states_of_json kvs))"

definition decodeCursor :: "(string \<Rightarrow> json option) \<Rightarrow> string \<Rightarrow> cursor_error + cursor_payload" where
  "decodeCursor parse token =
     (if \<not> starts_with token CURSOR_TOKEN_PREFIX then Inl malformed_cursor
      else case parse (drop (length CURSOR_TOKEN_PREFIX) token) of
        None \<Rightarrow> Inl malformed_cursor
      | Some decoded \<Rightarrow>
          if \<not> is_object (Some decoded) \<or> field decoded ''v'' \<noteq> Some (JNum 2)
          then Inl malformed_cursor
          else (case field decoded ''taskId'' of
            Some (JStr task) \<Rightarrow>
              (if \<not> is_object (field decoded ''covered'') then Inl malformed_cursor
               else case states_of_json (object_entries (the (field decoded ''covered''))) of
                      None \<Rightarrow> Inl malformed_cursor
                    | Some cov \<Rightarrow>
                        Inr \<lparr>p_taskId = task,
                             issuedAt = (case field decoded ''issuedAt'' of Some (JStr t) \<Rightarrow> t | _ \<Rightarrow> ''''),
                             covered = cov\<rparr>)
          | _ \<Rightarrow> Inl malformed_cursor))"

subsection \<open>Digest lists and chains\<close>

type_synonym digest_list = "(string \<times> string) list"

definition digest_of :: "'d snapshot \<Rightarrow> entry_view \<Rightarrow> string" where
  "digest_of snap e = (case digestByEntryId snap (entryId e) of Some d \<Rightarrow> d | None \<Rightarrow> '''')"

definition buildSourceDigestLists :: "'d snapshot \<Rightarrow> (string \<times> digest_list) list" where
  "buildSourceDigestLists snap =
     fold (\<lambda>e sources.
         let sid = sourceId (source e);
             old = (case map_of sources sid of Some xs \<Rightarrow> xs | None \<Rightarrow> []) in
         AList.update sid (old @ [(recordKey (source e), digest_of snap e)]) sources)
       (entries snap) []"

definition initialChain :: "(string \<Rightarrow> string) \<Rightarrow> string \<Rightarrow> string" where
  "initialChain sha sid = sha (''cursor-chain:'' @ sid)"

definition link :: "(string \<Rightarrow> string) \<Rightarrow> string \<Rightarrow> string \<Rightarrow> string" where
  "link sha ch digest = sha (ch @ '':'' @ digest)"

fun fold_prefix :: "(string \<Rightarrow> string) \<Rightarrow> digest_list \<Rightarrow> string \<Rightarrow> nat \<Rightarrow> string \<Rightarrow> (nat \<times> string) option" where
  "fold_prefix sha [] key n ch = None"
| "fold_prefix sha ((k, d) # items) key n ch =
     (let ch' = link sha ch d; n' = n + 1 in
      if k = key then Some (n', ch') else fold_prefix sha items key n' ch')"

definition foldCoveredPrefix ::
  "(string \<Rightarrow> string) \<Rightarrow> digest_list \<Rightarrow> string \<Rightarrow> string \<Rightarrow> (nat \<times> string) option" where
  "foldCoveredPrefix sha items sid key = fold_prefix sha items key 0 (initialChain sha sid)"

definition ordinal_of :: "digest_list \<Rightarrow> string \<Rightarrow> nat option" where
  "ordinal_of items key = find_index (\<lambda>item. fst item = key) items"

subsection \<open>Validation and continuation\<close>

fun validate_states ::
  "(string \<Rightarrow> string) \<Rightarrow> (string \<times> digest_list) list \<Rightarrow> coverage \<Rightarrow> (string \<rightharpoonup> nat)
   \<Rightarrow> cursor_error + (string \<rightharpoonup> nat)" where
  "validate_states sha sources [] resume = Inr resume"
| "validate_states sha sources ((sid, st) # cov) resume =
     (case map_of sources sid of
        None \<Rightarrow> Inl cursor_source_missing
      | Some items \<Rightarrow>
          (case ordinal_of items (last_key st) of
             None \<Rightarrow> Inl cursor_record_missing
           | Some ordinal \<Rightarrow>
               if foldCoveredPrefix sha items sid (last_key st) \<noteq> Some (count st, chain st)
               then Inl cursor_content_changed
               else validate_states sha sources cov (resume(sid \<mapsto> ordinal))))"

definition validateCursor ::
  "(string \<Rightarrow> string) \<Rightarrow> (string \<Rightarrow> json option) \<Rightarrow> 'd snapshot \<Rightarrow> string \<Rightarrow> cursor_error + (string \<rightharpoonup> nat)" where
  "validateCursor sha parse snap token =
     (case decodeCursor parse token of
        Inl e \<Rightarrow> Inl e
      | Inr payload \<Rightarrow>
          if p_taskId payload \<noteq> taskId snap then Inl cursor_task_mismatch
          else validate_states sha (buildSourceDigestLists snap) (covered payload) Map.empty)"

text \<open>An entry of a source that is not in \<open>resume\<close> is kept; otherwise its ordinal (-1 when it is
  not found, which is not after any watermark) decides.\<close>

definition after_watermark :: "(string \<rightharpoonup> nat) \<Rightarrow> (string \<times> digest_list) list \<Rightarrow> entry_view \<Rightarrow> bool" where
  "after_watermark resume sources e =
     (case resume (sourceId (source e)) of
        None \<Rightarrow> True
      | Some coveredOrdinal \<Rightarrow>
          (case ordinal_of (the (map_of sources (sourceId (source e)))) (recordKey (source e)) of
             None \<Rightarrow> False
           | Some ordinal \<Rightarrow> ordinal > coveredOrdinal))"

definition entriesAfterCursor ::
  "(string \<Rightarrow> string) \<Rightarrow> (string \<Rightarrow> json option) \<Rightarrow> 'd snapshot \<Rightarrow> string \<Rightarrow> cursor_error + entry_view list" where
  "entriesAfterCursor sha parse snap token =
     (case validateCursor sha parse snap token of
        Inl e \<Rightarrow> Inl e
      | Inr resume \<Rightarrow>
          Inr (filter (after_watermark resume (buildSourceDigestLists snap)) (entries snap)))"

definition cover_entry ::
  "(string \<Rightarrow> string) \<Rightarrow> 'd snapshot \<Rightarrow> entry_view \<Rightarrow> coverage \<Rightarrow> coverage" where
  "cover_entry sha snap e cov =
     (let sid = sourceId (source e);
          st = (case map_of cov sid of
                  Some st \<Rightarrow> st
                | None \<Rightarrow> \<lparr>last_key = '''', count = 0, chain = initialChain sha sid\<rparr>) in
      AList.update sid
        \<lparr>last_key = recordKey (source e), count = count st + 1,
         chain = link sha (chain st) (digest_of snap e)\<rparr> cov)"

definition coverageAfterRange :: "(string \<Rightarrow> string) \<Rightarrow> 'd snapshot \<Rightarrow> nat \<Rightarrow> coverage" where
  "coverageAfterRange sha snap endGlobalIndex =
     fold (cover_entry sha snap) (slice (entries snap) 0 (endGlobalIndex + 1)) []"

definition coverageAfterCursor ::
  "(string \<Rightarrow> string) \<Rightarrow> coverage \<Rightarrow> 'd snapshot \<Rightarrow> entry_view list \<Rightarrow> coverage" where
  "coverageAfterCursor sha previous snap returned = fold (cover_entry sha snap) returned previous"

end
