(* ===== verification/Evidence_Navigation.thy ===== *)
theory Evidence_Navigation
  imports Evidence_Cursor
begin

text \<open>
  Reads of an evidence snapshot, \<open>src/src/execution/evidence/navigation.ts\<close>: deep reads in
  chunks, call pairing, search, ranges and cursor continuation.  \<open>toLowerCase\<close> of the Unicode
  tables is the parameter \<open>lower\<close>; a selector's numbers are the finite JavaScript numbers.
\<close>

definition EVIDENCE_LIMIT_DEFAULT :: nat where "EVIDENCE_LIMIT_DEFAULT = 20"
definition EVIDENCE_LIMIT_MAX :: nat where "EVIDENCE_LIMIT_MAX = 50"
definition EVIDENCE_FIND_MATCHES_MAX :: nat where "EVIDENCE_FIND_MATCHES_MAX = 20"
definition EVIDENCE_DEEP_CHUNK_CHARS :: nat where "EVIDENCE_DEEP_CHUNK_CHARS = 8000"

definition EVIDENCE_COMMAND_TOOL_NAMES :: "string list" where
  "EVIDENCE_COMMAND_TOOL_NAMES =
     [''bash'', ''powershell'', ''shell'', ''sh'', ''command_execution'', ''bash_execution'']"

datatype evidence_filter = FToolCall | FToolResult | FCommand | FLifecycle | FClaim | FReview

datatype navigation_error =
    invalid_selector
  | entry_not_found
  | call_not_found
  | call_ambiguous
  | index_out_of_range
  | CursorError cursor_error

record selector =
  find_query :: "units option"
  from_index :: "rat option"
  limit :: "rat option"
  cursor_token :: "string option"
  by_callId :: "string option"
  by_filter :: "evidence_filter option"
  by_entryId :: "string option"
  chunkIndex :: "rat option"

datatype read_mode = ModeRange | ModeFind | ModeCall | ModeEntry | ModeCursor

record find_match =
  m_index :: nat
  m_entryId :: string
  m_kind :: evidence_kind
  snippet :: units

record match_summary =
  query :: units
  totalMatches :: nat
  matchesTruncated :: bool

datatype deep_note = RetainedContentCapped | NoContentAtChunk

record deep_content =
  d_entryId :: string
  d_chunkIndex :: nat
  content :: units
  hasMore :: bool
  nextChunk :: "nat option"
  d_contentBytes :: nat
  d_truncatedContent :: bool
  d_note :: "deep_note option"

record call_pair =
  pair_call :: "entry_view option"
  pair_result :: "entry_view option"
  pair_status :: evidence_status

record ('d, 'c) evidence_read =
  r_taskId :: string
  mode :: read_mode
  r_snapshot :: 'd
  r_context :: "'c option"
  r_entries :: "entry_view list option"
  nextIndex :: "nat option"
  matches :: "find_match list option"
  matchSummary :: "match_summary option"
  deepContent :: "deep_content option"
  callPair :: "call_pair option"
  cursor :: "string option"

record ('d, 'c) evidence_bundle =
  b_snapshot :: "'d snapshot"
  b_context :: "'c option"

text \<open>The fields every read has; the others are absent until a read sets them.\<close>

definition base_read :: "('d, 'c) evidence_bundle \<Rightarrow> read_mode \<Rightarrow> ('d, 'c) evidence_read" where
  "base_read b m =
     \<lparr>r_taskId = taskId (b_snapshot b), mode = m, r_snapshot = display (b_snapshot b),
      r_context = b_context b, r_entries = None, nextIndex = None, matches = None,
      matchSummary = None, deepContent = None, callPair = None, cursor = None\<rparr>"

fun requireNonNegativeInt :: "rat option \<Rightarrow> navigation_error + nat option" where
  "requireNonNegativeInt None = Inr None"
| "requireNonNegativeInt (Some r) =
     (if \<not> isSafeInteger r \<or> r < 0 then Inl invalid_selector else Inr (Some (nat \<lfloor>r\<rfloor>)))"

fun clampLimit :: "rat option \<Rightarrow> navigation_error + nat" where
  "clampLimit None = Inr EVIDENCE_LIMIT_DEFAULT"
| "clampLimit (Some r) =
     (if \<not> isSafeInteger r \<or> r < 1 then Inl invalid_selector
      else Inr (min (nat \<lfloor>r\<rfloor>) EVIDENCE_LIMIT_MAX))"

fun matchesFilter :: "entry_view \<Rightarrow> evidence_filter option \<Rightarrow> bool" where
  "matchesFilter e None = True"
| "matchesFilter e (Some FToolCall) = (kind e = KToolCall)"
| "matchesFilter e (Some FToolResult) = (kind e = KToolResult)"
| "matchesFilter e (Some FCommand) =
     (case toolName e of None \<Rightarrow> False | Some t \<Rightarrow> t \<in> set EVIDENCE_COMMAND_TOOL_NAMES)"
| "matchesFilter e (Some FLifecycle) = (kind e = KLifecycle)"
| "matchesFilter e (Some FClaim) = (kind e = KClaim)"
| "matchesFilter e (Some FReview) = (kind e = KReview)"

subsection \<open>Deep reads\<close>

text \<open>\<open>charCodeAt\<close> out of range is \<open>NaN\<close>, which passes no comparison.\<close>

definition unit_at :: "(16 word \<Rightarrow> bool) \<Rightarrow> units \<Rightarrow> nat \<Rightarrow> bool" where
  "unit_at p s i = (case js_nth s i of None \<Rightarrow> False | Some u \<Rightarrow> p u)"

definition chunkBoundary :: "units \<Rightarrow> nat \<Rightarrow> nat" where
  "chunkBoundary s chunk =
     (let candidate = (chunk + 1) * EVIDENCE_DEEP_CHUNK_CHARS in
      if unit_at high_surrogate s (candidate - 1) \<and> unit_at low_surrogate s candidate
      then candidate + 1 else candidate)"

definition retained_content :: "'d snapshot \<Rightarrow> string \<Rightarrow> units" where
  "retained_content snap eid = (case contentByEntryId snap eid of Some s \<Rightarrow> s | None \<Rightarrow> [])"

definition readEntry :: "('d, 'c) evidence_bundle \<Rightarrow> selector \<Rightarrow> navigation_error + ('d, 'c) evidence_read" where
  "readEntry b sel =
     (let snap = b_snapshot b; eid = the (by_entryId sel) in
      case requireNonNegativeInt (chunkIndex sel) of
        Inl e \<Rightarrow> Inl e
      | Inr given \<Rightarrow>
          (let chunk = (case given of Some n \<Rightarrow> n | None \<Rightarrow> 0) in
           case find (\<lambda>e. entryId e = eid) (entries snap) of
             None \<Rightarrow> Inl entry_not_found
           | Some e \<Rightarrow>
               (let s = retained_content snap eid;
                    start = (if chunk = 0 then 0 else min (chunkBoundary s (chunk - 1)) (length s));
                    stop = min (chunkBoundary s chunk) (length s);
                    more = (stop < length s) in
                Inr ((base_read b ModeEntry)\<lparr>deepContent := Some
                  \<lparr>d_entryId = eid, d_chunkIndex = chunk, content = slice s start stop, hasMore = more,
                   nextChunk = (if more then Some (chunk + 1) else None),
                   d_contentBytes = contentBytes e, d_truncatedContent = truncatedContent e,
                   d_note = (if truncatedContent e then Some RetainedContentCapped
                             else if slice s start stop = [] \<and> chunk > 0 then Some NoContentAtChunk
                             else None)\<rparr>\<rparr>))))"

subsection \<open>Call pairing\<close>

text \<open>The first call whose \<open>pairedWith\<close> names a result that names the call.\<close>

fun linked_pair :: "entry_view list \<Rightarrow> entry_view list \<Rightarrow> (entry_view \<times> entry_view) option" where
  "linked_pair all [] = None"
| "linked_pair all (c # calls) =
     (case find (\<lambda>e. Some (entryId e) = pairedWith c \<and> kind e = KToolResult) all of
        Some sibling \<Rightarrow>
          if pairedWith sibling = Some (entryId c) then Some (c, sibling) else linked_pair all calls
      | None \<Rightarrow> linked_pair all calls)"

definition call_read ::
  "('d, 'c) evidence_bundle \<Rightarrow> entry_view option \<Rightarrow> entry_view option \<Rightarrow> evidence_status \<Rightarrow> ('d, 'c) evidence_read" where
  "call_read b c r st =
     (base_read b ModeCall)\<lparr>callPair := Some \<lparr>pair_call = c, pair_result = r, pair_status = st\<rparr>\<rparr>"

definition readCall :: "('d, 'c) evidence_bundle \<Rightarrow> selector \<Rightarrow> navigation_error + ('d, 'c) evidence_read" where
  "readCall b sel =
     (let all = entries (b_snapshot b);
          calls = filter (\<lambda>e. kind e = KToolCall \<and> callId e = by_callId sel) all;
          results = filter (\<lambda>e. kind e = KToolResult \<and> callId e = by_callId sel) all;
          scoped = list_ex pairingScopedToSource (calls @ results) in
      if calls = [] \<and> results = [] then Inl call_not_found
      else if scoped \<and> (length calls > 1 \<or> length results > 1) then Inl call_ambiguous
      else case linked_pair all calls of
        Some (c, r) \<Rightarrow> Inr (call_read b (Some c) (Some r) EReturned)
      | None \<Rightarrow>
          if scoped then
            (if length calls + length results > 1 then Inl call_ambiguous
             else (let only = (case calls of c # _ \<Rightarrow> c | [] \<Rightarrow> hd results) in
                   if kind only = KToolCall then Inr (call_read b (Some only) None EInFlight)
                   else Inr (call_read b None (Some only) EInFlight)))
          else Inr (call_read b (js_nth calls 0) (js_nth results 0)
                      (if results \<noteq> [] then EReturned else EInFlight)))"

subsection \<open>Search\<close>

text \<open>White space and line terminators of ECMAScript, which are also what \<open>\s\<close> matches.\<close>

definition unit_space :: "16 word \<Rightarrow> bool" where
  "unit_space u \<longleftrightarrow>
     9 \<le> u \<and> u \<le> 13 \<or> u = 0x20 \<or> u = 0xA0 \<or> u = 0x1680 \<or> 0x2000 \<le> u \<and> u \<le> 0x200A
     \<or> u = 0x2028 \<or> u = 0x2029 \<or> u = 0x202F \<or> u = 0x205F \<or> u = 0x3000 \<or> u = 0xFEFF"

definition trim_units :: "units \<Rightarrow> units" where
  "trim_units s = rev (dropWhile unit_space (rev (dropWhile unit_space s)))"

text \<open>\<open>replace(/\s+/g, " ")\<close>: every maximal run of white space becomes one blank.\<close>

fun compact_space :: "units \<Rightarrow> units" where
  "compact_space [] = []"
| "compact_space [u] = [if unit_space u then 0x20 else u]"
| "compact_space (u # v # s) =
     (if unit_space u then (if unit_space v then compact_space (v # s) else 0x20 # compact_space (v # s))
      else u # compact_space (v # s))"

definition substring_index :: "units \<Rightarrow> units \<Rightarrow> nat option" where
  "substring_index s q = find_from (\<lambda>i. starts_with (drop i s) q) 0 (length s + 1)"

definition ELLIPSIS :: "16 word" where "ELLIPSIS = 0x2026"

definition find_snippet :: "units \<Rightarrow> nat \<Rightarrow> nat \<Rightarrow> units" where
  "find_snippet retained position qlen =
     (let rawStart = position - 80;
          text = trim_units (compact_space (slice retained rawStart (position + qlen + 120))) in
      (if rawStart > 0 then [ELLIPSIS] else []) @ text)"

definition find_step ::
  "(units \<Rightarrow> units) \<Rightarrow> 'd snapshot \<Rightarrow> evidence_filter option \<Rightarrow> units \<Rightarrow> entry_view
   \<Rightarrow> find_match list \<times> nat \<Rightarrow> find_match list \<times> nat" where
  "find_step lower snap flt q e acc =
     (let (ms, total) = acc in
      if \<not> matchesFilter e flt then acc
      else (let retained = retained_content snap (entryId e) in
            case substring_index (lower retained) q of
              None \<Rightarrow> acc
            | Some position \<Rightarrow>
                (if length ms < EVIDENCE_FIND_MATCHES_MAX
                 then ms @ [\<lparr>m_index = index e, m_entryId = entryId e, m_kind = kind e,
                             snippet = find_snippet retained position (length q)\<rparr>]
                 else ms, total + 1)))"

definition readFind ::
  "(units \<Rightarrow> units) \<Rightarrow> ('d, 'c) evidence_bundle \<Rightarrow> selector \<Rightarrow> navigation_error + ('d, 'c) evidence_read" where
  "readFind lower b sel =
     (let given = (case find_query sel of Some q \<Rightarrow> q | None \<Rightarrow> []); q = lower given in
      if trim_units q = [] then Inl invalid_selector
      else (let (ms, total) =
              fold (find_step lower (b_snapshot b) (by_filter sel) q) (entries (b_snapshot b)) ([], 0) in
            Inr ((base_read b ModeFind)\<lparr>matches := Some ms,
              matchSummary := Some \<lparr>query = given, totalMatches = total,
                                    matchesTruncated = (total > length ms)\<rparr>\<rparr>)))"

subsection \<open>Ranges and cursors\<close>

definition some_entries :: "entry_view list \<Rightarrow> entry_view list option" where
  "some_entries es = (if es = [] then None else Some es)"

definition readCursor ::
  "(string \<Rightarrow> string) \<Rightarrow> (string \<Rightarrow> json option) \<Rightarrow> (json \<Rightarrow> string) \<Rightarrow> string
   \<Rightarrow> ('d, 'c) evidence_bundle \<Rightarrow> selector \<Rightarrow> navigation_error + ('d, 'c) evidence_read" where
  "readCursor sha parse print now b sel =
     (let snap = b_snapshot b; token = the (cursor_token sel) in
      if by_filter sel \<noteq> None then Inl invalid_selector
      else case clampLimit (limit sel) of
        Inl e \<Rightarrow> Inl e
      | Inr n \<Rightarrow>
          (case entriesAfterCursor sha parse snap token of
             Inl e \<Rightarrow> Inl (CursorError e)
           | Inr returnedAll \<Rightarrow>
               (let selected = slice returnedAll 0 n in
                case decodeCursor parse token of
                  Inl e \<Rightarrow> Inl (CursorError e)
                | Inr payload \<Rightarrow>
                    Inr ((base_read b ModeCursor)
                      \<lparr>r_entries := some_entries selected,
                       cursor := Some (encodeCursor print now (taskId snap)
                                   (coverageAfterCursor sha (covered payload) snap selected))\<rparr>))))"

definition readRange ::
  "(string \<Rightarrow> string) \<Rightarrow> (json \<Rightarrow> string) \<Rightarrow> string
   \<Rightarrow> ('d, 'c) evidence_bundle \<Rightarrow> selector \<Rightarrow> navigation_error + ('d, 'c) evidence_read" where
  "readRange sha print now b sel =
     (let snap = b_snapshot b in
      case requireNonNegativeInt (from_index sel) of
        Inl e \<Rightarrow> Inl e
      | Inr given \<Rightarrow>
          (let start = (case given of Some n \<Rightarrow> n | None \<Rightarrow> 0) in
           case clampLimit (limit sel) of
             Inl e \<Rightarrow> Inl e
           | Inr n \<Rightarrow>
               (let base = (if by_filter sel \<noteq> None
                            then filter (\<lambda>e. matchesFilter e (by_filter sel)) (entries snap)
                            else entries snap) in
                if start > 0 \<and> start \<ge> length base then Inl index_out_of_range
                else (let selected = slice base start (start + n) in
                      Inr ((base_read b ModeRange)
                        \<lparr>r_entries := some_entries selected,
                         nextIndex := (if start + length selected < length base
                                       then Some (start + length selected) else None),
                         cursor := (if by_filter sel = None \<and> selected \<noteq> []
                                    then Some (encodeCursor print now (taskId snap)
                                      (coverageAfterRange sha snap (start + length selected - 1)))
                                    else None)\<rparr>)))))"

text \<open>An absent or empty string selects nothing.\<close>

definition given :: "string option \<Rightarrow> bool" where
  "given s \<longleftrightarrow> s \<noteq> None \<and> s \<noteq> Some ''''"

definition readSubtaskEvidence ::
  "(string \<Rightarrow> string) \<Rightarrow> (string \<Rightarrow> json option) \<Rightarrow> (json \<Rightarrow> string) \<Rightarrow> (units \<Rightarrow> units) \<Rightarrow> string
   \<Rightarrow> ('d, 'c) evidence_bundle \<Rightarrow> selector \<Rightarrow> navigation_error + ('d, 'c) evidence_read" where
  "readSubtaskEvidence sha parse print lower now b sel =
     (if given (by_entryId sel) then readEntry b sel
      else if given (by_callId sel) then readCall b sel
      else if given (cursor_token sel) then readCursor sha parse print now b sel
      else if find_query sel \<noteq> None then readFind lower b sel
      else readRange sha print now b sel)"

end
