(* ===== verification/Evidence_Cursor_Spec.thy ===== *)
theory Evidence_Cursor_Spec
  imports Evidence_Navigation
begin

text \<open>
  Continuation by cursors: a cursor covers a prefix of every source, stays valid while sources only
  grow, and names exactly the entries not read before; a changed prefix is refused.
\<close>

subsection \<open>What a snapshot holds per source\<close>

definition entry_key :: "entry_view \<Rightarrow> string \<times> string" where
  "entry_key e = (sourceId (source e), recordKey (source e))"

definition of_source :: "string \<Rightarrow> entry_view list \<Rightarrow> entry_view list" where
  "of_source sid es = filter (\<lambda>e. sourceId (source e) = sid) es"

definition items_of :: "'d snapshot \<Rightarrow> string \<Rightarrow> entry_view list \<Rightarrow> digest_list" where
  "items_of snap sid es = map (\<lambda>e. (recordKey (source e), digest_of snap e)) (of_source sid es)"

abbreviation source_items :: "'d snapshot \<Rightarrow> string \<Rightarrow> digest_list" where
  "source_items snap sid \<equiv> items_of snap sid (entries snap)"

definition wf_snapshot :: "'d snapshot \<Rightarrow> bool" where
  "wf_snapshot snap \<longleftrightarrow> distinct (map entry_key (entries snap)) \<and> length (entries snap) \<le> 2000"

definition grows :: "'d snapshot \<Rightarrow> 'd snapshot \<Rightarrow> bool" where
  "grows s t \<longleftrightarrow> taskId t = taskId s \<and> (\<forall>sid. prefix (source_items s sid) (source_items t sid))"

lemma items_of_Nil [simp]: "items_of snap sid [] = []"
  by (simp add: items_of_def of_source_def)

lemma items_of_Cons:
  "items_of snap sid (e # es) =
     (if sourceId (source e) = sid then (recordKey (source e), digest_of snap e) # items_of snap sid es
      else items_of snap sid es)"
  by (simp add: items_of_def of_source_def)

lemma items_of_append [simp]: "items_of snap sid (xs @ ys) = items_of snap sid xs @ items_of snap sid ys"
  by (simp add: items_of_def of_source_def)

lemma items_of_take: "prefix (items_of snap sid (take n es)) (items_of snap sid es)"
  by (metis append_take_drop_id items_of_append prefixI)

lemma length_items_of: "length (items_of snap sid es) \<le> length es"
  by (simp add: items_of_def of_source_def)

lemma keys_items_of: "(k, d) \<in> set (items_of snap sid es) \<Longrightarrow> \<exists>e \<in> set es. entry_key e = (sid, k)"
  by (auto simp: items_of_def of_source_def entry_key_def)

lemma key_in_items_of: "k \<in> fst ` set (items_of snap sid es) \<longleftrightarrow> (sid, k) \<in> entry_key ` set es"
  by (force simp: items_of_def of_source_def entry_key_def image_iff)

lemma distinct_items_of:
  "distinct (map entry_key es) \<Longrightarrow> distinct (map fst (items_of snap sid es))"
proof (induction es)
  case (Cons e es)
  then show ?case
    using key_in_items_of [of "recordKey (source e)" snap sid es]
    by (auto simp: items_of_Cons entry_key_def)
qed simp

lemma lookup_digest_lists:
  "map_of (buildSourceDigestLists snap) sid =
     (if source_items snap sid = [] then None else Some (source_items snap sid))"
proof -
  let ?step = "\<lambda>e sources. let sid = sourceId (source e);
             old = (case map_of sources sid of Some xs \<Rightarrow> xs | None \<Rightarrow> []) in
         AList.update sid (old @ [(recordKey (source e), digest_of snap e)]) sources"
  have "map_of (fold ?step es []) sid =
      (if items_of snap sid es = [] then None else Some (items_of snap sid es))" for es
    by (induction es rule: rev_induct) (auto simp: Let_def update_conv' items_of_Cons)
  then show ?thesis by (simp add: buildSourceDigestLists_def)
qed

subsection \<open>Chains\<close>

definition chain_from :: "(string \<Rightarrow> string) \<Rightarrow> string \<Rightarrow> digest_list \<Rightarrow> string" where
  "chain_from sha ch items = fold (\<lambda>item ch. link sha ch (snd item)) items ch"

lemma chain_from_simps [simp]:
  "chain_from sha ch [] = ch"
  "chain_from sha ch ((k, d) # items) = chain_from sha (link sha ch d) items"
  "chain_from sha ch (xs @ ys) = chain_from sha (chain_from sha ch xs) ys"
  by (simp_all add: chain_from_def)

definition chain_of :: "(string \<Rightarrow> string) \<Rightarrow> string \<Rightarrow> digest_list \<Rightarrow> string" where
  "chain_of sha sid items = chain_from sha (initialChain sha sid) items"

lemma fold_prefix_eq:
  "fold_prefix sha items key n ch =
     map_option (\<lambda>i. (n + Suc i, chain_from sha ch (take (Suc i) items)))
       (find_index (\<lambda>item. fst item = key) items)"
  by (induction sha items key n ch rule: fold_prefix.induct)
    (auto simp: Let_def option.map_comp comp_def)

lemma foldCoveredPrefix_eq:
  "foldCoveredPrefix sha items sid key =
     map_option (\<lambda>i. (Suc i, chain_of sha sid (take (Suc i) items))) (ordinal_of items key)"
  by (simp add: foldCoveredPrefix_def fold_prefix_eq ordinal_of_def chain_of_def)

lemma find_index_in_take:
  "find_index p xs = Some i \<Longrightarrow> (\<exists>x \<in> set (take w xs). p x) \<longleftrightarrow> i < w"
proof -
  assume i: "find_index p xs = Some i"
  have "p (take w xs ! i)" "take w xs ! i \<in> set (take w xs)" if "i < w"
    using find_index_SomeD [OF i] that nth_mem [of i "take w xs"] by auto
  moreover have "i < w" if "x \<in> set (take w xs)" "p x" for x
    using that find_index_least [OF i] by (auto simp: in_set_conv_nth) (meson not_less order_le_less_trans)
  ultimately show ?thesis by blast
qed

lemma find_index_exists: "x \<in> set xs \<Longrightarrow> p x \<Longrightarrow> \<exists>i. find_index p xs = Some i"
  using find_index_None_iff [of p xs] by (cases "find_index p xs") auto

lemma ordinal_of_nth:
  "distinct (map fst items) \<Longrightarrow> i < length items \<Longrightarrow> ordinal_of items (fst (items ! i)) = Some i"
proof -
  assume d: "distinct (map fst items)" and i: "i < length items"
  obtain j where j: "ordinal_of items (fst (items ! i)) = Some j"
    using find_index_exists [of "items ! i" items "\<lambda>item. fst item = fst (items ! i)"] i
    by (auto simp: ordinal_of_def)
  then have "j < length items" "fst (items ! j) = fst (items ! i)"
    using find_index_SomeD [of "\<lambda>item. fst item = fst (items ! i)" items j] by (auto simp: ordinal_of_def)
  with d i have "j = i" by (metis length_map nth_eq_iff_index_eq nth_map)
  with j show ?thesis by simp
qed

subsection \<open>Coverage\<close>

text \<open>\<open>w\<close> gives the number of consumed records per source.\<close>

definition good_state :: "(string \<Rightarrow> string) \<Rightarrow> 'd snapshot \<Rightarrow> string \<Rightarrow> cursor_state \<Rightarrow> nat \<Rightarrow> bool" where
  "good_state sha snap sid st n \<longleftrightarrow>
     0 < n \<and> n \<le> length (source_items snap sid) \<and> count st = n
     \<and> last_key st = fst (source_items snap sid ! (n - 1))
     \<and> chain st = chain_of sha sid (take n (source_items snap sid))"

definition covers :: "(string \<Rightarrow> string) \<Rightarrow> 'd snapshot \<Rightarrow> coverage \<Rightarrow> (string \<Rightarrow> nat) \<Rightarrow> bool" where
  "covers sha snap cov w \<longleftrightarrow>
     distinct (map fst cov)
     \<and> (\<forall>sid. case map_of cov sid of None \<Rightarrow> w sid = 0 | Some st \<Rightarrow> good_state sha snap sid st (w sid))"

definition seen :: "'d snapshot \<Rightarrow> (string \<Rightarrow> nat) \<Rightarrow> (string \<times> string) set" where
  "seen snap w = {(sid, k). k \<in> fst ` set (take (w sid) (source_items snap sid))}"

lemma covers_NoneD: "covers sha snap cov w \<Longrightarrow> map_of cov sid = None \<Longrightarrow> w sid = 0"
  unfolding covers_def by (metis option.simps(4))

lemma covers_SomeD:
  "covers sha snap cov w \<Longrightarrow> map_of cov sid = Some st \<Longrightarrow> good_state sha snap sid st (w sid)"
  unfolding covers_def by (metis option.simps(5))

lemma coversI:
  "distinct (map fst cov) \<Longrightarrow> (\<And>sid. map_of cov sid = None \<Longrightarrow> w sid = 0) \<Longrightarrow>
   (\<And>sid st. map_of cov sid = Some st \<Longrightarrow> good_state sha snap sid st (w sid)) \<Longrightarrow> covers sha snap cov w"
  by (simp add: covers_def split: option.split)

lemma covers_distinct: "covers sha snap cov w \<Longrightarrow> distinct (map fst cov)"
  by (simp add: covers_def)

lemma covers_le: "covers sha snap cov w \<Longrightarrow> w sid \<le> length (source_items snap sid)"
  using covers_NoneD [of sha snap cov w sid] covers_SomeD [of sha snap cov w sid]
  by (cases "map_of cov sid") (auto simp: good_state_def)

lemma take_grows:
  "grows s t \<Longrightarrow> n \<le> length (source_items s sid) \<Longrightarrow> take n (source_items t sid) = take n (source_items s sid)"
  by (auto simp: grows_def prefix_def dest!: spec [of _ sid])

lemma good_state_grows:
  assumes "grows s t" "good_state sha s sid st n"
  shows "good_state sha t sid st n"
proof -
  have n: "0 < n" "n \<le> length (source_items s sid)" using assms(2) by (auto simp: good_state_def)
  have "prefix (source_items s sid) (source_items t sid)" using assms(1) by (simp add: grows_def)
  then have le: "n \<le> length (source_items t sid)"
    and nth: "source_items t sid ! (n - 1) = source_items s sid ! (n - 1)"
    using n by (auto simp: prefix_def nth_append)
  show ?thesis using assms(2) le nth take_grows [OF assms(1) n(2)] by (simp add: good_state_def)
qed

lemma covers_grows: "grows s t \<Longrightarrow> covers sha s cov w \<Longrightarrow> covers sha t cov w"
  by (rule coversI) (blast intro: covers_distinct covers_NoneD good_state_grows covers_SomeD)+

lemma seen_grows: "grows s t \<Longrightarrow> covers sha s cov w \<Longrightarrow> seen t w = seen s w"
  by (simp add: seen_def take_grows covers_le)

subsection \<open>A covered cursor validates\<close>

lemma validate_covered:
  assumes "\<forall>(sid, st) \<in> set cov. good_state sha snap sid st (w sid)" "wf_snapshot snap"
  shows "validate_states sha (buildSourceDigestLists snap) cov resume =
           Inr (\<lambda>sid. if sid \<in> fst ` set cov then Some (w sid - 1) else resume sid)"
  using assms(1)
proof (induction cov arbitrary: resume)
  case (Cons x cov)
  obtain sid st where x: "x = (sid, st)" by (cases x)
  let ?items = "source_items snap sid"
  from Cons.prems x have g: "good_state sha snap sid st (w sid)" by simp
  have d: "distinct (map fst ?items)" using assms(2) by (simp add: wf_snapshot_def distinct_items_of)
  from g have n: "0 < w sid" "w sid - 1 < length ?items" and ne: "?items \<noteq> []"
    by (auto simp: good_state_def)
  have ord: "ordinal_of ?items (last_key st) = Some (w sid - 1)"
    using ordinal_of_nth [OF d n(2)] g by (simp add: good_state_def)
  have fp: "foldCoveredPrefix sha ?items sid (last_key st) = Some (count st, chain st)"
    using g n(1) by (simp add: foldCoveredPrefix_eq ord) (simp add: good_state_def)
  have "validate_states sha (buildSourceDigestLists snap) (x # cov) resume =
          validate_states sha (buildSourceDigestLists snap) cov (resume(sid \<mapsto> w sid - 1))"
    by (simp add: x lookup_digest_lists ne ord fp)
  with Cons show ?case by (auto simp: x fun_eq_iff)
qed simp

definition watermark :: "coverage \<Rightarrow> (string \<Rightarrow> nat) \<Rightarrow> string \<rightharpoonup> nat" where
  "watermark cov w sid = (if sid \<in> fst ` set cov then Some (w sid - 1) else None)"

lemma validate_covers:
  assumes "covers sha snap cov w" "wf_snapshot snap"
  shows "validate_states sha (buildSourceDigestLists snap) cov Map.empty = Inr (watermark cov w)"
proof -
  have "\<forall>(sid, st) \<in> set cov. good_state sha snap sid st (w sid)"
    using covers_SomeD [OF assms(1)] covers_distinct [OF assms(1)] by auto
  from validate_covered [OF this assms(2)] show ?thesis by (simp add: watermark_def [abs_def])
qed

lemma after_watermark_iff:
  assumes c: "covers sha snap cov w" and e: "e \<in> set (entries snap)"
  shows "after_watermark (watermark cov w) (buildSourceDigestLists snap) e \<longleftrightarrow> entry_key e \<notin> seen snap w"
proof (cases "map_of cov (sourceId (source e))")
  case None
  then have "sourceId (source e) \<notin> fst ` set cov" by (simp add: map_of_eq_None_iff)
  moreover have "w (sourceId (source e)) = 0" using covers_NoneD [OF c None] .
  ultimately show ?thesis by (simp add: after_watermark_def watermark_def seen_def entry_key_def)
next
  case (Some st)
  let ?sid = "sourceId (source e)" and ?k = "recordKey (source e)"
  let ?items = "source_items snap ?sid"
  have "?sid \<in> fst ` set cov" using map_of_SomeD [OF Some] by force
  then have wm: "watermark cov w ?sid = Some (w ?sid - 1)" by (simp add: watermark_def)
  have pos: "0 < w ?sid" using covers_SomeD [OF c Some] by (simp add: good_state_def)
  have "?k \<in> fst ` set ?items" using e unfolding key_in_items_of by (auto simp: entry_key_def)
  then obtain i where i: "ordinal_of ?items ?k = Some i" and ne: "?items \<noteq> []"
    using find_index_exists [of _ ?items "\<lambda>item. fst item = ?k"] by (fastforce simp: ordinal_of_def)
  have "entry_key e \<in> seen snap w \<longleftrightarrow> (\<exists>item \<in> set (take (w ?sid) ?items). fst item = ?k)"
    by (simp only: seen_def entry_key_def mem_Collect_eq case_prod_conv image_iff) metis
  also have "\<dots> \<longleftrightarrow> i < w ?sid"
    using find_index_in_take i by (simp add: ordinal_of_def)
  finally show ?thesis using pos by (auto simp: after_watermark_def wm lookup_digest_lists ne i)
qed

subsection \<open>Consuming entries extends the coverage\<close>

definition consume :: "entry_view list \<Rightarrow> (string \<Rightarrow> nat) \<Rightarrow> string \<Rightarrow> nat" where
  "consume es w sid = w sid + length (of_source sid es)"

definition continues :: "'d snapshot \<Rightarrow> (string \<Rightarrow> nat) \<Rightarrow> entry_view list \<Rightarrow> bool" where
  "continues snap w es \<longleftrightarrow> (\<forall>sid. prefix (items_of snap sid es) (drop (w sid) (source_items snap sid)))"

lemma cover_entry_covers:
  assumes c: "covers sha snap cov w" and p: "continues snap w (e # es)"
  shows "covers sha snap (cover_entry sha snap e cov) (consume [e] w)"
proof -
  let ?sid = "sourceId (source e)" and ?item = "(recordKey (source e), digest_of snap e)"
  let ?items = "source_items snap ?sid"
  obtain zs where zs: "drop (w ?sid) ?items = ?item # zs"
    using p by (auto simp: continues_def items_of_Cons prefix_def dest!: spec [of _ ?sid])
  then have lt: "w ?sid < length ?items" and nth: "?items ! w ?sid = ?item"
    by (metis drop_eq_Nil2 list.discI not_le, metis drop_eq_Nil2 hd_drop_conv_nth list.discI list.sel(1) not_le)
  have chain: "chain_of sha ?sid (take (Suc (w ?sid)) ?items) =
      link sha (chain_of sha ?sid (take (w ?sid) ?items)) (digest_of snap e)"
    using lt nth by (simp add: chain_of_def take_Suc_conv_app_nth)
  have st: "chain (case map_of cov ?sid of Some st \<Rightarrow> st
        | None \<Rightarrow> \<lparr>last_key = '''', count = 0, chain = initialChain sha ?sid\<rparr>) =
      chain_of sha ?sid (take (w ?sid) ?items)"
    "count (case map_of cov ?sid of Some st \<Rightarrow> st
        | None \<Rightarrow> \<lparr>last_key = '''', count = 0, chain = initialChain sha ?sid\<rparr>) = w ?sid"
    using covers_NoneD [OF c, of ?sid] covers_SomeD [OF c, of ?sid]
    by (auto simp: good_state_def chain_of_def split: option.split)
  have new: "map_of (cover_entry sha snap e cov) sid =
      (if sid = ?sid
       then Some \<lparr>last_key = fst ?item, count = Suc (w ?sid), chain = chain_of sha ?sid (take (Suc (w ?sid)) ?items)\<rparr>
       else map_of cov sid)" for sid
    by (simp add: cover_entry_def Let_def update_conv' st chain)
  show ?thesis
  proof (rule coversI)
    show "distinct (map fst (cover_entry sha snap e cov))"
      using covers_distinct [OF c] by (simp add: cover_entry_def Let_def distinct_update)
  next
    fix sid assume "map_of (cover_entry sha snap e cov) sid = None"
    then show "consume [e] w sid = 0"
      using covers_NoneD [OF c, of sid] by (auto simp: new consume_def of_source_def split: if_splits)
  next
    fix sid st assume "map_of (cover_entry sha snap e cov) sid = Some st"
    then show "good_state sha snap sid st (consume [e] w sid)"
      using covers_SomeD [OF c, of sid st] lt nth
      by (auto simp: new consume_def of_source_def good_state_def split: if_splits)
  qed
qed

lemma continues_tail: "continues snap w (e # es) \<Longrightarrow> continues snap (consume [e] w) es"
  unfolding continues_def
proof (rule allI)
  fix sid
  assume p: "\<forall>sid. prefix (items_of snap sid (e # es)) (drop (w sid) (source_items snap sid))"
  from p [rule_format, of sid] show "prefix (items_of snap sid es) (drop (consume [e] w sid) (source_items snap sid))"
    by (auto simp: items_of_Cons consume_def of_source_def prefix_def drop_Suc simp flip: tl_drop drop_drop
        split: if_splits)
qed

lemma consume_Cons: "consume (e # es) w = consume es (consume [e] w)"
  by (auto simp: consume_def of_source_def)

lemma cover_entries_cover:
  "covers sha snap cov w \<Longrightarrow> continues snap w es \<Longrightarrow>
   covers sha snap (fold (cover_entry sha snap) es cov) (consume es w)"
proof (induction es arbitrary: cov w)
  case Nil
  then show ?case by (simp add: consume_def of_source_def)
next
  case (Cons e es)
  show ?case
    using Cons.IH [OF cover_entry_covers continues_tail, OF Cons.prems Cons.prems(2)]
    by (subst consume_Cons) simp
qed

lemma seen_consume:
  assumes "continues snap w es"
  shows "seen snap (consume es w) = seen snap w \<union> entry_key ` set es"
proof -
  have "take (consume es w sid) (source_items snap sid) = take (w sid) (source_items snap sid) @ items_of snap sid es" for sid
  proof -
    have "prefix (items_of snap sid es) (drop (w sid) (source_items snap sid))"
      using assms by (simp add: continues_def)
    moreover have "length (items_of snap sid es) = length (of_source sid es)" by (simp add: items_of_def)
    ultimately show ?thesis by (auto simp: consume_def take_add prefix_def)
  qed
  then show ?thesis by (auto simp: seen_def image_Un key_in_items_of)
qed

end
