(* ===== verification/Evidence_Reads_Spec.thy ===== *)
theory Evidence_Reads_Spec
  imports Evidence_Cursor_Spec Jsonl_Spec
begin

text \<open>
  Reads that follow a cursor return every entry once while the sources grow, a cursor is refused
  when a covered record changed, and deep reads are lossless.
\<close>

subsection \<open>Tokens\<close>

text \<open>The documented round trip of \<open>JSON.stringify\<close> and \<open>JSON.parse\<close> (and of the base64url
  coding around them): values whose numbers are safe integers and whose objects have distinct
  keys are read back as they were written.\<close>

fun plain_json :: "json \<Rightarrow> bool" where
  "plain_json (JNum r) = isSafeInteger r"
| "plain_json (JArr vs) = (\<forall>v \<in> set vs. plain_json v)"
| "plain_json (JObj kvs) = (distinct (map fst kvs) \<and> (\<forall>kv \<in> set kvs. plain_json (snd kv)))"
| "plain_json _ = True"

definition json_codec :: "(string \<Rightarrow> json option) \<Rightarrow> (json \<Rightarrow> string) \<Rightarrow> bool" where
  "json_codec parse print \<longleftrightarrow> (\<forall>j. plain_json j \<longrightarrow> parse (print j) = Some j)"

lemma isSafeInteger_nat: "isSafeInteger (of_nat n) \<longleftrightarrow> n \<le> 9007199254740991"
proof -
  have "(of_nat n :: rat) = of_int (int n)" by simp
  then have "snd (quotient_of (of_nat n)) = 1" using quotient_of_int [of "int n"] by (simp add: Rat.of_int_def)
  moreover have "(of_nat n :: rat) \<le> of_nat 9007199254740991 \<longleftrightarrow> n \<le> 9007199254740991"
    by (rule of_nat_le_iff)
  then have "\<bar>of_nat n :: rat\<bar> \<le> 9007199254740991 \<longleftrightarrow> n \<le> 9007199254740991"
    by (simp only: of_nat_numeral abs_of_nat)
  ultimately show ?thesis by (simp add: isSafeInteger_def)
qed

lemma state_json_back:
  "count st \<le> 9007199254740991 \<Longrightarrow> state_of_json (state_json st) = Some st"
  by (simp add: state_json_def isSafeInteger_nat)

lemma states_json_back:
  "\<forall>(sid, st) \<in> set cov. count st \<le> 9007199254740991 \<Longrightarrow>
   states_of_json (map (\<lambda>(sid, st). (sid, state_json st)) cov) = Some cov"
  by (induction cov) (auto simp: state_json_back simp del: state_of_json.simps)

lemma decode_encode:
  assumes codec: "json_codec parse print" and d: "distinct (map fst cov)"
    and small: "\<forall>(sid, st) \<in> set cov. count st \<le> 9007199254740991"
  shows "decodeCursor parse (encodeCursor print now task cov) =
           Inr \<lparr>p_taskId = task, issuedAt = now, covered = cov\<rparr>"
proof -
  let ?cov = "JObj (map (\<lambda>(sid, st). (sid, state_json st)) cov)"
  let ?j = "JObj [(''v'', JNum 2), (''taskId'', JStr task), (''issuedAt'', JStr now), (''covered'', ?cov)]"
  have "map fst (map (\<lambda>(sid, st). (sid, state_json st)) cov) = map fst cov" by auto
  moreover have "plain_json (state_json st)" if "(sid, st) \<in> set cov" for sid st
    using small that by (auto simp: state_json_def isSafeInteger_nat)
  ultimately have "plain_json ?cov" using d by (auto simp del: map_map)
  then have "plain_json ?j"
    using isSafeInteger_nat [of 2] by simp
  then have "parse (print ?j) = Some ?j" using codec by (simp add: json_codec_def)
  then show ?thesis
    using states_json_back [OF small] by (simp add: decodeCursor_def encodeCursor_def)
qed

lemma decode_covers:
  assumes "json_codec parse print" "covers sha snap cov w" "wf_snapshot snap"
  shows "decodeCursor parse (encodeCursor print now task cov) =
           Inr \<lparr>p_taskId = task, issuedAt = now, covered = cov\<rparr>"
proof (rule decode_encode [OF assms(1) covers_distinct [OF assms(2)]])
  have "count st \<le> 2000" if "(sid, st) \<in> set cov" for sid st
  proof -
    have "map_of cov sid = Some st" using that covers_distinct [OF assms(2)] by simp
    from covers_SomeD [OF assms(2) this] have "count st \<le> length (source_items snap sid)"
      by (simp add: good_state_def)
    with length_items_of [of snap sid "entries snap"] assms(3) show ?thesis
      unfolding wf_snapshot_def by linarith
  qed
  then show "\<forall>(sid, st) \<in> set cov. count st \<le> 9007199254740991" by fastforce
qed

subsection \<open>One continued read\<close>

definition unread :: "'d snapshot \<Rightarrow> (string \<times> string) set \<Rightarrow> entry_view list" where
  "unread snap S = filter (\<lambda>e. entry_key e \<notin> S) (entries snap)"

lemma filter_not_taken:
  "distinct (map f xs) \<Longrightarrow> filter (\<lambda>x. f x \<notin> f ` set (take n xs)) xs = drop n xs"
proof -
  assume d: "distinct (map f xs)"
  let ?p = "\<lambda>x. f x \<notin> f ` set (take n xs)"
  have "filter ?p xs = filter ?p (take n xs) @ filter ?p (drop n xs)"
    by (metis append_take_drop_id filter_append)
  moreover have "filter ?p (take n xs) = []" by (auto simp: filter_empty_conv)
  moreover have "f ` set (take n xs) \<inter> f ` set (drop n xs) = {}"
    using d by (metis append_take_drop_id distinct_append map_append set_map)
  then have "filter ?p (drop n xs) = drop n xs" by (auto simp: filter_id_conv)
  ultimately show ?thesis by simp
qed

lemma items_of_filter:
  "items_of snap sid (filter (\<lambda>e. entry_key e \<notin> S) es) =
     filter (\<lambda>item. (sid, fst item) \<notin> S) (items_of snap sid es)"
  by (induction es) (auto simp: items_of_Cons entry_key_def)

lemma unread_continues:
  assumes "wf_snapshot snap"
  shows "continues snap w (take n (unread snap (seen snap w)))"
proof -
  have "items_of snap sid (unread snap (seen snap w)) = drop (w sid) (source_items snap sid)" for sid
  proof -
    have "items_of snap sid (unread snap (seen snap w)) =
        filter (\<lambda>item. fst item \<notin> fst ` set (take (w sid) (source_items snap sid))) (source_items snap sid)"
      unfolding unread_def items_of_filter by (simp add: seen_def)
    also have "\<dots> = drop (w sid) (source_items snap sid)"
      using assms by (intro filter_not_taken distinct_items_of) (simp add: wf_snapshot_def)
    finally show ?thesis .
  qed
  then show ?thesis using items_of_take [of snap _ n "unread snap (seen snap w)"] by (simp add: continues_def)
qed

definition continue_from :: "string \<Rightarrow> rat option \<Rightarrow> selector" where
  "continue_from token lim =
     \<lparr>find_query = None, from_index = None, limit = lim, cursor_token = Some token,
      by_callId = None, by_filter = None, by_entryId = None, chunkIndex = None\<rparr>"

lemma read_continued:
  fixes b :: "('d, 'c) evidence_bundle"
  defines "snap \<equiv> b_snapshot b"
  assumes codec: "json_codec parse print" and c: "covers sha snap cov w" and wf: "wf_snapshot snap"
    and lim: "clampLimit lim = Inr n"
  defines "page \<equiv> take n (unread snap (seen snap w))"
  shows "readSubtaskEvidence sha parse print lower now b
           (continue_from (encodeCursor print before (taskId snap) cov) lim) =
         Inr ((base_read b ModeCursor)\<lparr>r_entries := some_entries page,
           cursor := Some (encodeCursor print now (taskId snap) (coverageAfterCursor sha cov snap page))\<rparr>)"
proof -
  note dec = decode_covers [OF codec c wf]
  have after: "entriesAfterCursor sha parse snap (encodeCursor print before (taskId snap) cov) =
      Inr (unread snap (seen snap w))"
    using after_watermark_iff [OF c]
    by (simp add: entriesAfterCursor_def validateCursor_def dec validate_covers [OF c wf] unread_def
        cong: filter_cong)
  have ne: "given (Some (encodeCursor print before (taskId snap) cov))"
    by (simp add: given_def encodeCursor_def CURSOR_TOKEN_PREFIX_def)
  show ?thesis
    using ne lim after dec
    by (simp add: readSubtaskEvidence_def continue_from_def readCursor_def given_def snap_def page_def Let_def)
qed

subsection \<open>Following a cursor\<close>

definition read_entries :: "('d, 'c) evidence_read \<Rightarrow> entry_view list" where
  "read_entries r = (case r_entries r of None \<Rightarrow> [] | Some es \<Rightarrow> es)"

text \<open>A reader that passes the token of each read to the next one: the time, the evidence and the
  limit of every read are given.\<close>

fun cursor_reads ::
  "(string \<Rightarrow> string) \<Rightarrow> (string \<Rightarrow> json option) \<Rightarrow> (json \<Rightarrow> string) \<Rightarrow> (units \<Rightarrow> units) \<Rightarrow> string
   \<Rightarrow> (string \<times> ('d, 'c) evidence_bundle \<times> rat option) list \<Rightarrow> navigation_error + entry_view list list" where
  "cursor_reads sha parse print lower token [] = Inr []"
| "cursor_reads sha parse print lower token ((now, b, lim) # later) =
     (case readSubtaskEvidence sha parse print lower now b (continue_from token lim) of
        Inl e \<Rightarrow> Inl e
      | Inr r \<Rightarrow>
          (case cursor_reads sha parse print lower (the (cursor r)) later of
             Inl e \<Rightarrow> Inl e
           | Inr pages \<Rightarrow> Inr (read_entries r # pages)))"

text \<open>What such a reader is meant to get: page after page of the entries it has not seen.\<close>

definition page_size :: "rat option \<Rightarrow> nat" where
  "page_size lim = (case clampLimit lim of Inr n \<Rightarrow> n | Inl _ \<Rightarrow> 0)"

fun unread_pages ::
  "(string \<times> string) set \<Rightarrow> (string \<times> ('d, 'c) evidence_bundle \<times> rat option) list \<Rightarrow> entry_view list list" where
  "unread_pages S [] = []"
| "unread_pages S ((now, b, lim) # later) =
     (let page = take (page_size lim) (unread (b_snapshot b) S)
      in page # unread_pages (S \<union> entry_key ` set page) later)"

fun growing :: "'d snapshot \<Rightarrow> (string \<times> ('d, 'c) evidence_bundle \<times> rat option) list \<Rightarrow> bool" where
  "growing s [] = True"
| "growing s ((now, b, lim) # later) =
     (wf_snapshot (b_snapshot b) \<and> grows s (b_snapshot b) \<and> isl (clampLimit lim) = False
      \<and> growing (b_snapshot b) later)"

lemma read_entries_some [simp]:
  "read_entries ((base_read b m)\<lparr>r_entries := some_entries es, cursor := t\<rparr>) = es"
  by (simp add: read_entries_def some_entries_def)

lemma cursor_reads_covered:
  assumes codec: "json_codec parse print"
  shows "covers sha s cov w \<Longrightarrow> growing s later \<Longrightarrow>
    cursor_reads sha parse print lower (encodeCursor print before (taskId s) cov) later =
      Inr (unread_pages (seen s w) later)"
proof (induction later arbitrary: s cov w before)
  case (Cons x later)
  obtain now b lim where x: "x = (now, b, lim)" by (cases x)
  let ?t = "b_snapshot b"
  from Cons.prems(2) x have wf: "wf_snapshot ?t" and gr: "grows s ?t" and rest: "growing ?t later"
    and lim: "clampLimit lim = Inr (page_size lim)"
    by (auto simp: page_size_def split: sum.splits)
  have task: "taskId s = taskId ?t" using gr by (simp add: grows_def)
  note c = covers_grows [OF gr Cons.prems(1)] and sn = seen_grows [OF gr Cons.prems(1)]
  let ?page = "take (page_size lim) (unread ?t (seen ?t w))"
  note cont = unread_continues [OF wf, of w "page_size lim"]
  note tail = Cons.IH [OF cover_entries_cover [OF c cont] rest, of now]
  show ?case
    using tail [unfolded seen_consume [OF cont], unfolded sn]
    by (simp add: x task read_continued [OF codec c wf lim] sn Let_def coverageAfterCursor_def)
qed simp

lemma unread_pages_distinct:
  "growing s later \<Longrightarrow> distinct (map entry_key (concat (unread_pages S later)))
     \<and> entry_key ` set (concat (unread_pages S later)) \<inter> S = {}"
proof (induction later arbitrary: s S)
  case (Cons x later)
  obtain now b lim where x: "x = (now, b, lim)" by (cases x)
  define page where "page = take (page_size lim) (unread (b_snapshot b) S)"
  define rest where "rest = concat (unread_pages (S \<union> entry_key ` set page) later)"
  have "distinct (map entry_key (unread (b_snapshot b) S))"
    using Cons.prems x by (simp add: unread_def wf_snapshot_def distinct_map_filter)
  then have "distinct (map entry_key page)" by (simp add: page_def flip: take_map)
  moreover have "entry_key ` set page \<inter> S = {}"
    by (auto simp: page_def unread_def dest!: in_set_takeD)
  moreover have "distinct (map entry_key rest)" "entry_key ` set rest \<inter> (S \<union> entry_key ` set page) = {}"
    using Cons.IH [of "b_snapshot b" "S \<union> entry_key ` set page"] Cons.prems x by (simp_all add: rest_def)
  moreover have "concat (unread_pages S (x # later)) = page @ rest"
    by (simp add: x Let_def page_def rest_def)
  ultimately show ?case
    by (simp only: map_append distinct_append set_map set_append image_Un) blast
qed simp

lemma range_covers:
  assumes "wf_snapshot snap"
  shows "covers sha snap (fold (cover_entry sha snap) (take n (entries snap)) [])
           (consume (take n (entries snap)) (\<lambda>_. 0))"
    and "seen snap (consume (take n (entries snap)) (\<lambda>_. 0)) = entry_key ` set (take n (entries snap))"
proof -
  have c: "covers sha snap [] (\<lambda>_. 0)" by (simp add: covers_def)
  have p: "continues snap (\<lambda>_. 0) (take n (entries snap))"
    by (simp add: continues_def items_of_take)
  show "covers sha snap (fold (cover_entry sha snap) (take n (entries snap)) [])
           (consume (take n (entries snap)) (\<lambda>_. 0))"
    by (rule cover_entries_cover [OF c p])
  show "seen snap (consume (take n (entries snap)) (\<lambda>_. 0)) = entry_key ` set (take n (entries snap))"
    by (simp add: seen_consume [OF p]) (simp add: seen_def)
qed

lemma base_read_mode [simp]: "mode (base_read b m) = m"
  by (simp add: base_read_def)

lemma call_read_mode [simp]: "mode (call_read b c r st) = ModeCall"
  by (simp add: call_read_def)

lemma readEntry_mode: "readEntry b sel = Inr r \<Longrightarrow> mode r = ModeEntry"
  unfolding readEntry_def Let_def by (auto split: sum.splits option.splits)

lemma readCall_mode: "readCall b sel = Inr r \<Longrightarrow> mode r = ModeCall"
  unfolding readCall_def Let_def by (fastforce split: if_split_asm option.split_asm prod.split_asm)

lemma readCursor_mode: "readCursor sha parse print now b sel = Inr r \<Longrightarrow> mode r = ModeCursor"
  unfolding readCursor_def Let_def by (auto split: if_splits sum.splits)

lemma readFind_mode: "readFind lower b sel = Inr r \<Longrightarrow> mode r = ModeFind"
  unfolding readFind_def Let_def by (auto split: if_splits prod.splits)

lemma range_mode:
  "readSubtaskEvidence sha parse print lower now b sel = Inr r \<Longrightarrow> mode r = ModeRange \<Longrightarrow>
   readRange sha print now b sel = Inr r"
  unfolding readSubtaskEvidence_def by (auto dest: readEntry_mode readCall_mode readCursor_mode readFind_mode split: if_splits)

lemma readRange_cursor:
  assumes "readRange sha print now b sel = Inr r" "cursor r = Some token"
  obtains start k where "r_entries r = some_entries (slice (entries (b_snapshot b)) start (start + k))"
    "slice (entries (b_snapshot b)) start (start + k) \<noteq> []"
    "token = encodeCursor print now (taskId (b_snapshot b)) (coverageAfterRange sha (b_snapshot b)
       (start + length (slice (entries (b_snapshot b)) start (start + k)) - 1))"
proof -
  obtain g n where gn: "requireNonNegativeInt (from_index sel) = Inr g" "clampLimit (limit sel) = Inr n"
    using assms(1) unfolding readRange_def Let_def by (auto split: sum.splits)
  define start where "start = (case g of Some n \<Rightarrow> n | None \<Rightarrow> 0)"
  note r = assms(1) [unfolded readRange_def Let_def gn sum.case, folded start_def]
  have ns: "by_filter sel = None \<and> slice (entries (b_snapshot b)) start (start + n) \<noteq> []"
    using r assms(2) by (auto split: if_splits)
  from r ns have "r = (base_read b ModeRange)
      \<lparr>r_entries := some_entries (slice (entries (b_snapshot b)) start (start + n)),
       nextIndex := nextIndex r,
       cursor := Some (encodeCursor print now (taskId (b_snapshot b)) (coverageAfterRange sha (b_snapshot b)
         (start + length (slice (entries (b_snapshot b)) start (start + n)) - 1)))\<rparr>"
    by (auto split: if_splits)
  then have "r_entries r = some_entries (slice (entries (b_snapshot b)) start (start + n))"
    "cursor r = Some (encodeCursor print now (taskId (b_snapshot b)) (coverageAfterRange sha (b_snapshot b)
         (start + length (slice (entries (b_snapshot b)) start (start + n)) - 1)))"
    by (metis evidence_read.select_convs(5) evidence_read.surjective evidence_read.update_convs(5,6,11),
        metis evidence_read.select_convs(11) evidence_read.surjective evidence_read.update_convs(5,6,11))
  with assms(2) ns that [of start n] show thesis by simp
qed

lemma range_read:
  assumes "readSubtaskEvidence sha parse print lower now b sel = Inr r" "mode r = ModeRange"
    "cursor r = Some token"
  obtains n where "suffix (read_entries r) (take n (entries (b_snapshot b)))"
    "token = encodeCursor print now (taskId (b_snapshot b))
       (fold (cover_entry sha (b_snapshot b)) (take n (entries (b_snapshot b))) [])"
proof -
  let ?es = "entries (b_snapshot b)"
  obtain start k where r: "r_entries r = some_entries (slice ?es start (start + k))"
    "slice ?es start (start + k) \<noteq> []"
    "token = encodeCursor print now (taskId (b_snapshot b))
       (coverageAfterRange sha (b_snapshot b) (start + length (slice ?es start (start + k)) - 1))"
    by (rule readRange_cursor [OF range_mode [OF assms(1,2)] assms(3)])
  let ?n = "start + length (slice ?es start (start + k))"
  have "?n - 1 + 1 = ?n" using r(2) by (cases "slice ?es start (start + k)") auto
  moreover have "take ?n ?es = take start ?es @ slice ?es start (start + k)"
    by (auto simp: slice_def take_add min_def)
  ultimately show thesis
    using r that [of ?n] by (simp add: coverageAfterRange_def read_entries_def some_entries_def suffix_def)
qed

text \<open>
  C3. Whoever reads a range without a filter and then follows the cursor of each read to the next
  one gets, page after page, exactly the entries not read before in the order of the snapshot, as
  long as every source only grows in between: no entry comes twice, and none is skipped.  The range
  counts as having consumed everything up to its end.
\<close>

theorem cursor_reads_each_entry_once:
  assumes "json_codec parse print" and "wf_snapshot (b_snapshot b)"
    and "readSubtaskEvidence sha parse print lower now b sel = Inr r"
    and "mode r = ModeRange" and "cursor r = Some token"
    and "growing (b_snapshot b) later"
  shows "\<exists>consumed. prefix consumed (entries (b_snapshot b)) \<and> suffix (read_entries r) consumed
    \<and> cursor_reads sha parse print lower token later =
        Inr (unread_pages (entry_key ` set consumed) later)
    \<and> distinct (map entry_key (consumed @ concat (unread_pages (entry_key ` set consumed) later)))"
proof -
  obtain n where n: "suffix (read_entries r) (take n (entries (b_snapshot b)))"
    "token = encodeCursor print now (taskId (b_snapshot b))
       (fold (cover_entry sha (b_snapshot b)) (take n (entries (b_snapshot b))) [])"
    using range_read [OF assms(3-5)] .
  let ?c = "take n (entries (b_snapshot b))"
  have "cursor_reads sha parse print lower token later = Inr (unread_pages (entry_key ` set ?c) later)"
    using cursor_reads_covered [OF assms(1) range_covers(1) [OF assms(2)] assms(6)]
      range_covers(2) [OF assms(2)] n(2) by simp
  moreover have "distinct (map entry_key ?c)"
    using assms(2) by (simp add: wf_snapshot_def flip: take_map)
  moreover note unread_pages_distinct [OF assms(6), of "entry_key ` set ?c"]
  ultimately have "prefix ?c (entries (b_snapshot b)) \<and> suffix (read_entries r) ?c
    \<and> cursor_reads sha parse print lower token later = Inr (unread_pages (entry_key ` set ?c) later)
    \<and> distinct (map entry_key (?c @ concat (unread_pages (entry_key ` set ?c) later)))"
    using n(1) by (simp only: map_append distinct_append set_map take_is_prefix) blast
  then show ?thesis by blast
qed

subsection \<open>Changed evidence\<close>

text \<open>Digests in hexadecimal, and the texts hashed for the links of a chain.\<close>

definition hex_output :: "(string \<Rightarrow> string) \<Rightarrow> bool" where
  "hex_output sha \<longleftrightarrow> (\<forall>x. set (sha x) \<subseteq> set ''0123456789abcdef'')"

definition chain_inputs :: "(string \<Rightarrow> string) \<Rightarrow> string \<Rightarrow> digest_list \<Rightarrow> string set" where
  "chain_inputs sha sid items =
     (\<lambda>i. chain_of sha sid (take i items) @ '':'' @ snd (items ! i)) ` {..<length items}"

lemma chain_of_hex: "hex_output sha \<Longrightarrow> CHR '':'' \<notin> set (chain_of sha sid items)"
proof (induction items rule: rev_induct)
  case Nil
  then have "set (initialChain sha sid) \<subseteq> set ''0123456789abcdef''" by (simp only: hex_output_def initialChain_def)
  then show ?case by (auto simp: chain_of_def)
next
  case (snoc item items)
  then have "set (chain_of sha sid (items @ [item])) \<subseteq> set ''0123456789abcdef''"
    by (simp add: chain_of_def chain_from_def link_def hex_output_def)
  then show ?case by auto
qed

lemma append_sep_inject: "c \<notin> set xs \<Longrightarrow> c \<notin> set ys \<Longrightarrow> xs @ c # us = ys @ c # vs \<longleftrightarrow> xs = ys \<and> us = vs"
proof (induction xs arbitrary: ys)
  case Nil
  then show ?case by (cases ys) auto
next
  case (Cons x xs)
  then show ?case by (cases ys) auto
qed

lemma chain_of_take_Suc:
  "n < length items \<Longrightarrow>
   chain_of sha sid (take (Suc n) items) = sha (chain_of sha sid (take n items) @ '':'' @ snd (items ! n))"
  by (simp add: chain_of_def chain_from_def link_def take_Suc_conv_app_nth)

lemma chain_binds_digests:
  assumes "hex_output sha" "inj_on sha (chain_inputs sha sid xs \<union> chain_inputs sha sid ys)"
  shows "n \<le> length xs \<Longrightarrow> n \<le> length ys \<Longrightarrow> chain_of sha sid (take n xs) = chain_of sha sid (take n ys) \<Longrightarrow>
    map snd (take n xs) = map snd (take n ys)"
proof (induction n)
  case (Suc n)
  let ?t = "\<lambda>zs. chain_of sha sid (take n zs) @ '':'' @ snd (zs ! n)"
  have lt: "n < length xs" "n < length ys" using Suc.prems by auto
  then have "?t xs \<in> chain_inputs sha sid xs" "?t ys \<in> chain_inputs sha sid ys"
    by (auto simp: chain_inputs_def)
  moreover have "sha (?t xs) = sha (?t ys)"
    using Suc.prems(3) lt by (simp only: chain_of_take_Suc)
  ultimately have "?t xs = ?t ys" using assms(2) by (meson UnI1 UnI2 inj_onD)
  then have "chain_of sha sid (take n xs) = chain_of sha sid (take n ys)" "snd (xs ! n) = snd (ys ! n)"
    using append_sep_inject [OF chain_of_hex [OF assms(1)] chain_of_hex [OF assms(1)]] by auto
  with Suc.IH lt show ?case by (simp add: take_Suc_conv_app_nth)
qed simp

lemma validate_states_accepts:
  "validate_states sha (buildSourceDigestLists t) cov resume = Inr out \<Longrightarrow> (sid, st) \<in> set cov \<Longrightarrow>
   \<exists>i. ordinal_of (source_items t sid) (last_key st) = Some i \<and> count st = Suc i
     \<and> chain st = chain_of sha sid (take (Suc i) (source_items t sid))"
  by (induction sha "buildSourceDigestLists t" cov resume rule: validate_states.induct)
    (auto simp: lookup_digest_lists foldCoveredPrefix_eq split: if_splits option.splits)

text \<open>
  C26. A cursor that still validates against a later snapshot proves that the covered prefix of every
  source it names is unchanged: the task is the same, the source still has that many records, their
  digests are those that were covered, and the last of them is the same record.  Nothing is assumed
  of the later snapshot; SHA-256 is only assumed not to collide on the texts these chains hash.
\<close>

theorem accepted_cursor_proves_prefix:
  assumes "json_codec parse print" and "hex_output sha"
    and "wf_snapshot s" and "covers sha s cov w" and "0 < w sid"
    and "inj_on sha (chain_inputs sha sid (source_items s sid) \<union> chain_inputs sha sid (source_items t sid))"
    and "validateCursor sha parse t (encodeCursor print now (taskId s) cov) = Inr resume"
  shows "taskId t = taskId s \<and> w sid \<le> length (source_items t sid)
    \<and> map snd (take (w sid) (source_items t sid)) = map snd (take (w sid) (source_items s sid))
    \<and> fst (source_items t sid ! (w sid - 1)) = fst (source_items s sid ! (w sid - 1))"
proof -
  obtain st where st: "map_of cov sid = Some st"
    using covers_NoneD [OF assms(4), of sid] assms(5) by (cases "map_of cov sid") auto
  have g: "good_state sha s sid st (w sid)" using covers_SomeD [OF assms(4) st] .
  have v: "taskId t = taskId s"
    "validate_states sha (buildSourceDigestLists t) cov Map.empty = Inr resume"
    using assms(7) by (auto simp: validateCursor_def decode_covers [OF assms(1,4,3)] split: if_splits)
  obtain i where i: "ordinal_of (source_items t sid) (last_key st) = Some i" "count st = Suc i"
    "chain st = chain_of sha sid (take (Suc i) (source_items t sid))"
    using validate_states_accepts [OF v(2) map_of_SomeD [OF st]] by blast
  have at: "i < length (source_items t sid)" "fst (source_items t sid ! i) = last_key st"
    using find_index_SomeD [of "\<lambda>item. fst item = last_key st"] i(1) by (auto simp: ordinal_of_def)
  have w: "w sid = Suc i" using g i(2) by (simp add: good_state_def)
  have "map snd (take (w sid) (source_items s sid)) = map snd (take (w sid) (source_items t sid))"
    using g at(1) i(3) by (intro chain_binds_digests [OF assms(2,6)]) (simp_all add: good_state_def w)
  with v(1) at g w show ?thesis by (simp add: good_state_def)
qed

subsection \<open>Deep reads\<close>

definition read_chunk :: "string \<Rightarrow> nat \<Rightarrow> selector" where
  "read_chunk eid i =
     \<lparr>find_query = None, from_index = None, limit = None, cursor_token = None,
      by_callId = None, by_filter = None, by_entryId = Some eid, chunkIndex = Some (of_nat i)\<rparr>"

text \<open>A reader that follows \<open>nextChunk\<close> and concatenates what it gets; the fuel bounds the number
  of reads, and too little of it is \<open>None\<close>.\<close>

fun deep_reads ::
  "(string \<Rightarrow> string) \<Rightarrow> (string \<Rightarrow> json option) \<Rightarrow> (json \<Rightarrow> string) \<Rightarrow> (units \<Rightarrow> units) \<Rightarrow> string
   \<Rightarrow> ('d, 'c) evidence_bundle \<Rightarrow> string \<Rightarrow> nat \<Rightarrow> nat \<Rightarrow> units option" where
  "deep_reads sha parse print lower now b eid 0 i = None"
| "deep_reads sha parse print lower now b eid (Suc fuel) i =
     (case readSubtaskEvidence sha parse print lower now b (read_chunk eid i) of
        Inl e \<Rightarrow> None
      | Inr r \<Rightarrow>
          (case deepContent r of
             None \<Rightarrow> None
           | Some d \<Rightarrow>
               (case nextChunk d of
                  None \<Rightarrow> Some (content d)
                | Some j \<Rightarrow>
                    map_option ((@) (content d)) (deep_reads sha parse print lower now b eid fuel j))))"

definition chunk_start :: "units \<Rightarrow> nat \<Rightarrow> nat" where
  "chunk_start s i = (if i = 0 then 0 else min (chunkBoundary s (i - 1)) (length s))"

lemma chunkBoundary_ge: "(i + 1) * 8000 \<le> chunkBoundary s i" "chunkBoundary s i \<le> (i + 1) * 8000 + 1"
  by (simp_all add: chunkBoundary_def Let_def EVIDENCE_DEEP_CHUNK_CHARS_def)

lemma chunk_start_le: "chunk_start s i \<le> min (chunkBoundary s i) (length s)"
  using chunkBoundary_ge(1) [of i s] chunkBoundary_ge(2) [of s "i - 1"] by (cases i) (auto simp: chunk_start_def)

lemma chunkBoundary_no_split: "\<not> splits_pair s (chunkBoundary s i)"
proof -
  let ?c = "(i + 1) * EVIDENCE_DEEP_CHUNK_CHARS"
  have pos: "0 < ?c" by (simp add: EVIDENCE_DEEP_CHUNK_CHARS_def)
  show ?thesis
  proof (cases "unit_at high_surrogate s (?c - 1) \<and> unit_at low_surrogate s ?c")
    case True
    then have "low_surrogate (s ! ?c)" by (simp add: unit_at_def js_nth_def split: if_splits)
    then have "\<not> high_surrogate (s ! ?c)" using high_not_low by blast
    with True show ?thesis by (simp add: chunkBoundary_def Let_def splits_pair_def)
  next
    case False
    then show ?thesis
      using pos by (auto simp: chunkBoundary_def Let_def splits_pair_def unit_at_def js_nth_def)
  qed
qed

lemma read_one_chunk:
  assumes "find (\<lambda>e. entryId e = eid) (entries (b_snapshot b)) = Some e" "eid \<noteq> ''''" "i \<le> 9007199254740991"
  shows "\<exists>r d. readSubtaskEvidence sha parse print lower now b (read_chunk eid i) = Inr r \<and> deepContent r = Some d
    \<and> content d = slice (retained_content (b_snapshot b) eid) (chunk_start (retained_content (b_snapshot b) eid) i)
        (min (chunkBoundary (retained_content (b_snapshot b) eid) i) (length (retained_content (b_snapshot b) eid)))
    \<and> nextChunk d = (if chunkBoundary (retained_content (b_snapshot b) eid) i < length (retained_content (b_snapshot b) eid)
        then Some (Suc i) else None)"
  using assms isSafeInteger_nat [of i]
  by (simp add: readSubtaskEvidence_def read_chunk_def given_def readEntry_def Let_def chunk_start_def min_def)

lemma deep_reads_from:
  assumes "find (\<lambda>e. entryId e = eid) (entries (b_snapshot b)) = Some e" "eid \<noteq> ''''"
    and s: "s = retained_content (b_snapshot b) eid"
  shows "length s < (i + fuel) * 8000 \<Longrightarrow> i + fuel \<le> 9007199254740991 \<Longrightarrow> 0 < fuel \<Longrightarrow>
    deep_reads sha parse print lower now b eid fuel i = Some (drop (chunk_start s i) s)"
proof (induction fuel arbitrary: i)
  case (Suc fuel)
  then have small: "i \<le> 9007199254740991" by simp
  obtain r d where r: "readSubtaskEvidence sha parse print lower now b (read_chunk eid i) = Inr r"
    "deepContent r = Some d"
    "content d = slice s (chunk_start s i) (min (chunkBoundary s i) (length s))"
    "nextChunk d = (if chunkBoundary s i < length s then Some (Suc i) else None)"
    using read_one_chunk [OF assms(1,2) small] unfolding s by blast
  show ?case
  proof (cases "chunkBoundary s i < length s")
    case True
    then have "0 < fuel" using Suc.prems(1) chunkBoundary_ge(1) [of i s] by (cases fuel) auto
    then have "deep_reads sha parse print lower now b eid fuel (Suc i) = Some (drop (chunk_start s (Suc i)) s)"
      using Suc by simp
    moreover have "slice s (chunk_start s i) (chunkBoundary s i) @ drop (chunkBoundary s i) s = drop (chunk_start s i) s"
      using chunk_start_le [of s i] by (intro slice_append_drop) simp
    ultimately show ?thesis using r True by (simp add: chunk_start_def)
  next
    case False
    have "slice s (chunk_start s i) (length s) = drop (chunk_start s i) s"
      by (simp add: slice_def)
    with r False show ?thesis by simp
  qed
qed simp

text \<open>
  C36. Following \<open>nextChunk\<close> from the first chunk ends within one read per 8000 code units and one
  more, the chunks concatenate to the retained content, and no chunk boundary cuts a surrogate pair.
\<close>

theorem deep_reads_lossless:
  assumes "find (\<lambda>e. entryId e = eid) (entries (b_snapshot b)) = Some e" and "eid \<noteq> ''''"
    and "contentByEntryId (b_snapshot b) eid = Some s" and "length s < 9007199254740991"
  shows "deep_reads sha parse print lower now b eid (length s div 8000 + 1) 0 = Some s
    \<and> \<not> splits_pair s (chunkBoundary s i)"
proof -
  have s: "s = retained_content (b_snapshot b) eid" using assms(3) by (simp add: retained_content_def)
  have "length s < (0 + (length s div 8000 + 1)) * 8000"
    using dividend_less_div_times [of 8000 "length s"] by simp
  moreover have "0 + (length s div 8000 + 1) \<le> 9007199254740991"
    using assms(4) div_le_dividend [of "length s" 8000] by linarith
  moreover have "0 < length s div 8000 + 1" by simp
  ultimately have "deep_reads sha parse print lower now b eid (length s div 8000 + 1) 0 =
      Some (drop (chunk_start s 0) s)"
    by (rule deep_reads_from [OF assms(1,2) s])
  then show ?thesis using chunkBoundary_no_split by (simp only: chunk_start_def if_True drop_0 simp_thms)
qed

subsection \<open>Call pairs\<close>

lemma linked_pair_mutual:
  "linked_pair all calls = Some (c, r) \<Longrightarrow>
   c \<in> set calls \<and> r \<in> set all \<and> kind r = KToolResult
   \<and> pairedWith c = Some (entryId r) \<and> pairedWith r = Some (entryId c)"
  by (induction all calls rule: linked_pair.induct)
    (auto simp: find_Some_iff split: option.splits if_splits)

lemma scoped_pair_linked:
  assumes "readCall b sel = Inr r" "callPair r = Some \<lparr>pair_call = Some c, pair_result = Some e, pair_status = st\<rparr>"
    "pairingScopedToSource c"
  shows "st = EReturned \<and> pairedWith c = Some (entryId e) \<and> pairedWith e = Some (entryId c)"
proof -
  define all where "all = entries (b_snapshot b)"
  define calls where "calls = filter (\<lambda>e. kind e = KToolCall \<and> callId e = by_callId sel) all"
  define results where "results = filter (\<lambda>e. kind e = KToolResult \<and> callId e = by_callId sel) all"
  note r = assms(1) [unfolded readCall_def Let_def, folded all_def, folded calls_def results_def]
  show ?thesis
  proof (cases "linked_pair all calls")
    case (Some p)
    then show ?thesis
      using r assms(2) linked_pair_mutual [of all calls "fst p" "snd p"]
      by (cases p) (auto simp: call_read_def split: if_splits)
  next
    case None
    then have "c \<in> set calls"
      using r assms(2) by (auto simp: call_read_def js_nth_Some_iff split: if_splits)
    then have "list_ex pairingScopedToSource (calls @ results)" using assms(3) by (auto simp: list_ex_iff)
    then show ?thesis using None r assms(2) by (auto simp: call_read_def split: if_splits)
  qed
qed

subsection \<open>Concrete reads\<close>

definition sample_entry :: "string \<Rightarrow> string \<Rightarrow> entry_view" where
  "sample_entry sid key =
     \<lparr>index = 0, entryId = sid @ ''/'' @ key, at_time = None, kind = KClaim, callId = None, toolName = None,
      status = None, provenance = WorkerClaim, preview = [], contentBytes = 2, truncatedContent = False,
      pairedWith = None, pairingScopedToSource = False,
      source = \<lparr>sourceId = sid, adapter = ''pi'', stream = StreamStdout, sourceFile = None, recordKey = key\<rparr>\<rparr>"

definition sample_bundle :: "entry_view list \<Rightarrow> (unit, unit) evidence_bundle" where
  "sample_bundle es =
     \<lparr>b_snapshot = \<lparr>taskId = ''t1'', display = (), contentByEntryId = [''a/L1'' \<mapsto> [0x68, 0x69]],
                    digestByEntryId = (\<lambda>_. Some ''0a''), entries = es\<rparr>,
      b_context = None\<rparr>"

definition sample_sha :: "string \<Rightarrow> string" where
  "sample_sha x = concat (map (\<lambda>c. [''0123456789abcdef'' ! (of_char c div 16 mod 16),
                                   ''0123456789abcdef'' ! (of_char c mod 16)]) x)"

definition sample_print :: "json \<Rightarrow> string" where
  "sample_print j = nat_str (to_nat j)"

definition sample_parse :: "string \<Rightarrow> json option" where
  "sample_parse t = Some (from_nat (digits_val t))"

lemma sample_codec: "json_codec sample_parse sample_print"
  by (simp add: json_codec_def sample_parse_def sample_print_def)

lemma sample_hex: "hex_output sample_sha"
proof -
  have "''0123456789abcdef'' ! (n mod 16) \<in> set ''0123456789abcdef''" for n :: nat
    by (rule nth_mem) simp
  then show ?thesis by (simp only: hex_output_def sample_sha_def) auto
qed

definition sample_range :: selector where
  "sample_range = (read_chunk '''' 0)\<lparr>limit := Some 1, by_entryId := None\<rparr>"

definition sample_later :: "(string \<times> (unit, unit) evidence_bundle \<times> rat option) list" where
  "sample_later =
     [(''12:01'', sample_bundle [sample_entry ''a'' ''L1'', sample_entry ''a'' ''L2'', sample_entry ''b'' ''L1''], Some 1),
      (''12:02'', sample_bundle [sample_entry ''a'' ''L1'', sample_entry ''a'' ''L2'', sample_entry ''b'' ''L1''], None)]"

lemmas sample_defs = sample_entry_def sample_bundle_def sample_range_def sample_later_def read_chunk_def

lemma sample_wf: "wf_snapshot (b_snapshot (sample_bundle [sample_entry ''a'' ''L1'', sample_entry ''b'' ''L1'']))"
  by (simp add: sample_defs wf_snapshot_def entry_key_def)

lemma isSafeInteger_1: "isSafeInteger 1"
  using isSafeInteger_nat [of 1] by simp

lemma sample_growing:
  "growing (b_snapshot (sample_bundle [sample_entry ''a'' ''L1'', sample_entry ''b'' ''L1''])) sample_later"
  by (simp add: sample_defs wf_snapshot_def entry_key_def grows_def items_of_Cons digest_of_def isSafeInteger_1)

theorem cursor_reads_each_entry_once_witness:
  "\<exists>r token consumed. cursor r = Some token
    \<and> readSubtaskEvidence sample_sha sample_parse sample_print (\<lambda>q. q) ''12:00''
        (sample_bundle [sample_entry ''a'' ''L1'', sample_entry ''b'' ''L1'']) sample_range = Inr r
    \<and> suffix (read_entries r) consumed
    \<and> cursor_reads sample_sha sample_parse sample_print (\<lambda>q. q) token sample_later =
        Inr (unread_pages (entry_key ` set consumed) sample_later)"
proof -
  let ?b = "sample_bundle [sample_entry ''a'' ''L1'', sample_entry ''b'' ''L1'']"
  obtain r token where r: "readSubtaskEvidence sample_sha sample_parse sample_print (\<lambda>q. q) ''12:00'' ?b sample_range = Inr r"
    "mode r = ModeRange" "cursor r = Some token"
    by (simp add: sample_defs readSubtaskEvidence_def readRange_def given_def isSafeInteger_1 base_read_def
        EVIDENCE_LIMIT_MAX_def)
  from cursor_reads_each_entry_once [OF sample_codec sample_wf r sample_growing] r
  show ?thesis by blast
qed

theorem accepted_cursor_proves_prefix_witness:
  "\<exists>cov w (t :: unit snapshot). covers sample_sha (b_snapshot (sample_bundle [sample_entry ''a'' ''L1'', sample_entry ''b'' ''L1''])) cov w
    \<and> w ''a'' = 1 \<and> map snd (take 1 (source_items t ''a'')) = [''0a''] \<and> length (entries t) = 3"
proof -
  define s where "s = b_snapshot (sample_bundle [sample_entry ''a'' ''L1'', sample_entry ''b'' ''L1''])"
  define t where "t = b_snapshot (sample_bundle [sample_entry ''a'' ''L1'', sample_entry ''c'' ''L2'', sample_entry ''b'' ''L1''])"
  define w where "w = consume (take 1 (entries s)) (\<lambda>_. 0)"
  define cov where "cov = fold (cover_entry sample_sha s) (take 1 (entries s)) []"
  have wf: "wf_snapshot s" using sample_wf by (simp add: s_def)
  have c: "covers sample_sha s cov w" unfolding cov_def w_def by (rule range_covers(1) [OF wf])
  have g: "grows s t" by (simp add: s_def t_def sample_defs grows_def items_of_Cons digest_of_def)
  have t: "wf_snapshot t" "length (entries t) = 3"
    by (simp_all add: t_def sample_defs wf_snapshot_def entry_key_def)
  have w: "w ''a'' = 1" by (simp add: w_def s_def sample_defs consume_def of_source_def)
  have v: "validateCursor sample_sha sample_parse t (encodeCursor sample_print ''12:00'' (taskId s) cov) =
      Inr (watermark cov w)"
    using validate_covers [OF covers_grows [OF g c] t(1)] g
    by (simp add: validateCursor_def decode_covers [OF sample_codec c wf] grows_def)
  have items: "source_items s ''a'' = [(''L1'', ''0a'')]" "source_items t ''a'' = [(''L1'', ''0a'')]"
    by (simp_all add: s_def t_def sample_defs items_of_Cons digest_of_def)
  then have "inj_on sample_sha (chain_inputs sample_sha ''a'' (source_items s ''a'')
      \<union> chain_inputs sample_sha ''a'' (source_items t ''a''))"
    by (simp add: chain_inputs_def lessThan_Suc)
  from accepted_cursor_proves_prefix [OF sample_codec sample_hex wf c _ this v] w items
  have "map snd (take 1 (source_items t ''a'')) = [''0a'']" by simp
  with c w t(2) show ?thesis unfolding s_def by (intro exI conjI)
qed

theorem deep_reads_lossless_witness:
  "deep_reads sample_sha sample_parse sample_print (\<lambda>q. q) ''12:00'' (sample_bundle [sample_entry ''a'' ''L1'']) ''a/L1''
     (length [0x68 :: 16 word, 0x69] div 8000 + 1) 0 = Some [0x68, 0x69]"
  using deep_reads_lossless [of "''a/L1''" "sample_bundle [sample_entry ''a'' ''L1'']" "sample_entry ''a'' ''L1''" "[0x68, 0x69]"]
  by (simp add: sample_entry_def sample_bundle_def del: deep_reads.simps)

end
