(* ===== verification/Task_State.thy ===== *)
theory Task_State
  imports Prelude
begin

text \<open>
  The bookkeeping of a background task, \<open>src/src/execution/task-state.ts\<close>: lifecycle transitions,
  the accumulation of the time spent in each phase, and the bounded histories.

  A time stamp is the value \<open>Date.parse\<close> gives for it, in milliseconds, and \<open>None\<close> when the text
  is no date; the code only parses and stores stamps.  The clock reading is an argument.
\<close>

type_synonym stamp = "int option"

datatype task_state = SQueued | SCapturing | SRunning | SReviewing | SAccepted | SWaitingToLand
  | SLanding | SLanded | SReported | SFailed | SInterrupted | SConflicted | SPausedRecoverable
  | SStoppedForApplicationExit

datatype task_kind = KExecute | KResearch | KInplace

definition MAX_ACTIVITY :: nat where "MAX_ACTIVITY = 200"
definition MAX_STATE_HISTORY :: nat where "MAX_STATE_HISTORY = 64"

definition isInPlaceKind :: "task_kind \<Rightarrow> bool" where
  "isInPlaceKind k \<longleftrightarrow> k = KInplace"

definition workerRouteKeyForKind :: "task_kind \<Rightarrow> task_kind" where
  "workerRouteKeyForKind k = (if k = KResearch then KResearch else KExecute)"

definition isWriteCapableKind :: "task_kind \<Rightarrow> bool" where
  "isWriteCapableKind k \<longleftrightarrow> k = KExecute \<or> k = KInplace"

definition ACTIVE_TASK_STATES :: "task_state list" where
  "ACTIVE_TASK_STATES = [SQueued, SCapturing, SRunning, SReviewing, SAccepted, SWaitingToLand, SLanding]"

definition isActiveTaskState :: "task_state \<Rightarrow> bool" where
  "isActiveTaskState s \<longleftrightarrow> s \<in> set ACTIVE_TASK_STATES"

definition isInterruptibleTaskState :: "task_state \<Rightarrow> bool" where
  "isInterruptibleTaskState s = isActiveTaskState s"

definition isForceMergeCandidateTaskState :: "task_state \<Rightarrow> bool" where
  "isForceMergeCandidateTaskState s = (\<not> isActiveTaskState s)"

record activity_event =
  av_sequence :: nat
  av_at :: stamp
  av_phase :: string
  av_message :: string

record state_transition =
  st_sequence :: nat
  st_state :: task_state
  st_at :: stamp
  st_generation :: nat

record timing =
  queueMs :: int
  captureMs :: int
  executionMs :: int
  reviewMs :: int
  landingMs :: int
  stateEnteredAt :: stamp
  terminalAt :: "stamp option"

datatype command_action = CmdContinue | CmdSteer | CmdInterrupt | CmdForceMerge

record command_record =
  instructionId :: string
  action :: command_action
  ambiguousPaths :: "string list option"

record task =
  t_state :: task_state
  createdAt :: stamp
  updatedAt :: stamp
  generation :: nat
  activity :: "activity_event list"
  nextActivitySequence :: nat
  stateHistory :: "state_transition list option"
  nextStateSequence :: "nat option"
  timingAccumulator :: "timing option"
  commands :: "command_record list"

subsection \<open>Timing\<close>

definition emptyTimingAccumulator :: "stamp \<Rightarrow> timing" where
  "emptyTimingAccumulator at = \<lparr>queueMs = 0, captureMs = 0, executionMs = 0, reviewMs = 0,
     landingMs = 0, stateEnteredAt = at, terminalAt = None\<rparr>"

definition elapsed :: "stamp \<Rightarrow> stamp \<Rightarrow> int" where
  "elapsed start fin =
     (case (start, fin) of (Some s, Some e) \<Rightarrow> max 0 (e - s) | _ \<Rightarrow> 0)"

definition accumulateStateDuration :: "timing \<Rightarrow> task_state \<Rightarrow> stamp \<Rightarrow> stamp \<Rightarrow> timing" where
  "accumulateStateDuration totals s startAt endAt =
     (if \<not> isActiveTaskState s then totals
      else (let ms = elapsed startAt endAt in
            if s = SQueued then totals\<lparr>queueMs := queueMs totals + ms\<rparr>
            else if s = SCapturing then totals\<lparr>captureMs := captureMs totals + ms\<rparr>
            else if s = SRunning then totals\<lparr>executionMs := executionMs totals + ms\<rparr>
            else if s = SReviewing then totals\<lparr>reviewMs := reviewMs totals + ms\<rparr>
            else totals\<lparr>landingMs := landingMs totals + ms\<rparr>))"

fun accumulate_history :: "state_transition list \<Rightarrow> timing \<Rightarrow> timing" where
  "accumulate_history (a # b # hs) totals =
     accumulate_history (b # hs) (accumulateStateDuration totals (st_state a) (st_at a) (st_at b))"
| "accumulate_history _ totals = totals"

definition initial_history :: "task \<Rightarrow> state_transition list" where
  "initial_history t = [\<lparr>st_sequence = 1, st_state = t_state t, st_at = createdAt t, st_generation = generation t\<rparr>]"

definition rebuild_timing :: "task \<Rightarrow> timing" where
  "rebuild_timing t =
     (let history = (case stateHistory t of
                       Some h \<Rightarrow> (if h \<noteq> [] then h else initial_history t)
                     | None \<Rightarrow> initial_history t);
          timing = accumulate_history history (emptyTimingAccumulator (st_at (hd history)));
          entered = st_at (last history)
      in timing\<lparr>stateEnteredAt := entered,
                terminalAt := (if isActiveTaskState (t_state t) then None else Some entered)\<rparr>)"

definition ensureTimingAccumulator :: "task \<Rightarrow> timing \<times> task" where
  "ensureTimingAccumulator t =
     (case timingAccumulator t of
        Some timing \<Rightarrow> (timing, t)
      | None \<Rightarrow> (let timing = rebuild_timing t in (timing, t\<lparr>timingAccumulator := Some timing\<rparr>)))"

record timing_summary =
  s_queueMs :: int
  s_captureMs :: int
  s_executionMs :: int
  s_reviewMs :: int
  s_landingMs :: int
  s_totalMs :: int

definition taskTiming :: "int \<Rightarrow> task \<Rightarrow> timing_summary" where
  "taskTiming now t =
     (let timing = fst (ensureTimingAccumulator t);
          totals = (if isActiveTaskState (t_state t)
                    then accumulateStateDuration timing (t_state t) (stateEnteredAt timing) (Some now)
                    else timing);
          fin = (if \<not> isActiveTaskState (t_state t)
                 then (case terminalAt timing of Some x \<Rightarrow> x | None \<Rightarrow> updatedAt t)
                 else Some now)
      in \<lparr>s_queueMs = queueMs totals, s_captureMs = captureMs totals,
          s_executionMs = executionMs totals, s_reviewMs = reviewMs totals,
          s_landingMs = landingMs totals, s_totalMs = elapsed (createdAt t) fin\<rparr>)"

subsection \<open>Transitions and histories\<close>

text \<open>\<open>if (xs.length > n) xs.splice(0, xs.length - n)\<close>.\<close>

definition keep_last :: "nat \<Rightarrow> 'a list \<Rightarrow> 'a list" where
  "keep_last n xs = drop (length xs - n) xs"

definition newTask :: "stamp \<Rightarrow> task" where
  "newTask now = \<lparr>t_state = SQueued, createdAt = now, updatedAt = now, generation = 0, activity = [],
     nextActivitySequence = 1,
     stateHistory = Some [\<lparr>st_sequence = 1, st_state = SQueued, st_at = now, st_generation = 0\<rparr>],
     nextStateSequence = Some 2, timingAccumulator = Some (emptyTimingAccumulator now), commands = []\<rparr>"

definition next_sequence :: "state_transition list \<Rightarrow> nat" where
  "next_sequence h = (if h = [] then 0 else st_sequence (last h)) + 1"

definition transitionTaskState :: "task_state \<Rightarrow> stamp \<Rightarrow> task \<Rightarrow> task_state \<times> task" where
  "transitionTaskState nxt at t =
     (let previous = t_state t; t1 = t\<lparr>updatedAt := at\<rparr> in
      if previous = nxt then (previous, t1)
      else (let (timing, t2) = ensureTimingAccumulator t1;
                timing1 = (accumulateStateDuration timing previous (stateEnteredAt timing) at)
                  \<lparr>stateEnteredAt := at, terminalAt := (if isActiveTaskState nxt then None else Some at)\<rparr>;
                h = (case stateHistory t2 of
                       Some h \<Rightarrow> h
                     | None \<Rightarrow> [\<lparr>st_sequence = 1, st_state = previous, st_at = createdAt t2,
                                st_generation = generation t2\<rparr>]);
                n = (case nextStateSequence t2 of Some n \<Rightarrow> n | None \<Rightarrow> next_sequence h);
                h1 = h @ [\<lparr>st_sequence = n, st_state = nxt, st_at = at, st_generation = generation t2\<rparr>]
            in (previous, t2\<lparr>timingAccumulator := Some timing1, t_state := nxt,
                  nextStateSequence := Some (Suc n),
                  stateHistory := Some (keep_last MAX_STATE_HISTORY h1)\<rparr>)))"

definition appendActivity :: "stamp \<Rightarrow> string \<Rightarrow> string \<Rightarrow> task \<Rightarrow> activity_event option \<times> task" where
  "appendActivity now phase message t =
     (if activity t \<noteq> [] \<and> av_message (last (activity t)) = message then (None, t)
      else (let event = \<lparr>av_sequence = nextActivitySequence t, av_at = now, av_phase = phase, av_message = message\<rparr>
            in (Some event, t\<lparr>activity := keep_last MAX_ACTIVITY (activity t @ [event]),
                  nextActivitySequence := Suc (nextActivitySequence t), updatedAt := now\<rparr>)))"

definition normalizeTaskHistory :: "task \<Rightarrow> task" where
  "normalizeTaskHistory t =
     (let acts = keep_last MAX_ACTIVITY (activity t);
          t1 = t\<lparr>activity := acts, nextActivitySequence := max (nextActivitySequence t)
                 ((if acts = [] then 0 else av_sequence (last acts)) + 1)\<rparr>;
          t2 = (case stateHistory t1 of
                  Some h \<Rightarrow> (if h = [] then t1\<lparr>stateHistory := Some (initial_history t1)\<rparr> else t1)
                | None \<Rightarrow> t1\<lparr>stateHistory := Some (initial_history t1)\<rparr>);
          t3 = snd (ensureTimingAccumulator t2);
          h = keep_last MAX_STATE_HISTORY (the (stateHistory t3))
      in t3\<lparr>stateHistory := Some h,
            nextStateSequence := Some (max (case nextStateSequence t3 of Some n \<Rightarrow> n | None \<Rightarrow> 1)
              (next_sequence h))\<rparr>)"

definition isStoppedForExit :: "task \<Rightarrow> bool" where
  "isStoppedForExit t \<longleftrightarrow> t_state t = SStoppedForApplicationExit"

definition salvageEvidenceRequiresRetention :: "task \<Rightarrow> bool" where
  "salvageEvidenceRequiresRetention t =
     list_ex (\<lambda>c. action c = CmdForceMerge \<and>
       length (case ambiguousPaths c of Some ps \<Rightarrow> ps | None \<Rightarrow> []) > 0) (commands t)"

definition isArchivableTaskState :: "task_state \<Rightarrow> bool" where
  "isArchivableTaskState s \<longleftrightarrow> s = SLanded \<or> s = SReported"

subsection \<open>Progress phases\<close>

definition stateFromWorkerProgressPhase :: "string option \<Rightarrow> task_state option" where
  "stateFromWorkerProgressPhase phase =
     (if phase = Some ''reviewing'' then Some SReviewing
      else if phase \<in> Some ` {''starting'', ''executing'', ''correcting'', ''confirming'', ''completing''}
      then Some SRunning else None)"

record wave_progress =
  wp_phase :: string
  wp_subtaskPhase :: "string option"
  wp_taskStatuses :: "string list"

definition stateFromWaveProgress :: "wave_progress \<Rightarrow> task_state option" where
  "stateFromWaveProgress u =
     (if wp_phase u = ''capturing'' then Some SCapturing
      else if wp_phase u = ''integrating'' \<or> wp_phase u = ''planning'' then Some SWaitingToLand
      else if wp_phase u = ''landing'' then Some SLanding
      else if wp_phase u = ''completed'' \<or> wp_phase u = ''aborted'' \<or> wp_phase u = ''settling'' then None
      else (let phase = (case wp_subtaskPhase u of Some p \<Rightarrow> Some p | None \<Rightarrow> js_nth (wp_taskStatuses u) 0) in
            case stateFromWorkerProgressPhase phase of
              Some s \<Rightarrow> Some s
            | None \<Rightarrow>
                (if wp_phase u = ''working'' \<and> phase \<in> Some ` {''accepted'', ''accepted_with_warnings'',
                      ''completed_unreviewed'', ''no_changes''}
                 then Some SAccepted else None)))"

definition stateFromContinuationProgress :: "string \<Rightarrow> task_state" where
  "stateFromContinuationProgress phase =
     (if phase = ''accepted'' then SAccepted
      else if phase = ''integrating'' then SWaitingToLand
      else if phase = ''landing'' then SLanding
      else case stateFromWorkerProgressPhase (Some phase) of Some s \<Rightarrow> s | None \<Rightarrow> SRunning)"

end
