(* ===== verification/Task_State_Spec.thy ===== *)
theory Task_State_Spec
  imports Task_State
begin

text \<open>
  The timing of a task: the accumulator kept step by step is the one rebuilt from the history, and
  the phases account for all of the time between the creation and the end of a task.  The histories
  stay bounded and keep consecutive numbers.
\<close>

definition run_task :: "(task_state \<times> stamp) list \<Rightarrow> task \<Rightarrow> task" where
  "run_task evs t = fold (\<lambda>(s, at) t. snd (transitionTaskState s at t)) evs t"

lemma run_task_simps [simp]:
  "run_task [] t = t"
  "run_task (e # evs) t = run_task evs (snd (transitionTaskState (fst e) (snd e) t))"
  by (simp_all add: run_task_def case_prod_beta)

lemma run_task_snoc: "run_task (evs @ [e]) t = snd (transitionTaskState (fst e) (snd e) (run_task evs t))"
  by (simp add: run_task_def case_prod_beta)

subsection \<open>The accumulator and the history\<close>

lemma accumulate_history_snoc:
  "h \<noteq> [] \<Longrightarrow> accumulate_history (h @ [x]) tot =
     accumulateStateDuration (accumulate_history h tot) (st_state (last h)) (st_at (last h)) (st_at x)"
  by (induction h tot rule: accumulate_history.induct) auto

lemma accumulate_keeps:
  "stateEnteredAt (accumulateStateDuration tot s a b) = stateEnteredAt tot"
  "terminalAt (accumulateStateDuration tot s a b) = terminalAt tot"
  by (simp_all add: accumulateStateDuration_def Let_def)

lemma accumulate_update:
  "accumulateStateDuration (tot\<lparr>stateEnteredAt := x, terminalAt := y\<rparr>) s a b =
     (accumulateStateDuration tot s a b)\<lparr>stateEnteredAt := x, terminalAt := y\<rparr>"
  by (simp add: accumulateStateDuration_def Let_def)

definition history_ok :: "nat \<Rightarrow> task \<Rightarrow> bool" where
  "history_ok n t \<longleftrightarrow> (\<exists>h. stateHistory t = Some h \<and> h \<noteq> [] \<and> length h \<le> n \<and> st_state (last h) = t_state t \<and>
     timingAccumulator t = Some (rebuild_timing t))"

lemma history_ok_new: "history_ok 1 (newTask now)"
  by (simp add: history_ok_def newTask_def rebuild_timing_def emptyTimingAccumulator_def Let_def
      isActiveTaskState_def ACTIVE_TASK_STATES_def)

lemma history_ok_step:
  assumes "history_ok n t" "n < MAX_STATE_HISTORY"
  shows "history_ok (Suc n) (snd (transitionTaskState s at t))"
proof (cases "t_state t = s")
  case True
  then show ?thesis
    using assms(1) by (auto simp: history_ok_def transitionTaskState_def rebuild_timing_def Let_def)
next
  case False
  obtain h where h: "stateHistory t = Some h" "h \<noteq> []" "length h \<le> n" "st_state (last h) = t_state t"
      "timingAccumulator t = Some (rebuild_timing t)"
    using assms(1) by (auto simp: history_ok_def)
  have k: "keep_last MAX_STATE_HISTORY (h @ [x]) = h @ [x]" for x
    using h(3) assms(2) by (simp add: keep_last_def)
  let ?acc = "accumulate_history h (emptyTimingAccumulator (st_at (hd h)))"
  have r: "rebuild_timing t = ?acc\<lparr>stateEnteredAt := st_at (last h),
      terminalAt := (if isActiveTaskState (t_state t) then None else Some (st_at (last h)))\<rparr>"
    using h(1,2) by (simp add: rebuild_timing_def Let_def)
  show ?thesis
    unfolding history_ok_def
    using False h k r
    by (auto simp: transitionTaskState_def ensureTimingAccumulator_def Let_def rebuild_timing_def
        accumulate_history_snoc accumulate_update)
qed

lemma history_ok_run:
  "history_ok n t \<Longrightarrow> n + length evs \<le> MAX_STATE_HISTORY \<Longrightarrow> history_ok (n + length evs) (run_task evs t)"
proof (induction evs arbitrary: n t)
  case (Cons e evs)
  then have "history_ok (Suc n) (snd (transitionTaskState (fst e) (snd e) t))"
    by (intro history_ok_step) auto
  from Cons.IH [OF this] Cons.prems(2) show ?case by simp
qed simp

text \<open>
  C30. The timing accumulator that the transitions keep step by step is the one a reader rebuilds from
  the state history: a task restored without its accumulator gets it back, whatever the time stamps,
  as long as the history has not overflowed its bound.
\<close>

theorem timing_rebuilt_from_history:
  assumes "length evs < MAX_STATE_HISTORY"
  shows "timingAccumulator (normalizeTaskHistory ((run_task evs (newTask now))\<lparr>timingAccumulator := None\<rparr>)) =
    timingAccumulator (run_task evs (newTask now))"
proof -
  let ?t = "run_task evs (newTask now)"
  have "history_ok (1 + length evs) ?t"
    using assms by (intro history_ok_run history_ok_new) simp
  then obtain h where "stateHistory ?t = Some h" "h \<noteq> []" "timingAccumulator ?t = Some (rebuild_timing ?t)"
    by (auto simp: history_ok_def)
  then show ?thesis
    by (simp add: normalizeTaskHistory_def ensureTimingAccumulator_def Let_def rebuild_timing_def)
qed

theorem timing_rebuilt_from_history_witness:
  "timingAccumulator (normalizeTaskHistory ((run_task [(SRunning, Some 5), (SFailed, Some 9)] (newTask (Some 0)))
     \<lparr>timingAccumulator := None\<rparr>)) =
   timingAccumulator (run_task [(SRunning, Some 5), (SFailed, Some 9)] (newTask (Some 0)))"
  by (rule timing_rebuilt_from_history) (simp add: MAX_STATE_HISTORY_def)

subsection \<open>No time is lost\<close>

definition phase_sum :: "timing \<Rightarrow> int" where
  "phase_sum x = queueMs x + captureMs x + executionMs x + reviewMs x + landingMs x"

lemma phase_sum_accumulate:
  "phase_sum (accumulateStateDuration x s a b) = phase_sum x + (if isActiveTaskState s then elapsed a b else 0)"
  by (simp add: phase_sum_def accumulateStateDuration_def Let_def)

lemma phase_sum_update [simp]: "phase_sum (x\<lparr>stateEnteredAt := a, terminalAt := b\<rparr>) = phase_sum x"
  by (simp add: phase_sum_def)

definition accounted :: "int \<Rightarrow> int \<Rightarrow> task \<Rightarrow> bool" where
  "accounted c e t \<longleftrightarrow> createdAt t = Some c \<and> c \<le> e \<and>
     (\<exists>x. timingAccumulator t = Some x \<and> stateEnteredAt x = Some e \<and> phase_sum x = e - c \<and>
        (\<not> isActiveTaskState (t_state t) \<longrightarrow> terminalAt x = Some (Some e)))"

lemma accounted_step:
  assumes "accounted c e t" "isActiveTaskState (t_state t)" "e \<le> a"
  shows "\<exists>e' \<le> a. e \<le> e' \<and> accounted c e' (snd (transitionTaskState s (Some a) t)) \<and>
    t_state (snd (transitionTaskState s (Some a) t)) = s"
proof (cases "t_state t = s")
  case True
  then show ?thesis
    using assms by (intro exI [of _ e]) (auto simp: accounted_def transitionTaskState_def)
next
  case False
  then show ?thesis
    using assms
    by (intro exI [of _ a])
      (auto simp: accounted_def transitionTaskState_def ensureTimingAccumulator_def Let_def
        phase_sum_accumulate elapsed_def accumulate_keeps)
qed

definition stamped :: "(task_state \<times> int) list \<Rightarrow> (task_state \<times> stamp) list" where
  "stamped evs = map (\<lambda>(s, a). (s, Some a)) evs"

lemma accounted_run:
  assumes "accounted c e t" "isActiveTaskState (t_state t)" "sorted (e # map snd evs @ [now])"
    "list_all (\<lambda>x. isActiveTaskState (fst x)) (butlast evs)"
  shows "\<exists>e' \<le> now. accounted c e' (run_task (stamped evs) t)"
  using assms
proof (induction evs arbitrary: e t)
  case Nil
  then show ?case by (auto simp: stamped_def)
next
  case (Cons x evs)
  have le: "e \<le> snd x" using Cons.prems(3) by simp
  obtain e' where e': "e' \<le> snd x" "accounted c e' (snd (transitionTaskState (fst x) (Some (snd x)) t))"
      "t_state (snd (transitionTaskState (fst x) (Some (snd x)) t)) = fst x"
    using accounted_step [OF Cons.prems(1,2) le, of "fst x"] by blast
  have run: "run_task (stamped (x # evs)) t = run_task (stamped evs) (snd (transitionTaskState (fst x) (Some (snd x)) t))"
    by (cases x) (simp add: stamped_def)
  show ?case
  proof (cases "evs = []")
    case True
    then show ?thesis using e' Cons.prems(3) run by (intro exI [of _ e']) (auto simp: stamped_def)
  next
    case False
    then have "isActiveTaskState (fst x)" "list_all (\<lambda>x. isActiveTaskState (fst x)) (butlast evs)"
      using Cons.prems(4) by auto
    moreover have "sorted (e' # map snd evs @ [now])" using Cons.prems(3) e'(1) by auto
    ultimately show ?thesis using Cons.IH [OF e'(2)] e'(3) run by simp
  qed
qed

text \<open>
  The phases of a task account for its whole time: with readable time stamps that do not go back,
  and no state but the last one terminal, the queue, capture, execution, review and landing times add
  up to the total the summary reports, at any later moment and for any number of transitions.
\<close>

theorem timing_accounts_for_total:
  assumes "sorted (created # map snd evs @ [now])" "list_all (\<lambda>x. isActiveTaskState (fst x)) (butlast evs)"
  shows "let s = taskTiming now (run_task (stamped evs) (newTask (Some created))) in
    s_queueMs s + s_captureMs s + s_executionMs s + s_reviewMs s + s_landingMs s = s_totalMs s"
proof -
  let ?t = "run_task (stamped evs) (newTask (Some created))"
  have "accounted created created (newTask (Some created))"
    by (simp add: accounted_def newTask_def emptyTimingAccumulator_def phase_sum_def isActiveTaskState_def
        ACTIVE_TASK_STATES_def)
  moreover have "isActiveTaskState (t_state (newTask (Some created)))"
    by (simp add: newTask_def isActiveTaskState_def ACTIVE_TASK_STATES_def)
  ultimately obtain e where e: "e \<le> now" "accounted created e ?t"
    using accounted_run assms by blast
  then obtain x where x: "createdAt ?t = Some created" "created \<le> e" "timingAccumulator ?t = Some x"
      "stateEnteredAt x = Some e" "phase_sum x = e - created"
      "\<not> isActiveTaskState (t_state ?t) \<longrightarrow> terminalAt x = Some (Some e)"
    by (auto simp: accounted_def)
  let ?y = "if isActiveTaskState (t_state ?t) then accumulateStateDuration x (t_state ?t) (Some e) (Some now) else x"
  have "phase_sum ?y = (if isActiveTaskState (t_state ?t) then now else e) - created"
    using x(5) e(1) by (simp add: phase_sum_accumulate elapsed_def)
  then show ?thesis
    using x e(1)
    by (cases "isActiveTaskState (t_state ?t)")
      (simp_all add: taskTiming_def ensureTimingAccumulator_def Let_def phase_sum_def elapsed_def)
qed

theorem timing_accounts_for_total_witness:
  "let s = taskTiming 20 (run_task (stamped [(SCapturing, 2), (SRunning, 5), (SLanded, 9)]) (newTask (Some 0))) in
    s_queueMs s + s_captureMs s + s_executionMs s + s_reviewMs s + s_landingMs s = s_totalMs s"
  by (rule timing_accounts_for_total) (simp_all add: isActiveTaskState_def ACTIVE_TASK_STATES_def)

subsection \<open>Bounded histories\<close>

lemma length_keep_last: "length (keep_last n xs) \<le> n"
  by (simp add: keep_last_def)

lemma transition_bounded:
  "previous \<noteq> s \<Longrightarrow> t_state t = previous \<Longrightarrow>
     length (the (stateHistory (snd (transitionTaskState s at t)))) \<le> MAX_STATE_HISTORY"
  using length_keep_last
  by (auto simp: transitionTaskState_def Let_def split: prod.splits)

lemma activity_bounded:
  "length (activity t) \<le> MAX_ACTIVITY \<Longrightarrow> length (activity (snd (appendActivity now p m t))) \<le> MAX_ACTIVITY"
  using length_keep_last by (auto simp: appendActivity_def Let_def)

end
