(* ===== verification/Cron.thy ===== *)
theory Cron
  imports Prelude
begin

text \<open>
  The cron expressions of scheduled tasks, \<open>src/src/scheduling/cron.ts\<close>: parsing of the five
  fields into sets of values and the calendar match of a local date.

  A parse has three outcomes.  \<open>Some (Inr _)\<close> is the returned value and \<open>Some (Inl _)\<close> a thrown
  error; \<open>None\<close> is a call that does not return, because the loop that fills a field steps by
  the number after \<open>/\<close> and the source only refuses the spelling \<open>0\<close> of zero.
\<close>

datatype cron_error =
    NotAString
  | FieldCount nat string
  | InvalidStep string string
  | EmptyRange string
  | ReversedRange string string
  | OutOfRange string string
  | InvalidValue string string

record parsed_cron =
  expression :: string
  minutes :: "nat list"
  hours :: "nat list"
  daysOfMonth :: "nat list"
  months :: "nat list"
  daysOfWeek :: "nat list"
  dayOfMonthStar :: bool
  dayOfWeekStar :: bool

record cron_field_spec =
  label :: string
  fmin :: nat
  fmax :: nat
  names :: "(string \<times> nat) list"
  sevenIsSunday :: bool

definition MONTH_NAMES :: "(string \<times> nat) list" where
  "MONTH_NAMES =
     [(''jan'', 1), (''feb'', 2), (''mar'', 3), (''apr'', 4), (''may'', 5), (''jun'', 6),
      (''jul'', 7), (''aug'', 8), (''sep'', 9), (''oct'', 10), (''nov'', 11), (''dec'', 12)]"

definition DAY_OF_WEEK_NAMES :: "(string \<times> nat) list" where
  "DAY_OF_WEEK_NAMES =
     [(''sun'', 0), (''mon'', 1), (''tue'', 2), (''wed'', 3), (''thu'', 4), (''fri'', 5), (''sat'', 6)]"

definition minute_spec :: cron_field_spec where
  "minute_spec = \<lparr>label = ''minute'', fmin = 0, fmax = 59, names = [], sevenIsSunday = False\<rparr>"

definition hour_spec :: cron_field_spec where
  "hour_spec = \<lparr>label = ''hour'', fmin = 0, fmax = 23, names = [], sevenIsSunday = False\<rparr>"

definition day_spec :: cron_field_spec where
  "day_spec = \<lparr>label = ''day of month'', fmin = 1, fmax = 31, names = [], sevenIsSunday = False\<rparr>"

definition month_spec :: cron_field_spec where
  "month_spec = \<lparr>label = ''month'', fmin = 1, fmax = 12, names = MONTH_NAMES, sevenIsSunday = False\<rparr>"

definition weekday_spec :: cron_field_spec where
  "weekday_spec =
     \<lparr>label = ''day of week'', fmin = 0, fmax = 7, names = DAY_OF_WEEK_NAMES, sevenIsSunday = True\<rparr>"

definition CRON_FIELDS :: "cron_field_spec list" where
  "CRON_FIELDS = [minute_spec, hour_spec, day_spec, month_spec, weekday_spec]"

lemmas cron_specs = minute_spec_def hour_spec_def day_spec_def month_spec_def weekday_spec_def

subsection \<open>Fields\<close>

definition all_digits :: "string \<Rightarrow> bool" where
  [js]: "all_digits s \<longleftrightarrow> s \<noteq> [] \<and> list_all is_digit s"

definition parseCronValue :: "string \<Rightarrow> cron_field_spec \<Rightarrow> cron_error + nat" where
  "parseCronValue raw spec =
     (if all_digits raw then
        (let v = digits_val raw in
         if v < fmin spec \<or> v > fmax spec then Inl (OutOfRange (label spec) raw) else Inr v)
      else case map_of (names spec) (map js_lower raw) of
          Some v \<Rightarrow> Inr v
        | None \<Rightarrow> Inl (InvalidValue (label spec) raw))"

text \<open>The base of an item: the first and last value, given whether a step follows.\<close>

definition item_range :: "string \<Rightarrow> bool \<Rightarrow> cron_field_spec \<Rightarrow> cron_error + (nat \<times> nat)" where
  "item_range base has_step spec =
     (if base = ''*'' then Inr (fmin spec, fmax spec)
      else case (case index_of CHR ''-'' base of
            Some dash \<Rightarrow>
              (case parseCronValue (take dash base) spec of
                 Inl e \<Rightarrow> Inl e
               | Inr lo \<Rightarrow>
                   (case parseCronValue (drop (dash + 1) base) spec of
                      Inl e \<Rightarrow> Inl e
                    | Inr hi \<Rightarrow>
                        (if lo > hi then Inl (ReversedRange (label spec) base) else Inr (lo, hi))))
          | None \<Rightarrow>
              (case parseCronValue base spec of
                 Inl e \<Rightarrow> Inl e
               | Inr lo \<Rightarrow> Inr (lo, if has_step then fmax spec else lo))) of
          Inl e \<Rightarrow> Inl e
        | Inr (lo, hi) \<Rightarrow>
            (if lo < fmin spec \<or> hi > fmax spec then Inl (OutOfRange (label spec) base)
             else Inr (lo, hi)))"

text \<open>The base, whether a step was given, and the step.\<close>

definition item_step :: "string \<Rightarrow> cron_field_spec \<Rightarrow> cron_error + (string \<times> bool \<times> nat)" where
  "item_step item spec =
     (case index_of CHR ''/'' item of
        None \<Rightarrow> Inr (item, False, 1)
      | Some slash \<Rightarrow>
          (let base = take slash item; stepText = drop (slash + 1) item in
           if \<not> all_digits stepText \<or> stepText = ''0'' then Inl (InvalidStep (label spec) stepText)
           else if base = [] then Inl (EmptyRange (label spec))
           else Inr (base, True, digits_val stepText)))"

text \<open>The loop \<open>for (value = lo; value <= hi; value += step)\<close>; it may not return.\<close>

partial_function (option) fill_values :: "nat \<Rightarrow> nat \<Rightarrow> nat \<Rightarrow> nat list option" where
  "fill_values v hi step =
     (if v \<le> hi then Option.bind (fill_values (v + step) hi step) (\<lambda>rest. Some (v # rest))
      else Some [])"

definition seven_to_sunday :: "cron_field_spec \<Rightarrow> nat \<Rightarrow> nat" where
  "seven_to_sunday spec v = (if sevenIsSunday spec \<and> v = 7 then 0 else v)"

definition item_values :: "cron_field_spec \<Rightarrow> string \<Rightarrow> (cron_error + nat list) option" where
  "item_values spec item =
     (case item_step item spec of
        Inl e \<Rightarrow> Some (Inl e)
      | Inr (base, has_step, step) \<Rightarrow>
          (case item_range base has_step spec of
             Inl e \<Rightarrow> Some (Inl e)
           | Inr (lo, hi) \<Rightarrow>
               map_option (\<lambda>vs. Inr (map (seven_to_sunday spec) vs)) (fill_values lo hi step)))"

fun field_loop :: "cron_field_spec \<Rightarrow> string list \<Rightarrow> nat list \<Rightarrow> (cron_error + nat list) option" where
  "field_loop spec [] values = Some (Inr values)"
| "field_loop spec (item # items) values =
     (case item_values spec item of
        None \<Rightarrow> None
      | Some (Inl e) \<Rightarrow> Some (Inl e)
      | Some (Inr vs) \<Rightarrow> field_loop spec items (values @ vs))"

definition parseCronField :: "string \<Rightarrow> cron_field_spec \<Rightarrow> (cron_error + nat list) option" where
  "parseCronField raw spec =
     (case field_loop spec (split_on CHR '','' raw) [] of
        None \<Rightarrow> None
      | Some (Inl e) \<Rightarrow> Some (Inl e)
      | Some (Inr values) \<Rightarrow> Some (Inr (sort (remdups values))))"

subsection \<open>Expressions\<close>

text \<open>\<open>s.replace(/\s+/g, " ")\<close>.\<close>

fun collapse_spaces :: "bool \<Rightarrow> string \<Rightarrow> string" where
  "collapse_spaces in_run [] = []"
| "collapse_spaces in_run (c # s) =
     (if js_space c then (if in_run then collapse_spaces True s else CHR '' '' # collapse_spaces True s)
      else c # collapse_spaces False s)"

fun parse_fields :: "(string \<times> cron_field_spec) list \<Rightarrow> (cron_error + nat list list) option" where
  "parse_fields [] = Some (Inr [])"
| "parse_fields ((part, spec) # rest) =
     (case parseCronField part spec of
        None \<Rightarrow> None
      | Some (Inl e) \<Rightarrow> Some (Inl e)
      | Some (Inr vs) \<Rightarrow>
          (case parse_fields rest of
             None \<Rightarrow> None
           | Some (Inl e) \<Rightarrow> Some (Inl e)
           | Some (Inr vss) \<Rightarrow> Some (Inr (vs # vss))))"

text \<open>The argument is \<open>None\<close> when the configured value is not a string.\<close>

definition parseCronExpression :: "string option \<Rightarrow> (cron_error + parsed_cron) option" where
  "parseCronExpression input =
     (case input of
        None \<Rightarrow> Some (Inl NotAString)
      | Some s \<Rightarrow>
          (if trim s = [] then Some (Inl NotAString)
           else
             let expr = collapse_spaces False (trim s); parts = split_on CHR '' '' expr in
             if length parts \<noteq> length CRON_FIELDS then Some (Inl (FieldCount (length parts) expr))
             else case parse_fields (zip parts CRON_FIELDS) of
                 None \<Rightarrow> None
               | Some (Inl e) \<Rightarrow> Some (Inl e)
               | Some (Inr vss) \<Rightarrow>
                   Some (Inr
                     \<lparr>expression = expr, minutes = vss ! 0, hours = vss ! 1, daysOfMonth = vss ! 2,
                      months = vss ! 3, daysOfWeek = vss ! 4,
                      dayOfMonthStar = starts_with (parts ! 2) ''*'',
                      dayOfWeekStar = starts_with (parts ! 4) ''*''\<rparr>)))"

text \<open>The components of a \<open>Date\<close> in local time; \<open>getMonth\<close> counts from 0.\<close>

record local_date =
  getMinutes :: nat
  getHours :: nat
  getDate :: nat
  getMonth :: nat
  getDay :: nat

definition cronMatchesLocalDate :: "parsed_cron \<Rightarrow> local_date \<Rightarrow> bool" where
  "cronMatchesLocalDate parsed date =
     (if \<not> List.member (minutes parsed) (getMinutes date) then False
      else if \<not> List.member (hours parsed) (getHours date) then False
      else if \<not> List.member (months parsed) (getMonth date + 1) then False
      else
        let dayOfMonthMatches = List.member (daysOfMonth parsed) (getDate date);
            dayOfWeekMatches = List.member (daysOfWeek parsed) (getDay date) in
        if dayOfMonthStar parsed \<and> dayOfWeekStar parsed then True
        else if dayOfMonthStar parsed then dayOfWeekMatches
        else if dayOfWeekStar parsed then dayOfMonthMatches
        else dayOfMonthMatches \<or> dayOfWeekMatches)"

end
