(* ===== verification/Scheduler.thy ===== *)
theory Scheduler
  imports Cron
begin

text \<open>
  Scheduled execution, \<open>src/src/scheduling/dispatcher.ts\<close>, its live switch
  (\<open>runtime.ts\<close>) and the consumption of one-shot entries (\<open>one-shot.ts\<close>).

  Times are milliseconds.  The clock and the local-time interpretation of an instant are
  arguments.  A promise chain of an entry is the list of its waiting occurrences and the one
  that is running; the microtasks that admit and settle an occurrence are steps of their own.
  Parsing a stored expression may not return (see \<open>Cron\<close>), and then neither does the tick.
\<close>

definition MINUTE_MS :: int where "MINUTE_MS = 60000"
definition SAMPLED_MINUTE_MEMORY_MS :: int where
  "SAMPLED_MINUTE_MEMORY_MS = 48 * 60 * MINUTE_MS"

subsection \<open>The minute sampler\<close>

record sampler_entry =
  se_id :: string
  se_enabled :: bool
  se_cron :: parsed_cron

record sampled_minute =
  minuteMs :: int
  dueIds :: "string list"

text \<open>The keys of the \<open>sampled\<close> map, in insertion order.\<close>

type_synonym sampler = "int list"

definition absoluteMinuteOf :: "int \<Rightarrow> int" where
  "absoluteMinuteOf nowMs = (nowMs div MINUTE_MS) * MINUTE_MS"

definition prune :: "sampler \<Rightarrow> int \<Rightarrow> sampler" where
  "prune sampled nowMs =
     (let cutoff = nowMs - SAMPLED_MINUTE_MEMORY_MS in filter (\<lambda>m. \<not> m < cutoff) sampled)"

definition sampler_set :: "sampler \<Rightarrow> int \<Rightarrow> sampler" where
  "sampler_set sampled m = (if m \<in> set sampled then sampled else sampled @ [m])"

definition beginAt :: "sampler \<Rightarrow> int \<Rightarrow> sampler" where
  "beginAt sampled nowMs = sampler_set (prune sampled nowMs) (absoluteMinuteOf nowMs)"

definition sampleMinute ::
  "(int \<Rightarrow> local_date) \<Rightarrow> sampler \<Rightarrow> int \<Rightarrow> sampler_entry list \<Rightarrow> sampled_minute option \<times> sampler" where
  "sampleMinute localDateOf sampled nowMs entries =
     (let m = absoluteMinuteOf nowMs in
      if m \<in> set sampled then (None, sampled)
      else
        let date = localDateOf m in
        (Some \<lparr>minuteMs = m,
               dueIds = map se_id (filter (\<lambda>e. se_enabled e \<and> cronMatchesLocalDate (se_cron e) date)
                          entries)\<rparr>,
         sampler_set (prune sampled m) m))"

subsection \<open>The catalog and one-shot entries\<close>

record task_entry =
  te_cron :: string
  te_enabled :: bool
  te_oneShot :: bool
  te_alreadyRun :: bool
  te_instructions :: string

type_synonym catalog = "(string \<times> task_entry) list"

definition consumed :: "task_entry \<Rightarrow> bool" where
  "consumed e \<longleftrightarrow> te_oneShot e \<and> te_alreadyRun e"

definition catalog_update :: "catalog \<Rightarrow> string \<Rightarrow> (task_entry \<Rightarrow> task_entry) \<Rightarrow> catalog" where
  "catalog_update cat key f = map (\<lambda>(k, e). if k = key then (k, f e) else (k, e)) cat"

datatype consume_result = Untouched | NoConfigFile | WriteQueued

definition consumeOneShotExecution ::
  "catalog \<Rightarrow> bool \<Rightarrow> string \<Rightarrow> consume_result \<times> catalog" where
  "consumeOneShotExecution cat hasConfigPath key =
     (case map_of cat key of
        None \<Rightarrow> (Untouched, cat)
      | Some entry \<Rightarrow>
          (if \<not> te_oneShot entry \<or> te_alreadyRun entry then (Untouched, cat)
           else
             let cat' = catalog_update cat key (\<lambda>e. e\<lparr>te_alreadyRun := True\<rparr>) in
             (if hasConfigPath then WriteQueued else NoConfigFile, cat')))"

text \<open>The queued write: it re-checks the live catalog and the latest stored one.\<close>

definition recordAlreadyRun :: "catalog \<Rightarrow> catalog \<Rightarrow> string \<Rightarrow> catalog" where
  "recordAlreadyRun live stored key =
     (case map_of live key of
        None \<Rightarrow> stored
      | Some l \<Rightarrow>
          (if \<not> te_oneShot l \<or> \<not> te_alreadyRun l then stored
           else case map_of stored key of
               None \<Rightarrow> stored
             | Some s \<Rightarrow>
                 (if \<not> te_oneShot s \<or> te_alreadyRun s then stored
                  else catalog_update stored key (\<lambda>e. e\<lparr>te_alreadyRun := True\<rparr>))))"

subsection \<open>The runtime\<close>

record occurrence =
  occ_entry :: task_entry
  occ_due :: int
  occ_generation :: nat

record dispatch =
  d_id :: string
  d_entry :: task_entry
  d_dueAt :: int
  d_overdue :: bool
  d_generation :: nat

record runtime =
  sampled :: sampler
  timer :: bool
  attached :: bool
  subscribed :: bool
  switch_on :: bool
  waiting :: "string \<Rightarrow> occurrence list"
  running :: "string \<Rightarrow> occurrence option"
  generation :: nat
  reportedInvalid :: "string list"
  live_catalog :: "catalog option"
  dispatched :: "dispatch list"
  reported :: "string list"

definition disarm :: "runtime \<Rightarrow> runtime" where
  "disarm rt = rt\<lparr>timer := False, generation := Suc (generation rt)\<rparr>"

definition arm :: "int \<Rightarrow> runtime \<Rightarrow> runtime" where
  "arm nowMs rt = rt\<lparr>sampled := beginAt (sampled rt) nowMs, timer := True\<rparr>"

definition attach :: "int \<Rightarrow> runtime \<Rightarrow> runtime" where
  "attach nowMs rt =
     (if attached rt then rt
      else
        let rt1 = rt\<lparr>attached := True, subscribed := True\<rparr> in
        if switch_on rt1 then arm nowMs rt1 else rt1)"

definition detach :: "runtime \<Rightarrow> runtime" where
  "detach rt = (disarm rt)\<lparr>attached := False, subscribed := False\<rparr>"

definition replan :: "int \<Rightarrow> runtime \<Rightarrow> runtime" where
  "replan nowMs rt =
     (if \<not> attached rt then rt
      else
        let rt1 = (disarm rt)\<lparr>reportedInvalid := []\<rparr> in
        if switch_on rt1 then arm nowMs rt1 else rt1)"

text \<open>\<open>setEnabled\<close> of the switch, with the listener \<open>attach\<close> subscribes.\<close>

definition setEnabled :: "int \<Rightarrow> bool \<Rightarrow> runtime \<Rightarrow> runtime" where
  "setEnabled nowMs next rt =
     (if switch_on rt = next then rt
      else
        let rt1 = rt\<lparr>switch_on := next\<rparr> in
        if subscribed rt1 then (if next then replan nowMs rt1 else disarm rt1) else rt1)"

text \<open>The catalog as sampler entries; an invalid expression is reported once per replan.\<close>

fun collect_entries :: "catalog \<Rightarrow> runtime \<Rightarrow> (sampler_entry list \<times> runtime) option" where
  "collect_entries [] rt = Some ([], rt)"
| "collect_entries ((key, entry) # rest) rt =
     (let eligible = te_enabled entry \<and> \<not> consumed entry in
      case parseCronExpression (Some (te_cron entry)) of
        None \<Rightarrow> None
      | Some (Inl _) \<Rightarrow>
          collect_entries rest
            (if key \<notin> set (reportedInvalid rt)
             then rt\<lparr>reportedInvalid := reportedInvalid rt @ [key], reported := reported rt @ [key]\<rparr>
             else rt)
      | Some (Inr cron) \<Rightarrow>
          map_option (\<lambda>(es, rt'). (\<lparr>se_id = key, se_enabled = eligible, se_cron = cron\<rparr> # es, rt'))
            (collect_entries rest rt))"

definition sampleDueEntries ::
  "(int \<Rightarrow> local_date) \<Rightarrow> int \<Rightarrow> runtime \<Rightarrow> (sampled_minute option \<times> runtime) option" where
  "sampleDueEntries localDateOf nowMs rt =
     (case live_catalog rt of
        None \<Rightarrow> Some (None, rt)
      | Some cat \<Rightarrow>
          (case collect_entries cat rt of
             None \<Rightarrow> None
           | Some (entries, rt1) \<Rightarrow>
               (let (m, s) = sampleMinute localDateOf (sampled rt1) nowMs entries in
                Some (m, rt1\<lparr>sampled := s\<rparr>))))"

definition catalog_entry :: "runtime \<Rightarrow> string \<Rightarrow> task_entry option" where
  "catalog_entry rt key = Option.bind (live_catalog rt) (\<lambda>cat. map_of cat key)"

definition dispatchDue :: "int \<Rightarrow> string \<Rightarrow> runtime \<Rightarrow> runtime" where
  "dispatchDue dueAt key rt =
     (case catalog_entry rt key of
        None \<Rightarrow> rt
      | Some e \<Rightarrow>
          (if \<not> te_enabled e then rt
           else if consumed e then rt
           else rt\<lparr>waiting := (waiting rt)(key := waiting rt key @
                   [\<lparr>occ_entry = e, occ_due = dueAt, occ_generation = generation rt\<rparr>])\<rparr>))"

definition tick :: "(int \<Rightarrow> local_date) \<Rightarrow> int \<Rightarrow> runtime \<Rightarrow> runtime option" where
  "tick localDateOf nowMs rt =
     (let rt1 = rt\<lparr>timer := False\<rparr> in
      if \<not> attached rt1 then Some rt1
      else case sampleDueEntries localDateOf nowMs rt1 of
          None \<Rightarrow> None
        | Some (m, rt2) \<Rightarrow>
            (let rt3 = (case m of None \<Rightarrow> rt2
                        | Some sm \<Rightarrow> fold (dispatchDue (minuteMs sm)) (dueIds sm) rt2) in
             Some (if attached rt3 \<and> switch_on rt3 then rt3\<lparr>timer := True\<rparr> else rt3)))"

text \<open>
  The microtask that reaches the head of an entry's chain: \<open>dispatchEntry\<close> drops the occurrence
  or hands it to the \<open>onDue\<close> hook.
\<close>

definition dispatchEntry :: "int \<Rightarrow> string \<Rightarrow> occurrence \<Rightarrow> runtime \<Rightarrow> runtime" where
  "dispatchEntry nowMs key occ rt =
     (if occ_generation occ \<noteq> generation rt \<or> \<not> attached rt \<or> \<not> switch_on rt then rt
      else if (case catalog_entry rt key of None \<Rightarrow> False | Some e \<Rightarrow> consumed e) then rt
      else
        rt\<lparr>running := (running rt)(key := Some occ),
           dispatched := dispatched rt @
             [\<lparr>d_id = key, d_entry = occ_entry occ, d_dueAt = occ_due occ,
               d_overdue = (nowMs > occ_due occ + MINUTE_MS), d_generation = occ_generation occ\<rparr>]\<rparr>)"

definition start_next :: "int \<Rightarrow> string \<Rightarrow> runtime \<Rightarrow> runtime" where
  "start_next nowMs key rt =
     (case waiting rt key of
        [] \<Rightarrow> rt
      | occ # rest \<Rightarrow> dispatchEntry nowMs key occ (rt\<lparr>waiting := (waiting rt)(key := rest)\<rparr>))"

definition settle :: "string \<Rightarrow> runtime \<Rightarrow> runtime" where
  "settle key rt = rt\<lparr>running := (running rt)(key := None)\<rparr>"

definition consume_live :: "bool \<Rightarrow> string \<Rightarrow> runtime \<Rightarrow> runtime" where
  "consume_live hasPath key rt =
     rt\<lparr>live_catalog := map_option (\<lambda>cat. snd (consumeOneShotExecution cat hasPath key)) (live_catalog rt)\<rparr>"

definition runtime_init :: "runtime \<Rightarrow> bool" where
  "runtime_init rt \<longleftrightarrow> sampled rt = [] \<and> \<not> timer rt \<and> \<not> attached rt \<and> \<not> subscribed rt \<and>
     waiting rt = (\<lambda>_. []) \<and> running rt = (\<lambda>_. None) \<and> generation rt = 0 \<and>
     reportedInvalid rt = [] \<and> dispatched rt = [] \<and> reported rt = []"

inductive sched_step :: "(int \<Rightarrow> local_date) \<Rightarrow> runtime \<Rightarrow> runtime \<Rightarrow> bool" for ld where
  attach: "sched_step ld rt (attach t rt)"
| detach: "sched_step ld rt (detach rt)"
| replan: "sched_step ld rt (replan t rt)"
| toggle: "sched_step ld rt (setEnabled t b rt)"
| tick: "timer rt \<Longrightarrow> tick ld t rt = Some rt' \<Longrightarrow> sched_step ld rt rt'"
| start: "running rt key = None \<Longrightarrow> waiting rt key \<noteq> [] \<Longrightarrow> sched_step ld rt (start_next t key rt)"
| settle: "running rt key \<noteq> None \<Longrightarrow> sched_step ld rt (settle key rt)"
| consume: "sched_step ld rt (consume_live p key rt)"
| edit: "sched_step ld rt (rt\<lparr>live_catalog := cat\<rparr>)"

inductive_cases sched_stepE: "sched_step ld rt rt'"

end
