(* ===== verification/Cron_Spec.thy ===== *)
theory Cron_Spec
  imports Cron
begin

text \<open>
  What cron parsing promises: sorted, distinct, in-range field values that are exactly those the
  items denote; a canonical stored expression that parses to the same sets; and when a parse
  returns at all.
\<close>

subsection \<open>The fill loop\<close>

lemma fill_values_step:
  assumes "0 < step"
  shows "\<exists>vs. fill_values v hi step = Some vs \<and> set vs = {x. v \<le> x \<and> x \<le> hi \<and> step dvd x - v}"
proof (induction "Suc hi - v" arbitrary: v rule: less_induct)
  case less
  show ?case
  proof (cases "v \<le> hi")
    case True
    then have "Suc hi - (v + step) < Suc hi - v" using assms by simp
    from less [OF this] obtain vs where vs: "fill_values (v + step) hi step = Some vs"
        "set vs = {x. v + step \<le> x \<and> x \<le> hi \<and> step dvd x - (v + step)}"
      by blast
    have "x = v \<or> v + step \<le> x \<and> step dvd x - (v + step)"
      if "v \<le> x" "step dvd x - v" for x
    proof (cases "x = v")
      case False
      with that have "step \<le> x - v" by (auto intro: dvd_imp_le)
      moreover have "step dvd x - v - step" using that(2) by (rule dvd_diff_nat) simp
      ultimately show ?thesis using that(1) by auto
    qed simp
    moreover have "step dvd x - v" if "v + step \<le> x" "step dvd x - (v + step)" for x
    proof -
      have "x - v = (x - (v + step)) + step" using that(1) by simp
      then show ?thesis using that(2) by (metis dvd_add_triv_right_iff)
    qed
    ultimately show ?thesis
      using True vs by (subst fill_values.simps) auto
  next
    case False
    then show ?thesis by (subst fill_values.simps) auto
  qed
qed

lemma fill_values_zero_step: "fill_values v hi 0 = Some vs \<Longrightarrow> \<not> v \<le> hi"
proof -
  let ?P = "\<lambda>v hi (step :: nat) (vs :: nat list). step = 0 \<longrightarrow> \<not> v \<le> (hi :: nat)"
  assume run: "fill_values v hi 0 = Some vs"
  have "?P v hi 0 vs"
  proof (rule fill_values.raw_induct [of ?P, OF _ run])
    fix f :: "nat \<Rightarrow> nat \<Rightarrow> nat \<Rightarrow> nat list option" and v hi step vs
    assume IH: "\<And>v hi step ws. f v hi step = Some ws \<Longrightarrow> ?P v hi step ws"
      and body: "(if v \<le> hi then Option.bind (f (v + step) hi step) (\<lambda>rest. Some (v # rest)) else Some []) = Some vs"
    show "?P v hi step vs"
    proof (cases "v \<le> hi")
      case True
      with body obtain ws where "f (v + step) hi step = Some ws" by (auto split: bind_splits)
      from IH [OF this] show ?thesis by auto
    qed simp
  qed
  then show ?thesis by simp
qed

lemma fill_values_diverges_iff: "fill_values v hi step = None \<longleftrightarrow> step = 0 \<and> v \<le> hi"
proof (cases "step = 0")
  case True
  then show ?thesis
    using fill_values_zero_step [of v hi]
    by (cases "v \<le> hi"; cases "fill_values v hi 0"; subst (asm) fill_values.simps) auto
next
  case False
  then show ?thesis using fill_values_step [of step v hi] by auto
qed

subsection \<open>Items\<close>

definition spec_ok :: "cron_field_spec \<Rightarrow> bool" where
  "spec_ok spec \<longleftrightarrow> fmin spec \<le> fmax spec \<and>
     list_all (\<lambda>(n, v). fmin spec \<le> v \<and> v \<le> fmax spec) (names spec) \<and>
     (sevenIsSunday spec \<longrightarrow> fmin spec = 0)"

lemma spec_ok_fields: "spec \<in> set CRON_FIELDS \<Longrightarrow> spec_ok spec"
  by (auto simp: CRON_FIELDS_def cron_specs spec_ok_def MONTH_NAMES_def DAY_OF_WEEK_NAMES_def)

lemma parseCronValue_range:
  assumes "spec_ok spec" and "parseCronValue raw spec = Inr v"
  shows "fmin spec \<le> v \<and> v \<le> fmax spec"
  using assms by (auto simp: parseCronValue_def Let_def spec_ok_def list_all_iff split: if_splits
      option.splits dest: map_of_SomeD)

lemma item_range_bounds:
  assumes "spec_ok spec" and "item_range base st spec = Inr (lo, hi)"
  shows "fmin spec \<le> lo \<and> lo \<le> hi \<and> hi \<le> fmax spec"
  using assms parseCronValue_range [OF assms(1)]
  by (auto simp: item_range_def spec_ok_def split: if_splits option.splits sum.splits)

text \<open>The values an item denotes, and the values of a field.\<close>

definition item_denotes :: "cron_field_spec \<Rightarrow> string \<Rightarrow> nat \<Rightarrow> bool" where
  "item_denotes spec item v \<longleftrightarrow>
     (\<exists>base st step lo hi x. item_step item spec = Inr (base, st, step) \<and>
        item_range base st spec = Inr (lo, hi) \<and> lo \<le> x \<and> x \<le> hi \<and> step dvd x - lo \<and>
        v = seven_to_sunday spec x)"

definition field_values :: "cron_field_spec \<Rightarrow> string \<Rightarrow> nat set" where
  "field_values spec raw = {v. \<exists>item \<in> set (split_on CHR '','' raw). item_denotes spec item v}"

lemma item_values_denote:
  assumes "spec_ok spec" and "item_values spec item = Some (Inr vs)"
  shows "set vs = {v. item_denotes spec item v} \<and> vs \<noteq> []"
proof -
  obtain base st step lo hi where s: "item_step item spec = Inr (base, st, step)"
      "item_range base st spec = Inr (lo, hi)"
      and vs: "map_option (\<lambda>vs. Inr (map (seven_to_sunday spec) vs)) (fill_values lo hi step)
        = (Some (Inr vs) :: (cron_error + nat list) option)"
    using assms(2) by (auto simp: item_values_def split: sum.splits)
  then obtain ws where ws: "fill_values lo hi step = Some ws" "vs = map (seven_to_sunday spec) ws"
    by auto
  have le: "lo \<le> hi" using item_range_bounds [OF assms(1) s(2)] by simp
  with ws have "0 < step" using fill_values_zero_step [of lo hi ws] by (cases "step = 0") auto
  then have "set ws = {x. lo \<le> x \<and> x \<le> hi \<and> step dvd x - lo}"
    using fill_values_step [of step lo hi] ws(1) by auto
  with s ws(2) le show ?thesis by (auto simp: item_denotes_def)
qed

lemma item_denotes_range:
  assumes "spec_ok spec" and "item_denotes spec item v"
  shows "fmin spec \<le> v \<and> v \<le> fmax spec \<and> (sevenIsSunday spec \<longrightarrow> v \<noteq> 7)"
proof -
  obtain base st lo hi x where "item_range base st spec = Inr (lo, hi)" "lo \<le> x" "x \<le> hi"
      and v: "v = seven_to_sunday spec x"
    using assms(2) unfolding item_denotes_def by blast
  with item_range_bounds [OF assms(1)] have "fmin spec \<le> x" "x \<le> fmax spec" by fastforce+
  with v assms(1) show ?thesis by (auto simp: seven_to_sunday_def spec_ok_def)
qed

lemma field_loop_values:
  assumes "spec_ok spec"
  shows "field_loop spec items acc = Some (Inr vs) \<Longrightarrow>
     set vs = set acc \<union> {v. \<exists>item \<in> set items. item_denotes spec item v} \<and>
     (items \<noteq> [] \<longrightarrow> vs \<noteq> []) \<and> (acc \<noteq> [] \<longrightarrow> vs \<noteq> [])"
proof (induction items arbitrary: acc)
  case (Cons item items)
  then obtain ws where ws: "item_values spec item = Some (Inr ws)"
      "field_loop spec items (acc @ ws) = Some (Inr vs)"
    by (auto split: option.splits sum.splits)
  with Cons.IH [OF ws(2)] item_values_denote [OF assms ws(1)] show ?case by auto
qed simp

lemma parseCronField_values:
  assumes "spec_ok spec" and "parseCronField raw spec = Some (Inr vs)"
  shows "sorted vs \<and> distinct vs \<and> vs \<noteq> [] \<and> set vs = field_values spec raw"
proof -
  obtain ws where ws: "field_loop spec (split_on CHR '','' raw) [] = Some (Inr ws)"
      "vs = sort (remdups ws)"
    using assms(2) by (auto simp: parseCronField_def split: option.splits sum.splits)
  have "set ws = field_values spec raw" "ws \<noteq> []"
    using field_loop_values [OF assms(1) ws(1)] by (auto simp: field_values_def)
  then show ?thesis using ws(2) by (metis distinct_remdups distinct_sort set_empty set_remdups
      set_sort sorted_sort)
qed

lemma field_values_range:
  assumes "spec_ok spec"
  shows "field_values spec raw \<subseteq> {fmin spec..fmax spec} - (if sevenIsSunday spec then {7} else {})"
proof
  fix v assume "v \<in> field_values spec raw"
  then obtain item where "item_denotes spec item v" by (auto simp: field_values_def)
  from item_denotes_range [OF assms this]
  show "v \<in> {fmin spec..fmax spec} - (if sevenIsSunday spec then {7} else {})" by auto
qed

subsection \<open>Expressions\<close>

lemma trim_ends:
  assumes "trim s \<noteq> []"
  shows "\<not> js_space (hd (trim s)) \<and> \<not> js_space (last (trim s))"
proof -
  let ?t = "trim_start s"
  have "\<not> js_space (last (trim_end ?t))" if "trim_end ?t \<noteq> []"
    using that hd_dropWhile [of js_space "rev ?t"] by (simp add: trim_end_def last_rev)
  moreover have "trim s = trim_start (trim_end s)" by (simp add: trim_def trim_start_trim_end)
  then have "\<not> js_space (hd (trim s))"
    using assms hd_dropWhile [of js_space "trim_end s"] by (simp add: trim_start_def)
  ultimately show ?thesis using assms by (simp add: trim_def)
qed

lemma js_space_blank [simp]: "js_space CHR '' ''"
  by (simp add: js)

lemma collapse_idem:
  "collapse_spaces b (collapse_spaces True s) = collapse_spaces True s"
  "collapse_spaces False (collapse_spaces False s) = collapse_spaces False s"
  by (induction s arbitrary: b) auto

lemma collapse_ends:
  "s \<noteq> [] \<Longrightarrow> \<not> js_space (last s) \<Longrightarrow>
     collapse_spaces b s \<noteq> [] \<and> \<not> js_space (last (collapse_spaces b s))"
  by (induction b s rule: collapse_spaces.induct) (auto split: if_splits)

lemma collapse_hd: "s \<noteq> [] \<Longrightarrow> \<not> js_space (hd s) \<Longrightarrow> hd (collapse_spaces b s) = hd s"
  by (cases s) auto

lemma trim_collapse_trim:
  assumes "trim s \<noteq> []"
  shows "trim (collapse_spaces False (trim s)) = collapse_spaces False (trim s)"
  using trim_ends [OF assms] collapse_ends [OF assms, of False] collapse_hd [OF assms, of False]
  by (intro trim_no_space) auto

lemma parse_fields_Inr:
  "parse_fields ps = Some (Inr vss) \<Longrightarrow>
     length vss = length ps \<and> (\<forall>i < length ps. parseCronField (fst (ps ! i)) (snd (ps ! i)) = Some (Inr (vss ! i)))"
proof (induction ps arbitrary: vss rule: parse_fields.induct)
  case (2 part spec rest)
  then obtain vs rs where "parseCronField part spec = Some (Inr vs)" "parse_fields rest = Some (Inr rs)"
      "vss = vs # rs"
    by (auto split: option.splits sum.splits)
  with 2 show ?case by (auto simp: nth_Cons split: nat.splits)
qed simp

lemma parseCron_fields:
  assumes "parseCronExpression (Some s) = Some (Inr p)"
  defines "parts \<equiv> split_on CHR '' '' (expression p)"
  shows "expression p = collapse_spaces False (trim s) \<and> trim s \<noteq> [] \<and> length parts = 5 \<and>
     parseCronField (parts ! 0) minute_spec = Some (Inr (minutes p)) \<and>
     parseCronField (parts ! 1) hour_spec = Some (Inr (hours p)) \<and>
     parseCronField (parts ! 2) day_spec = Some (Inr (daysOfMonth p)) \<and>
     parseCronField (parts ! 3) month_spec = Some (Inr (months p)) \<and>
     parseCronField (parts ! 4) weekday_spec = Some (Inr (daysOfWeek p))"
proof -
  let ?e = "collapse_spaces False (trim s)"
  let ?parts = "split_on CHR '' '' ?e"
  obtain vss where v: "trim s \<noteq> []" "length ?parts = 5" "parse_fields (zip ?parts CRON_FIELDS) = Some (Inr vss)"
      and p: "expression p = ?e" "minutes p = vss ! 0" "hours p = vss ! 1" "daysOfMonth p = vss ! 2"
        "months p = vss ! 3" "daysOfWeek p = vss ! 4"
    using assms(1) by (auto simp: parseCronExpression_def Let_def CRON_FIELDS_def
        split: if_splits option.splits sum.splits)
  have f: "\<forall>i < 5. parseCronField (?parts ! i) (CRON_FIELDS ! i) = Some (Inr (vss ! i))"
    using parse_fields_Inr [OF v(3)] v(2) by (simp add: CRON_FIELDS_def)
  have "CRON_FIELDS ! 0 = minute_spec" "CRON_FIELDS ! 1 = hour_spec" "CRON_FIELDS ! 2 = day_spec"
      "CRON_FIELDS ! 3 = month_spec" "CRON_FIELDS ! 4 = weekday_spec"
    by (simp_all add: CRON_FIELDS_def)
  with f [rule_format, of 0] f [rule_format, of 1] f [rule_format, of 2] f [rule_format, of 3]
    f [rule_format, of 4] v p show ?thesis
    by (simp add: parts_def)
qed

text \<open>A field as the parser leaves it: sorted, without repetitions, not empty, in range.\<close>

definition good_field :: "nat \<Rightarrow> nat \<Rightarrow> nat list \<Rightarrow> bool" where
  "good_field lo hi vs \<longleftrightarrow> sorted vs \<and> distinct vs \<and> vs \<noteq> [] \<and> list_all (\<lambda>v. lo \<le> v \<and> v \<le> hi) vs"

lemma spec_bounds:
  "fmin minute_spec = 0" "fmax minute_spec = 59" "fmin hour_spec = 0" "fmax hour_spec = 23"
  "fmin day_spec = 1" "fmax day_spec = 31" "fmin month_spec = 1" "fmax month_spec = 12"
  "fmin weekday_spec = 0" "\<not> sevenIsSunday minute_spec" "\<not> sevenIsSunday hour_spec"
  "\<not> sevenIsSunday day_spec" "\<not> sevenIsSunday month_spec" "sevenIsSunday weekday_spec"
  by (simp_all add: cron_specs)

lemma parseCronField_good:
  assumes "spec \<in> set CRON_FIELDS" and "parseCronField raw spec = Some (Inr vs)"
  shows "good_field (fmin spec) (if sevenIsSunday spec then 6 else fmax spec) vs \<and>
    set vs = field_values spec raw"
proof -
  note ok = spec_ok_fields [OF assms(1)]
  have seven: "sevenIsSunday spec \<Longrightarrow> fmax spec = 7"
    using assms(1) by (auto simp: CRON_FIELDS_def cron_specs)
  have vs: "sorted vs" "distinct vs" "vs \<noteq> []" "set vs = field_values spec raw"
    using parseCronField_values [OF ok assms(2)] by auto
  have "fmin spec \<le> v \<and> v \<le> (if sevenIsSunday spec then 6 else fmax spec)" if "v \<in> set vs" for v
    using that field_values_range [OF ok, of raw] seven
    by (cases "sevenIsSunday spec") (auto simp: vs(4) subset_iff le_eq_less_or_eq)
  with vs show ?thesis by (simp add: good_field_def list_all_iff)
qed

text \<open>The equations that evaluate the parser on a concrete expression.\<close>

lemmas cron_eval = js parseCronExpression_def CRON_FIELDS_def cron_specs parseCronField_def
  item_values_def item_step_def item_range_def parseCronValue_def fill_values.simps
  seven_to_sunday_def Let_def MONTH_NAMES_def DAY_OF_WEEK_NAMES_def split_on_case

abbreviation weekday_mornings :: parsed_cron where
  "weekday_mornings \<equiv>
     \<lparr>expression = ''30 9 1 jan 1-3'', minutes = [30], hours = [9], daysOfMonth = [1], months = [1],
      daysOfWeek = [1, 2, 3], dayOfMonthStar = False, dayOfWeekStar = False\<rparr>"

lemma parse_example: "parseCronExpression (Some ''30  9 1 jan 1-3'') = Some (Inr weekday_mornings)"
  by (simp add: cron_eval del: split_on.simps(2))

text \<open>
  C15. A successful parse leaves sorted, distinct, non-empty fields within the calendar ranges
  (Sunday as 0 only), and the values of each field are exactly those its items denote.
\<close>

theorem parseCronExpression_fields:
  assumes "parseCronExpression (Some s) = Some (Inr p)"
  defines "parts \<equiv> split_on CHR '' '' (expression p)"
  shows "good_field 0 59 (minutes p) \<and> good_field 0 23 (hours p) \<and> good_field 1 31 (daysOfMonth p) \<and>
     good_field 1 12 (months p) \<and> good_field 0 6 (daysOfWeek p) \<and>
     set (minutes p) = field_values minute_spec (parts ! 0) \<and>
     set (hours p) = field_values hour_spec (parts ! 1) \<and>
     set (daysOfMonth p) = field_values day_spec (parts ! 2) \<and>
     set (months p) = field_values month_spec (parts ! 3) \<and>
     set (daysOfWeek p) = field_values weekday_spec (parts ! 4)"
proof -
  note P = parseCron_fields [OF assms(1), folded parts_def]
  have m: "minute_spec \<in> set CRON_FIELDS" "hour_spec \<in> set CRON_FIELDS" "day_spec \<in> set CRON_FIELDS"
      "month_spec \<in> set CRON_FIELDS" "weekday_spec \<in> set CRON_FIELDS"
    by (simp_all add: CRON_FIELDS_def)
  have "good_field 0 59 (minutes p) \<and> set (minutes p) = field_values minute_spec (parts ! 0)"
    using parseCronField_good [of minute_spec "parts ! 0" "minutes p"] P m by (simp add: spec_bounds)
  moreover have "good_field 0 23 (hours p) \<and> set (hours p) = field_values hour_spec (parts ! 1)"
    using parseCronField_good [of hour_spec "parts ! 1" "hours p"] P m by (simp add: spec_bounds)
  moreover have "good_field 1 31 (daysOfMonth p) \<and> set (daysOfMonth p) = field_values day_spec (parts ! 2)"
    using parseCronField_good [of day_spec "parts ! 2" "daysOfMonth p"] P m by (simp add: spec_bounds)
  moreover have "good_field 1 12 (months p) \<and> set (months p) = field_values month_spec (parts ! 3)"
    using parseCronField_good [of month_spec "parts ! 3" "months p"] P m by (simp add: spec_bounds)
  moreover have "good_field 0 6 (daysOfWeek p) \<and> set (daysOfWeek p) = field_values weekday_spec (parts ! 4)"
    using parseCronField_good [of weekday_spec "parts ! 4" "daysOfWeek p"] P m by (simp add: spec_bounds)
  ultimately show ?thesis by blast
qed

lemma parseCronExpression_fields_witness:
  "good_field 0 59 [30] \<and> good_field 0 6 [1, 2, 3] \<and>
   {1, 2, 3} = field_values weekday_spec (split_on CHR '' '' (expression weekday_mornings) ! 4)"
  using parseCronExpression_fields [OF parse_example] by simp

text \<open>
  The stored expression is canonical: parsing it again gives the very same result, whatever
  white space the user wrote.
\<close>

theorem parseCronExpression_canonical:
  assumes "parseCronExpression (Some s) = Some (Inr p)"
  shows "parseCronExpression (Some (expression p)) = Some (Inr p)"
proof -
  have e: "expression p = collapse_spaces False (trim s)" and ne: "trim s \<noteq> []"
    using parseCron_fields [OF assms] by auto
  have "collapse_spaces False (trim s) \<noteq> []"
    using collapse_ends [OF ne, of False] trim_ends [OF ne] by auto
  then have "parseCronExpression (Some (expression p)) = parseCronExpression (Some s)"
    using ne by (simp add: parseCronExpression_def e trim_collapse_trim [OF ne] collapse_idem)
  with assms show ?thesis by simp
qed

lemma parseCronExpression_canonical_witness:
  "parseCronExpression (Some (expression weekday_mornings)) = Some (Inr weekday_mornings)"
  by (rule parseCronExpression_canonical) (rule parse_example)

subsection \<open>When a parse returns\<close>

text \<open>A step text that is zero but not spelled \<open>0\<close>.\<close>

definition zero_step :: "string \<Rightarrow> bool" where
  "zero_step item \<longleftrightarrow>
     (case index_of CHR ''/'' item of
        None \<Rightarrow> False
      | Some k \<Rightarrow> all_digits (drop (k + 1) item) \<and> digits_val (drop (k + 1) item) = 0 \<and>
          drop (k + 1) item \<noteq> ''0'')"

lemma item_values_None: "item_values spec item = None \<Longrightarrow> zero_step item"
  by (auto simp: item_values_def item_step_def zero_step_def Let_def fill_values_diverges_iff
      split: sum.splits option.splits if_splits)

lemma field_loop_None: "field_loop spec items acc = None \<Longrightarrow> list_ex zero_step items"
  by (induction items arbitrary: acc) (auto split: option.splits sum.splits dest: item_values_None)

lemma parse_fields_None:
  "parse_fields ps = None \<Longrightarrow> list_ex (\<lambda>(part, spec). list_ex zero_step (split_on CHR '','' part)) ps"
proof (induction ps rule: parse_fields.induct)
  case (2 part spec rest)
  have "parseCronField part spec = None \<Longrightarrow> list_ex zero_step (split_on CHR '','' part)"
    by (auto simp: parseCronField_def split: option.splits sum.splits dest: field_loop_None)
  with 2 show ?case by (auto split: option.splits sum.splits)
qed simp

text \<open>
  C37. The parser returns on every input that has no step spelled as several zeros: that spelling
  is the only way a call can hang.
\<close>

theorem parseCronExpression_returns:
  assumes "list_all (\<lambda>part. \<not> list_ex zero_step (split_on CHR '','' part))
    (split_on CHR '' '' (collapse_spaces False (trim s)))"
  shows "\<exists>r. parseCronExpression (Some s) = Some r"
proof (rule ccontr)
  assume "\<nexists>r. parseCronExpression (Some s) = Some r"
  then have "parseCronExpression (Some s) = None" by simp
  then have "parse_fields (zip (split_on CHR '' '' (collapse_spaces False (trim s))) CRON_FIELDS) = None"
    by (auto simp: parseCronExpression_def Let_def split: if_splits option.splits sum.splits)
  from parse_fields_None [OF this] obtain part where
    "part \<in> set (split_on CHR '' '' (collapse_spaces False (trim s)))"
    "list_ex zero_step (split_on CHR '','' part)"
    by (auto simp: list_ex_iff dest: set_zip_leftD)
  with assms show False by (auto simp: list_all_iff)
qed

lemma parseCronExpression_returns_witness:
  "\<exists>r. parseCronExpression (Some ''*/5 0 * * *'') = Some r"
  by (rule parseCronExpression_returns)
    (simp add: js zero_step_def digits_val_def digit_val_def split_on_case del: split_on.simps(2))

lemma digits_val_zeros: "digits_val (replicate n CHR ''0'') = 0"
  by (induction n) (simp_all add: digits_val_def digit_val_def)

text \<open>
  A step spelled with more than one zero hangs the parser: it passes the test for zero,
  which compares with the spelling \<open>0\<close>, and the loop then adds zero forever.  With any number of
  zeros above one the call does not return.
\<close>

theorem zero_step_hangs:
  "parseCronExpression (Some (''*/0'' @ replicate (Suc n) CHR ''0'' @ '' * * * *'')) = None"
proof -
  define m where "m = ''*/0'' @ replicate (Suc n) CHR ''0''"
  define t where "t = m @ '' * * * *''"
  have t: "''*/0'' @ replicate (Suc n) CHR ''0'' @ '' * * * *'' = t" by (simp add: t_def m_def)
  have digits: "list_all (\<lambda>c. \<not> js_space c) m" "CHR '' '' \<notin> set m" "CHR '','' \<notin> set m" "m \<noteq> []"
    by (auto simp: list_all_iff js m_def)
  have trim: "trim t = t" by (rule trim_no_space) (simp_all add: js t_def m_def)
  have collapse_plain: "list_all (\<lambda>c. \<not> js_space c) x \<Longrightarrow> x \<noteq> [] \<Longrightarrow>
      collapse_spaces b (x @ y) = x @ collapse_spaces False y" for b x y
    by (induction x arbitrary: b) (auto, metis append_Nil)
  have "collapse_spaces False t = m @ collapse_spaces False '' * * * *''"
    using digits unfolding t_def by (intro collapse_plain) auto
  then have collapse: "collapse_spaces False t = t" by (simp add: js t_def)
  have parts: "split_on CHR '' '' t = [m, ''*'', ''*'', ''*'', ''*'']"
    using split_on_append_sep [of "CHR '' ''" m "''* * * *''"] split_on_plain [OF digits(2)]
    by (simp add: t_def)
  have "item_step m minute_spec = Inr (''*'', True, 0)"
    using digits_val_zeros [of "Suc (Suc n)"] by (simp add: item_step_def js list_all_iff m_def)
  then have "item_values minute_spec m = None"
    by (simp add: item_values_def item_range_def minute_spec_def fill_values_diverges_iff)
  then have "parseCronField m minute_spec = None"
    using split_on_plain [OF digits(3)] by (simp add: parseCronField_def)
  moreover have "t \<noteq> []" by (simp add: t_def)
  ultimately show ?thesis
    unfolding t parseCronExpression_def option.case trim Let_def collapse parts
    by (simp add: CRON_FIELDS_def)
qed

subsection \<open>Matching a date\<close>

text \<open>
  A stepped star is not a restriction: with \<open>*/2\<close> as the day of month and a star as the day
  of week the expression parses to the odd days only, and still matches on the second of the
  month, because a field that starts with a star is not consulted.
\<close>

theorem stepped_star_matches_every_day:
  "\<exists>p. parseCronExpression (Some ''0 0 */2 * *'') = Some (Inr p) \<and> \<not> List.member (daysOfMonth p) 2 \<and>
     cronMatchesLocalDate p
       \<lparr>getMinutes = 0, getHours = 0, getDate = 2, getMonth = 0, getDay = 1\<rparr>"
proof -
  have "\<exists>p. parseCronExpression (Some ''0 0 */2 * *'') = Some (Inr p) \<and>
      minutes p = [0] \<and> hours p = [0] \<and> months p = [1, 2, 3, 4, 5, 6, 7, 8, 9, 10, 11, 12] \<and>
      daysOfMonth p = [1, 3, 5, 7, 9, 11, 13, 15, 17, 19, 21, 23, 25, 27, 29, 31] \<and>
      dayOfMonthStar p \<and> dayOfWeekStar p"
    by (simp add: cron_eval del: split_on.simps(2))
  then obtain p where p: "parseCronExpression (Some ''0 0 */2 * *'') = Some (Inr p)" "minutes p = [0]"
      "hours p = [0]" "months p = [1, 2, 3, 4, 5, 6, 7, 8, 9, 10, 11, 12]"
      "daysOfMonth p = [1, 3, 5, 7, 9, 11, 13, 15, 17, 19, 21, 23, 25, 27, 29, 31]"
      "dayOfMonthStar p" "dayOfWeekStar p"
    by blast
  then show ?thesis by (intro exI [of _ p]) (simp add: cronMatchesLocalDate_def Let_def)
qed

text \<open>
  The day rule: minute, hour and month must match; then, when neither day field starts with
  a star, either may match, and otherwise each field that does not start with a star must.
\<close>

theorem cronMatchesLocalDate_rule:
  "cronMatchesLocalDate p d \<longleftrightarrow>
     getMinutes d \<in> set (minutes p) \<and> getHours d \<in> set (hours p) \<and> Suc (getMonth d) \<in> set (months p) \<and>
     (if dayOfMonthStar p \<or> dayOfWeekStar p
      then (dayOfMonthStar p \<or> getDate d \<in> set (daysOfMonth p)) \<and>
           (dayOfWeekStar p \<or> getDay d \<in> set (daysOfWeek p))
      else getDate d \<in> set (daysOfMonth p) \<or> getDay d \<in> set (daysOfWeek p))"
  by (auto simp: cronMatchesLocalDate_def Let_def)

end
