(* ===== verification/Scheduler_Spec.thy ===== *)
theory Scheduler_Spec
  imports Scheduler Cron_Spec
begin

text \<open>
  What scheduled execution promises: each minute is sampled at most once and none is caught up;
  the timer runs only for an attached session with the switch on; an occurrence that crosses a
  boundary (switch, detach, replan) is never started; a one-shot entry is consumed once.
\<close>

subsection \<open>The sampler\<close>

text \<open>
  The sampler is armed and sampled in any order, at the instants the clock shows.  The log keeps the
  minutes that were marked by arming (\<open>False\<close>) and the minutes that were sampled (\<open>True\<close>).
\<close>

datatype sampler_op = Arm (op_time: int) | is_Sample: Sample (op_time: int) "sampler_entry list"

fun sampler_log :: "(int \<Rightarrow> local_date) \<Rightarrow> sampler \<Rightarrow> sampler_op list \<Rightarrow> (bool \<times> int) list" where
  "sampler_log ld s [] = []"
| "sampler_log ld s (Arm t # ops) = (False, absoluteMinuteOf t) # sampler_log ld (beginAt s t) ops"
| "sampler_log ld s (Sample t es # ops) =
     (case sampleMinute ld s t es of
        (None, s') \<Rightarrow> sampler_log ld s' ops
      | (Some m, s') \<Rightarrow> (True, minuteMs m) # sampler_log ld s' ops)"

definition remembered :: "int \<Rightarrow> int \<Rightarrow> bool" where
  "remembered t t' \<longleftrightarrow> t \<le> absoluteMinuteOf t' + SAMPLED_MINUTE_MEMORY_MS"

lemma in_sampler_set [simp]: "set (sampler_set s m) = insert m (set s)"
  by (auto simp: sampler_set_def)

lemma minute_le: "absoluteMinuteOf t \<le> t"
  by (simp add: absoluteMinuteOf_def MINUTE_MS_def)

lemma pruned: "m \<in> set s \<Longrightarrow> m \<in> set (prune s t) \<or> m < t - SAMPLED_MINUTE_MEMORY_MS"
  by (auto simp: prune_def Let_def)

lemma prune_subset: "set (prune s t) \<subseteq> set s"
  by (auto simp: prune_def Let_def)

lemma sampled_from_readings:
  "(b, m) \<in> set (sampler_log ld s ops) \<Longrightarrow> \<exists>op \<in> set ops. m = absoluteMinuteOf (op_time op) \<and> (b \<longrightarrow> is_Sample op)"
  by (induction ld s ops rule: sampler_log.induct)
    (auto simp: sampleMinute_def Let_def split: if_splits)

text \<open>A minute in the memory is never sampled again: it stays there, or it is too old to come back.\<close>

lemma remembered_minute_dead:
  "m \<in> set s \<Longrightarrow> sorted_wrt remembered (map op_time ops) \<Longrightarrow> (True, m) \<notin> set (sampler_log ld s ops)"
proof (induction ld s ops rule: sampler_log.induct)
  case (2 ld s t ops)
  show ?case
  proof (cases "m \<in> set (beginAt s t)")
    case False
    then have "m < t - SAMPLED_MINUTE_MEMORY_MS" using pruned [OF 2(2), of t] by (simp add: beginAt_def)
    then have "m \<noteq> absoluteMinuteOf (op_time op)" if "op \<in> set ops" for op
      using 2(3) that by (auto simp: remembered_def)
    then show ?thesis using sampled_from_readings [of True m ld "beginAt s t" ops] by auto
  qed (use 2 in simp)
next
  case (3 ld s t es ops)
  let ?m = "absoluteMinuteOf t" and ?s = "sampler_set (prune s (absoluteMinuteOf t)) (absoluteMinuteOf t)"
  show ?case
  proof (cases "?m \<in> set s")
    case new: False
    then have ne: "m \<noteq> ?m" using 3(3) by auto
    have "(True, m) \<notin> set (sampler_log ld ?s ops)"
    proof (cases "m \<in> set ?s")
      case False
      then have "m < ?m - SAMPLED_MINUTE_MEMORY_MS" using pruned [OF 3(3), of ?m] by simp
      then have "m < t - SAMPLED_MINUTE_MEMORY_MS" using minute_le [of t] by linarith
      then have "m \<noteq> absoluteMinuteOf (op_time op)" if "op \<in> set ops" for op
        using 3(4) that by (auto simp: remembered_def)
      then show ?thesis using sampled_from_readings [of True m ld ?s ops] by auto
    qed (use 3 new in \<open>auto simp: sampleMinute_def Let_def\<close>)
    with new ne show ?thesis by (simp add: sampleMinute_def Let_def)
  qed (use 3 in \<open>simp add: sampleMinute_def Let_def\<close>)
qed simp

definition unsampled_before :: "bool \<times> int \<Rightarrow> bool \<times> int \<Rightarrow> bool" where
  "unsampled_before a b \<longleftrightarrow> (fst b \<longrightarrow> snd a \<noteq> snd b)"

lemma sampler_log_ordered:
  "sorted_wrt remembered (map op_time ops) \<Longrightarrow> sorted_wrt unsampled_before (sampler_log ld s ops)"
proof (induction ld s ops rule: sampler_log.induct)
  case (2 ld s t ops)
  then show ?case
    using remembered_minute_dead [of "absoluteMinuteOf t" "beginAt s t" ops ld]
    by (auto simp: unsampled_before_def beginAt_def)
next
  case (3 ld s t es ops)
  then show ?case
    using remembered_minute_dead [of "absoluteMinuteOf t" "sampler_set (prune s (absoluteMinuteOf t)) (absoluteMinuteOf t)" ops ld]
    by (auto simp: unsampled_before_def sampleMinute_def Let_def)
qed simp

lemma sampler_log_complete:
  "op \<in> set ops \<Longrightarrow> absoluteMinuteOf (op_time op) \<in> set s \<union> snd ` set (sampler_log ld s ops)"
proof (induction ld s ops rule: sampler_log.induct)
  case (2 ld s t ops)
  then show ?case using prune_subset [of s t] by (auto simp: beginAt_def)
next
  case (3 ld s t es ops)
  then show ?case
    using prune_subset [of s "absoluteMinuteOf t"]
    by (cases "absoluteMinuteOf t \<in> set s") (auto simp: sampleMinute_def Let_def)
qed simp

text \<open>
  C20. A minute is sampled at most once, with no catch-up.  Starting with an empty memory, the sampler
  is armed and sampled in any order and any number of times.  The clock may run backwards, as long as
  no reading lies further behind an earlier one than the memory of 48 hours reaches
  (\<open>remembered\<close>).  Then a minute is sampled only if no earlier arming or sampling had it, it is the
  minute of a sampling reading, never one in between, and the minute of every reading was sampled or
  marked by an arming.
\<close>

theorem sampler_at_most_once:
  assumes "sorted_wrt remembered (map op_time ops)"
  shows "sorted_wrt unsampled_before (sampler_log ld [] ops) \<and>
     {m. (True, m) \<in> set (sampler_log ld [] ops)} \<subseteq> {absoluteMinuteOf t | t es. Sample t es \<in> set ops} \<and>
     snd ` set (sampler_log ld [] ops) = absoluteMinuteOf ` op_time ` set ops"
proof (intro conjI subsetI equalityI)
  show "sorted_wrt unsampled_before (sampler_log ld [] ops)" by (rule sampler_log_ordered [OF assms])
next
  fix m assume "m \<in> {m. (True, m) \<in> set (sampler_log ld [] ops)}"
  then have "(True, m) \<in> set (sampler_log ld [] ops)" by simp
  from sampled_from_readings [OF this] obtain op where "op \<in> set ops" "m = absoluteMinuteOf (op_time op)" "is_Sample op"
    by blast
  moreover from this(3) obtain t es where "op = Sample t es" by (cases op rule: sampler_op.exhaust) simp_all
  ultimately show "m \<in> {absoluteMinuteOf t | t es. Sample t es \<in> set ops}" by auto
next
  fix m assume "m \<in> snd ` set (sampler_log ld [] ops)"
  then obtain b where "(b, m) \<in> set (sampler_log ld [] ops)" by force
  from sampled_from_readings [OF this] show "m \<in> absoluteMinuteOf ` op_time ` set ops" by auto
next
  fix m assume "m \<in> absoluteMinuteOf ` op_time ` set ops"
  then show "m \<in> snd ` set (sampler_log ld [] ops)" using sampler_log_complete [of _ ops "[]" ld] by auto
qed

text \<open>The clock goes back by a minute after the second sample; the sampled minutes stay sampled.\<close>

lemma sampler_at_most_once_witness:
  "sorted_wrt unsampled_before (sampler_log (\<lambda>_. \<lparr>getMinutes = 0, getHours = 0, getDate = 1, getMonth = 0, getDay = 0\<rparr>) []
     [Arm 30000, Sample 60000 [], Sample 130000 [], Sample 70000 [], Arm 90000, Sample 125000 [], Sample 180000 []])"
  using sampler_at_most_once [of "[Arm 30000, Sample 60000 [], Sample 130000 [], Sample 70000 [], Arm 90000,
      Sample 125000 [], Sample 180000 []]" "\<lambda>_. \<lparr>getMinutes = 0, getHours = 0, getDate = 1, getMonth = 0, getDay = 0\<rparr>"]
  by (simp add: remembered_def absoluteMinuteOf_def MINUTE_MS_def SAMPLED_MINUTE_MEMORY_MS_def)

subsection \<open>The runtime invariant\<close>

definition good_occ :: "nat \<Rightarrow> occurrence \<Rightarrow> bool" where
  "good_occ g occ \<longleftrightarrow> occ_generation occ \<le> g \<and> te_enabled (occ_entry occ) \<and>
     \<not> consumed (occ_entry occ) \<and> MINUTE_MS dvd occ_due occ"

definition good_dispatch :: "nat \<Rightarrow> dispatch \<Rightarrow> bool" where
  "good_dispatch g d \<longleftrightarrow> d_generation d \<le> g \<and> te_enabled (d_entry d) \<and>
     \<not> consumed (d_entry d) \<and> MINUTE_MS dvd d_dueAt d"

definition rt_inv :: "runtime \<Rightarrow> bool" where
  "rt_inv rt \<longleftrightarrow> (timer rt \<longrightarrow> attached rt \<and> switch_on rt) \<and> (subscribed rt = attached rt) \<and>
     (\<forall>k. list_all (good_occ (generation rt)) (waiting rt k)) \<and>
     list_all (good_dispatch (generation rt)) (dispatched rt)"

lemma good_occ_Suc: "good_occ g occ \<Longrightarrow> good_occ (Suc g) occ"
  by (simp add: good_occ_def)

lemma good_occs_Suc: "list_all (good_occ g) os \<Longrightarrow> list_all (good_occ (Suc g)) os"
  by (auto simp: list_all_iff good_occ_Suc)

lemma good_dispatches_Suc: "list_all (good_dispatch g) ds \<Longrightarrow> list_all (good_dispatch (Suc g)) ds"
  by (auto simp: list_all_iff good_dispatch_def)

text \<open>The queues and the dispatch log only see disarming as a new generation.\<close>

definition log_inv :: "runtime \<Rightarrow> bool" where
  "log_inv rt \<longleftrightarrow> (\<forall>k. list_all (good_occ (generation rt)) (waiting rt k)) \<and>
     list_all (good_dispatch (generation rt)) (dispatched rt)"

lemma rt_inv_split:
  "rt_inv rt \<longleftrightarrow> (timer rt \<longrightarrow> attached rt \<and> switch_on rt) \<and> (subscribed rt = attached rt) \<and> log_inv rt"
  by (auto simp: rt_inv_def log_inv_def)

lemma log_inv_disarm: "log_inv rt \<Longrightarrow> log_inv (disarm rt)"
  by (auto simp: log_inv_def disarm_def good_occs_Suc good_dispatches_Suc)

lemma log_inv_cong:
  "log_inv rt \<Longrightarrow> generation rt' = generation rt \<Longrightarrow> waiting rt' = waiting rt \<Longrightarrow>
     dispatched rt' = dispatched rt \<Longrightarrow> log_inv rt'"
  by (simp add: log_inv_def)

lemma arm_fields [simp]:
  "attached (arm t rt) = attached rt" "subscribed (arm t rt) = subscribed rt"
  "switch_on (arm t rt) = switch_on rt" "generation (arm t rt) = generation rt"
  "waiting (arm t rt) = waiting rt" "dispatched (arm t rt) = dispatched rt" "timer (arm t rt)"
  "running (arm t rt) = running rt" "live_catalog (arm t rt) = live_catalog rt"
  by (simp_all add: arm_def)

lemma disarm_fields [simp]:
  "attached (disarm rt) = attached rt" "subscribed (disarm rt) = subscribed rt"
  "switch_on (disarm rt) = switch_on rt" "generation (disarm rt) = Suc (generation rt)"
  "waiting (disarm rt) = waiting rt" "dispatched (disarm rt) = dispatched rt" "\<not> timer (disarm rt)"
  by (simp_all add: disarm_def)

lemma log_inv_arm: "log_inv rt \<Longrightarrow> log_inv (arm t rt)"
  by (rule log_inv_cong) simp_all

lemma rt_inv_attach: "rt_inv rt \<Longrightarrow> rt_inv (attach t rt)"
  by (auto simp: attach_def Let_def rt_inv_split intro!: log_inv_arm elim: log_inv_cong)

lemma rt_inv_detach: "rt_inv rt \<Longrightarrow> rt_inv (detach rt)"
  by (auto simp: detach_def rt_inv_split intro: log_inv_cong [OF log_inv_disarm])

lemma rt_inv_replan: "rt_inv rt \<or> \<not> timer rt \<and> subscribed rt = attached rt \<and> log_inv rt \<Longrightarrow> rt_inv (replan t rt)"
  by (auto simp: replan_def Let_def rt_inv_split intro!: log_inv_arm intro: log_inv_cong [OF log_inv_disarm])

lemma rt_inv_toggle: "rt_inv rt \<Longrightarrow> rt_inv (setEnabled t b rt)"
proof (cases "switch_on rt = b")
  case False
  assume inv: "rt_inv rt"
  let ?r = "rt\<lparr>switch_on := b\<rparr>"
  have log: "log_inv ?r" using inv by (auto simp: rt_inv_split elim: log_inv_cong)
  have sub: "subscribed ?r = attached ?r" using inv by (simp add: rt_inv_split)
  show ?thesis
  proof (cases "subscribed rt")
    case True
    show ?thesis
    proof (cases b)
      case True
      have "\<not> timer ?r" using inv False True by (simp add: rt_inv_split)
      then show ?thesis using False True \<open>subscribed rt\<close> sub log
        by (simp add: setEnabled_def rt_inv_replan)
    next
      case nb: False
      have "rt_inv (disarm ?r)" using sub log_inv_disarm [OF log] by (simp add: rt_inv_split)
      with False nb True show ?thesis by (simp add: setEnabled_def)
    qed
  next
    case nsub: False
    then have "\<not> timer rt" using inv by (auto simp: rt_inv_split)
    with False nsub sub log show ?thesis by (simp add: setEnabled_def rt_inv_split)
  qed
qed (simp add: setEnabled_def)

subsection \<open>The tick\<close>

lemma collect_entries_fields:
  "collect_entries cat rt = Some (es, rt') \<Longrightarrow>
     attached rt' = attached rt \<and> subscribed rt' = subscribed rt \<and> switch_on rt' = switch_on rt \<and>
     generation rt' = generation rt \<and> waiting rt' = waiting rt \<and> dispatched rt' = dispatched rt \<and>
     timer rt' = timer rt \<and> live_catalog rt' = live_catalog rt"
proof (induction cat rt arbitrary: es rule: collect_entries.induct)
  case (2 key entry rest rt)
  then show ?case
    by (fastforce simp: Let_def split: option.splits sum.splits if_splits)
qed simp

lemma sampleDueEntries_fields:
  assumes "sampleDueEntries ld t rt = Some (m, rt')"
  shows "attached rt' = attached rt \<and> subscribed rt' = subscribed rt \<and> switch_on rt' = switch_on rt \<and>
     generation rt' = generation rt \<and> waiting rt' = waiting rt \<and> dispatched rt' = dispatched rt \<and>
     timer rt' = timer rt \<and> (\<forall>sm. m = Some sm \<longrightarrow> MINUTE_MS dvd minuteMs sm)"
  using assms
  by (auto simp: sampleDueEntries_def sampleMinute_def absoluteMinuteOf_def Let_def
      split: option.splits if_splits dest!: collect_entries_fields)

lemma dispatchDue_fields [simp]:
  "attached (dispatchDue due k rt) = attached rt" "subscribed (dispatchDue due k rt) = subscribed rt"
  "switch_on (dispatchDue due k rt) = switch_on rt" "generation (dispatchDue due k rt) = generation rt"
  "dispatched (dispatchDue due k rt) = dispatched rt" "timer (dispatchDue due k rt) = timer rt"
  by (auto simp: dispatchDue_def split: option.splits)

lemma dispatchDue_log_inv: "log_inv rt \<Longrightarrow> MINUTE_MS dvd due \<Longrightarrow> log_inv (dispatchDue due k rt)"
  by (auto simp: dispatchDue_def log_inv_def good_occ_def split: option.splits)

lemma fold_dispatchDue:
  "log_inv rt \<Longrightarrow> MINUTE_MS dvd due \<Longrightarrow>
     log_inv (fold (dispatchDue due) ks rt) \<and>
     attached (fold (dispatchDue due) ks rt) = attached rt \<and>
     subscribed (fold (dispatchDue due) ks rt) = subscribed rt \<and>
     switch_on (fold (dispatchDue due) ks rt) = switch_on rt \<and>
     generation (fold (dispatchDue due) ks rt) = generation rt \<and>
     dispatched (fold (dispatchDue due) ks rt) = dispatched rt \<and>
     timer (fold (dispatchDue due) ks rt) = timer rt"
  by (induction ks arbitrary: rt) (auto simp: dispatchDue_log_inv)

lemma tick_spec:
  assumes "tick ld t rt = Some rt'" and "rt_inv rt"
  shows "rt_inv rt' \<and> generation rt' = generation rt \<and> dispatched rt' = dispatched rt"
proof (cases "attached rt")
  case True
  obtain m rt2 where s: "sampleDueEntries ld t (rt\<lparr>timer := False\<rparr>) = Some (m, rt2)"
    using assms(1) True by (auto simp: tick_def Let_def split: option.splits)
  note F = sampleDueEntries_fields [OF s, simplified]
  define rt3 where "rt3 = (case m of None \<Rightarrow> rt2 | Some sm \<Rightarrow> fold (dispatchDue (minuteMs sm)) (dueIds sm) rt2)"
  have rt': "rt' = (if attached rt3 \<and> switch_on rt3 then rt3\<lparr>timer := True\<rparr> else rt3)"
  proof -
    have "tick ld t rt = Some (if attached rt3 \<and> switch_on rt3 then rt3\<lparr>timer := True\<rparr> else rt3)"
      using True s by (simp add: tick_def Let_def rt3_def)
    with assms(1) show ?thesis by simp
  qed
  have log: "log_inv rt2" using assms(2) F by (auto simp: rt_inv_split elim: log_inv_cong)
  have "log_inv rt3 \<and> attached rt3 = attached rt2 \<and> subscribed rt3 = subscribed rt2 \<and>
      switch_on rt3 = switch_on rt2 \<and> generation rt3 = generation rt2 \<and>
      dispatched rt3 = dispatched rt2 \<and> timer rt3 = timer rt2"
    using fold_dispatchDue [OF log] F log by (cases m) (auto simp: rt3_def)
  with F assms(2) show ?thesis
    by (auto simp: rt' rt_inv_split intro: log_inv_cong)
next
  case False
  then have "rt' = rt\<lparr>timer := False\<rparr>" using assms(1) by (simp add: tick_def)
  with assms(2) show ?thesis by (auto simp: rt_inv_split elim: log_inv_cong)
qed

subsection \<open>Admission\<close>

lemma dispatchEntry_cases:
  obtains (dropped) "dispatchEntry t k occ rt = rt"
  | (admitted) "occ_generation occ = generation rt" "attached rt" "switch_on rt"
      "\<And>e. catalog_entry rt k = Some e \<Longrightarrow> \<not> consumed e"
      "dispatchEntry t k occ rt = rt\<lparr>running := (running rt)(k := Some occ),
         dispatched := dispatched rt @ [\<lparr>d_id = k, d_entry = occ_entry occ, d_dueAt = occ_due occ,
           d_overdue = (t > occ_due occ + MINUTE_MS), d_generation = occ_generation occ\<rparr>]\<rparr>"
  by (cases "occ_generation occ \<noteq> generation rt \<or> \<not> attached rt \<or> \<not> switch_on rt";
      cases "case catalog_entry rt k of None \<Rightarrow> False | Some e \<Rightarrow> consumed e")
    (auto simp: dispatchEntry_def split: option.splits)

lemma start_next_inv: "rt_inv rt \<Longrightarrow> rt_inv (start_next t k rt)"
proof -
  assume inv: "rt_inv rt"
  show ?thesis
  proof (cases "waiting rt k")
    case Nil
    with inv show ?thesis by (simp add: start_next_def)
  next
    case (Cons occ rest)
    let ?r = "rt\<lparr>waiting := (waiting rt)(k := rest)\<rparr>"
    have "list_all (good_occ (generation rt)) (occ # rest)"
      using inv unfolding rt_inv_def Cons [symmetric] by blast
    then have r: "rt_inv ?r" "good_occ (generation rt) occ"
      using inv by (auto simp: rt_inv_def)
    have "rt_inv (dispatchEntry t k occ ?r)"
      by (cases rule: dispatchEntry_cases [of t k occ ?r])
        (use r in \<open>auto simp: rt_inv_def good_dispatch_def good_occ_def\<close>)
    with Cons show ?thesis by (simp add: start_next_def)
  qed
qed

lemma rt_inv_init: "runtime_init rt \<Longrightarrow> rt_inv rt"
  by (simp add: runtime_init_def rt_inv_def)

lemma sched_step_inv: "rt_inv rt \<Longrightarrow> sched_step ld rt rt' \<Longrightarrow> rt_inv rt'"
proof -
  assume inv: "rt_inv rt" and step: "sched_step ld rt rt'"
  from step show ?thesis
  proof cases
    case (tick t)
    then show ?thesis using tick_spec inv by blast
  next
    case settle
    then show ?thesis using inv by (simp add: settle_def rt_inv_def)
  next
    case consume
    then show ?thesis using inv by (simp add: consume_live_def rt_inv_def)
  next
    case edit
    then show ?thesis using inv by (simp add: rt_inv_def)
  qed (simp_all add: inv rt_inv_attach rt_inv_detach rt_inv_replan rt_inv_toggle start_next_inv)
qed

interpretation sched: guarded_system runtime_init "sched_step ld" rt_inv for ld
  by unfold_locales (auto intro: rt_inv_init sched_step_inv)

text \<open>
  In every reachable state the timer is armed only for an attached session whose switch is
  on, and every dispatch so far ran a definition that was enabled and not a consumed one-shot
  when it was sampled, for an exact minute.
\<close>

theorem scheduler_reachable:
  assumes "runtime_init rt0" and "(sched_step ld)\<^sup>*\<^sup>* rt0 rt"
  shows "(timer rt \<longrightarrow> attached rt \<and> switch_on rt) \<and>
     list_all (\<lambda>d. te_enabled (d_entry d) \<and> \<not> consumed (d_entry d) \<and> MINUTE_MS dvd d_dueAt d)
       (dispatched rt)"
  using sched.reachable_inv [OF assms] by (auto simp: rt_inv_def good_dispatch_def list_all_iff)

subsection \<open>Boundaries\<close>

definition later_log :: "runtime \<Rightarrow> runtime \<Rightarrow> bool" where
  "later_log rt0 rt \<longleftrightarrow> generation rt0 \<le> generation rt \<and>
     (\<exists>new. dispatched rt = dispatched rt0 @ new \<and> list_all (\<lambda>d. generation rt0 \<le> d_generation d) new)"

lemma later_log_same:
  "later_log rt0 rt \<Longrightarrow> dispatched rt' = dispatched rt \<Longrightarrow> generation rt \<le> generation rt' \<Longrightarrow> later_log rt0 rt'"
  by (auto simp: later_log_def)

lemma later_log_start: "later_log rt0 rt \<Longrightarrow> later_log rt0 (start_next t k rt)"
proof (cases "waiting rt k")
  case (Cons occ rest)
  assume later: "later_log rt0 rt"
  let ?r = "rt\<lparr>waiting := (waiting rt)(k := rest)\<rparr>"
  have r: "later_log rt0 ?r" using later by (rule later_log_same) simp_all
  have "later_log rt0 (dispatchEntry t k occ ?r)"
    by (cases rule: dispatchEntry_cases [of t k occ ?r]) (use r in \<open>auto simp: later_log_def\<close>)
  with Cons show ?thesis by (simp add: start_next_def)
qed (simp add: start_next_def)

lemma later_log_step:
  assumes "sched_step ld rt rt'" and "later_log rt0 rt" and "rt_inv rt"
  shows "later_log rt0 rt'"
  using assms(1)
proof cases
  case (tick t)
  then show ?thesis using tick_spec [of ld t rt rt'] assms by (auto intro: later_log_same)
next
  case (start k t)
  then show ?thesis using later_log_start [OF assms(2)] by simp
qed (use assms(2) in \<open>auto elim!: later_log_same simp: attach_def detach_def replan_def setEnabled_def
      settle_def consume_live_def Let_def\<close>)

lemma later_log_run: "(sched_step ld)\<^sup>*\<^sup>* rt0 rt \<Longrightarrow> rt_inv rt0 \<Longrightarrow> later_log rt0 rt \<and> rt_inv rt"
proof (induction rule: rtranclp_induct)
  case base
  then show ?case by (simp add: later_log_def)
next
  case (step y z)
  then show ?case using later_log_step sched_step_inv by blast
qed

text \<open>The boundaries: detaching, replanning an attached session, and a toggle it listens to.\<close>

definition boundary :: "runtime \<Rightarrow> runtime \<Rightarrow> bool" where
  "boundary rt rt' \<longleftrightarrow> rt' = detach rt \<or> attached rt \<and> (\<exists>t. rt' = replan t rt) \<or>
     attached rt \<and> (\<exists>t. rt' = setEnabled t (\<not> switch_on rt) rt)"

lemma boundary_generation:
  assumes "boundary rt rt'" and "rt_inv rt"
  shows "generation rt' = Suc (generation rt) \<and> dispatched rt' = dispatched rt \<and> rt_inv rt'"
proof -
  have "rt_inv rt'"
    using assms by (auto simp: boundary_def rt_inv_detach rt_inv_replan rt_inv_toggle)
  moreover have "generation rt' = Suc (generation rt) \<and> dispatched rt' = dispatched rt"
    using assms by (auto simp: boundary_def detach_def replan_def setEnabled_def Let_def rt_inv_split)
  ultimately show ?thesis by simp
qed

text \<open>
  C17. An occurrence that is waiting when the session crosses a boundary is never started
  afterwards, whatever happens next: every dispatch after the boundary belongs to a later
  generation than every occurrence that was waiting at it.
\<close>

theorem boundary_drops_waiting:
  assumes "runtime_init rt0" and "(sched_step ld)\<^sup>*\<^sup>* rt0 rt" and "boundary rt rt1"
    and "(sched_step ld)\<^sup>*\<^sup>* rt1 rt2"
  shows "\<exists>new. dispatched rt2 = dispatched rt @ new \<and>
     (\<forall>d \<in> set new. \<forall>k. \<forall>occ \<in> set (waiting rt k). occ_generation occ < d_generation d)"
proof -
  have inv: "rt_inv rt" by (rule sched.reachable_inv [OF assms(1,2)])
  note B = boundary_generation [OF assms(3) inv]
  have "later_log rt1 rt2" using later_log_run [OF assms(4)] B by blast
  then obtain new where new: "dispatched rt2 = dispatched rt @ new"
      "list_all (\<lambda>d. Suc (generation rt) \<le> d_generation d) new"
    using B by (auto simp: later_log_def)
  moreover have "occ_generation occ \<le> generation rt" if "occ \<in> set (waiting rt k)" for occ k
    using inv that by (auto simp: rt_inv_def good_occ_def list_all_iff)
  ultimately show ?thesis by (fastforce simp: list_all_iff)
qed

subsection \<open>A concrete run\<close>

text \<open>A session armed at time 0 with one entry due at each first minute of the hour.\<close>

definition demo_date :: "int \<Rightarrow> local_date" where
  "demo_date ms = \<lparr>getMinutes = nat (ms div MINUTE_MS), getHours = 0, getDate = 1, getMonth = 0, getDay = 4\<rparr>"

definition demo_entry :: task_entry where
  "demo_entry = \<lparr>te_cron = ''1 0 1 1 *'', te_enabled = True, te_oneShot = False, te_alreadyRun = False,
     te_instructions = ''run''\<rparr>"

definition demo_init :: runtime where
  "demo_init = \<lparr>sampled = [], timer = False, attached = False, subscribed = False, switch_on = True,
     waiting = (\<lambda>_. []), running = (\<lambda>_. None), generation = 0, reportedInvalid = [],
     live_catalog = Some [(''t'', demo_entry)], dispatched = [], reported = []\<rparr>"

definition demo_queued :: runtime where
  "demo_queued = (attach 0 demo_init)\<lparr>sampled := [0, 60000], waiting := (\<lambda>_. [])(''t'' :=
     [\<lparr>occ_entry = demo_entry, occ_due = 60000, occ_generation = 0\<rparr>])\<rparr>"

definition demo_cron :: parsed_cron where
  "demo_cron = \<lparr>expression = ''1 0 1 1 *'', minutes = [1], hours = [0], daysOfMonth = [1], months = [1],
     daysOfWeek = [0, 1, 2, 3, 4, 5, 6], dayOfMonthStar = False, dayOfWeekStar = True\<rparr>"

lemma demo_parse: "parseCronExpression (Some ''1 0 1 1 *'') = Some (Inr demo_cron)"
  by (simp add: cron_eval demo_cron_def del: split_on.simps(2))

lemma demo_tick: "tick demo_date 60000 (attach 0 demo_init) = Some demo_queued"
  by (simp add: tick_def sampleDueEntries_def demo_init_def attach_def arm_def beginAt_def prune_def
      sampler_set_def absoluteMinuteOf_def MINUTE_MS_def SAMPLED_MINUTE_MEMORY_MS_def demo_parse
      demo_entry_def sampleMinute_def cronMatchesLocalDate_def demo_cron_def demo_date_def
      dispatchDue_def catalog_entry_def consumed_def demo_queued_def Let_def)

lemma demo_run: "runtime_init demo_init \<and> (sched_step demo_date)\<^sup>*\<^sup>* demo_init demo_queued"
proof
  have "sched_step demo_date (attach 0 demo_init) demo_queued"
    by (rule sched_step.tick [OF _ demo_tick]) (simp add: attach_def demo_init_def)
  then show "(sched_step demo_date)\<^sup>*\<^sup>* demo_init demo_queued"
    using sched_step.attach [of demo_date demo_init 0] by (rule r_into_rtranclp [THEN rtranclp.rtrancl_into_rtrancl, rotated])
qed (simp add: runtime_init_def demo_init_def)

lemma scheduler_reachable_witness:
  "timer demo_queued \<and> attached demo_queued \<and> switch_on demo_queued"
proof -
  have "timer demo_queued" by (simp add: demo_queued_def attach_def demo_init_def)
  then show ?thesis using scheduler_reachable [of demo_init demo_date demo_queued] demo_run by blast
qed

lemma boundary_drops_waiting_witness:
  "waiting demo_queued ''t'' \<noteq> [] \<and>
   (\<exists>new. dispatched (start_next 60001 ''t'' (detach demo_queued)) = dispatched demo_queued @ new \<and>
     (\<forall>d \<in> set new. \<forall>k. \<forall>occ \<in> set (waiting demo_queued k). occ_generation occ < d_generation d))"
proof
  have w: "waiting (detach demo_queued) ''t'' \<noteq> []" "running (detach demo_queued) ''t'' = None"
    by (simp_all add: detach_def disarm_def demo_queued_def attach_def demo_init_def)
  then show "waiting demo_queued ''t'' \<noteq> []" by (simp add: detach_def)
  have step: "(sched_step demo_date)\<^sup>*\<^sup>* (detach demo_queued) (start_next 60001 ''t'' (detach demo_queued))"
    using w by (intro r_into_rtranclp sched_step.start)
  show "\<exists>new. dispatched (start_next 60001 ''t'' (detach demo_queued)) = dispatched demo_queued @ new \<and>
     (\<forall>d \<in> set new. \<forall>k. \<forall>occ \<in> set (waiting demo_queued k). occ_generation occ < d_generation d)"
    by (rule boundary_drops_waiting [OF conjunct1 [OF demo_run] conjunct2 [OF demo_run] _ step])
      (simp add: boundary_def)
qed

subsection \<open>One-shot entries\<close>

lemma map_of_catalog_update:
  "map_of (catalog_update cat k f) k' = (if k' = k then map_option f (map_of cat k) else map_of cat k')"
  by (induction cat) (auto simp: catalog_update_def)

text \<open>
  Consuming an entry touches nothing but its own run flag: a recurring, removed or already
  consumed entry changes nothing, a fresh one-shot entry becomes consumed at once, a second
  observation is idempotent, and every other entry keeps its value.
\<close>

theorem consume_once:
  "let (r, cat') = consumeOneShotExecution cat p k in
     (r = Untouched) = (\<not> (\<exists>e. map_of cat k = Some e \<and> te_oneShot e \<and> \<not> te_alreadyRun e)) \<and>
     map_of cat' k = map_option (\<lambda>e. if te_oneShot e then e\<lparr>te_alreadyRun := True\<rparr> else e) (map_of cat k) \<and>
     (\<lambda>k'. if k' = k then None else map_of cat' k') = (\<lambda>k'. if k' = k then None else map_of cat k') \<and>
     consumeOneShotExecution cat' p k = (Untouched, cat')"
proof (cases "map_of cat k")
  case None
  then show ?thesis by (simp add: consumeOneShotExecution_def)
next
  case (Some e)
  have "e\<lparr>te_alreadyRun := True\<rparr> = e" if "te_alreadyRun e" using that by simp
  with Some show ?thesis
    by (auto simp: consumeOneShotExecution_def Let_def map_of_catalog_update fun_eq_iff)
qed

text \<open>
  The durable write records the flag only when the live entry is still a consumed one-shot
  and the stored entry a one-shot; otherwise, and for every other entry, the stored catalog is
  unchanged.  A re-arm before the write therefore wins.
\<close>

theorem record_respects_rearm:
  "map_of (recordAlreadyRun live stored k) k' =
     (if k' = k \<and> (\<exists>l. map_of live k = Some l \<and> consumed l)
      then map_option (\<lambda>s. if te_oneShot s then s\<lparr>te_alreadyRun := True\<rparr> else s) (map_of stored k)
      else map_of stored k')"
proof (cases "map_of stored k")
  case None
  then show ?thesis by (auto simp: recordAlreadyRun_def split: option.splits)
next
  case (Some s)
  have "s\<lparr>te_alreadyRun := True\<rparr> = s" if "te_alreadyRun s" using that by simp
  with Some show ?thesis
    by (auto simp: recordAlreadyRun_def consumed_def map_of_catalog_update split: option.splits)
qed

end
