(* ===== verification/Executor_Pool.thy ===== *)
theory Executor_Pool
  imports Prelude
begin

text \<open>
  The capacity-aware executor pool, \<open>src/src/execution/executor-pool.ts\<close>: ordered leases of
  entries, waiters that ask for an entry after the one they hold, and the drain that serves
  them when capacity returns.

  A lease is an index into the list of all leases handed out, so that its \<open>released\<close> flag is
  state; the resolution of a waiter's promise is a record of the log \<open>outcomes\<close>.  A route given
  as a function is a name looked up in the current table of routes.
\<close>

record pool_entry =
  entryId :: string
  maxConcurrent :: nat

record lease =
  l_entry :: pool_entry
  l_priority :: nat
  l_released :: bool

datatype route = Fixed "pool_entry list" | Own | Role string
datatype after = AfterPriority int | AfterEntry string

record waiter =
  w_id :: nat
  w_after :: after
  w_route :: route
  w_aborted :: bool

record pool =
  entries :: "pool_entry list"
  routes :: "string \<Rightarrow> pool_entry list"
  running :: "string \<rightharpoonup> nat"
  waiters :: "waiter list"
  leases :: "lease list"
  outcomes :: "(nat \<times> nat option) list"

definition activeCount :: "pool \<Rightarrow> string \<Rightarrow> nat" where
  "activeCount p k = (case running p k of Some n \<Rightarrow> n | None \<Rightarrow> 0)"

definition hasEntry :: "pool \<Rightarrow> string \<Rightarrow> bool" where
  "hasEntry p k = list_ex (\<lambda>e. entryId e = k) (entries p)"

definition resolveEntries :: "pool \<Rightarrow> route \<Rightarrow> pool_entry list" where
  "resolveEntries p r = (case r of Fixed es \<Rightarrow> es | Own \<Rightarrow> entries p | Role name \<Rightarrow> routes p name)"

definition priorityAfter :: "after \<Rightarrow> pool_entry list \<Rightarrow> int" where
  "priorityAfter after es =
     (case after of
        AfterPriority n \<Rightarrow> n + 1
      | AfterEntry k \<Rightarrow>
          (case find_index (\<lambda>e. entryId e = k) es of None \<Rightarrow> 0 | Some i \<Rightarrow> int i + 1))"

subsection \<open>Acquiring and releasing\<close>

definition has_slot :: "pool \<Rightarrow> pool_entry \<Rightarrow> bool" where
  "has_slot p e \<longleftrightarrow> activeCount p (entryId e) < maxConcurrent e"

definition grant :: "pool_entry \<Rightarrow> nat \<Rightarrow> pool \<Rightarrow> nat option \<times> pool" where
  "grant e priority p =
     (Some (length (leases p)),
      p\<lparr>running := (running p)(entryId e \<mapsto> activeCount p (entryId e) + 1),
        leases := leases p @ [\<lparr>l_entry = e, l_priority = priority, l_released = False\<rparr>]\<rparr>)"

definition tryAcquireRoute :: "pool_entry list \<Rightarrow> int \<Rightarrow> pool \<Rightarrow> nat option \<times> pool" where
  "tryAcquireRoute es startPriority p =
     (case find_from (\<lambda>i. has_slot p (es ! i)) (nat startPriority) (length es) of
        None \<Rightarrow> (None, p)
      | Some priority \<Rightarrow> grant (es ! priority) priority p)"

definition tryAcquire :: "int \<Rightarrow> pool \<Rightarrow> nat option \<times> pool" where
  "tryAcquire startPriority p = tryAcquireRoute (entries p) startPriority p"

definition tryAcquireRouteEntry :: "string \<Rightarrow> pool_entry list \<Rightarrow> pool \<Rightarrow> nat option \<times> pool" where
  "tryAcquireRouteEntry k es p =
     (case find_index (\<lambda>e. entryId e = k) es of
        None \<Rightarrow> (None, p)
      | Some priority \<Rightarrow>
          (if \<not> has_slot p (es ! priority) then (None, p) else grant (es ! priority) priority p))"

definition tryAcquireEntry :: "string \<Rightarrow> pool \<Rightarrow> nat option \<times> pool" where
  "tryAcquireEntry k p = tryAcquireRouteEntry k (entries p) p"

text \<open>One waiter of the drain: kept, or removed with its outcome.\<close>

definition drain_waiter :: "waiter \<Rightarrow> pool \<Rightarrow> waiter list \<times> pool" where
  "drain_waiter w p =
     (if w_aborted w then ([], p\<lparr>outcomes := outcomes p @ [(w_id w, None)]\<rparr>)
      else
        let es = resolveEntries p (w_route w); start = priorityAfter (w_after w) es in
        if start \<ge> int (length es) then ([], p\<lparr>outcomes := outcomes p @ [(w_id w, None)]\<rparr>)
        else case tryAcquireRoute es start p of
            (None, p') \<Rightarrow> ([w], p')
          | (Some l, p') \<Rightarrow> ([], p'\<lparr>outcomes := outcomes p' @ [(w_id w, Some l)]\<rparr>))"

fun drain_loop :: "waiter list \<Rightarrow> waiter list \<Rightarrow> pool \<Rightarrow> pool" where
  "drain_loop [] kept p = p\<lparr>waiters := kept\<rparr>"
| "drain_loop (w # ws) kept p =
     (let (k, p') = drain_waiter w p in drain_loop ws (kept @ k) p')"

definition drainWaiters :: "pool \<Rightarrow> pool" where
  "drainWaiters p = drain_loop (waiters p) [] p"

definition release :: "nat \<Rightarrow> pool \<Rightarrow> pool" where
  "release l p =
     (case js_nth (leases p) l of
        None \<Rightarrow> p
      | Some lease \<Rightarrow>
          (if l_released lease then p
           else
             let k = entryId (l_entry lease);
                 p1 = p\<lparr>leases := (leases p)[l := lease\<lparr>l_released := True\<rparr>]\<rparr>;
                 remaining = (case running p k of Some n \<Rightarrow> n | None \<Rightarrow> 1) - 1;
                 p2 = p1\<lparr>running := (if remaining = 0 then (running p1)(k := None)
                                  else (running p1)(k \<mapsto> remaining))\<rparr> in
             drainWaiters p2))"

definition reconfigure :: "pool_entry list \<Rightarrow> pool \<Rightarrow> pool" where
  "reconfigure es p = drainWaiters (p\<lparr>entries := es\<rparr>)"

text \<open>\<open>acquireAfterRoute\<close>: settled at once, or queued under the waiter's number.\<close>

definition acquireAfterRoute ::
  "after \<Rightarrow> route \<Rightarrow> bool \<Rightarrow> nat \<Rightarrow> pool \<Rightarrow> pool" where
  "acquireAfterRoute after r aborted wid p =
     (let es = resolveEntries p r; start = priorityAfter after es in
      if start \<ge> int (length es) then p\<lparr>outcomes := outcomes p @ [(wid, None)]\<rparr>
      else case tryAcquireRoute es start p of
          (Some l, p') \<Rightarrow> p'\<lparr>outcomes := outcomes p' @ [(wid, Some l)]\<rparr>
        | (None, p') \<Rightarrow>
            (if aborted then p'\<lparr>outcomes := outcomes p' @ [(wid, None)]\<rparr>
             else p'\<lparr>waiters := waiters p' @
                    [\<lparr>w_id = wid, w_after = after, w_route = r, w_aborted = False\<rparr>]\<rparr>))"

definition acquireAfter :: "after \<Rightarrow> bool \<Rightarrow> nat \<Rightarrow> pool \<Rightarrow> pool" where
  "acquireAfter after aborted wid p = acquireAfterRoute after Own aborted wid p"

definition abort_waiter :: "nat \<Rightarrow> pool \<Rightarrow> pool" where
  "abort_waiter wid p =
     p\<lparr>waiters := filter (\<lambda>w. w_id w \<noteq> wid) (waiters p),
       outcomes := outcomes p @ [(wid, None)]\<rparr>"

subsection \<open>The snapshot\<close>

record snapshot_entry =
  s_entryId :: string
  s_priority :: nat
  s_capacity :: nat
  s_active :: nat
  s_available :: nat

record capacity_snapshot =
  totalCapacity :: nat
  activeLeases :: nat
  availableSlots :: nat
  s_entries :: "snapshot_entry list"

definition capacitySnapshot :: "string option \<Rightarrow> pool \<Rightarrow> capacity_snapshot" where
  "capacitySnapshot releasing p =
     (let es = map (\<lambda>(priority, e).
            let current = activeCount p (entryId e);
                active = (if releasing = Some (entryId e) then current - 1 else current) in
            \<lparr>s_entryId = entryId e, s_priority = priority, s_capacity = maxConcurrent e,
             s_active = active, s_available = maxConcurrent e - active\<rparr>)
          (enumerate 0 (entries p)) in
      \<lparr>totalCapacity = sum_list (map s_capacity es), activeLeases = sum_list (map s_active es),
       availableSlots = sum_list (map s_available es), s_entries = es\<rparr>)"

definition pool_init :: "pool \<Rightarrow> bool" where
  "pool_init p \<longleftrightarrow> running p = Map.empty \<and> waiters p = [] \<and> leases p = [] \<and> outcomes p = []"

subsection \<open>The pool and the live configuration\<close>

text \<open>
  A route given as a function is read from the live configuration each time, and the configuration
  may change at any moment (a save of the settings); the pool learns of it at the next drain.  The
  world is the pool with the set of the roles whose route changed since the last drain.  Only a
  release that takes effect and a reconfiguration drain.
\<close>

type_synonym live_pool = "pool \<times> string set"

definition drains :: "nat \<Rightarrow> pool \<Rightarrow> bool" where
  "drains l p \<longleftrightarrow> (case js_nth (leases p) l of None \<Rightarrow> False | Some lease \<Rightarrow> \<not> l_released lease)"

inductive pool_step :: "live_pool \<Rightarrow> live_pool \<Rightarrow> bool" where
  acquire: "pool_step (p, S) (snd (tryAcquire n p), S)"
| acquire_entry: "pool_step (p, S) (snd (tryAcquireEntry k p), S)"
| acquire_route: "pool_step (p, S) (snd (tryAcquireRoute es n p), S)"
| acquire_route_entry: "pool_step (p, S) (snd (tryAcquireRouteEntry k es p), S)"
| acquire_after: "wid \<notin> w_id ` set (waiters p) \<Longrightarrow> pool_step (p, S) (acquireAfterRoute a r ab wid p, S)"
| release: "pool_step (p, S) (release l p, if drains l p then {} else S)"
| reconfigure: "pool_step (p, S) (reconfigure es p, {})"
| reroute: "pool_step (p, S) (p\<lparr>routes := f\<rparr>, S \<union> {name. f name \<noteq> routes p name})"
| abort: "wid \<in> w_id ` set (waiters p) \<Longrightarrow> pool_step (p, S) (abort_waiter wid p, S)"

inductive_cases pool_stepE: "pool_step w v"

end
