(* ===== verification/Executor_Pool_Spec.thy ===== *)
theory Executor_Pool_Spec
  imports Executor_Pool
begin

text \<open>
  What the pool promises: its counters are the unreleased leases, an entry never runs more than
  it was granted, and no waiter is left waiting while a slot it could use is free.
\<close>

definition active_of :: "string \<Rightarrow> lease list \<Rightarrow> nat" where
  "active_of k ls = length (filter (\<lambda>l. \<not> l_released l \<and> entryId (l_entry l) = k) ls)"

definition counted :: "pool \<Rightarrow> bool" where
  "counted p \<longleftrightarrow> (\<forall>k. running p k =
     (if active_of k (leases p) = 0 then None else Some (active_of k (leases p))))"

definition within_capacity :: "pool \<Rightarrow> bool" where
  "within_capacity p \<longleftrightarrow> (\<forall>k. 0 < active_of k (leases p) \<longrightarrow>
     (\<exists>l \<in> set (leases p). entryId (l_entry l) = k \<and> active_of k (leases p) \<le> maxConcurrent (l_entry l)))"

text \<open>A waiter with no free entry after the one it holds.\<close>

definition stuck :: "pool \<Rightarrow> waiter \<Rightarrow> bool" where
  "stuck p w \<longleftrightarrow>
     (let es = resolveEntries p (w_route w); start = priorityAfter (w_after w) es in
      start < int (length es) \<and> (\<forall>i. nat start \<le> i \<and> i < length es \<longrightarrow> \<not> has_slot p (es ! i)))"

text \<open>A waiter whose route is the one the last drain saw.\<close>

definition up_to_date :: "string set \<Rightarrow> waiter \<Rightarrow> bool" where
  "up_to_date S w \<longleftrightarrow> (case w_route w of Role name \<Rightarrow> name \<notin> S | _ \<Rightarrow> True)"

definition pool_inv :: "string set \<Rightarrow> pool \<Rightarrow> bool" where
  "pool_inv S p \<longleftrightarrow> counted p \<and> within_capacity p \<and>
     (\<forall>w \<in> set (waiters p). up_to_date S w \<longrightarrow> stuck p w)"

text \<open>\<open>q\<close> differs from \<open>p\<close> by granted leases only.\<close>

definition grown :: "pool \<Rightarrow> pool \<Rightarrow> bool" where
  "grown p q \<longleftrightarrow> entries q = entries p \<and> routes q = routes p \<and> (\<forall>k. activeCount p k \<le> activeCount q k)"

lemma grown_refl [simp]: "grown p p"
  by (simp add: grown_def)

lemma grown_trans: "grown p q \<Longrightarrow> grown q r \<Longrightarrow> grown p r"
  by (auto simp: grown_def intro: le_trans)

lemma grown_stuck: "grown p q \<Longrightarrow> stuck p w \<Longrightarrow> stuck q w"
proof -
  assume g: "grown p q" and s: "stuck p w"
  have "resolveEntries q (w_route w) = resolveEntries p (w_route w)"
    using g by (simp add: grown_def resolveEntries_def split: route.split)
  moreover have "\<not> has_slot p e \<Longrightarrow> \<not> has_slot q e" for e
    using g by (auto simp: grown_def has_slot_def not_less intro: le_trans)
  ultimately show ?thesis using s by (simp add: stuck_def Let_def)
qed

lemma stuck_cong:
  assumes "entries q = entries p" and "routes q = routes p" and "running q = running p"
  shows "stuck q = stuck p"
proof -
  have "grown p q" "grown q p" using assms by (simp_all add: grown_def activeCount_def)
  then show ?thesis using grown_stuck by blast
qed

lemma activeCount_counted: "counted p \<Longrightarrow> activeCount p k = active_of k (leases p)"
  by (simp add: counted_def activeCount_def)

lemma active_of_snoc:
  "active_of k (ls @ [l]) = active_of k ls + (if \<not> l_released l \<and> entryId (l_entry l) = k then 1 else 0)"
  by (simp add: active_of_def)

lemma grant_spec:
  assumes "grant e n p = (r, q)" and "counted p" and "within_capacity p" and "has_slot p e"
  shows "counted q \<and> within_capacity q \<and> grown p q \<and> waiters q = waiters p"
proof -
  let ?l = "\<lparr>l_entry = e, l_priority = n, l_released = False\<rparr>" and ?k = "entryId e"
  have q: "q = p\<lparr>running := (running p)(?k \<mapsto> activeCount p ?k + 1), leases := leases p @ [?l]\<rparr>"
    using assms(1) by (simp add: grant_def)
  have a: "active_of k (leases q) = active_of k (leases p) + (if k = ?k then 1 else 0)" for k
    by (simp add: q active_of_snoc)
  have c: "counted q"
    using assms(2) a activeCount_counted [OF assms(2), of ?k] by (auto simp: counted_def q)
  have "within_capacity q"
    unfolding within_capacity_def
  proof (intro allI impI)
    fix k assume pos: "0 < active_of k (leases q)"
    show "\<exists>l \<in> set (leases q). entryId (l_entry l) = k \<and> active_of k (leases q) \<le> maxConcurrent (l_entry l)"
    proof (cases "k = ?k")
      case True
      then have "active_of k (leases q) \<le> maxConcurrent e"
        using assms(4) a activeCount_counted [OF assms(2), of k] by (simp add: has_slot_def)
      with True show ?thesis by (intro bexI [of _ ?l]) (simp_all add: q)
    next
      case False
      then obtain l where "l \<in> set (leases p)" "entryId (l_entry l) = k"
          "active_of k (leases p) \<le> maxConcurrent (l_entry l)"
        using assms(3) pos a by (auto simp: within_capacity_def)
      with False a show ?thesis by (intro bexI [of _ l]) (simp_all add: q)
    qed
  qed
  moreover have "grown p q"
    by (auto simp: grown_def q activeCount_def)
  ultimately show ?thesis using c by (simp add: q)
qed

lemma tryAcquireRoute_spec:
  assumes "tryAcquireRoute es s p = (r, q)" and "counted p" and "within_capacity p"
  shows "counted q \<and> within_capacity q \<and> grown p q \<and> waiters q = waiters p \<and>
     (r = None \<longrightarrow> q = p \<and> (\<forall>i. nat s \<le> i \<and> i < length es \<longrightarrow> \<not> has_slot p (es ! i)))"
proof (cases "find_from (\<lambda>i. has_slot p (es ! i)) (nat s) (length es)")
  case None
  then have "r = None" "q = p" using assms(1) by (simp_all add: tryAcquireRoute_def)
  with None assms show ?thesis by (auto simp: find_from_None_iff)
next
  case (Some i)
  then have g: "grant (es ! i) i p = (r, q)" using assms(1) by (simp add: tryAcquireRoute_def)
  then have "r \<noteq> None" by (auto simp: grant_def)
  moreover have "has_slot p (es ! i)" using find_from_SomeD [OF Some] by simp
  ultimately show ?thesis using grant_spec [OF g assms(2,3)] by blast
qed

lemma tryAcquireRouteEntry_spec:
  assumes "tryAcquireRouteEntry k es p = (r, q)" and "counted p" and "within_capacity p"
  shows "counted q \<and> within_capacity q \<and> grown p q \<and> waiters q = waiters p"
  using assms grant_spec by (auto simp: tryAcquireRouteEntry_def split: option.splits if_splits)

subsection \<open>Draining\<close>

lemma counted_cong: "counted p \<Longrightarrow> running q = running p \<Longrightarrow> leases q = leases p \<Longrightarrow> counted q"
  by (simp add: counted_def)

lemma within_capacity_cong: "within_capacity p \<Longrightarrow> leases q = leases p \<Longrightarrow> within_capacity q"
  by (simp add: within_capacity_def)

lemma grown_cong:
  "grown p q \<Longrightarrow> entries r = entries q \<Longrightarrow> routes r = routes q \<Longrightarrow> running r = running q \<Longrightarrow> grown p r"
  by (simp add: grown_def activeCount_def)

lemma drain_waiter_spec:
  assumes "drain_waiter w p = (k, q)" and "counted p" and "within_capacity p"
  shows "counted q \<and> within_capacity q \<and> grown p q \<and> list_all (stuck q) k"
proof (cases "w_aborted w \<or> priorityAfter (w_after w) (resolveEntries p (w_route w))
      \<ge> int (length (resolveEntries p (w_route w)))")
  case True
  then have "k = [] \<and> q = p\<lparr>outcomes := outcomes p @ [(w_id w, None)]\<rparr>"
    using assms(1) by (auto simp: drain_waiter_def Let_def split: if_splits)
  with assms(2,3) show ?thesis
    by (auto intro: counted_cong within_capacity_cong grown_cong [OF grown_refl])
next
  case False
  let ?es = "resolveEntries p (w_route w)"
  let ?s = "priorityAfter (w_after w) ?es"
  obtain r p' where t: "tryAcquireRoute ?es ?s p = (r, p')" by (cases "tryAcquireRoute ?es ?s p")
  note T = tryAcquireRoute_spec [OF t assms(2,3)]
  show ?thesis
  proof (cases r)
    case None
    then have "k = [w]" "q = p" using assms(1) False t T by (auto simp: drain_waiter_def Let_def)
    with T None False assms(2,3) show ?thesis by (simp add: stuck_def Let_def)
  next
    case (Some l)
    then have "k = []" "q = p'\<lparr>outcomes := outcomes p' @ [(w_id w, Some l)]\<rparr>"
      using assms(1) False t by (auto simp: drain_waiter_def Let_def)
    with T show ?thesis by (auto intro: counted_cong within_capacity_cong grown_cong)
  qed
qed

lemma drain_loop_inv:
  "counted p \<Longrightarrow> within_capacity p \<Longrightarrow> list_all (stuck p) kept \<Longrightarrow> pool_inv S (drain_loop ws kept p)"
proof (induction ws arbitrary: kept p)
  case Nil
  have "stuck (p\<lparr>waiters := kept\<rparr>) = stuck p"
    by (rule stuck_cong) simp_all
  with Nil show ?case
    by (auto simp: pool_inv_def list_all_iff intro: counted_cong within_capacity_cong)
next
  case (Cons w ws)
  obtain k p' where d: "drain_waiter w p = (k, p')" by (cases "drain_waiter w p")
  note D = drain_waiter_spec [OF d Cons.prems(1,2)]
  then have "list_all (stuck p') (kept @ k)"
    using Cons.prems(3) grown_stuck [of p p'] by (auto simp: list_all_iff)
  with Cons.IH D d show ?case by simp
qed

lemma drainWaiters_inv: "counted p \<Longrightarrow> within_capacity p \<Longrightarrow> pool_inv S (drainWaiters p)"
  by (simp add: drainWaiters_def drain_loop_inv)

subsection \<open>Steps\<close>

lemma active_of_update:
  "l < length ls \<Longrightarrow> active_of k (ls[l := x]) = active_of k (take l ls) +
     (if \<not> l_released x \<and> entryId (l_entry x) = k then 1 else 0) + active_of k (drop (Suc l) ls)"
  by (simp add: upd_conv_take_nth_drop active_of_def)

lemma active_of_release:
  assumes "l < length ls" and "\<not> l_released (ls ! l)"
  shows "active_of k ls = active_of k (ls[l := (ls ! l)\<lparr>l_released := True\<rparr>]) +
     (if entryId (l_entry (ls ! l)) = k then 1 else 0)"
  using active_of_update [OF assms(1), of k "ls ! l"] active_of_update [OF assms(1)] assms(2)
  by simp

lemma release_inv:
  assumes "pool_inv S p"
  shows "pool_inv (if drains l p then {} else S) (release l p)"
proof (cases "js_nth (leases p) l")
  case None
  with assms show ?thesis by (simp add: release_def drains_def)
next
  case (Some x)
  then have l: "l < length (leases p)" "x = leases p ! l" by (auto simp: js_nth_Some_iff)
  show ?thesis
  proof (cases "l_released x")
    case True
    with Some assms show ?thesis by (simp add: release_def drains_def)
  next
    case False
    let ?k = "entryId (l_entry x)"
    let ?ls = "(leases p)[l := x\<lparr>l_released := True\<rparr>]"
    have c: "counted p" "within_capacity p" using assms by (simp_all add: pool_inv_def)
    have a: "active_of k (leases p) = active_of k ?ls + (if ?k = k then 1 else 0)" for k
      using active_of_release [OF l(1), of k] False l(2) by simp
    have run: "running p ?k = Some (active_of ?k ?ls + 1)"
      using c(1) a [of ?k] by (simp add: counted_def)
    define q where "q = p\<lparr>leases := ?ls, running := (if active_of ?k ?ls = 0
      then (running p)(?k := None) else (running p)(?k \<mapsto> active_of ?k ?ls))\<rparr>"
    have "release l p = drainWaiters q"
      using Some False run by (simp add: release_def q_def Let_def)
    moreover have "counted q" using c(1) a by (auto simp: counted_def q_def)
    moreover have "within_capacity q"
      unfolding within_capacity_def
    proof (intro allI impI)
      fix k assume "0 < active_of k (leases q)"
      then have "0 < active_of k (leases p)" "active_of k (leases q) \<le> active_of k (leases p)"
        using a [of k] by (simp_all add: q_def)
      then obtain m where m: "m \<in> set (leases p)" "entryId (l_entry m) = k"
          "active_of k (leases q) \<le> maxConcurrent (l_entry m)"
        using c(2) by (force simp: within_capacity_def)
      obtain j where j: "j < length (leases p)" "leases p ! j = m" using m(1) by (auto simp: in_set_conv_nth)
      have "?ls ! j \<in> set ?ls" using j(1) by simp
      moreover have "l_entry (?ls ! j) = l_entry m" using j l by (cases "j = l") auto
      ultimately show "\<exists>m \<in> set (leases q). entryId (l_entry m) = k \<and>
          active_of k (leases q) \<le> maxConcurrent (l_entry m)"
        using m by (intro bexI [of _ "?ls ! j"]) (simp_all add: q_def)
    qed
    ultimately show ?thesis by (simp add: drainWaiters_inv)
  qed
qed

lemma pool_inv_grown:
  assumes "pool_inv S p" and "counted q" "within_capacity q" "grown p q" "waiters q = waiters p"
  shows "pool_inv S q"
  using assms grown_stuck [of p q] by (auto simp: pool_inv_def)

lemma acquireAfterRoute_inv:
  assumes "pool_inv S p"
  shows "pool_inv S (acquireAfterRoute a r ab wid p)"
proof -
  let ?es = "resolveEntries p r"
  let ?s = "priorityAfter a ?es"
  have c: "counted p" "within_capacity p" using assms by (simp_all add: pool_inv_def)
  have out: "pool_inv S (q\<lparr>outcomes := os\<rparr>)" if "pool_inv S q" for q os
    by (rule pool_inv_grown [OF that])
      (use that in \<open>auto simp: pool_inv_def intro: counted_cong within_capacity_cong grown_cong [OF grown_refl]\<close>)
  obtain x q where t: "tryAcquireRoute ?es ?s p = (x, q)" by (cases "tryAcquireRoute ?es ?s p")
  note T = tryAcquireRoute_spec [OF t c]
  have q: "pool_inv S q" using pool_inv_grown [OF assms] T by blast
  show ?thesis
  proof (cases "?s \<ge> int (length ?es) \<or> x \<noteq> None \<or> ab")
    case True
    then show ?thesis
      using out [OF assms] out [OF q] t
      by (auto simp: acquireAfterRoute_def Let_def split: option.split)
  next
    case False
    let ?w = "\<lparr>w_id = wid, w_after = a, w_route = r, w_aborted = False\<rparr>"
    let ?q = "p\<lparr>waiters := waiters p @ [?w]\<rparr>"
    have eq: "acquireAfterRoute a r ab wid p = ?q"
      using False t T by (simp add: acquireAfterRoute_def Let_def)
    have st: "stuck ?q = stuck p"
      by (rule stuck_cong) simp_all
    have "stuck p ?w" using False T by (simp add: stuck_def Let_def)
    then show ?thesis using assms unfolding eq pool_inv_def st
      by (auto intro: counted_cong within_capacity_cong)
  qed
qed

lemma abort_waiter_inv: "pool_inv S p \<Longrightarrow> pool_inv S (abort_waiter wid p)"
proof -
  assume inv: "pool_inv S p"
  have "stuck (abort_waiter wid p) = stuck p"
    by (rule stuck_cong) (simp_all add: abort_waiter_def)
  then show ?thesis using inv
    by (auto simp: pool_inv_def abort_waiter_def intro: counted_cong within_capacity_cong)
qed

lemma pool_inv_reroute:
  assumes "pool_inv S p"
  shows "pool_inv (S \<union> {name. f name \<noteq> routes p name}) (p\<lparr>routes := f\<rparr>)"
proof -
  have "stuck (p\<lparr>routes := f\<rparr>) w"
    if w: "stuck p w" "up_to_date (S \<union> {name. f name \<noteq> routes p name}) w" for w
  proof -
    have "resolveEntries (p\<lparr>routes := f\<rparr>) (w_route w) = resolveEntries p (w_route w)"
      using w(2) by (simp add: resolveEntries_def up_to_date_def split: route.splits)
    then show ?thesis using w(1) by (simp add: stuck_def Let_def has_slot_def activeCount_def)
  qed
  moreover have "up_to_date S w" if "up_to_date (S \<union> {name. f name \<noteq> routes p name}) w" for w
    using that by (simp add: up_to_date_def split: route.splits)
  ultimately show ?thesis using assms
    by (auto simp: pool_inv_def intro: counted_cong within_capacity_cong)
qed

lemma pool_step_inv: "pool_step w v \<Longrightarrow> pool_inv (snd w) (fst w) \<Longrightarrow> pool_inv (snd v) (fst v)"
proof (induction rule: pool_step.induct)
  case (acquire p S n)
  then have "counted p" "within_capacity p" by (simp_all add: pool_inv_def)
  then show ?case
    using acquire tryAcquireRoute_spec [OF prod.collapse [symmetric]] pool_inv_grown [of S p]
    by (simp add: tryAcquire_def)
next
  case (acquire_entry p S k)
  then have "counted p" "within_capacity p" by (simp_all add: pool_inv_def)
  then show ?case
    using acquire_entry tryAcquireRouteEntry_spec [OF prod.collapse [symmetric]] pool_inv_grown [of S p]
    by (simp add: tryAcquireEntry_def)
next
  case (acquire_route p S es n)
  then have "counted p" "within_capacity p" by (simp_all add: pool_inv_def)
  then show ?case
    using acquire_route tryAcquireRoute_spec [OF prod.collapse [symmetric]] pool_inv_grown [of S p] by simp
next
  case (acquire_route_entry p S k es)
  then have "counted p" "within_capacity p" by (simp_all add: pool_inv_def)
  then show ?case
    using acquire_route_entry tryAcquireRouteEntry_spec [OF prod.collapse [symmetric]] pool_inv_grown [of S p] by simp
next
  case (reconfigure p S es)
  then have "counted (p\<lparr>entries := es\<rparr>)" "within_capacity (p\<lparr>entries := es\<rparr>)"
    by (auto simp: pool_inv_def intro: counted_cong within_capacity_cong)
  then show ?case by (simp add: reconfigure_def drainWaiters_inv)
qed (simp_all add: acquireAfterRoute_inv release_inv abort_waiter_inv pool_inv_reroute)

lemma pool_init_inv: "pool_init p \<Longrightarrow> pool_inv {} p"
  by (simp add: pool_init_def pool_inv_def counted_def within_capacity_def active_of_def)

interpretation pool_sys: guarded_system "\<lambda>w. pool_init (fst w) \<and> snd w = {}" pool_step "\<lambda>w. pool_inv (snd w) (fst w)"
  by unfold_locales (auto intro: pool_init_inv pool_step_inv)

lemma pool_reachable_inv: "pool_init p0 \<Longrightarrow> pool_step\<^sup>*\<^sup>* (p0, {}) (p, S) \<Longrightarrow> pool_inv S p"
  using pool_sys.reachable_inv [of "(p0, {})" "(p, S)"] by simp

text \<open>
  In every reachable state the counter of an entry is the number of its unreleased leases
  (absent for none), and that number never exceeds a capacity under which one of its leases was
  granted.
\<close>

lemma pool_capacity:
  assumes "pool_init p0" and "pool_step\<^sup>*\<^sup>* (p0, {}) (p, S)"
  shows "activeCount p k = active_of k (leases p) \<and>
     (active_of k (leases p) = 0 \<or>
      (\<exists>l \<in> set (leases p). entryId (l_entry l) = k \<and> active_of k (leases p) \<le> maxConcurrent (l_entry l)))"
  using pool_reachable_inv [OF assms] activeCount_counted
  by (auto simp: pool_inv_def within_capacity_def)

text \<open>
  C24. No lost wake-up.  The pool is used in any order: leases over any route and over an entry of a
  route, waiting, aborting, releasing (also twice), reconfiguring, and changes of the live
  configuration between them.  In every reachable state each queued waiter, unless it waits on a
  role whose route changed since the last drain, still has an entry after the one it holds, and every
  such entry is at its capacity.  So a release or a reconfiguration, which drain, serve in the same
  step every waiter that a free slot of its present route could serve; after them the exception is
  empty.
\<close>

theorem pool_no_lost_wakeup:
  assumes "pool_init p0" and "pool_step\<^sup>*\<^sup>* (p0, {}) (p, S)" and "w \<in> set (waiters p)"
    and "\<And>name. w_route w = Role name \<Longrightarrow> name \<notin> S"
  shows "let es = resolveEntries p (w_route w); start = priorityAfter (w_after w) es in
     start < int (length es) \<and>
     (\<forall>i. nat start \<le> i \<and> i < length es \<longrightarrow> maxConcurrent (es ! i) \<le> activeCount p (entryId (es ! i)))"
proof -
  have "up_to_date S w" using assms(4) by (simp add: up_to_date_def split: route.splits)
  then have "stuck p w" using pool_reachable_inv [OF assms(1,2)] assms(3) by (simp add: pool_inv_def)
  then show ?thesis by (simp add: stuck_def has_slot_def Let_def not_less)
qed

subsection \<open>A concrete run\<close>

text \<open>
  Two entries of capacity one; the second waiter, on a role, finds both taken.  Then the route of the
  role is reversed and the pool reconfigured.
\<close>

definition demo_pool :: pool where
  "demo_pool = \<lparr>entries = [\<lparr>entryId = ''a'', maxConcurrent = 1\<rparr>, \<lparr>entryId = ''b'', maxConcurrent = 1\<rparr>],
     routes = (\<lambda>_. [\<lparr>entryId = ''a'', maxConcurrent = 1\<rparr>, \<lparr>entryId = ''b'', maxConcurrent = 1\<rparr>]),
     running = Map.empty, waiters = [], leases = [], outcomes = []\<rparr>"

definition demo_waiting :: pool where
  "demo_waiting = acquireAfterRoute (AfterPriority 0) (Role ''r'') False 2
     (acquireAfterRoute (AfterPriority 0) Own False 1 (snd (tryAcquire 0 demo_pool)))"

definition demo_rerouted :: pool where
  "demo_rerouted = demo_waiting\<lparr>routes := (\<lambda>_. rev (entries demo_pool))\<rparr>"

definition demo_busy :: pool where
  "demo_busy = reconfigure (entries demo_pool) demo_rerouted"

lemmas pool_eval = demo_waiting_def demo_pool_def acquireAfterRoute_def tryAcquire_def tryAcquireRoute_def
  grant_def has_slot_def activeCount_def resolveEntries_def priorityAfter_def find_from.simps Let_def

lemma demo_busy_reachable: "pool_init demo_pool \<and> pool_step\<^sup>*\<^sup>* (demo_pool, {}) (demo_busy, {})"
proof
  let ?p1 = "snd (tryAcquire 0 demo_pool)"
  let ?p2 = "acquireAfterRoute (AfterPriority 0) Own False 1 ?p1"
  let ?S = "{} \<union> {name. rev (entries demo_pool) \<noteq> routes demo_waiting name}"
  have "pool_step (demo_pool, {}) (?p1, {})" by (rule pool_step.acquire)
  moreover have "pool_step (?p1, {}) (?p2, {})"
    by (rule pool_step.acquire_after) (simp add: pool_eval)
  moreover have "pool_step (?p2, {}) (demo_waiting, {})"
    unfolding demo_waiting_def by (rule pool_step.acquire_after) (simp add: pool_eval)
  moreover have "pool_step (demo_waiting, {}) (demo_rerouted, ?S)"
    unfolding demo_rerouted_def by (rule pool_step.reroute)
  moreover have "pool_step (demo_rerouted, ?S) (demo_busy, {})"
    unfolding demo_busy_def by (rule pool_step.reconfigure)
  ultimately show "pool_step\<^sup>*\<^sup>* (demo_pool, {}) (demo_busy, {})" by (meson r_into_rtranclp rtranclp_trans)
qed (simp add: pool_init_def demo_pool_def)

lemma demo_busy_waiting:
  "waiters demo_busy = [\<lparr>w_id = 2, w_after = AfterPriority 0, w_route = Role ''r'', w_aborted = False\<rparr>]"
  "routes demo_busy ''r'' = rev (entries demo_pool)"
  by (simp_all add: demo_busy_def demo_rerouted_def reconfigure_def drainWaiters_def drain_waiter_def pool_eval)

lemma pool_no_lost_wakeup_witness:
  "let es = rev (entries demo_pool) in
     \<forall>i. 1 \<le> i \<and> i < length es \<longrightarrow> maxConcurrent (es ! i) \<le> activeCount demo_busy (entryId (es ! i))"
  using pool_no_lost_wakeup [of demo_pool demo_busy "{}"
      "\<lparr>w_id = 2, w_after = AfterPriority 0, w_route = Role ''r'', w_aborted = False\<rparr>"]
    demo_busy_reachable demo_busy_waiting
  by (simp add: Let_def resolveEntries_def priorityAfter_def)

end
