(* ===== verification/Source_Lease.thy ===== *)
theory Source_Lease
  imports Prelude "HOL-Library.AList"
begin

text \<open>
  The coordinator of source mutations, \<open>src/src/execution/source-mutation-lease.ts\<close>: leases of
  workspace roots that exclude ancestors and descendants, and conflict gates that hold back new
  leases.

  A promise chain is a ticket: it is resolved when its lease is released and all the tails it
  waited on are resolved.  A call of \<open>acquire\<close> is a caller that waits at the gates, queues with
  a ticket, holds, or is done; each \<open>await\<close> of the source is a step.  A root is the list of the
  segments of the absolute path that \<open>resolve\<close> returns.
\<close>

type_synonym root = "string list"

subsection \<open>Overlapping roots\<close>

text \<open>\<open>relative(from, to)\<close> of two absolute paths, and \<open>isAbsolute\<close>.\<close>

fun relative_segments :: "root \<Rightarrow> root \<Rightarrow> string list" where
  "relative_segments (a # as') (b # bs) =
     (if a = b then relative_segments as' bs else map (\<lambda>_. ''..'') (a # as') @ b # bs)"
| "relative_segments as' bs = map (\<lambda>_. ''..'') as' @ bs"

definition relative :: "root \<Rightarrow> root \<Rightarrow> string" where
  "relative a b = join ''/'' (relative_segments a b)"

definition isAbsolute :: "string \<Rightarrow> bool" where
  "isAbsolute s = starts_with s ''/''"

definition isWithin :: "root \<Rightarrow> root \<Rightarrow> bool" where
  "isWithin r candidate =
     (let rel = relative r candidate in
      rel = [] \<or> rel \<noteq> ''..'' \<and> \<not> starts_with rel (''..'' @ ''/'') \<and> \<not> isAbsolute rel)"

definition pathsOverlap :: "root \<Rightarrow> root \<Rightarrow> bool" where
  "pathsOverlap l r \<longleftrightarrow> isWithin l r \<or> isWithin r l"

subsection \<open>State\<close>

record ticket =
  t_key :: root
  t_preds :: "nat list"
  t_released :: bool
  t_prune :: bool

record gate =
  g_id :: nat
  g_reason :: string

datatype phase = AtGate "nat list" | Queued nat | Holding nat | Done

record caller =
  c_key :: root
  c_phase :: phase

record coordinator =
  tickets :: "ticket list"
  tails :: "(root \<times> nat) list"
  blockers :: "(root \<times> gate) list"
  callers :: "caller list"
  next_gate :: nat

function resolved :: "ticket list \<Rightarrow> nat \<Rightarrow> bool" where
  "resolved ts t \<longleftrightarrow> t < length ts \<and> t_released (ts ! t) \<and>
     list_all (\<lambda>p. if p < t then resolved ts p else False) (t_preds (ts ! t))"
  by pat_completeness auto
termination
  by (relation "measure snd") auto

declare resolved.simps [simp del]

definition previous_resolved :: "coordinator \<Rightarrow> nat \<Rightarrow> bool" where
  "previous_resolved c t = list_all (resolved (tickets c)) (t_preds (tickets c ! t))"

subsection \<open>Operations\<close>

definition overlapping :: "root \<Rightarrow> (root \<times> 'a) list \<Rightarrow> 'a list" where
  "overlapping key xs = map snd (filter (\<lambda>(candidate, _). pathsOverlap candidate key) xs)"

definition release_ticket :: "bool \<Rightarrow> nat \<Rightarrow> coordinator \<Rightarrow> coordinator" where
  "release_ticket prunable t c =
     c\<lparr>tickets := (tickets c)[t := (tickets c ! t)\<lparr>t_released := True, t_prune := prunable\<rparr>]\<rparr>"

definition set_phase :: "nat \<Rightarrow> phase \<Rightarrow> coordinator \<Rightarrow> coordinator" where
  "set_phase i ph c = c\<lparr>callers := (callers c)[i := (callers c ! i)\<lparr>c_phase := ph\<rparr>]\<rparr>"

text \<open>\<open>acquire\<close> is called: it waits on the gates that overlap now.\<close>

definition acquire :: "root \<Rightarrow> coordinator \<Rightarrow> coordinator" where
  "acquire key c =
     c\<lparr>callers := callers c @
        [\<lparr>c_key = key, c_phase = AtGate (map g_id (overlapping key (blockers c)))\<rparr>]\<rparr>"

text \<open>The gates have opened: the caller takes a ticket behind every overlapping tail.\<close>

definition enqueue :: "nat \<Rightarrow> coordinator \<Rightarrow> coordinator" where
  "enqueue i c =
     (let key = c_key (callers c ! i); t = length (tickets c) in
      set_phase i (Queued t)
        (c\<lparr>tickets := tickets c @ [\<lparr>t_key = key, t_preds = remdups (overlapping key (tails c)),
                                    t_released = False, t_prune = False\<rparr>],
           tails := AList.update key t (tails c)\<rparr>))"

text \<open>The predecessors have resolved: the caller enters, or yields to a gate set meanwhile.\<close>

definition enter :: "nat \<Rightarrow> nat \<Rightarrow> coordinator \<Rightarrow> coordinator" where
  "enter i t c =
     (let key = c_key (callers c ! i) in
      if overlapping key (blockers c) \<noteq> []
      then set_phase i (AtGate (map g_id (overlapping key (blockers c)))) (release_ticket False t c)
      else set_phase i (Holding t) c)"

definition abort :: "nat \<Rightarrow> coordinator \<Rightarrow> coordinator" where
  "abort i c =
     (case c_phase (callers c ! i) of
        AtGate _ \<Rightarrow> set_phase i Done c
      | Queued t \<Rightarrow> set_phase i Done (release_ticket True t c)
      | _ \<Rightarrow> c)"

definition release_lease :: "nat \<Rightarrow> coordinator \<Rightarrow> coordinator" where
  "release_lease i c =
     (case c_phase (callers c ! i) of
        Holding t \<Rightarrow> set_phase i Done (release_ticket True t c)
      | _ \<Rightarrow> c)"

definition pruneTail :: "root \<Rightarrow> nat \<Rightarrow> coordinator \<Rightarrow> coordinator" where
  "pruneTail key t c =
     (if map_of (tails c) key = Some t then c\<lparr>tails := AList.delete key (tails c)\<rparr> else c)"

definition block :: "root \<Rightarrow> string \<Rightarrow> coordinator \<Rightarrow> coordinator" where
  "block key reason c =
     (case map_of (blockers c) key of
        Some _ \<Rightarrow> c
      | None \<Rightarrow>
          c\<lparr>blockers := AList.update key \<lparr>g_id = next_gate c, g_reason = reason\<rparr> (blockers c),
            next_gate := Suc (next_gate c)\<rparr>)"

definition unblock :: "root \<Rightarrow> nat \<Rightarrow> coordinator \<Rightarrow> coordinator" where
  "unblock key g c =
     (case map_of (blockers c) key of
        Some gt \<Rightarrow> (if g_id gt = g then c\<lparr>blockers := AList.delete key (blockers c)\<rparr> else c)
      | None \<Rightarrow> c)"

definition blocked :: "root \<Rightarrow> coordinator \<Rightarrow> string option" where
  "blocked key c =
     (case overlapping key (blockers c) of [] \<Rightarrow> None | g # _ \<Rightarrow> Some (g_reason g))"

definition open_gates :: "nat list \<Rightarrow> coordinator \<Rightarrow> bool" where
  "open_gates ids c = list_all (\<lambda>(_, g). g_id g \<notin> set ids) (blockers c)"

definition coordinator_init :: "coordinator \<Rightarrow> bool" where
  "coordinator_init c \<longleftrightarrow> tickets c = [] \<and> tails c = [] \<and> blockers c = [] \<and> callers c = []"

inductive lease_step :: "coordinator \<Rightarrow> coordinator \<Rightarrow> bool" where
  acquire: "lease_step c (acquire key c)"
| enqueue: "i < length (callers c) \<Longrightarrow> c_phase (callers c ! i) = AtGate ids \<Longrightarrow> open_gates ids c \<Longrightarrow>
     lease_step c (enqueue i c)"
| enter: "i < length (callers c) \<Longrightarrow> c_phase (callers c ! i) = Queued t \<Longrightarrow> previous_resolved c t \<Longrightarrow>
     lease_step c (enter i t c)"
| abort: "i < length (callers c) \<Longrightarrow> lease_step c (abort i c)"
| release: "i < length (callers c) \<Longrightarrow> lease_step c (release_lease i c)"
| prune: "t < length (tickets c) \<Longrightarrow> t_prune (tickets c ! t) \<Longrightarrow> resolved (tickets c) t \<Longrightarrow>
     lease_step c (pruneTail (t_key (tickets c ! t)) t c)"
| block: "lease_step c (block key reason c)"
| unblock: "lease_step c (unblock key g c)"

inductive_cases lease_stepE: "lease_step c c'"

end
