(* ===== verification/Source_Lease_Spec.thy ===== *)
theory Source_Lease_Spec
  imports Source_Lease
begin

text \<open>
  What the coordinator promises: two callers never hold overlapping roots, a caller enters only
  while no overlapping gate is set, and the queue never deadlocks.
\<close>

subsection \<open>Overlap is the prefix relation\<close>

text \<open>A segment of a resolved path.\<close>

definition segment :: "string \<Rightarrow> bool" where
  "segment s \<longleftrightarrow> s \<noteq> [] \<and> s \<noteq> ''..'' \<and> CHR ''/'' \<notin> set s"

lemma relative_segments_Nil [simp]: "relative_segments [] bs = bs"
  by (cases bs) auto

lemma relative_segments_refl [simp]: "relative_segments a a = []"
  by (induction a) auto

lemma relative_empty_iff:
  "list_all segment a \<Longrightarrow> list_all segment b \<Longrightarrow> relative_segments a b = [] \<longleftrightarrow> a = b"
  by (induction a b rule: relative_segments.induct) auto

lemma relative_not_prefix:
  "\<not> prefix a b \<Longrightarrow> \<exists>rest. relative_segments a b = ''..'' # rest"
  by (induction a b rule: relative_segments.induct) (auto simp: neq_Nil_conv)

lemma relative_prefix: "prefix a b \<Longrightarrow> relative_segments a b = drop (length a) b"
  by (induction a b rule: relative_segments.induct) auto

lemma isWithin_refl [simp]: "isWithin a a"
  by (simp add: isWithin_def relative_def)

lemma pathsOverlap_refl [simp]: "pathsOverlap a a"
  by (simp add: pathsOverlap_def)

lemma pathsOverlap_sym: "pathsOverlap a b = pathsOverlap b a"
  by (auto simp: pathsOverlap_def)

lemma isWithin_iff_prefix:
  assumes "list_all segment a" and "list_all segment b"
  shows "isWithin a b \<longleftrightarrow> prefix a b"
proof (cases "prefix a b")
  case True
  then obtain r where b: "b = a @ r" by (auto simp: prefix_def)
  have rel: "relative a b = join ''/'' r" using relative_prefix [OF True] b by (simp add: relative_def)
  show ?thesis
  proof (cases r)
    case Nil
    with rel True show ?thesis by (simp add: isWithin_def)
  next
    case (Cons s rest)
    have s: "segment s" using assms(2) b Cons by simp
    obtain t where rel2: "relative a b = s @ t" and t: "t = [] \<or> hd t = CHR ''/''"
      using rel Cons by (cases rest) (auto simp: join_Cons intro: that [of "[]"] that)
    have "\<not> starts_with (relative a b) (''..'' @ ''/'')"
    proof
      assume "starts_with (relative a b) (''..'' @ ''/'')"
      then obtain z where z: "s @ t = CHR ''.'' # CHR ''.'' # CHR ''/'' # z"
        by (auto simp: rel2 starts_with_iff_prefix prefix_def)
      then consider "s = []" | "s = ''.''" "hd t = CHR ''.''" "t \<noteq> []" | "s = ''..''" | "CHR ''/'' \<in> set s"
        by (auto simp: append_eq_Cons_conv)
      then show False using s t by cases (auto simp: segment_def)
    qed
    moreover have "relative a b \<noteq> ''..''"
      using s t unfolding rel2 by (auto simp: segment_def append_eq_Cons_conv Cons_eq_append_conv)
    moreover have "\<not> isAbsolute (relative a b)"
      using s unfolding rel2 isAbsolute_def by (cases s) (auto simp: segment_def)
    ultimately show ?thesis using True by (simp add: isWithin_def)
  qed
next
  case False
  obtain rest where "relative_segments a b = ''..'' # rest" using relative_not_prefix [OF False] by blast
  then have "relative a b = ''..'' \<or> starts_with (relative a b) (''..'' @ ''/'')"
    by (cases rest) (auto simp: relative_def starts_with_def)
  with False show ?thesis by (auto simp: isWithin_def relative_def starts_with_def Let_def)
qed

text \<open>
  Two roots coordinate exactly when one is an ancestor of the other, or they are equal: the
  test on the relative path is the prefix relation on path segments, also for segments that
  merely begin with two dots.
\<close>

theorem pathsOverlap_iff_ancestor:
  assumes "list_all segment a" and "list_all segment b"
  shows "pathsOverlap a b \<longleftrightarrow> prefix a b \<or> prefix b a"
  using isWithin_iff_prefix [OF assms] isWithin_iff_prefix [OF assms(2,1)]
  by (simp add: pathsOverlap_def)

lemma pathsOverlap_iff_ancestor_witness:
  "pathsOverlap [''work'', ''..x''] [''work''] \<longleftrightarrow>
     prefix [''work'', ''..x''] [''work''] \<or> prefix [''work''] [''work'', ''..x'']"
  by (rule pathsOverlap_iff_ancestor) (simp_all add: segment_def)

subsection \<open>Tickets\<close>

definition pred_rel :: "ticket list \<Rightarrow> (nat \<times> nat) set" where
  "pred_rel ts = {(t, p). t < length ts \<and> p \<in> set (t_preds (ts ! t))}"

definition ordered :: "ticket list \<Rightarrow> bool" where
  "ordered ts \<longleftrightarrow> (\<forall>t p. (t, p) \<in> pred_rel ts \<longrightarrow> p < t)"

lemma resolved_iff:
  assumes "ordered ts"
  shows "resolved ts t \<longleftrightarrow> t < length ts \<and> t_released (ts ! t) \<and> (\<forall>p. (t, p) \<in> pred_rel ts \<longrightarrow> resolved ts p)"
  using assms by (subst resolved.simps) (auto simp: list_all_iff ordered_def pred_rel_def)

definition extends :: "ticket list \<Rightarrow> ticket list \<Rightarrow> bool" where
  "extends ts us \<longleftrightarrow> length ts \<le> length us \<and> (\<forall>t < length ts. t_key (us ! t) = t_key (ts ! t) \<and>
     t_preds (us ! t) = t_preds (ts ! t) \<and> (t_released (ts ! t) \<longrightarrow> t_released (us ! t)))"

lemma extends_refl [simp]: "extends ts ts"
  by (simp add: extends_def)

lemma extends_append [simp]: "extends ts (ts @ us)"
  by (simp add: extends_def nth_append)

lemma extends_release [simp]:
  "extends ts (ts[t := (ts ! t)\<lparr>t_released := True, t_prune := b\<rparr>])"
  by (cases "t < length ts") (auto simp: extends_def nth_list_update)

lemma extends_pred_rel: "extends ts us \<Longrightarrow> pred_rel ts \<subseteq> pred_rel us"
  by (auto simp: extends_def pred_rel_def)

lemma extends_ancestors: "extends ts us \<Longrightarrow> (t, u) \<in> (pred_rel ts)\<^sup>+ \<Longrightarrow> (t, u) \<in> (pred_rel us)\<^sup>+"
  using extends_pred_rel trancl_mono by blast

lemma extends_resolved:
  assumes "extends ts us" and "ordered ts"
  shows "resolved ts t \<Longrightarrow> resolved us t"
proof (induction t rule: less_induct)
  case (less t)
  note r = resolved_iff [OF assms(2), THEN iffD1, OF less.prems]
  have "resolved us p" if "p \<in> set (t_preds (ts ! t))" for p
    using that r less.IH assms(2) by (auto simp: pred_rel_def ordered_def)
  moreover have "p < t" if "p \<in> set (t_preds (ts ! t))" for p
    using that r assms(2) by (auto simp: pred_rel_def ordered_def)
  ultimately show ?case
    using r assms(1) by (subst resolved.simps) (auto simp: extends_def list_all_iff)
qed

lemma ancestors_resolved:
  assumes "ordered ts" and "\<forall>p. (t, p) \<in> pred_rel ts \<longrightarrow> resolved ts p"
  shows "(t, u) \<in> (pred_rel ts)\<^sup>+ \<Longrightarrow> resolved ts u"
proof (induction rule: trancl_induct)
  case (base y)
  with assms(2) show ?case by blast
next
  case (step y z)
  then show ?case using resolved_iff [OF assms(1)] by blast
qed

lemma resolved_released: "resolved ts t \<Longrightarrow> t < length ts \<and> t_released (ts ! t)"
  by (subst (asm) resolved.simps) simp

subsection \<open>The invariant\<close>

text \<open>An earlier ticket is settled or an ancestor of the later one.\<close>

definition behind :: "ticket list \<Rightarrow> nat \<Rightarrow> nat \<Rightarrow> bool" where
  "behind ts t u \<longleftrightarrow> resolved ts u \<or> (t, u) \<in> (pred_rel ts)\<^sup>+"

definition queue_inv :: "ticket list \<Rightarrow> (root \<times> nat) list \<Rightarrow> bool" where
  "queue_inv ts tm \<longleftrightarrow> ordered ts \<and> (\<forall>(k, t) \<in> set tm. t < length ts) \<and>
     (\<forall>u < length ts. resolved ts u \<or>
        (\<exists>v. map_of tm (t_key (ts ! u)) = Some v \<and> (v = u \<or> (v, u) \<in> (pred_rel ts)\<^sup>+))) \<and>
     (\<forall>t < length ts. \<forall>u < t. pathsOverlap (t_key (ts ! u)) (t_key (ts ! t)) \<longrightarrow> behind ts t u)"

lemma set_update_subset: "set (AList.update k v xs) \<subseteq> insert (k, v) (set xs)"
  by (induction xs) auto

lemma set_delete_subset: "set (AList.delete k xs) \<subseteq> set xs"
  by (auto simp: AList.delete_eq)

lemma overlapping_mem: "map_of tm k = Some v \<Longrightarrow> pathsOverlap k key \<Longrightarrow> v \<in> set (overlapping key tm)"
  by (force simp: overlapping_def dest: map_of_SomeD)

lemma queue_inv_append:
  fixes key :: root
  assumes inv: "queue_inv ts tm"
  defines "us \<equiv> ts @ [\<lparr>t_key = key, t_preds = remdups (overlapping key tm), t_released = False, t_prune = False\<rparr>]"
  shows "queue_inv us (AList.update key (length ts) tm)"
proof -
  let ?n = "length ts"
  have ord: "ordered ts" and tm: "\<forall>(k, t) \<in> set tm. t < ?n"
    using inv by (simp_all add: queue_inv_def)
  have ext: "extends ts us" by (simp add: us_def)
  have ov: "set (overlapping key tm) \<subseteq> {..< ?n}" using tm by (auto simp: overlapping_def)
  have ordu: "ordered us"
    using ord ov by (auto simp: ordered_def pred_rel_def us_def nth_append less_Suc_eq split: if_splits)
  have new: "(?n, v) \<in> pred_rel us" if "map_of tm k = Some v" "pathsOverlap k key" for k v
    using overlapping_mem [OF that] by (simp add: pred_rel_def us_def)
  have cover: "resolved us u \<or> (?n, u) \<in> (pred_rel us)\<^sup>+"
    if u: "u < ?n" "pathsOverlap (t_key (ts ! u)) key" for u
  proof (cases "resolved ts u")
    case True
    then show ?thesis using extends_resolved [OF ext ord] by blast
  next
    case False
    then obtain v where v: "map_of tm (t_key (ts ! u)) = Some v" "v = u \<or> (v, u) \<in> (pred_rel ts)\<^sup>+"
      using inv u(1) by (auto simp: queue_inv_def)
    from new [OF v(1) u(2)] v(2) extends_ancestors [OF ext] show ?thesis
      by (meson trancl.r_into_trancl trancl_into_trancl2)
  qed
  have key_u: "t_key (us ! u) = t_key (ts ! u)" if "u < ?n" for u
    using that by (simp add: us_def nth_append)
  have key_n: "t_key (us ! ?n) = key" by (simp add: us_def)
  have tails: "resolved us u \<or> (\<exists>v. map_of (AList.update key ?n tm) (t_key (us ! u)) = Some v \<and>
      (v = u \<or> (v, u) \<in> (pred_rel us)\<^sup>+))" if "u < length us" for u
  proof (cases "u < ?n")
    case True
    show ?thesis
    proof (cases "t_key (ts ! u) = key")
      case eq: True
      then show ?thesis using cover [OF True] key_u [OF True] by (auto simp: update_conv)
    next
      case neq: False
      have "resolved ts u \<or> (\<exists>v. map_of tm (t_key (ts ! u)) = Some v \<and> (v = u \<or> (v, u) \<in> (pred_rel ts)\<^sup>+))"
        using inv True by (simp add: queue_inv_def)
      then show ?thesis
        using neq key_u [OF True] extends_resolved [OF ext ord] extends_ancestors [OF ext]
        by (auto simp: update_conv)
    qed
  next
    case False
    then have "u = ?n" using that by (simp add: us_def)
    then show ?thesis using key_n by (simp add: update_conv)
  qed
  have later: "behind us t u" if "t < length us" "u < t" "pathsOverlap (t_key (us ! u)) (t_key (us ! t))" for t u
  proof (cases "t < ?n")
    case True
    then have "behind ts t u" using inv that key_u by (simp add: queue_inv_def)
    then show ?thesis using extends_resolved [OF ext ord] extends_ancestors [OF ext] by (auto simp: behind_def)
  next
    case False
    then have "t = ?n" using that by (simp add: us_def)
    then show ?thesis using cover [of u] that key_u key_n by (simp add: behind_def)
  qed
  have "\<forall>(k, t) \<in> set (AList.update key ?n tm). t < length us"
    using set_update_subset [of key ?n tm] tm by (fastforce simp: us_def)
  then show ?thesis using ordu tails later by (simp add: queue_inv_def)
qed

lemma queue_inv_release:
  assumes inv: "queue_inv ts tm"
  shows "queue_inv (ts[t := (ts ! t)\<lparr>t_released := True, t_prune := b\<rparr>]) tm"
proof -
  let ?us = "ts[t := (ts ! t)\<lparr>t_released := True, t_prune := b\<rparr>]"
  have ord: "ordered ts" using inv by (simp add: queue_inv_def)
  have key: "t_key (?us ! u) = t_key (ts ! u)" "t_preds (?us ! u) = t_preds (ts ! u)" if "u < length ts" for u
    using extends_release [of ts t b] that by (simp_all add: extends_def)
  then have rel: "pred_rel ?us = pred_rel ts" by (auto simp: pred_rel_def)
  have res: "resolved ts u \<Longrightarrow> resolved ?us u" for u
    by (rule extends_resolved [OF extends_release ord])
  show ?thesis
    using inv key res unfolding queue_inv_def behind_def ordered_def rel
    by (auto) blast+
qed

lemma queue_inv_prune:
  assumes inv: "queue_inv ts tm" and "resolved ts t" and "map_of tm k = Some t"
  shows "queue_inv ts (AList.delete k tm)"
proof -
  have ord: "ordered ts" using inv by (simp add: queue_inv_def)
  have anc: "resolved ts u" if "(t, u) \<in> (pred_rel ts)\<^sup>+" for u
    using ancestors_resolved [OF ord _ that] assms(2) resolved_iff [OF ord] by blast
  have "resolved ts u \<or> (\<exists>v. map_of (AList.delete k tm) (t_key (ts ! u)) = Some v \<and>
      (v = u \<or> (v, u) \<in> (pred_rel ts)\<^sup>+))" if "u < length ts" for u
  proof (cases "t_key (ts ! u) = k")
    case True
    then have "resolved ts u \<or> t = u \<or> (t, u) \<in> (pred_rel ts)\<^sup>+"
      using inv that assms(3) by (auto simp: queue_inv_def)
    with assms(2) anc show ?thesis by blast
  next
    case False
    then show ?thesis using inv that by (simp add: queue_inv_def delete_conv')
  qed
  then show ?thesis using inv set_delete_subset [of k tm] by (fastforce simp: queue_inv_def)
qed

subsection \<open>Callers\<close>

definition active_ticket :: "phase \<Rightarrow> nat option" where
  "active_ticket ph = (case ph of Queued t \<Rightarrow> Some t | Holding t \<Rightarrow> Some t | _ \<Rightarrow> None)"

definition ticket_of :: "coordinator \<Rightarrow> nat \<Rightarrow> nat option" where
  "ticket_of c i = (if i < length (callers c) then active_ticket (c_phase (callers c ! i)) else None)"

definition holds :: "coordinator \<Rightarrow> nat \<Rightarrow> nat \<Rightarrow> bool" where
  "holds c i t \<longleftrightarrow> i < length (callers c) \<and> c_phase (callers c ! i) = Holding t"

definition callers_inv :: "coordinator \<Rightarrow> bool" where
  "callers_inv c \<longleftrightarrow>
     (\<forall>i t. ticket_of c i = Some t \<longrightarrow> t < length (tickets c) \<and> \<not> t_released (tickets c ! t) \<and>
        t_key (tickets c ! t) = c_key (callers c ! i)) \<and>
     (\<forall>i j t. ticket_of c i = Some t \<and> ticket_of c j = Some t \<longrightarrow> i = j) \<and>
     (\<forall>i t. holds c i t \<longrightarrow> previous_resolved c t) \<and>
     (\<forall>t < length (tickets c). \<not> t_released (tickets c ! t) \<longrightarrow> (\<exists>i. ticket_of c i = Some t))"

definition lease_inv :: "coordinator \<Rightarrow> bool" where
  "lease_inv c \<longleftrightarrow> queue_inv (tickets c) (tails c) \<and> callers_inv c"

lemma holds_ticket: "holds c i t \<Longrightarrow> ticket_of c i = Some t"
  by (simp add: holds_def ticket_of_def active_ticket_def)

text \<open>Changing the phase of one caller.\<close>

lemma set_phase_fields [simp]:
  "tickets (set_phase i ph c) = tickets c" "tails (set_phase i ph c) = tails c"
  "blockers (set_phase i ph c) = blockers c" "length (callers (set_phase i ph c)) = length (callers c)"
  by (simp_all add: set_phase_def)

lemma set_phase_key [simp]: "c_key (callers (set_phase i ph c) ! j) = c_key (callers c ! j)"
  by (cases "i < length (callers c)"; cases "i = j") (simp_all add: set_phase_def not_less list_update_beyond)

lemma ticket_of_set_phase:
  "i < length (callers c) \<Longrightarrow>
     ticket_of (set_phase i ph c) j = (if j = i then active_ticket ph else ticket_of c j)"
  by (simp add: ticket_of_def set_phase_def nth_list_update)

lemma holds_set_phase:
  "i < length (callers c) \<Longrightarrow> holds (set_phase i ph c) j t = (if j = i then ph = Holding t else holds c j t)"
  by (auto simp: holds_def set_phase_def nth_list_update)

lemma release_ticket_fields [simp]:
  "tails (release_ticket b t c) = tails c" "callers (release_ticket b t c) = callers c"
  "blockers (release_ticket b t c) = blockers c"
  by (simp_all add: release_ticket_def)

lemma release_ticket_callers [simp]:
  "ticket_of (release_ticket b t c) = ticket_of c" "holds (release_ticket b t c) = holds c"
  by (simp_all add: ticket_of_def holds_def fun_eq_iff)

lemma release_ticket_nth:
  "u < length (tickets c) \<Longrightarrow> t_key (tickets (release_ticket b t c) ! u) = t_key (tickets c ! u) \<and>
     t_preds (tickets (release_ticket b t c) ! u) = t_preds (tickets c ! u) \<and>
     t_released (tickets (release_ticket b t c) ! u) = (t_released (tickets c ! u) \<or> u = t)"
  by (cases "t < length (tickets c)"; cases "u = t") (simp_all add: release_ticket_def)

lemma length_release_ticket [simp]: "length (tickets (release_ticket b t c)) = length (tickets c)"
  by (simp add: release_ticket_def)

lemma previous_resolved_extends:
  assumes "previous_resolved c t" and "extends (tickets c) (tickets c')" and "ordered (tickets c)"
    and "t < length (tickets c)"
  shows "previous_resolved c' t"
  using assms extends_resolved [OF assms(2,3)]
  by (auto simp: previous_resolved_def list_all_iff extends_def)

text \<open>A caller gives up its ticket: it leaves the queue or the lease.\<close>

lemma drop_ticket_inv:
  assumes inv: "lease_inv c" and t: "ticket_of c i = Some t" and ph: "active_ticket ph = None"
  shows "lease_inv (set_phase i ph (release_ticket b t c))"
proof -
  let ?d = "set_phase i ph (release_ticket b t c)"
  have q: "queue_inv (tickets c) (tails c)" and ca: "callers_inv c" using inv by (simp_all add: lease_inv_def)
  have ord: "ordered (tickets c)" using q by (simp add: queue_inv_def)
  have i: "i < length (callers c)" using t by (auto simp: ticket_of_def split: if_splits)
  have tk: "ticket_of ?d j = (if j = i then None else ticket_of c j)" for j
    using ticket_of_set_phase [of i "release_ticket b t c" ph j] i ph by simp
  have ext: "extends (tickets c) (tickets ?d)" by (simp add: release_ticket_def)
  have uniq: "ticket_of c j = Some t \<Longrightarrow> j = i" for j using ca t by (auto simp: callers_inv_def)
  have lt: "ticket_of c j = Some u \<Longrightarrow> u < length (tickets c)" for j u using ca by (auto simp: callers_inv_def)
  have "queue_inv (tickets ?d) (tails ?d)"
    using queue_inv_release [OF q] by (simp add: release_ticket_def)
  moreover have "callers_inv ?d"
    unfolding callers_inv_def
  proof (intro conjI allI impI)
    fix j u assume "ticket_of ?d j = Some u"
    then have ju: "j \<noteq> i" "ticket_of c j = Some u" by (auto simp: tk split: if_splits)
    then have "u \<noteq> t" using uniq by blast
    then show "u < length (tickets ?d)" "\<not> t_released (tickets ?d ! u)"
        "t_key (tickets ?d ! u) = c_key (callers ?d ! j)"
      using ca ju(2) lt [OF ju(2)] release_ticket_nth [of u c b t] by (auto simp: callers_inv_def)
  next
    fix j k u assume "ticket_of ?d j = Some u \<and> ticket_of ?d k = Some u"
    then show "j = k" using ca by (auto simp: tk callers_inv_def split: if_splits)
  next
    fix j u assume "holds ?d j u"
    then have h: "holds c j u" using ph i by (auto simp: holds_set_phase active_ticket_def split: if_splits)
    then have "previous_resolved c u" using ca by (simp add: callers_inv_def)
    then show "previous_resolved ?d u"
      using previous_resolved_extends [OF _ ext ord] lt [OF holds_ticket [OF h]] by blast
  next
    fix u assume u: "u < length (tickets ?d)" "\<not> t_released (tickets ?d ! u)"
    then have "u \<noteq> t" "\<not> t_released (tickets c ! u)" "u < length (tickets c)"
      using release_ticket_nth [of u c b t] by auto
    then obtain j where "ticket_of c j = Some u" using ca by (auto simp: callers_inv_def)
    moreover from this \<open>u \<noteq> t\<close> t have "j \<noteq> i" by auto
    ultimately show "\<exists>j. ticket_of ?d j = Some u" by (auto simp: tk)
  qed
  ultimately show ?thesis by (simp add: lease_inv_def)
qed

lemma lease_inv_same:
  assumes "lease_inv c" and "tickets d = tickets c" and "tails d = tails c"
    and "\<And>j. ticket_of d j = ticket_of c j" and "\<And>j t. holds d j t = holds c j t"
    and "\<And>j. ticket_of c j \<noteq> None \<Longrightarrow> c_key (callers d ! j) = c_key (callers c ! j)"
  shows "lease_inv d"
proof -
  have "previous_resolved d t = previous_resolved c t" for t by (simp add: previous_resolved_def assms(2))
  then show ?thesis using assms by (auto simp: lease_inv_def callers_inv_def)
qed

lemma acquire_inv: "lease_inv c \<Longrightarrow> lease_inv (acquire key c)"
  by (rule lease_inv_same)
    (auto simp: acquire_def ticket_of_def holds_def nth_append active_ticket_def less_Suc_eq split: if_splits)

lemma enqueue_inv:
  assumes inv: "lease_inv c" and i: "i < length (callers c)" and ph: "c_phase (callers c ! i) = AtGate ids"
  shows "lease_inv (enqueue i c)"
proof -
  let ?d = "enqueue i c" and ?n = "length (tickets c)" and ?key = "c_key (callers c ! i)"
  have q: "queue_inv (tickets c) (tails c)" and ca: "callers_inv c" using inv by (simp_all add: lease_inv_def)
  have ord: "ordered (tickets c)" using q by (simp add: queue_inv_def)
  have tickets: "tickets ?d = tickets c @ [\<lparr>t_key = ?key, t_preds = remdups (overlapping ?key (tails c)),
      t_released = False, t_prune = False\<rparr>]" "tails ?d = AList.update ?key ?n (tails c)"
    by (simp_all add: enqueue_def Let_def)
  have none: "ticket_of c i = None" using i ph by (simp add: ticket_of_def active_ticket_def)
  have tk: "ticket_of ?d j = (if j = i then Some ?n else ticket_of c j)" for j
    using i by (auto simp: enqueue_def Let_def ticket_of_set_phase active_ticket_def)
      (simp add: ticket_of_def)
  have hd: "holds ?d j t \<Longrightarrow> holds c j t" for j t
    using i by (auto simp: enqueue_def Let_def holds_set_phase split: if_splits) (simp add: holds_def)
  have key: "c_key (callers ?d ! j) = c_key (callers c ! j)" for j by (simp add: enqueue_def Let_def)
  have lt: "ticket_of c j = Some u \<Longrightarrow> u < ?n" for j u using ca by (auto simp: callers_inv_def)
  have "callers_inv ?d"
    unfolding callers_inv_def
  proof (intro conjI allI impI)
    fix j u assume "ticket_of ?d j = Some u"
    then show "u < length (tickets ?d)" "\<not> t_released (tickets ?d ! u)"
        "t_key (tickets ?d ! u) = c_key (callers ?d ! j)"
      using ca lt [of j u] by (auto simp: tk key tickets(1) nth_append callers_inv_def less_SucI split: if_splits)
  next
    fix j k u assume "ticket_of ?d j = Some u \<and> ticket_of ?d k = Some u"
    then show "j = k" using ca lt by (auto simp: tk callers_inv_def split: if_splits)
  next
    fix j u assume "holds ?d j u"
    then have h: "holds c j u" by (rule hd)
    then have "previous_resolved c u" using ca by (simp add: callers_inv_def)
    then show "previous_resolved ?d u"
      using previous_resolved_extends [OF _ _ ord] lt [OF holds_ticket [OF h]] tickets(1)
      by (metis extends_append)
  next
    fix u assume u: "u < length (tickets ?d)" "\<not> t_released (tickets ?d ! u)"
    show "\<exists>j. ticket_of ?d j = Some u"
    proof (cases "u = ?n")
      case True
      then show ?thesis by (intro exI [of _ i]) (simp add: tk)
    next
      case False
      then have "u < ?n" "\<not> t_released (tickets c ! u)" using u by (simp_all add: tickets(1) nth_append)
      then obtain j where "ticket_of c j = Some u" using ca by (auto simp: callers_inv_def)
      with none show ?thesis by (intro exI [of _ j]) (auto simp: tk)
    qed
  qed
  moreover have "queue_inv (tickets ?d) (tails ?d)" unfolding tickets by (rule queue_inv_append [OF q])
  ultimately show ?thesis by (simp add: lease_inv_def)
qed

lemma enter_inv:
  assumes inv: "lease_inv c" and i: "i < length (callers c)" and ph: "c_phase (callers c ! i) = Queued t"
    and prev: "previous_resolved c t"
  shows "lease_inv (enter i t c)"
proof -
  have t: "ticket_of c i = Some t" using i ph by (simp add: ticket_of_def active_ticket_def)
  show ?thesis
  proof (cases "overlapping (c_key (callers c ! i)) (blockers c) = []")
    case False
    then show ?thesis
      using drop_ticket_inv [OF inv t] by (simp add: enter_def active_ticket_def)
  next
    case True
    let ?d = "set_phase i (Holding t) c"
    have tk: "ticket_of ?d j = ticket_of c j" for j
      using ticket_of_set_phase [OF i] t by (simp add: active_ticket_def)
    have hd: "holds ?d j u \<longleftrightarrow> (if j = i then u = t else holds c j u)" for j u
      using holds_set_phase [OF i, of "Holding t" j u] by auto
    have pr: "previous_resolved ?d u = previous_resolved c u" for u by (simp add: previous_resolved_def)
    have "lease_inv ?d"
      using inv prev unfolding lease_inv_def callers_inv_def tk hd pr by auto
    with True show ?thesis by (simp add: enter_def)
  qed
qed

lemma lease_step_inv: "lease_inv c \<Longrightarrow> lease_step c c' \<Longrightarrow> lease_inv c'"
proof -
  assume inv: "lease_inv c" and step: "lease_step c c'"
  have dropped: "lease_inv (set_phase i Done c)" if "ticket_of c i = None" "i < length (callers c)" for i
    using inv by (rule lease_inv_same)
      (use that in \<open>auto simp: ticket_of_set_phase holds_set_phase active_ticket_def dest: holds_ticket\<close>)
  from step show ?thesis
  proof cases
    case (abort i)
    then show ?thesis
      using drop_ticket_inv [OF inv] dropped inv
      by (auto simp: abort_def ticket_of_def active_ticket_def split: phase.split)
  next
    case (release i)
    then show ?thesis
      using drop_ticket_inv [OF inv] inv
      by (auto simp: release_lease_def ticket_of_def active_ticket_def split: phase.split)
  next
    case (prune t)
    let ?k = "t_key (tickets c ! t)"
    show ?thesis
    proof (cases "map_of (tails c) ?k = Some t")
      case True
      have "queue_inv (tickets c) (AList.delete ?k (tails c))"
        using inv prune True by (intro queue_inv_prune) (auto simp: lease_inv_def)
      moreover have "callers_inv (c\<lparr>tails := AList.delete ?k (tails c)\<rparr>)"
      proof -
        let ?d = "c\<lparr>tails := AList.delete ?k (tails c)\<rparr>"
        have "ticket_of ?d = ticket_of c" "holds ?d = holds c" "previous_resolved ?d = previous_resolved c"
          by (simp_all add: fun_eq_iff ticket_of_def holds_def previous_resolved_def)
        then show ?thesis using inv by (simp add: lease_inv_def callers_inv_def)
      qed
      ultimately show ?thesis using prune True by (simp add: pruneTail_def lease_inv_def)
    qed (use inv prune in \<open>simp add: pruneTail_def\<close>)
  next
    case (block key reason)
    show ?thesis unfolding block using inv
      by (rule lease_inv_same) (auto simp: block_def ticket_of_def holds_def split: option.splits)
  next
    case (unblock key g)
    show ?thesis unfolding unblock using inv
      by (rule lease_inv_same) (auto simp: unblock_def ticket_of_def holds_def split: option.splits)
  qed (use inv in \<open>simp_all add: acquire_inv enqueue_inv enter_inv\<close>)
qed

lemma coordinator_init_inv: "coordinator_init c \<Longrightarrow> lease_inv c"
  by (simp add: coordinator_init_def lease_inv_def queue_inv_def callers_inv_def ordered_def pred_rel_def
      ticket_of_def holds_def)

interpretation lease_sys: guarded_system coordinator_init lease_step lease_inv
  by unfold_locales (auto intro: coordinator_init_inv lease_step_inv)

subsection \<open>The theorems\<close>

text \<open>
  C6. Mutual exclusion: in every reachable state, two different callers never hold leases of
  overlapping roots.
\<close>

theorem lease_mutual_exclusion:
  assumes "coordinator_init c0" and "lease_step\<^sup>*\<^sup>* c0 c" and "holds c i t" and "holds c j u" and "i \<noteq> j"
  shows "\<not> pathsOverlap (c_key (callers c ! i)) (c_key (callers c ! j))"
proof
  assume ov: "pathsOverlap (c_key (callers c ! i)) (c_key (callers c ! j))"
  have inv: "queue_inv (tickets c) (tails c)" "callers_inv c"
    using lease_sys.reachable_inv [OF assms(1,2)] by (simp_all add: lease_inv_def)
  have tk: "v < length (tickets c) \<and> \<not> t_released (tickets c ! v) \<and>
      t_key (tickets c ! v) = c_key (callers c ! k) \<and> previous_resolved c v" if "holds c k v" for k v
    using that inv(2) holds_ticket [OF that] by (simp add: callers_inv_def)
  have ord: "ordered (tickets c)" using inv(1) by (simp add: queue_inv_def)
  have no: False if "holds c k v" "holds c l w" "v < w"
      "pathsOverlap (c_key (callers c ! k)) (c_key (callers c ! l))" for k l v w
  proof -
    have "behind (tickets c) w v" using inv(1) tk [OF that(1)] tk [OF that(2)] that(3,4)
      by (simp add: queue_inv_def)
    then have "resolved (tickets c) v"
      using ancestors_resolved [OF ord] tk [OF that(2)]
      by (auto simp: behind_def previous_resolved_def list_all_iff pred_rel_def)
    then show False using resolved_released tk [OF that(1)] by blast
  qed
  have "t \<noteq> u" using inv(2) assms(3-5) holds_ticket by (fastforce simp: callers_inv_def)
  then show False
    using no [OF assms(3,4)] no [OF assms(4,3)] ov pathsOverlap_sym [of "c_key (callers c ! i)"]
    by (cases t u rule: linorder_cases) auto
qed

text \<open>
  A caller that starts to hold does so while no gate of an overlapping root is set, also
  when the gate was set after it had queued.
\<close>

theorem lease_enters_ungated:
  assumes "lease_step c c'" and "holds c' i t" and "\<not> holds c i t"
  shows "overlapping (c_key (callers c' ! i)) (blockers c') = []"
  using assms(1)
proof cases
  case (enter k u)
  show ?thesis
  proof (cases "overlapping (c_key (callers c ! k)) (blockers c) = []")
    case True
    then have c': "c' = set_phase k (Holding u) c" using enter by (simp add: enter_def)
    then have "i = k" using assms(2,3) holds_set_phase [OF enter(2)] by (auto split: if_splits)
    with True c' show ?thesis by simp
  next
    case False
    then have "c' = set_phase k (AtGate (map g_id (overlapping (c_key (callers c ! k)) (blockers c))))
        (release_ticket False u c)"
      using enter by (simp add: enter_def Let_def)
    then show ?thesis using assms(2,3) holds_set_phase [of k "release_ticket False u c"] enter(2)
      by (auto split: if_splits)
  qed
next
  case (enqueue k ids)
  let ?c = "c\<lparr>tickets := tickets c @ [\<lparr>t_key = c_key (callers c ! k),
      t_preds = remdups (overlapping (c_key (callers c ! k)) (tails c)), t_released = False, t_prune = False\<rparr>],
      tails := AList.update (c_key (callers c ! k)) (length (tickets c)) (tails c)\<rparr>"
  have "holds ?c = holds c" by (simp add: holds_def fun_eq_iff)
  then show ?thesis using assms(2,3) enqueue holds_set_phase [of k ?c "Queued (length (tickets c))" i t]
    by (auto simp: enqueue_def Let_def split: if_splits)
next
  case (abort k)
  then show ?thesis using assms(2,3) holds_set_phase [of k c Done i t]
      holds_set_phase [of k "release_ticket True u c" Done i t for u]
    by (auto simp: abort_def split: phase.splits if_splits)
next
  case (release k)
  then show ?thesis using assms(2,3) holds_set_phase [of k "release_ticket True u c" Done i t for u]
    by (auto simp: release_lease_def split: phase.splits if_splits)
qed (use assms(2,3) in \<open>auto simp: acquire_def pruneTail_def block_def unblock_def holds_def nth_append
    split: if_splits option.splits\<close>)

lemma unresolved_unreleased:
  "ordered ts \<Longrightarrow> p < length ts \<Longrightarrow> \<not> resolved ts p \<Longrightarrow> \<exists>q \<le> p. \<not> t_released (ts ! q)"
proof (induction p rule: less_induct)
  case (less p)
  show ?case
  proof (cases "t_released (ts ! p)")
    case True
    then obtain q where "(p, q) \<in> pred_rel ts" "\<not> resolved ts q"
      using less.prems resolved_iff by blast
    moreover from this have "q < p" using less.prems(1) by (auto simp: ordered_def)
    ultimately show ?thesis using less.IH [of q] less.prems by (meson le_less_trans less_imp_le order_trans less_trans)
  qed auto
qed

text \<open>
  No deadlock: whenever a caller is queued, some caller holds a lease or some queued caller
  has all its predecessors resolved and can enter.
\<close>

theorem lease_no_deadlock:
  assumes "coordinator_init c0" and "lease_step\<^sup>*\<^sup>* c0 c"
    and "i < length (callers c)" and "c_phase (callers c ! i) = Queued t"
  shows "(\<exists>j u. holds c j u) \<or>
     (\<exists>j u. j < length (callers c) \<and> c_phase (callers c ! j) = Queued u \<and> previous_resolved c u)"
proof (cases "\<exists>j u. holds c j u")
  case False
  have inv: "queue_inv (tickets c) (tails c)" "callers_inv c"
    using lease_sys.reachable_inv [OF assms(1,2)] by (simp_all add: lease_inv_def)
  have ord: "ordered (tickets c)" using inv(1) by (simp add: queue_inv_def)
  let ?P = "\<lambda>u. \<exists>j. ticket_of c j = Some u"
  have "?P t" using assms(3,4) by (intro exI [of _ i]) (simp add: ticket_of_def active_ticket_def)
  then obtain u where u: "?P u" "\<And>v. v < u \<Longrightarrow> \<not> ?P v" using ex_least_nat_le [of ?P t] by metis
  then obtain j where j: "ticket_of c j = Some u" by blast
  then have q: "j < length (callers c)" "c_phase (callers c ! j) = Queued u"
    using False by (auto simp: ticket_of_def active_ticket_def holds_def split: if_splits phase.splits)
  have lu: "u < length (tickets c)" using inv(2) j by (simp add: callers_inv_def)
  have "resolved (tickets c) p" if "p \<in> set (t_preds (tickets c ! u))" for p
  proof (rule ccontr)
    assume "\<not> resolved (tickets c) p"
    moreover have "p < u" using ord that lu by (auto simp: ordered_def pred_rel_def)
    ultimately obtain v where "v \<le> p" "\<not> t_released (tickets c ! v)"
      using unresolved_unreleased [OF ord, of p] lu by auto
    then have "?P v" using inv(2) \<open>p < u\<close> lu by (auto simp: callers_inv_def)
    with u(2) \<open>v \<le> p\<close> \<open>p < u\<close> show False by (meson le_less_trans)
  qed
  then have "previous_resolved c u" by (simp add: previous_resolved_def list_all_iff)
  with q show ?thesis by blast
qed simp

subsection \<open>A concrete run\<close>

text \<open>Two callers of unrelated roots; the first queued, then both hold.\<close>

definition demo0 :: coordinator where
  "demo0 = \<lparr>tickets = [], tails = [], blockers = [], callers = [], next_gate = 0\<rparr>"

definition demo_queued1 :: coordinator where
  "demo_queued1 = enqueue 0 (acquire [''a''] demo0)"

definition demo_held1 :: coordinator where
  "demo_held1 = enter 0 0 demo_queued1"

definition demo_queued2 :: coordinator where
  "demo_queued2 = enqueue 1 (acquire [''b''] demo_held1)"

definition demo_held2 :: coordinator where
  "demo_held2 = enter 1 1 demo_queued2"

lemmas lease_eval = demo0_def demo_queued1_def demo_held1_def demo_queued2_def demo_held2_def
  acquire_def enqueue_def enter_def set_phase_def overlapping_def pathsOverlap_def isWithin_def
  relative_def isAbsolute_def previous_resolved_def open_gates_def Let_def

lemma demo_steps:
  "coordinator_init demo0" "lease_step\<^sup>*\<^sup>* demo0 demo_queued1" "lease_step demo_queued1 demo_held1"
  "lease_step\<^sup>*\<^sup>* demo0 demo_held2"
proof -
  have s1: "lease_step demo0 (acquire [''a''] demo0)" by (rule lease_step.acquire)
  have s2: "lease_step (acquire [''a''] demo0) demo_queued1"
    unfolding demo_queued1_def by (rule lease_step.enqueue [where ids = "[]"]) (simp_all add: lease_eval)
  show s3: "lease_step demo_queued1 demo_held1"
    unfolding demo_held1_def by (rule lease_step.enter) (simp_all add: lease_eval)
  have s4: "lease_step demo_held1 (acquire [''b''] demo_held1)" by (rule lease_step.acquire)
  have s5: "lease_step (acquire [''b''] demo_held1) demo_queued2"
    unfolding demo_queued2_def by (rule lease_step.enqueue [where ids = "[]"]) (simp_all add: lease_eval)
  have s6: "lease_step demo_queued2 demo_held2"
    unfolding demo_held2_def by (rule lease_step.enter) (simp_all add: lease_eval starts_with_def)
  show "coordinator_init demo0" by (simp add: coordinator_init_def demo0_def)
  show "lease_step\<^sup>*\<^sup>* demo0 demo_queued1" using s1 s2 by (meson converse_rtranclp_into_rtranclp rtranclp.rtrancl_refl)
  then show "lease_step\<^sup>*\<^sup>* demo0 demo_held2" using s3 s4 s5 s6 by (meson rtranclp.rtrancl_into_rtrancl)
qed

lemma demo_held2_holds: "holds demo_held2 0 0" "holds demo_held2 1 1"
  "c_key (callers demo_held2 ! 0) = [''a'']" "c_key (callers demo_held2 ! 1) = [''b'']"
  by (simp_all add: holds_def lease_eval starts_with_def)

lemma lease_mutual_exclusion_witness: "\<not> pathsOverlap [''a''] [''b'']"
  using lease_mutual_exclusion [OF demo_steps(1,4) demo_held2_holds(1,2)] demo_held2_holds(3,4) by simp

lemma lease_enters_ungated_witness: "overlapping [''a''] (blockers demo_held1) = []"
proof -
  have "holds demo_held1 0 0" "\<not> holds demo_queued1 0 0" "c_key (callers demo_held1 ! 0) = [''a'']"
    by (simp_all add: holds_def lease_eval)
  then show ?thesis using lease_enters_ungated [OF demo_steps(3), of 0 0] by simp
qed

lemma lease_no_deadlock_witness:
  "(\<exists>j u. holds demo_queued1 j u) \<or>
   (\<exists>j u. j < length (callers demo_queued1) \<and> c_phase (callers demo_queued1 ! j) = Queued u \<and>
      previous_resolved demo_queued1 u)"
  by (rule lease_no_deadlock [OF demo_steps(1,2), of 0 0]) (simp_all add: lease_eval)

end
