(* ===== verification/Orchestrator_Turn.thy ===== *)
theory Orchestrator_Turn
  imports Evidence_Cursor
begin

text \<open>
  Scheduled turns of the primary agent, \<open>src/src/scheduling/orchestrator-turn.ts\<close>: the tracker
  that attributes a delivered message to the run that consumed it, the delivery, and the recognition
  of the extension's own messages.  The tracker's map is an association list in insertion order.
  Times and the random occurrence identity are arguments.  A promise handed out by
  \<open>beginOccurrence\<close> is an entry of \<open>observations\<close>, which keeps its first resolution;
  \<open>onObserved\<close> is the list of occurrences it was called with.  Redaction and clipping of a
  label are the parameter \<open>clip\<close>.
\<close>

definition OCCURRENCES_RETAINED :: nat where "OCCURRENCES_RETAINED = 32"
definition PENDING_OCCURRENCES_RETAINED :: nat where "PENDING_OCCURRENCES_RETAINED = 32"

subsection \<open>The tracker\<close>

record turn_record =
  tr_entryId :: string
  tr_entryName :: string
  tr_cron :: string
  tr_dueAt :: int

record turn_occurrence =
  to_record :: turn_record
  deliveredAt :: int
  occurrenceId :: string
  processedAt :: "int option"
  settledAt :: "int option"

datatype observation = Observed | Abandoned

record pending_occurrence =
  po_occurrence :: turn_occurrence
  processedRunSequence :: "nat option"
  reviewArmed :: bool
  po_oneShot :: bool

record tracker =
  pending :: "(string \<times> pending_occurrence) list"
  settled :: "turn_occurrence list"
  runSequence :: nat
  inFlightRuns :: "nat list"
  endedRunCount :: nat
  observations :: "string \<rightharpoonup> observation"
  onObserved_calls :: "turn_occurrence list"
  turnEndTracking :: bool

definition tracker_new :: tracker where
  "tracker_new = \<lparr>pending = [], settled = [], runSequence = 0, inFlightRuns = [], endedRunCount = 0,
     observations = Map.empty, onObserved_calls = [], turnEndTracking = False\<rparr>"

definition resolve :: "string \<Rightarrow> observation \<Rightarrow> tracker \<Rightarrow> tracker" where
  "resolve oid v t =
     (if observations t oid = None then t\<lparr>observations := (observations t)(oid \<mapsto> v)\<rparr> else t)"

definition drop_pending :: "string \<Rightarrow> tracker \<Rightarrow> tracker" where
  "drop_pending oid t = t\<lparr>pending := filter (\<lambda>(k, _). k \<noteq> oid) (pending t)\<rparr>"

definition recurring :: "(string \<times> pending_occurrence) list \<Rightarrow> (string \<times> pending_occurrence) list" where
  "recurring ps = filter (\<lambda>(_, p). \<not> po_oneShot p) ps"

lemma drop_first_recurring:
  "recurring ps = (oid, p) # rest \<Longrightarrow> length (recurring (filter (\<lambda>(k, _). k \<noteq> oid) ps)) < Suc (length rest)"
proof -
  assume r: "recurring ps = (oid, p) # rest"
  have "recurring (filter (\<lambda>(k, _). k \<noteq> oid) ps) = filter (\<lambda>(k, _). k \<noteq> oid) (recurring ps)"
    by (simp add: recurring_def conj_commute case_prod_unfold)
  then show ?thesis using r by (simp add: le_imp_less_Suc)
qed

lemma pending_resolve [simp]: "pending (resolve oid v t) = pending t"
  by (simp add: resolve_def)

text \<open>The eviction loop: the oldest recurring occurrence goes while there are too many.\<close>

function evict :: "tracker \<Rightarrow> tracker" where
  "evict t =
     (if length (recurring (pending t)) \<ge> PENDING_OCCURRENCES_RETAINED
      then (case recurring (pending t) of
              [] \<Rightarrow> t
            | (oid, _) # _ \<Rightarrow> evict (resolve oid Abandoned (drop_pending oid t)))
      else t)"
  by pat_completeness auto
termination
  by (relation "measure (\<lambda>t. length (recurring (pending t)))")
    (auto simp: drop_pending_def intro: drop_first_recurring)

declare evict.simps [simp del]

definition beginOccurrence :: "string \<Rightarrow> int \<Rightarrow> turn_record \<Rightarrow> bool \<Rightarrow> tracker \<Rightarrow> tracker" where
  "beginOccurrence oid now rec isOneShot t =
     (let t1 = (if isOneShot then t else evict t) in
      t1\<lparr>pending := AList.update oid
        \<lparr>po_occurrence = \<lparr>to_record = rec, deliveredAt = now, occurrenceId = oid, processedAt = None,
                          settledAt = None\<rparr>,
         processedRunSequence = None, reviewArmed = False, po_oneShot = isOneShot\<rparr> (pending t1)\<rparr>)"

definition observedSync :: "string \<Rightarrow> tracker \<Rightarrow> bool" where
  "observedSync oid t =
     (case map_of (pending t) oid of None \<Rightarrow> False | Some p \<Rightarrow> processedAt (po_occurrence p) \<noteq> None)"

definition discardOccurrence :: "string \<Rightarrow> tracker \<Rightarrow> tracker" where
  "discardOccurrence oid t =
     (case map_of (pending t) oid of
        None \<Rightarrow> t
      | Some p \<Rightarrow>
          (if processedAt (po_occurrence p) \<noteq> None then t
           else resolve oid Abandoned (drop_pending oid t)))"

definition update_pending :: "string \<Rightarrow> (pending_occurrence \<Rightarrow> pending_occurrence) \<Rightarrow> tracker \<Rightarrow> tracker" where
  "update_pending oid f t = t\<lparr>pending := map (\<lambda>(k, p). if k = oid then (k, f p) else (k, p)) (pending t)\<rparr>"

definition mark_observed :: "int \<Rightarrow> nat \<Rightarrow> pending_occurrence \<Rightarrow> pending_occurrence" where
  "mark_observed now consumingRun p =
     p\<lparr>po_occurrence := (po_occurrence p)\<lparr>processedAt := Some now\<rparr>,
       processedRunSequence := Some consumingRun, reviewArmed := True\<rparr>"

definition noteMessageObserved :: "string \<Rightarrow> int \<Rightarrow> tracker \<Rightarrow> bool \<times> tracker" where
  "noteMessageObserved oid now t =
     (case map_of (pending t) oid of
        None \<Rightarrow> (False, t)
      | Some p \<Rightarrow>
          (if processedAt (po_occurrence p) \<noteq> None then (True, t)
           else if inFlightRuns t = [] then (False, t)
           else
             (let p' = mark_observed now (last (inFlightRuns t)) p;
                  t1 = resolve oid Observed (update_pending oid (\<lambda>_. p') t) in
              (True, t1\<lparr>onObserved_calls := onObserved_calls t1 @ [po_occurrence p']\<rparr>))))"

definition hasPendingOccurrence :: "string \<Rightarrow> tracker \<Rightarrow> bool" where
  "hasPendingOccurrence eid t =
     list_ex (\<lambda>(_, p). tr_entryId (to_record (po_occurrence p)) = eid) (pending t)"

definition noteMessageArmingFailed :: "string \<Rightarrow> tracker \<Rightarrow> tracker" where
  "noteMessageArmingFailed oid t =
     update_pending oid
       (\<lambda>p. if processedAt (po_occurrence p) \<noteq> None then p\<lparr>reviewArmed := False\<rparr> else p) t"

definition agentRunStarted :: "tracker \<Rightarrow> tracker" where
  "agentRunStarted t =
     t\<lparr>runSequence := runSequence t + 1, inFlightRuns := inFlightRuns t @ [runSequence t + 1]\<rparr>"

definition agentRunEnded :: "tracker \<Rightarrow> tracker" where
  "agentRunEnded t =
     (case inFlightRuns t of
        [] \<Rightarrow> t
      | _ # runs \<Rightarrow> t\<lparr>inFlightRuns := runs, endedRunCount := endedRunCount t + 1\<rparr>)"

definition hasRunsInFlight :: "tracker \<Rightarrow> bool" where
  "hasRunsInFlight t \<longleftrightarrow> inFlightRuns t \<noteq> []"

definition pushSettled :: "turn_occurrence \<Rightarrow> turn_occurrence list \<Rightarrow> turn_occurrence list" where
  "pushSettled occ hist =
     (let h = hist @ [occ] in if length h > OCCURRENCES_RETAINED then tl h else h)"

definition settles :: "tracker \<Rightarrow> pending_occurrence \<Rightarrow> bool" where
  "settles t p =
     (case processedRunSequence p of
        None \<Rightarrow> False
      | Some run \<Rightarrow> reviewArmed p \<and> \<not> endedRunCount t < run)"

definition agentRunSettled :: "int \<Rightarrow> tracker \<Rightarrow> turn_occurrence list \<times> tracker" where
  "agentRunSettled now t =
     (let done = map (\<lambda>(_, p). (po_occurrence p)\<lparr>settledAt := Some now\<rparr>)
                   (filter (\<lambda>(_, p). settles t p) (pending t)) in
      (done, t\<lparr>pending := filter (\<lambda>(_, p). \<not> settles t p) (pending t),
               settled := fold pushSettled done (settled t)\<rparr>))"

definition resetSession :: "tracker \<Rightarrow> tracker" where
  "resetSession t =
     (fold (\<lambda>(oid, _). resolve oid Abandoned) (pending t) t)
       \<lparr>pending := [], inFlightRuns := [], runSequence := 0, endedRunCount := 0\<rparr>"

definition setTurnEndTracking :: "bool \<Rightarrow> tracker \<Rightarrow> tracker" where
  "setTurnEndTracking hooks t = t\<lparr>turnEndTracking := hooks\<rparr>"

definition pendingOccurrences :: "tracker \<Rightarrow> turn_occurrence list" where
  "pendingOccurrences t = map (\<lambda>(_, p). po_occurrence p) (pending t)"

definition settledOccurrences :: "tracker \<Rightarrow> turn_occurrence list" where
  "settledOccurrences t = settled t"

subsection \<open>Delivery\<close>

text \<open>What became of the send: no message channel, a send that returned without a promise, one that
  threw, or the first of the raced promises to settle.\<close>

datatype race = SendAcknowledged | SendRejected | ObservedFirst | AbandonedFirst | TimedOut
datatype send = NoChannel | SentSync | SendThrew | Raced race
datatype delivery_outcome = Delivered | Unavailable | Uncertain

fun deliverScheduledOrchestratorTurn :: "send \<Rightarrow> string \<Rightarrow> tracker \<Rightarrow> delivery_outcome \<times> tracker" where
  "deliverScheduledOrchestratorTurn NoChannel oid t = (Unavailable, discardOccurrence oid t)"
| "deliverScheduledOrchestratorTurn SentSync oid t = (Delivered, t)"
| "deliverScheduledOrchestratorTurn (Raced SendAcknowledged) oid t = (Delivered, t)"
| "deliverScheduledOrchestratorTurn (Raced ObservedFirst) oid t = (Delivered, t)"
| "deliverScheduledOrchestratorTurn (Raced SendRejected) oid t =
     (if observedSync oid t then (Delivered, t) else (Unavailable, discardOccurrence oid t))"
| "deliverScheduledOrchestratorTurn (Raced AbandonedFirst) oid t = (Uncertain, t)"
| "deliverScheduledOrchestratorTurn (Raced TimedOut) oid t = (Uncertain, t)"
| "deliverScheduledOrchestratorTurn SendThrew oid t =
     (if observedSync oid t then (Delivered, t) else (Unavailable, discardOccurrence oid t))"

definition formatScheduledOrchestratorTurnContent ::
  "(string \<Rightarrow> nat \<Rightarrow> string) \<Rightarrow> string \<Rightarrow> turn_record \<Rightarrow> string \<Rightarrow> string" where
  "formatScheduledOrchestratorTurnContent clip instructions rec dueLabel =
     join [LF]
       [''Scheduled orchestrator turn for task '' @ tr_entryId rec @ '' ('' @ clip (tr_entryName rec) 160
          @ '') was due at '' @ dueLabel @ '' for cron \"'' @ tr_cron rec @ ''\".'',
        ''Perform the request below in this turn using your current tools, model, and review behavior, and with the current Pi launch workspace (no workspace override applies). You may act directly or start subtasks; any subtasks keep their own ordinary lifecycle and notifications and do not keep this scheduled occurrence open.'',
        ''This is a scheduled request, not a completed outcome or an outcome report.'',
        '''',
        trim instructions]"

subsection \<open>Recognising a triggering message\<close>

definition ORCHESTRATOR_TURN :: string where
  "ORCHESTRATOR_TURN = ''pi-review-scheduled-orchestrator-turn''"

definition TRIGGERING_TURN_CUSTOM_TYPES :: "string list" where
  "TRIGGERING_TURN_CUSTOM_TYPES =
     [ORCHESTRATOR_TURN, ''pi-review-subtask-launch'', ''pi-review-scheduled-task-event'',
      ''pi-review-background-ready'']"

record triggering_message =
  customType :: string
  tm_content :: "string option"
  details :: "json option"

definition isCustomShape :: "json \<Rightarrow> bool" where
  "isCustomShape j \<longleftrightarrow> isRecord (Some j) \<and> field j ''customType'' \<noteq> None"

definition triggering_candidate :: "json \<Rightarrow> json option" where
  "triggering_candidate arg =
     (if \<not> is_object (Some arg) then None
      else if isRecord (field arg ''message'') then field arg ''message''
      else if isCustomShape arg then Some arg else None)"

fun findTriggeringCustomMessage :: "json list \<Rightarrow> triggering_message option" where
  "findTriggeringCustomMessage [] = None"
| "findTriggeringCustomMessage (arg # args) =
     (case triggering_candidate arg of
        None \<Rightarrow> findTriggeringCustomMessage args
      | Some candidate \<Rightarrow>
          (if json_string (field candidate ''role'') \<noteq> Some ''custom'' then findTriggeringCustomMessage args
           else case json_string (field candidate ''customType'') of
             None \<Rightarrow> findTriggeringCustomMessage args
           | Some ty \<Rightarrow>
               (if ty \<notin> set TRIGGERING_TURN_CUSTOM_TYPES then findTriggeringCustomMessage args
                else Some \<lparr>customType = ty,
                           tm_content = (if ty = ORCHESTRATOR_TURN then json_string (field candidate ''content'')
                                         else None),
                           details = (if isRecord (field candidate ''details'')
                                      then field candidate ''details'' else None)\<rparr>)))"

end
