(* ===== verification/Scheduled_Dispatch.thy ===== *)
theory Scheduled_Dispatch
  imports Orchestrator_Turn
begin

text \<open>
  The two destinations of a due entry, \<open>src/src/scheduling/dispatch.ts\<close> (with
  \<open>scheduledTaskDefinition\<close> of \<open>events.ts\<close>): an isolated subtask or a turn of the primary
  agent.  A call of the host is an effect, in the order of the calls; what the host answers is part of
  the \<open>host\<close> record.  A report is its constructor instead of its wording.  While a turn is being
  delivered the host may use the tracker: \<open>during\<close> is what it did to it.
\<close>

datatype task_kind = Execute | Research | Inplace
datatype destination = ToSubtask | ToOrchestratorTurn

datatype 'r review_override = ReviewOff | ReviewSelected "'r list"

record 'r schedule_entry =
  se_name :: string
  se_cron :: string
  se_kind :: task_kind
  se_destination :: "destination option"
  se_instructions :: string
  se_workspace :: "string option"
  se_workerResourceId :: "string option"
  se_review :: "'r review_override option"
  se_oneShot :: "bool option"

record task_definition =
  title :: string
  td_instructions :: string
  acceptanceCriteria :: "string list"

record 'r start_options =
  scheduledTaskId :: string
  so_workerResourceId :: "string option"
  reviewOverride :: "'r review_override option"

record inspection =
  executionId :: string
  taskIds :: "string list"

datatype report =
    SkipEvent "string list"
  | OverdueDrop
  | DispatchFailure string
  | OneShotPendingSkip
  | TurnDeliveryFailure string
  | TurnDeliveryUncertain

datatype notice_outcome = NoticeDelivered | NoticeUnavailable | NoticeUncertain | NoticeThrew string

datatype 'r effect =
    ReportOwnerEvent report
  | ConsoleReport report
  | ConsoleNoticeFailure string notice_outcome
  | ConsoleUiFailure string
  | CheckScheduledImages
  | StartScheduled task_definition task_kind "string option" "'r start_options"
  | DeliverLaunchNotice string string
  | ResolveGate
  | UiNotice string
  | BeginOccurrence string
  | SendTurn string string

record host =
  activeRuns :: "string list"
  imageFailure :: "string option"
  startResult :: "string + inspection"
  noticeOutcome :: notice_outcome
  uiThrows :: bool
  unsafeReason :: "string option"
  sendResult :: send

definition kind_name :: "task_kind \<Rightarrow> string" where
  "kind_name k = (case k of Execute \<Rightarrow> ''execute'' | Research \<Rightarrow> ''research'' | Inplace \<Rightarrow> ''inplace'')"

definition scheduledTaskDefinition :: "string \<Rightarrow> 'r schedule_entry \<Rightarrow> task_definition" where
  "scheduledTaskDefinition eid e =
     \<lparr>title = ''Scheduled '' @ kind_name (se_kind e) @ '' task '' @ eid @ '': '' @ se_name e,
      td_instructions = se_instructions e,
      acceptanceCriteria = [''The task instructions are completed as written.'']\<rparr>"

text \<open>\<open>!entry.workspace?.trim()\<close>\<close>

definition has_workspace :: "'r schedule_entry \<Rightarrow> bool" where
  "has_workspace e = (case se_workspace e of None \<Rightarrow> False | Some w \<Rightarrow> trim w \<noteq> '''')"

definition ui_effects :: "host \<Rightarrow> string \<Rightarrow> 'r effect list" where
  "ui_effects h name = UiNotice name # (if uiThrows h then [ConsoleUiFailure name] else [])"

text \<open>The default of the first task's id is \<open>unknown\<close>.\<close>

definition after_start :: "host \<Rightarrow> string \<Rightarrow> inspection \<Rightarrow> 'r effect list" where
  "after_start h eid insp =
     [DeliverLaunchNotice (executionId insp) (case taskIds insp of t # _ \<Rightarrow> t | [] \<Rightarrow> ''unknown''),
      ResolveGate]
     @ (if noticeOutcome h = NoticeDelivered then []
        else [ConsoleNoticeFailure (executionId insp) (noticeOutcome h)])
     @ ui_effects h eid"

definition dispatch_subtask :: "host \<Rightarrow> string \<Rightarrow> 'r schedule_entry \<Rightarrow> bool \<Rightarrow> 'r effect list" where
  "dispatch_subtask h eid e overdue =
     (if activeRuns h \<noteq> [] then [ReportOwnerEvent (SkipEvent (activeRuns h))]
      else if overdue then [ReportOwnerEvent OverdueDrop]
      else if \<not> has_workspace e then [ReportOwnerEvent (DispatchFailure ''the entry has no workspace'')]
      else case imageFailure h of
        Some message \<Rightarrow> [CheckScheduledImages, ResolveGate, ReportOwnerEvent (DispatchFailure message)]
      | None \<Rightarrow>
          [CheckScheduledImages,
           StartScheduled (scheduledTaskDefinition eid e) (se_kind e) (se_workspace e)
             \<lparr>scheduledTaskId = eid, so_workerResourceId = se_workerResourceId e, reviewOverride = se_review e\<rparr>]
          @ (case startResult h of
               Inl message \<Rightarrow> [ResolveGate, ReportOwnerEvent (DispatchFailure message)]
             | Inr insp \<Rightarrow> after_start h eid insp))"

definition dispatchScheduledOrchestratorTurn ::
  "host \<Rightarrow> (tracker \<Rightarrow> tracker) \<Rightarrow> (string \<Rightarrow> nat \<Rightarrow> string) \<Rightarrow> (int \<Rightarrow> string) \<Rightarrow> string \<Rightarrow> int \<Rightarrow> string
   \<Rightarrow> 'r schedule_entry \<Rightarrow> int \<Rightarrow> bool \<Rightarrow> tracker \<Rightarrow> 'r effect list \<times> tracker" where
  "dispatchScheduledOrchestratorTurn h during clip label uuid now eid e due overdue t =
     (if se_oneShot e = Some True \<and> hasPendingOccurrence eid t
      then ([if unsafeReason h \<noteq> None then ConsoleReport OneShotPendingSkip
             else ReportOwnerEvent OneShotPendingSkip], t)
      else if overdue then ([ReportOwnerEvent OverdueDrop], t)
      else case imageFailure h of
        Some message \<Rightarrow>
          ([CheckScheduledImages,
            ReportOwnerEvent (TurnDeliveryFailure
              (''the entry's instructions reference an unavailable managed image: '' @ message))], t)
      | None \<Rightarrow>
          (case unsafeReason h of
             Some reason \<Rightarrow> ([CheckScheduledImages, ConsoleReport (TurnDeliveryFailure reason)], t)
           | None \<Rightarrow>
               (let rec = \<lparr>tr_entryId = eid, tr_entryName = se_name e, tr_cron = se_cron e, tr_dueAt = due\<rparr>;
                    t1 = beginOccurrence uuid now rec (se_oneShot e = Some True) t;
                    sent = (if sendResult h = NoChannel then []
                            else [SendTurn uuid (formatScheduledOrchestratorTurnContent clip
                                    (se_instructions e) rec (label due))]);
                    (outcome, t2) = deliverScheduledOrchestratorTurn (sendResult h) uuid (during t1) in
                ([CheckScheduledImages, BeginOccurrence uuid] @ sent
                 @ (case outcome of
                      Uncertain \<Rightarrow> [ReportOwnerEvent TurnDeliveryUncertain]
                    | Unavailable \<Rightarrow> [ReportOwnerEvent (TurnDeliveryFailure
                        ''the host has no model message channel, or the delivery was definitively rejected'')]
                    | Delivered \<Rightarrow> ui_effects h eid), t2))))"

definition dispatchScheduledEntry ::
  "host \<Rightarrow> (tracker \<Rightarrow> tracker) \<Rightarrow> (string \<Rightarrow> nat \<Rightarrow> string) \<Rightarrow> (int \<Rightarrow> string) \<Rightarrow> string \<Rightarrow> int \<Rightarrow> string
   \<Rightarrow> 'r schedule_entry \<Rightarrow> int \<Rightarrow> bool \<Rightarrow> tracker \<Rightarrow> 'r effect list \<times> tracker" where
  "dispatchScheduledEntry h during clip label uuid now eid e due overdue t =
     (if (case se_destination e of Some d \<Rightarrow> d | None \<Rightarrow> ToSubtask) \<noteq> ToSubtask
      then dispatchScheduledOrchestratorTurn h during clip label uuid now eid e due overdue t
      else (dispatch_subtask h eid e overdue, t))"

end
