(* ===== verification/Scheduled_Dispatch_Spec.thy ===== *)
theory Scheduled_Dispatch_Spec
  imports Scheduled_Dispatch
begin

text \<open>
  The tracker counts a scheduled turn only when its own message was consumed by a run that ended, at
  most once; its memory is bounded without forgetting a one-shot turn; and a due entry is launched at
  most once, or reported.
\<close>

subsection \<open>Sequences of host events\<close>

datatype turn_event =
    Begin string int turn_record bool
  | Discard string
  | Observe string int
  | ArmingFailed string
  | RunStarted
  | RunEnded
  | Settle int
  | Reset

fun turn_step :: "turn_event \<Rightarrow> tracker \<Rightarrow> turn_occurrence list \<times> tracker" where
  "turn_step (Begin oid now rec isOneShot) t = ([], beginOccurrence oid now rec isOneShot t)"
| "turn_step (Discard oid) t = ([], discardOccurrence oid t)"
| "turn_step (Observe oid now) t = ([], snd (noteMessageObserved oid now t))"
| "turn_step (ArmingFailed oid) t = ([], noteMessageArmingFailed oid t)"
| "turn_step RunStarted t = ([], agentRunStarted t)"
| "turn_step RunEnded t = ([], agentRunEnded t)"
| "turn_step (Settle now) t = agentRunSettled now t"
| "turn_step Reset t = ([], resetSession t)"

definition turn_run :: "turn_event list \<Rightarrow> turn_occurrence list \<times> tracker" where
  "turn_run es = fold (\<lambda>e (done, t). let (new, t') = turn_step e t in (done @ new, t')) es ([], tracker_new)"

abbreviation tracker_of :: "turn_event list \<Rightarrow> tracker" where
  "tracker_of es \<equiv> snd (turn_run es)"

abbreviation completed :: "turn_event list \<Rightarrow> turn_occurrence list" where
  "completed es \<equiv> fst (turn_run es)"

lemma turn_run_Nil [simp]: "turn_run [] = ([], tracker_new)"
  by (simp add: turn_run_def)

lemma turn_run_snoc [simp]:
  "completed (es @ [e]) = completed es @ fst (turn_step e (tracker_of es))"
  "tracker_of (es @ [e]) = snd (turn_step e (tracker_of es))"
  by (simp_all add: turn_run_def case_prod_unfold Let_def)

text \<open>A delivery only ever discards.\<close>

lemma delivery_step:
  "snd (deliverScheduledOrchestratorTurn s oid t) \<in> {t, snd (turn_step (Discard oid) t)}"
  by (cases "(s, oid, t)" rule: deliverScheduledOrchestratorTurn.cases) auto

subsection \<open>What the steps keep\<close>

lemma tracker_resolve [simp]:
  "settled (resolve oid v t) = settled t" "runSequence (resolve oid v t) = runSequence t"
  "inFlightRuns (resolve oid v t) = inFlightRuns t" "endedRunCount (resolve oid v t) = endedRunCount t"
  by (simp_all add: resolve_def)

text \<open>What one eviction keeps, the loop keeps.\<close>

lemma evict_invariant:
  assumes step: "\<And>t oid p. P t \<Longrightarrow> (oid, p) \<in> set (pending t) \<Longrightarrow> \<not> po_oneShot p \<Longrightarrow>
    P (resolve oid Abandoned (drop_pending oid t))"
  shows "P t \<Longrightarrow> P (evict t) \<and> length (recurring (pending (evict t))) < 32"
proof (induction t rule: evict.induct)
  case (1 t)
  show ?case
  proof (cases "length (recurring (pending t)) \<ge> PENDING_OCCURRENCES_RETAINED")
    case True
    then obtain oid p rest where r: "recurring (pending t) = (oid, p) # rest"
      by (cases "recurring (pending t)") (auto simp: PENDING_OCCURRENCES_RETAINED_def)
    then have "(oid, p) \<in> set (recurring (pending t))" by simp
    then have "(oid, p) \<in> set (pending t)" "\<not> po_oneShot p" by (auto simp: recurring_def)
    from "1.IH" [OF True r refl step [OF "1.prems" this]] True r show ?thesis
      by (simp add: evict.simps [of t])
  next
    case False
    then show ?thesis using "1.prems" by (simp add: evict.simps [of t] PENDING_OCCURRENCES_RETAINED_def)
  qed
qed

lemma evict_keeps:
  "settled (evict t) = settled t \<and> runSequence (evict t) = runSequence t \<and> inFlightRuns (evict t) = inFlightRuns t
   \<and> endedRunCount (evict t) = endedRunCount t \<and> set (pending (evict t)) \<subseteq> set (pending t)"
  by (rule evict_invariant [where t = t and P = "\<lambda>u. settled u = settled t \<and> runSequence u = runSequence t
        \<and> inFlightRuns u = inFlightRuns t \<and> endedRunCount u = endedRunCount t
        \<and> set (pending u) \<subseteq> set (pending t)", THEN conjunct1])
    (auto simp: drop_pending_def)

lemma evict_bound: "length (recurring (pending (evict t))) < 32"
  by (rule evict_invariant [where t = t and P = "\<lambda>_. True", THEN conjunct2]) auto

lemma evict_distinct: "distinct (map fst (pending t)) \<Longrightarrow> distinct (map fst (pending (evict t)))"
  by (rule evict_invariant [where t = t and P = "\<lambda>u. distinct (map fst (pending u))", THEN conjunct1])
    (auto simp: drop_pending_def distinct_map_filter)

lemma evict_keeps_oneShot:
  assumes "(oid, p) \<in> set (pending t)" "po_oneShot p" "distinct (map fst (pending t))"
  shows "(oid, p) \<in> set (pending (evict t))"
proof -
  let ?P = "\<lambda>u. (oid, p) \<in> set (pending u) \<and> distinct (map fst (pending u))"
  have "?P (evict t)"
  proof (rule evict_invariant [where t = t and P = ?P, THEN conjunct1])
    fix u :: tracker and oid' p'
    assume P: "?P u" and o: "(oid', p') \<in> set (pending u)" "\<not> po_oneShot p'"
    then have "oid' \<noteq> oid" using assms(2) by (metis eq_key_imp_eq_value)
    with P show "?P (resolve oid' Abandoned (drop_pending oid' u))"
      by (simp add: drop_pending_def distinct_map_filter)
  qed (use assms in simp)
  then show ?thesis by simp
qed

subsection \<open>Bounds\<close>

definition tracker_inv :: "tracker \<Rightarrow> bool" where
  "tracker_inv t \<longleftrightarrow>
     distinct (map fst (pending t))
     \<and> length (recurring (pending t)) \<le> PENDING_OCCURRENCES_RETAINED
     \<and> length (settled t) \<le> OCCURRENCES_RETAINED
     \<and> endedRunCount t \<le> runSequence t
     \<and> inFlightRuns t = [Suc (endedRunCount t)..<Suc (runSequence t)]"

lemma recurring_update: "length (recurring (AList.update k v ps)) \<le> Suc (length (recurring ps))"
  by (induction ps) (auto simp: recurring_def)

lemma recurring_update_oneShot:
  "po_oneShot v \<Longrightarrow> length (recurring (AList.update k v ps)) \<le> length (recurring ps)"
  by (induction ps) (auto simp: recurring_def le_SucI)

lemma begin_inv: "tracker_inv t \<Longrightarrow> tracker_inv (beginOccurrence oid now rec isOneShot t)"
proof -
  assume inv: "tracker_inv t"
  let ?u = "if isOneShot then t else evict t"
  have u: "distinct (map fst (pending ?u))" "settled ?u = settled t" "runSequence ?u = runSequence t"
    "inFlightRuns ?u = inFlightRuns t" "endedRunCount ?u = endedRunCount t"
    using inv evict_keeps [of t] evict_distinct [of t] by (auto simp: tracker_inv_def)
  have "length (recurring (AList.update oid v (pending ?u))) \<le> 32" if "po_oneShot v = isOneShot" for v
    using that inv recurring_update [of oid v "pending (evict t)"] evict_bound [of t]
      recurring_update_oneShot [of v oid "pending t"]
    by (auto simp: tracker_inv_def PENDING_OCCURRENCES_RETAINED_def)
  with inv u show ?thesis
    by (simp add: tracker_inv_def beginOccurrence_def Let_def distinct_update PENDING_OCCURRENCES_RETAINED_def
        del: upt_Suc)
qed

lemma recurring_filter: "length (recurring (filter Q ps)) \<le> length (recurring ps)"
proof -
  have "recurring (filter Q ps) = filter Q (recurring ps)" by (simp add: recurring_def conj_commute)
  then show ?thesis by simp
qed

lemma pending_subset_inv:
  "tracker_inv t \<Longrightarrow> pending u = filter Q (pending t) \<Longrightarrow> settled u = settled t \<Longrightarrow> runSequence u = runSequence t \<Longrightarrow>
   inFlightRuns u = inFlightRuns t \<Longrightarrow> endedRunCount u = endedRunCount t \<Longrightarrow> tracker_inv u"
  using recurring_filter [of Q "pending t"] by (simp add: tracker_inv_def distinct_map_filter del: upt_Suc)

lemma discard_inv: "tracker_inv t \<Longrightarrow> tracker_inv (discardOccurrence oid t)"
  by (auto simp: discardOccurrence_def drop_pending_def intro: pending_subset_inv split: option.splits)

lemma update_inv: "tracker_inv t \<Longrightarrow> (\<And>p. po_oneShot (f p) = po_oneShot p) \<Longrightarrow> tracker_inv (update_pending oid f t)"
proof -
  assume inv: "tracker_inv t" and f: "\<And>p. po_oneShot (f p) = po_oneShot p"
  have "map fst (map (\<lambda>(k, p). if k = oid then (k, f p) else (k, p)) ps) = map fst ps" for ps
    by auto
  moreover have "length (recurring (map (\<lambda>(k, p). if k = oid then (k, f p) else (k, p)) ps)) = length (recurring ps)" for ps
    by (induction ps) (auto simp: recurring_def f split: if_splits prod.splits)
  ultimately show ?thesis using inv by (simp add: tracker_inv_def update_pending_def del: map_map upt_Suc)
qed

lemma fold_pushSettled_bound:
  "length hist \<le> 32 \<Longrightarrow> length (fold pushSettled done hist) \<le> 32"
proof (induction "done" arbitrary: hist)
  case (Cons x xs)
  have "length (pushSettled x hist) \<le> 32"
    using Cons.prems by (simp add: pushSettled_def Let_def OCCURRENCES_RETAINED_def)
  from Cons.IH [OF this] show ?case by simp
qed simp

lemma observe_pending:
  "tracker_inv t \<Longrightarrow> snd (noteMessageObserved oid now t) = t \<or>
   (\<exists>p. map_of (pending t) oid = Some p \<and> processedAt (po_occurrence p) = None \<and> inFlightRuns t \<noteq> []
     \<and> pending (snd (noteMessageObserved oid now t)) =
         pending (update_pending oid (mark_observed now (last (inFlightRuns t))) t)
     \<and> tracker_inv (snd (noteMessageObserved oid now t)))"
proof -
  assume inv: "tracker_inv t"
  let ?f = "mark_observed now (last (inFlightRuns t))"
  have eq: "pending (update_pending oid (\<lambda>_. ?f p) t) = pending (update_pending oid ?f t)"
    if "map_of (pending t) oid = Some p" for p
  proof -
    have d: "distinct (map fst (pending t))" using inv by (simp add: tracker_inv_def)
    have "q = p" if "(oid, q) \<in> set (pending t)" for q
      using that d map_of_SomeD [OF \<open>map_of (pending t) oid = Some p\<close>] by (auto dest: eq_key_imp_eq_value)
    then show ?thesis by (auto simp: update_pending_def)
  qed
  let ?v = "update_pending oid ?f t" and ?u = "snd (noteMessageObserved oid now t)"
  have v: "tracker_inv ?v" using inv by (rule update_inv) (simp add: mark_observed_def)
  show ?thesis
  proof (cases "\<exists>p. map_of (pending t) oid = Some p \<and> processedAt (po_occurrence p) = None \<and> inFlightRuns t \<noteq> []")
    case True
    then obtain p where p: "map_of (pending t) oid = Some p" "processedAt (po_occurrence p) = None"
      "inFlightRuns t \<noteq> []" by blast
    have u: "pending ?u = pending (update_pending oid (\<lambda>_. ?f p) t)" "settled ?u = settled t"
      "runSequence ?u = runSequence t" "inFlightRuns ?u = inFlightRuns t" "endedRunCount ?u = endedRunCount t"
      using p by (simp_all add: noteMessageObserved_def Let_def update_pending_def)
    have "tracker_inv ?u"
      by (rule pending_subset_inv [OF v, of _ "\<lambda>_. True"]) (simp_all add: u eq [OF p(1)], simp_all add: update_pending_def)
    with p u(1) eq [OF p(1)] show ?thesis by auto
  next
    case False
    then have "?u = t" by (auto simp: noteMessageObserved_def split: option.split)
    then show ?thesis by simp
  qed
qed

lemma settle_inv: "tracker_inv t \<Longrightarrow> tracker_inv (snd (agentRunSettled now t))"
proof -
  assume inv: "tracker_inv t"
  let ?u = "t\<lparr>pending := filter (\<lambda>(_, p). \<not> settles t p) (pending t)\<rparr>"
  have "tracker_inv ?u" by (rule pending_subset_inv [OF inv]) simp_all
  then show ?thesis
    using fold_pushSettled_bound [of "settled t"]
    by (simp add: agentRunSettled_def Let_def tracker_inv_def OCCURRENCES_RETAINED_def del: upt_Suc)
qed

lemma reset_fields:
  "settled (resetSession t) = settled t" "pending (resetSession t) = []" "inFlightRuns (resetSession t) = []"
  "runSequence (resetSession t) = 0" "endedRunCount (resetSession t) = 0"
proof -
  have "settled (fold (\<lambda>(oid, _). resolve oid Abandoned) ps u) = settled u"
    for ps :: "(string \<times> pending_occurrence) list" and u
    by (induction ps arbitrary: u) auto
  then show "settled (resetSession t) = settled t" by (simp add: resetSession_def)
qed (simp_all add: resetSession_def)

lemma runs_inv: "tracker_inv t \<Longrightarrow> tracker_inv (agentRunStarted t)" "tracker_inv t \<Longrightarrow> tracker_inv (agentRunEnded t)"
proof -
  assume inv: "tracker_inv t"
  show "tracker_inv (agentRunStarted t)"
    using inv by (simp add: tracker_inv_def agentRunStarted_def)
  show "tracker_inv (agentRunEnded t)"
  proof (cases "endedRunCount t < runSequence t")
    case True
    then have "inFlightRuns t = Suc (endedRunCount t) # [Suc (Suc (endedRunCount t))..<Suc (runSequence t)]"
      using inv by (simp add: tracker_inv_def upt_conv_Cons del: upt_Suc)
    then have "agentRunEnded t = t\<lparr>inFlightRuns := [Suc (Suc (endedRunCount t))..<Suc (runSequence t)],
        endedRunCount := Suc (endedRunCount t)\<rparr>"
      by (simp add: agentRunEnded_def del: upt_Suc)
    with inv True show ?thesis by (simp add: tracker_inv_def del: upt_Suc)
  next
    case False
    then have "inFlightRuns t = []" using inv by (simp add: tracker_inv_def)
    then have "agentRunEnded t = t" by (simp add: agentRunEnded_def)
    with inv show ?thesis by simp
  qed
qed

lemma turn_step_inv: "tracker_inv t \<Longrightarrow> tracker_inv (snd (turn_step e t))"
proof (cases e)
  case (Observe oid now)
  then show "tracker_inv t \<Longrightarrow> ?thesis" using observe_pending [of t oid now] by auto
next
  case (ArmingFailed oid)
  then show "tracker_inv t \<Longrightarrow> ?thesis" by (simp add: noteMessageArmingFailed_def update_inv)
next
  case Reset
  then show "tracker_inv t \<Longrightarrow> ?thesis" by (simp add: tracker_inv_def reset_fields recurring_def)
qed (auto intro: begin_inv discard_inv settle_inv runs_inv)

lemma tracker_new_inv: "tracker_inv tracker_new"
  by (simp add: tracker_inv_def tracker_new_def recurring_def)

interpretation turns: guarded_system "\<lambda>t. t = tracker_new" "\<lambda>t t'. \<exists>e. t' = snd (turn_step e t)" tracker_inv
  by unfold_locales (auto intro: turn_step_inv tracker_new_inv)

lemma tracker_of_reachable: "(\<lambda>t t'. \<exists>e. t' = snd (turn_step e t))\<^sup>*\<^sup>* tracker_new (tracker_of es)"
proof (induction es rule: rev_induct)
  case (snoc e es)
  then show ?case by (auto intro: rtranclp.rtrancl_into_rtrancl)
qed simp

lemmas tracker_of_inv = turns.reachable_inv [OF refl tracker_of_reachable]

text \<open>
  After every sequence of host events the tracker holds at most 32 pending recurring turns and 32
  settled ones, its runs in flight are the consecutive numbers after the ended ones, and admitting
  another occurrence forgets no pending one-shot turn (which its overlap guard and its consumption
  rest on).
\<close>

theorem tracker_bounds:
  "let t = tracker_of es in
     length (filter (\<lambda>(_, p). \<not> po_oneShot p) (pending t)) \<le> 32 \<and> length (settled t) \<le> 32
     \<and> inFlightRuns t = [Suc (endedRunCount t)..<Suc (runSequence t)]
     \<and> {x. x \<in> set (pending t) \<and> po_oneShot (snd x) \<and> fst x \<noteq> uuid}
        \<subseteq> set (pending (beginOccurrence uuid now rec isOneShot t))"
proof -
  let ?t = "tracker_of es"
  have inv: "tracker_inv ?t" by (rule tracker_of_inv)
  have "x \<in> set (pending (beginOccurrence uuid now rec isOneShot ?t))"
    if "x \<in> set (pending ?t)" "po_oneShot (snd x)" "fst x \<noteq> uuid" for x
  proof -
    have d: "distinct (map fst (pending (if isOneShot then ?t else evict ?t)))"
      using inv evict_distinct [of ?t] by (simp add: tracker_inv_def)
    have "x \<in> set (pending (if isOneShot then ?t else evict ?t))"
      using that inv evict_keeps_oneShot [of "fst x" "snd x" ?t] by (simp add: tracker_inv_def)
    then have "map_of (pending (if isOneShot then ?t else evict ?t)) (fst x) = Some (snd x)"
      using d by (metis map_of_is_SomeI prod.collapse)
    then have "map_of (pending (beginOccurrence uuid now rec isOneShot ?t)) (fst x) = Some (snd x)"
      using that(3) by (simp add: beginOccurrence_def Let_def update_conv')
    then show ?thesis by (metis map_of_SomeD prod.collapse)
  qed
  then show ?thesis
    using inv by (auto simp: tracker_inv_def recurring_def PENDING_OCCURRENCES_RETAINED_def
        OCCURRENCES_RETAINED_def Let_def simp del: upt_Suc)
qed

subsection \<open>Only a turn that happened is counted\<close>

text \<open>\<open>consumed_in es a b oid\<close>: the message of \<open>oid\<close>, admitted after \<open>a\<close>, was observed after \<open>b\<close>
  inside a run.\<close>

definition observed_run :: "turn_event list \<Rightarrow> nat \<Rightarrow> bool" where
  "observed_run es k \<longleftrightarrow> inFlightRuns (tracker_of es) \<noteq> [] \<and> k = last (inFlightRuns (tracker_of es))"

definition tracked :: "turn_event list \<Rightarrow> string \<Rightarrow> pending_occurrence \<Rightarrow> bool" where
  "tracked es oid p \<longleftrightarrow>
     occurrenceId (po_occurrence p) = oid
     \<and> (\<exists>a now s b. es = a @ Begin oid now (to_record (po_occurrence p)) s # b \<and> Reset \<notin> set b
          \<and> (case processedRunSequence p of
               None \<Rightarrow> processedAt (po_occurrence p) = None
             | Some k \<Rightarrow>
                 (\<exists>b1 time b2. b = b1 @ Observe oid time # b2 \<and> processedAt (po_occurrence p) = Some time
                   \<and> observed_run (a @ Begin oid now (to_record (po_occurrence p)) s # b1) k
                   \<and> (reviewArmed p \<longrightarrow> ArmingFailed oid \<notin> set b2))))"

definition turn_happened :: "turn_event list \<Rightarrow> turn_occurrence \<Rightarrow> bool" where
  "turn_happened es occ \<longleftrightarrow>
     (\<exists>a now s b time c k. es = a @ Begin (occurrenceId occ) now (to_record occ) s # b @ Observe (occurrenceId occ) time # c
        \<and> Reset \<notin> set b \<union> set c \<and> ArmingFailed (occurrenceId occ) \<notin> set c
        \<and> processedAt occ = Some time
        \<and> observed_run (a @ Begin (occurrenceId occ) now (to_record occ) s # b) k
        \<and> k \<notin> set (inFlightRuns (tracker_of es)))"

lemma trackedI_None:
  "occurrenceId (po_occurrence p) = oid \<Longrightarrow> es = a @ Begin oid now (to_record (po_occurrence p)) s # b \<Longrightarrow>
   Reset \<notin> set b \<Longrightarrow> processedRunSequence p = None \<Longrightarrow> processedAt (po_occurrence p) = None \<Longrightarrow> tracked es oid p"
  unfolding tracked_def by auto

lemma trackedI_Some:
  "occurrenceId (po_occurrence p) = oid \<Longrightarrow>
   es = a @ Begin oid now (to_record (po_occurrence p)) s # b1 @ Observe oid time # b2 \<Longrightarrow>
   Reset \<notin> set b1 \<union> set b2 \<Longrightarrow> processedRunSequence p = Some k \<Longrightarrow> processedAt (po_occurrence p) = Some time \<Longrightarrow>
   observed_run (a @ Begin oid now (to_record (po_occurrence p)) s # b1) k \<Longrightarrow>
   (reviewArmed p \<Longrightarrow> ArmingFailed oid \<notin> set b2) \<Longrightarrow> tracked es oid p"
  unfolding tracked_def
  by (rule conjI, assumption, rule exI [of _ a], rule exI [of _ now], rule exI [of _ s],
      rule exI [of _ "b1 @ Observe oid time # b2"], simp, rule exI [of _ b1], rule exI [of _ b2], simp)

lemma trackedE:
  assumes "tracked es oid p"
  obtains (waiting) a now s b where "occurrenceId (po_occurrence p) = oid"
      "es = a @ Begin oid now (to_record (po_occurrence p)) s # b" "Reset \<notin> set b"
      "processedRunSequence p = None" "processedAt (po_occurrence p) = None"
  | (observed) a now s b1 time b2 k where "occurrenceId (po_occurrence p) = oid"
      "es = a @ Begin oid now (to_record (po_occurrence p)) s # b1 @ Observe oid time # b2"
      "Reset \<notin> set b1 \<union> set b2" "processedRunSequence p = Some k" "processedAt (po_occurrence p) = Some time"
      "observed_run (a @ Begin oid now (to_record (po_occurrence p)) s # b1) k"
      "reviewArmed p \<Longrightarrow> ArmingFailed oid \<notin> set b2"
  using assms unfolding tracked_def by (cases "processedRunSequence p") auto

lemma tracked_later:
  assumes "tracked es oid p" "e \<noteq> Reset" "e = ArmingFailed oid \<Longrightarrow> processedAt (po_occurrence p) = None"
  shows "tracked (es @ [e]) oid p"
  using assms(1)
proof (cases rule: trackedE)
  case (waiting a now s b)
  then show ?thesis using assms(2) by (intro trackedI_None [of _ _ _ a now s "b @ [e]"]) auto
next
  case (observed a now s b1 time b2 k)
  then show ?thesis using assms(2,3) by (intro trackedI_Some [of _ _ _ a now s b1 time "b2 @ [e]" k]) auto
qed

lemma tracked_armingFailed:
  assumes "tracked es oid p" "processedAt (po_occurrence p) \<noteq> None"
  shows "tracked (es @ [ArmingFailed oid']) oid (p\<lparr>reviewArmed := False\<rparr>)"
  using assms(1)
proof (cases rule: trackedE)
  case (observed a now s b1 time b2 k)
  then show ?thesis by (intro trackedI_Some [of _ _ _ a now s b1 time "b2 @ [ArmingFailed oid']" k]) auto
qed (use assms(2) in simp)

lemma tracked_observe:
  assumes "tracked es oid p" "processedAt (po_occurrence p) = None" "observed_run es k"
  shows "tracked (es @ [Observe oid time]) oid (mark_observed time k p)"
  using assms(1)
proof (cases rule: trackedE)
  case (waiting a now s b)
  then show ?thesis
    using assms(3) by (intro trackedI_Some [of _ _ _ a now s b time "[]" k]) (auto simp: mark_observed_def)
qed (use assms(2) in simp)

lemma set_update: "x \<in> set (AList.update k v ps) \<Longrightarrow> x = (k, v) \<or> x \<in> set ps"
  by (induction ps) (auto split: if_splits)

lemma pending_tracked: "(oid, p) \<in> set (pending (tracker_of es)) \<Longrightarrow> tracked es oid p"
proof (induction es arbitrary: oid p rule: rev_induct)
  case Nil
  then show ?case by (simp add: tracker_new_def)
next
  case (snoc e es)
  let ?t = "tracker_of es"
  have keep: "tracked (es @ [e]) oid p" if "(oid, p) \<in> set (pending ?t)" "\<forall>i. e \<noteq> ArmingFailed i" "e \<noteq> Reset"
    using tracked_later [OF snoc.IH [OF that(1)] that(3)] that(2) by simp
  note inv = tracker_of_inv [of es]
  show ?case
  proof (cases e)
    case (Begin i now rec s)
    have "(oid, p) \<in> set (pending (if s then ?t else evict ?t)) \<or>
        oid = i \<and> p = \<lparr>po_occurrence = \<lparr>to_record = rec, deliveredAt = now, occurrenceId = i, processedAt = None,
          settledAt = None\<rparr>, processedRunSequence = None, reviewArmed = False, po_oneShot = s\<rparr>"
      using snoc.prems Begin by (auto simp: beginOccurrence_def Let_def dest!: set_update)
    then show ?thesis
    proof
      assume "(oid, p) \<in> set (pending (if s then ?t else evict ?t))"
      then have "(oid, p) \<in> set (pending ?t)" using evict_keeps [of ?t] by (auto split: if_splits)
      then show ?thesis using keep Begin by simp
    next
      assume "oid = i \<and> p = \<lparr>po_occurrence = \<lparr>to_record = rec, deliveredAt = now, occurrenceId = i, processedAt = None,
          settledAt = None\<rparr>, processedRunSequence = None, reviewArmed = False, po_oneShot = s\<rparr>"
      then show ?thesis using Begin by (intro trackedI_None [of _ _ _ es now s "[]"]) auto
    qed
  next
    case (Discard i)
    then have "(oid, p) \<in> set (pending ?t)"
      using snoc.prems by (auto simp: discardOccurrence_def drop_pending_def split: option.splits if_splits)
    then show ?thesis using keep Discard by simp
  next
    case (Observe i time)
    let ?k = "last (inFlightRuns ?t)"
    from observe_pending [OF inv, of i time] show ?thesis
    proof
      assume "snd (noteMessageObserved i time ?t) = ?t"
      then show ?thesis using snoc.prems keep Observe by simp
    next
      assume "\<exists>q. map_of (pending ?t) i = Some q \<and> processedAt (po_occurrence q) = None \<and> inFlightRuns ?t \<noteq> []
         \<and> pending (snd (noteMessageObserved i time ?t)) = pending (update_pending i (mark_observed time ?k) ?t)
         \<and> tracker_inv (snd (noteMessageObserved i time ?t))"
      then obtain q where q: "map_of (pending ?t) i = Some q" "processedAt (po_occurrence q) = None"
        "inFlightRuns ?t \<noteq> []" "pending (snd (noteMessageObserved i time ?t)) = pending (update_pending i (mark_observed time ?k) ?t)"
        by blast
      obtain p0 where p0: "(oid, p0) \<in> set (pending ?t)" "p = (if oid = i then mark_observed time ?k p0 else p0)"
        using snoc.prems Observe q(4) by (auto simp: update_pending_def split: if_splits)
      show ?thesis
      proof (cases "oid = i")
        case True
        have "p0 = q" using p0(1) q(1) inv True by (simp add: tracker_inv_def)
        with True p0 q tracked_observe [OF snoc.IH [OF p0(1)], of ?k time] Observe show ?thesis
          by (simp add: observed_run_def)
      next
        case False
        with p0 have "(oid, p) \<in> set (pending ?t)" by simp
        then show ?thesis using keep Observe by simp
      qed
    qed
  next
    case (ArmingFailed i)
    obtain p0 where p0: "(oid, p0) \<in> set (pending ?t)"
      "p = (if oid = i \<and> processedAt (po_occurrence p0) \<noteq> None then p0\<lparr>reviewArmed := False\<rparr> else p0)"
      using snoc.prems ArmingFailed by (auto simp: noteMessageArmingFailed_def update_pending_def split: if_splits)
    show ?thesis
      using tracked_armingFailed [OF snoc.IH [OF p0(1)], of i] tracked_later [OF snoc.IH [OF p0(1)], of e] p0(2) ArmingFailed
      by (auto split: if_splits)
  next
    case (Settle now)
    then have "(oid, p) \<in> set (pending ?t)" using snoc.prems by (auto simp: agentRunSettled_def Let_def)
    then show ?thesis using keep Settle by simp
  next
    case Reset
    then show ?thesis using snoc.prems by (simp add: reset_fields)
  next
    case RunStarted
    then show ?thesis using snoc.prems keep by (simp add: agentRunStarted_def)
  next
    case RunEnded
    then show ?thesis using snoc.prems keep by (simp add: agentRunEnded_def split: list.splits)
  qed
qed

lemma settled_turn_happened:
  assumes "occ \<in> set (fst (turn_step (Settle now) (tracker_of es)))"
  shows "turn_happened es occ"
    and "\<exists>p. (occurrenceId occ, p) \<in> set (pending (tracker_of es)) \<and> settles (tracker_of es) p"
proof -
  let ?t = "tracker_of es"
  obtain oid p k where p: "(oid, p) \<in> set (pending ?t)" "occ = (po_occurrence p)\<lparr>settledAt := Some now\<rparr>"
    "processedRunSequence p = Some k" "reviewArmed p" "k \<le> endedRunCount ?t"
    using assms by (auto simp: agentRunSettled_def Let_def settles_def split: option.splits)
  have ended: "k \<notin> set (inFlightRuns ?t)"
    using tracker_of_inv [of es] p(5) unfolding tracker_inv_def by auto
  from pending_tracked [OF p(1)] show "turn_happened es occ"
  proof (cases rule: trackedE)
    case (observed a n s b1 time b2 k')
    then show ?thesis
      using p ended unfolding turn_happened_def
      by (intro exI [of _ a] exI [of _ n] exI [of _ s] exI [of _ b1] exI [of _ time] exI [of _ b2] exI [of _ k]) auto
  qed (use p in simp)
  have "occurrenceId occ = oid" using pending_tracked [OF p(1)] p(2) by (simp add: tracked_def)
  with p show "\<exists>p. (occurrenceId occ, p) \<in> set (pending ?t) \<and> settles ?t p"
    by (auto simp: settles_def)
qed

lemma completed_step:
  "completed (es @ [e]) = completed es @ (case e of Settle now \<Rightarrow> fst (agentRunSettled now (tracker_of es)) | _ \<Rightarrow> [])"
  by (cases e) auto

definition begun :: "turn_event list \<Rightarrow> string list" where
  "begun es = concat (map (\<lambda>e. case e of Begin oid _ _ _ \<Rightarrow> [oid] | _ \<Rightarrow> []) es)"

lemma tracked_begun: "tracked es oid p \<Longrightarrow> oid \<in> set (begun es)"
  by (auto simp: tracked_def begun_def)

lemma settled_ids_distinct: "distinct (map occurrenceId (fst (turn_step (Settle now) (tracker_of es))))"
proof -
  let ?t = "tracker_of es"
  have "map occurrenceId (fst (agentRunSettled now ?t)) = map fst (filter (\<lambda>(_, p). settles ?t p) (pending ?t))"
    using pending_tracked [of _ _ es] by (auto simp: agentRunSettled_def Let_def tracked_def)
  moreover have "distinct (map fst (pending ?t))" using tracker_of_inv [of es] by (simp add: tracker_inv_def)
  ultimately show ?thesis by (simp add: distinct_map_filter)
qed

lemma pending_ids_step:
  assumes "tracker_inv t"
  shows "fst ` set (pending (snd (turn_step e t))) \<subseteq> fst ` set (pending t) \<union> set (begun [e])"
proof (cases e)
  case (Begin oid now rec s)
  have "set (pending (if s then t else evict t)) \<subseteq> set (pending t)" using evict_keeps [of t] by simp
  then show ?thesis using Begin by (auto simp: beginOccurrence_def Let_def begun_def dom_update)
next
  case (Observe oid now)
  have "map fst (pending (update_pending oid f t)) = map fst (pending t)" for f
    by (auto simp: update_pending_def)
  then have "fst ` set (pending (update_pending oid f t)) = fst ` set (pending t)" for f
    by (metis set_map)
  then have "fst ` set (pending (snd (noteMessageObserved oid now t))) = fst ` set (pending t)"
    using observe_pending [OF assms, of oid now] by metis
  then show ?thesis using Observe by simp
next
  case (ArmingFailed oid)
  have "map fst (pending (noteMessageArmingFailed oid t)) = map fst (pending t)"
    by (auto simp: noteMessageArmingFailed_def update_pending_def)
  then show ?thesis using ArmingFailed by (metis Un_upper1 set_map snd_conv turn_step.simps(4))
qed (auto simp: discardOccurrence_def drop_pending_def agentRunStarted_def agentRunEnded_def agentRunSettled_def
      Let_def reset_fields split: option.splits list.splits)

lemma disjoint_extended: "C \<subseteq> B \<Longrightarrow> C \<inter> P = {} \<Longrightarrow> U \<subseteq> P \<union> N \<Longrightarrow> N \<inter> B = {} \<Longrightarrow> C \<inter> U = {}"
  by blast

lemma completed_once:
  "distinct (begun es) \<Longrightarrow> distinct (map occurrenceId (completed es))
     \<and> occurrenceId ` set (completed es) \<subseteq> set (begun es)
     \<and> occurrenceId ` set (completed es) \<inter> fst ` set (pending (tracker_of es)) = {}"
proof (induction es rule: rev_induct)
  case Nil
  then show ?case by (simp add: tracker_new_def)
next
  case (snoc e es)
  let ?t = "tracker_of es" and ?u = "tracker_of (es @ [e])"
  have IH: "distinct (map occurrenceId (completed es))" "occurrenceId ` set (completed es) \<subseteq> set (begun es)"
    "occurrenceId ` set (completed es) \<inter> fst ` set (pending ?t) = {}"
    using snoc by (auto simp: begun_def)
  have pend: "fst ` set (pending ?u) \<subseteq> fst ` set (pending ?t) \<union> set (begun [e])"
    unfolding turn_run_snoc(2) by (rule pending_ids_step [OF tracker_of_inv])
  have same: ?case if "completed (es @ [e]) = completed es"
  proof -
    have b: "begun (es @ [e]) = begun es @ begun [e]" by (simp add: begun_def)
    have "set (begun [e]) \<inter> set (begun es) = {}" using snoc.prems unfolding b by auto
    note d = disjoint_extended [OF IH(2,3) pend this]
    show ?thesis unfolding that b set_append using IH(1) IH(2) d by (simp only: le_supI1 simp_thms)
  qed
  show ?case
  proof (cases e)
    case (Settle now)
    let ?new = "fst (turn_step (Settle now) ?t)"
    have ids: "occurrenceId o' \<in> fst ` set (pending ?t)" "occurrenceId o' \<notin> fst ` set (pending ?u)"
      if o': "o' \<in> set ?new" for o'
    proof -
      obtain p where p: "(occurrenceId o', p) \<in> set (pending ?t)" "settles ?t p"
        using settled_turn_happened(2) [OF o'] by blast
      then show "occurrenceId o' \<in> fst ` set (pending ?t)" by force
      have "distinct (map fst (pending ?t))" using tracker_of_inv [of es] by (simp add: tracker_inv_def)
      then have "q = p" if "(occurrenceId o', q) \<in> set (pending ?t)" for q
        using p(1) that by (auto dest: eq_key_imp_eq_value)
      then show "occurrenceId o' \<notin> fst ` set (pending ?u)"
        using p(2) Settle by (auto simp: agentRunSettled_def Let_def)
    qed
    have new: "begun (es @ [e]) = begun es" "begun [e] = []" "completed (es @ [e]) = completed es @ ?new"
      using Settle by (simp_all add: begun_def)
    have known: "fst ` set (pending ?t) \<subseteq> set (begun es)"
      using tracked_begun [OF pending_tracked] by auto
    have n1: "occurrenceId ` set ?new \<subseteq> fst ` set (pending ?t)"
      by (rule image_subsetI) (rule ids(1))
    have n2: "x \<notin> fst ` set (pending ?u)" if "x \<in> occurrenceId ` set ?new" for x
      using that by (elim imageE) (simp only: ids(2) not_False_eq_True)
    have less: "fst ` set (pending ?u) \<subseteq> fst ` set (pending ?t)"
      using pend unfolding new(2) by (simp only: list.set Un_empty_right)
    define C N P U where "C = occurrenceId ` set (completed es)" and "N = occurrenceId ` set ?new"
      and "P = fst ` set (pending ?t)" and "U = fst ` set (pending ?u)"
    note sets = n1 n2 less IH(2,3) known
    note sets = sets [folded C_def N_def P_def U_def]
    have "C \<inter> N = {}" "(C \<union> N) \<inter> U = {}" "C \<union> N \<subseteq> set (begun es)" using sets by blast+
    then show ?thesis
      unfolding new(1,3) map_append distinct_append set_map set_append image_Un C_def N_def U_def
      using IH(1) settled_ids_distinct [of now es] by (intro conjI)
  qed (rule same, simp)+
qed

text \<open>
  C21. When the random identities are distinct, every scheduled turn that is ever counted as executed
  was delivered, its own message was consumed inside a run of that session, the review was not found
  unarmed after that, and the consuming run had ended when the settlement counted it; and no turn is
  counted twice.
\<close>

theorem counted_turns_happened:
  assumes "distinct (begun es)"
  shows "(\<forall>occ \<in> set (completed es). \<exists>pre now post. es = pre @ Settle now # post \<and> turn_happened pre occ)
    \<and> distinct (map occurrenceId (completed es))"
proof -
  have "\<exists>pre now post. es = pre @ Settle now # post \<and> turn_happened pre occ" if "occ \<in> set (completed es)" for occ
    using that
  proof (induction es rule: rev_induct)
    case (snoc e es)
    then consider "occ \<in> set (completed es)" | now where "e = Settle now" "occ \<in> set (fst (turn_step e (tracker_of es)))"
      by (cases e) auto
    then show ?case
    proof cases
      case 1
      then obtain pre now post where "es = pre @ Settle now # post" "turn_happened pre occ"
        using snoc.IH by blast
      then show ?thesis by (intro exI [of _ pre] exI [of _ now] exI [of _ "post @ [e]"]) simp
    next
      case 2
      then show ?thesis using settled_turn_happened(1) [of occ now es] by blast
    qed
  qed simp
  then show ?thesis using completed_once [OF assms] by blast
qed

definition sample_turn :: turn_record where
  "sample_turn = \<lparr>tr_entryId = ''a'', tr_entryName = ''nightly'', tr_cron = ''0 3 * * *'', tr_dueAt = 180\<rparr>"

definition sample_events :: "turn_event list" where
  "sample_events = [Begin ''u1'' 180 sample_turn True, RunStarted, Observe ''u1'' 181, Settle 182, RunEnded, Settle 183]"

theorem counted_turns_happened_witness:
  "\<exists>occ pre now post. completed sample_events = [occ] \<and> occurrenceId occ = ''u1''
     \<and> sample_events = pre @ Settle now # post \<and> turn_happened pre occ"
proof -
  have d: "distinct (begun sample_events)" by (simp add: sample_events_def begun_def)
  have "map occurrenceId (completed sample_events) = [''u1'']"
    by (simp add: sample_events_def turn_run_def tracker_new_def beginOccurrence_def noteMessageObserved_def
        agentRunStarted_def agentRunEnded_def agentRunSettled_def settles_def update_pending_def mark_observed_def
        resolve_def Let_def)
  then obtain occ where occ: "completed sample_events = [occ]" "occurrenceId occ = ''u1''" by auto
  then show ?thesis using counted_turns_happened [OF d] by auto
qed

subsection \<open>A due entry is launched at most once, or reported\<close>

fun is_launch :: "'r effect \<Rightarrow> bool" where
  "is_launch (StartScheduled _ _ _ _) = True"
| "is_launch (SendTurn _ _) = True"
| "is_launch _ = False"

fun is_report :: "'r effect \<Rightarrow> bool" where
  "is_report (ReportOwnerEvent _) = True"
| "is_report (ConsoleReport _) = True"
| "is_report _ = False"

fun is_notice :: "'r effect \<Rightarrow> bool" where
  "is_notice (DeliverLaunchNotice _ _) = True"
| "is_notice _ = False"

definition to_turn :: "'r schedule_entry \<Rightarrow> bool" where
  "to_turn e \<longleftrightarrow> se_destination e = Some ToOrchestratorTurn"

definition pending_oneShot :: "string \<Rightarrow> 'r schedule_entry \<Rightarrow> tracker \<Rightarrow> bool" where
  "pending_oneShot eid e t \<longleftrightarrow> se_oneShot e = Some True \<and> hasPendingOccurrence eid t"

text \<open>When an occurrence may be launched at all.\<close>

definition may_launch :: "host \<Rightarrow> string \<Rightarrow> 'r schedule_entry \<Rightarrow> bool \<Rightarrow> tracker \<Rightarrow> bool" where
  "may_launch h eid e overdue t \<longleftrightarrow>
     \<not> overdue \<and> imageFailure h = None
     \<and> (if to_turn e then unsafeReason h = None \<and> \<not> pending_oneShot eid e t
         else activeRuns h = [] \<and> has_workspace e)"

text \<open>Whether the host accepted a launch, as far as can be told.\<close>

definition accepted :: "host \<Rightarrow> (tracker \<Rightarrow> tracker) \<Rightarrow> string \<Rightarrow> int \<Rightarrow> string \<Rightarrow> 'r schedule_entry \<Rightarrow> int \<Rightarrow> tracker \<Rightarrow> bool" where
  "accepted h during uuid now eid e due t \<longleftrightarrow>
     (if to_turn e
      then fst (deliverScheduledOrchestratorTurn (sendResult h) uuid
             (during (beginOccurrence uuid now
                \<lparr>tr_entryId = eid, tr_entryName = se_name e, tr_cron = se_cron e, tr_dueAt = due\<rparr>
                (se_oneShot e = Some True) t))) = Delivered
      else \<not> isl (startResult h))"

definition has_channel :: "host \<Rightarrow> 'r schedule_entry \<Rightarrow> bool" where
  "has_channel h e = (if to_turn e then sendResult h \<noteq> NoChannel else True)"

lemma dispatch_to_turn:
  "to_turn e \<Longrightarrow> dispatchScheduledEntry h during clip label uuid now eid e due overdue t =
     dispatchScheduledOrchestratorTurn h during clip label uuid now eid e due overdue t"
  by (simp add: dispatchScheduledEntry_def to_turn_def)

lemma dispatch_to_subtask:
  "\<not> to_turn e \<Longrightarrow> dispatchScheduledEntry h during clip label uuid now eid e due overdue t =
     (dispatch_subtask h eid e overdue, t)"
  by (cases "se_destination e"; cases "the (se_destination e)") (auto simp: dispatchScheduledEntry_def to_turn_def)

text \<open>
  C34. Dispatching a due entry launches it exactly when every guard of its destination allows it (and,
  for a turn, the host has a message channel), and then once; an occurrence that is not launched, or
  whose launch was not accepted, is reported exactly once, and an accepted one is not reported as
  failed.  On the subtask route the notification gate is resolved at most once and never before the
  launch notice.
\<close>

theorem dispatch_launches_once_or_reports:
  "let (effects, t') = dispatchScheduledEntry h during clip label uuid now eid e due overdue t in
     length (filter is_launch effects) =
       (if may_launch h eid e overdue t \<and> has_channel h e then 1 else 0)
     \<and> length (filter is_report effects) =
       (if may_launch h eid e overdue t \<and> accepted h during uuid now eid e due t then 0 else 1)
     \<and> filter is_notice (dropWhile (\<lambda>x. x \<noteq> ResolveGate) effects) = []
     \<and> count_list effects ResolveGate \<le> 1"
proof (cases "to_turn e")
  case True
  then show ?thesis
    unfolding dispatch_to_turn [OF True] dispatchScheduledOrchestratorTurn_def ui_effects_def
    by (cases "imageFailure h"; cases "unsafeReason h")
      (auto simp: may_launch_def pending_oneShot_def accepted_def has_channel_def Let_def case_prod_unfold
        split: delivery_outcome.splits)
next
  case False
  then show ?thesis
    unfolding dispatch_to_subtask [OF False] dispatch_subtask_def after_start_def ui_effects_def
    by (cases "imageFailure h"; cases "startResult h")
      (auto simp: may_launch_def accepted_def has_channel_def)
qed

text \<open>An overdue occurrence wakes even a host on which no scheduled turn can be armed, which the
  report of a pending one-shot turn and the refusal itself avoid.\<close>

lemma unsafe_host_is_woken:
  fixes e :: "'r schedule_entry"
  assumes "unsafeReason h = Some reason" "to_turn e" "\<not> pending_oneShot eid e t"
  shows "fst (dispatchScheduledEntry h during clip label uuid now eid e due True t) = [ReportOwnerEvent OverdueDrop]"
    and "imageFailure h = None \<Longrightarrow>
      fst (dispatchScheduledEntry h during clip label uuid now eid e due False t) =
        [CheckScheduledImages, ConsoleReport (TurnDeliveryFailure reason)]"
  using assms unfolding dispatch_to_turn [OF assms(2)] dispatchScheduledOrchestratorTurn_def
  by (auto simp: pending_oneShot_def)

end
