(* ===== verification/Reviewer_Adapters.thy ===== *)
theory Reviewer_Adapters
  imports Review_Verdict
begin

text \<open>
  How the process of a reviewer becomes a review result: \<open>src/src/adapters/process.ts\<close> (failures)
  and the four adapters \<open>generic-cli.ts\<close>, \<open>codex-cli.ts\<close>, \<open>claude-cli.ts\<close> and
  \<open>pi-model.ts\<close> after their processes have ended.  What the stream extractors collected, the last
  message file and the session receipt are fields of \<open>reviewer_run\<close>; usage and telemetry are left
  out.  Strings are lists of code units below 256.
\<close>

record process_output =
  o_settlement :: "settlement option"
  stdout :: string
  stderr :: string
  stdoutTruncated :: bool
  code :: "int option"
  timedOut :: bool
  aborted :: bool
  stdinError :: "string option"
  terminationError :: "string option"

definition present :: "string option \<Rightarrow> bool" where
  "present s \<longleftrightarrow> s \<noteq> None \<and> s \<noteq> Some []"

definition texts :: "string option list \<Rightarrow> string list" where
  "texts xs = map the (filter present xs)"

definition boundedDiagnostic :: "string \<Rightarrow> string" where
  "boundedDiagnostic s =
     (let n = trim s in if length n \<le> 2000 then n else drop (length n - 2000) n)"

definition joinDiagnostics :: "string option list \<Rightarrow> string option" where
  "joinDiagnostics xs =
     (let d = join [LF] (texts xs) in if d = [] then None else Some (boundedDiagnostic d))"

definition stderrDiagnostic :: "string \<Rightarrow> string option" where
  "stderrDiagnostic s =
     (let ls = filter (\<lambda>l. l \<noteq> []) (map trim (split_lines s)) in
      if ls = [] then None
      else let t = join [LF] (drop (length ls - 12) ls) in
        Some (if length t \<le> 2000 then t else drop (length t - 2000) t))"

definition reviewerErrorResult :: "string \<Rightarrow> string \<Rightarrow> string \<Rightarrow> string \<Rightarrow> review_result" where
  "reviewerErrorResult rid s path err = plain_result rid VerdictError s (Some path) (Some err)"

definition code_text :: "int option \<Rightarrow> string" where
  "code_text c = (case c of None \<Rightarrow> ''null'' | Some n \<Rightarrow> (if n < 0 then CHR ''-'' # nat_str (nat (- n)) else nat_str (nat n)))"

definition with_process :: "process_output \<Rightarrow> string option \<Rightarrow> review_result \<Rightarrow> review_result" where
  "with_process out diag r = r\<lparr>processSettlement := o_settlement out, r_diagnostic := diag\<rparr>"

definition processFailureResult :: "string \<Rightarrow> string \<Rightarrow> nat \<Rightarrow> process_output \<Rightarrow> review_result option" where
  "processFailureResult rid path timeoutMs out =
     (if aborted out then
        Some (with_process out (terminationError out)
          (reviewerErrorResult rid ''Reviewer was aborted.'' path ''aborted''))
      else if timedOut out then
        Some (with_process out (terminationError out)
          (reviewerErrorResult rid (''Reviewer timed out after '' @ nat_str timeoutMs @ ''ms.'') path ''timeout''))
      else if present (stdinError out) then
        Some (with_process out (joinDiagnostics [stdinError out, terminationError out])
          (reviewerErrorResult rid ''Reviewer could not receive its prompt.'' path ''stdin_error''))
      else if code out \<noteq> Some 0 then
        Some (with_process out (joinDiagnostics [stderrDiagnostic (stderr out), terminationError out])
          (reviewerErrorResult rid (''Reviewer exited with status '' @ code_text (code out) @ ''.'') path
             (''exit_'' @ code_text (code out))))
      else None)"

text \<open>What an adapter has in hand when its processes are over.\<close>

record reviewer_run =
  proc :: process_output
  preflight :: "process_output option"
  x_text :: string
  x_error :: "string option"
  finalFile :: "string \<times> bool"
  sessionFile :: "string option"

type_synonym parser = "string \<Rightarrow> json option"

definition parsed_reply :: "parser \<Rightarrow> string \<Rightarrow> string \<Rightarrow> process_output \<Rightarrow> string \<Rightarrow> review_result" where
  "parsed_reply parse rid path out text =
     with_process out (terminationError out) (parseReviewResult parse rid text (Some path))"

subsection \<open>Generic command line\<close>

definition generic_run :: "parser \<Rightarrow> string \<Rightarrow> string \<Rightarrow> nat \<Rightarrow> reviewer_run \<Rightarrow> review_result" where
  "generic_run parse rid path timeoutMs x =
     (case processFailureResult rid path timeoutMs (proc x) of
        Some failure \<Rightarrow> failure
      | None \<Rightarrow> parsed_reply parse rid path (proc x) (stdout (proc x)))"

subsection \<open>Claude\<close>

definition claude_run :: "parser \<Rightarrow> string \<Rightarrow> string \<Rightarrow> nat \<Rightarrow> reviewer_run \<Rightarrow> review_result" where
  "claude_run parse rid path timeoutMs x =
     (case processFailureResult rid path timeoutMs (proc x) of
        Some failure \<Rightarrow>
          (if present (x_error x) then failure\<lparr>r_summary := the (x_error x)\<rparr> else failure)
      | None \<Rightarrow>
          (if present (x_error x)
           then with_process (proc x) (terminationError (proc x))
                  (reviewerErrorResult rid (the (x_error x)) path ''claude_error'')
           else parsed_reply parse rid path (proc x) (x_text x)))"

subsection \<open>Codex\<close>

definition bwrap_at :: "string \<Rightarrow> nat \<Rightarrow> bool" where
  "bwrap_at s i \<longleftrightarrow> starts_with (drop i s) ''bwrap:'' \<and> (i = 0 \<or> \<not> word_char (s ! (i - 1)))"

definition sandbox_line :: "string \<Rightarrow> bool" where
  "sandbox_line t \<longleftrightarrow> starts_with t ''sandbox'' \<and>
     some_suffix (\<lambda>u. starts_with u ''failed'') (takeWhile (\<lambda>c. c \<noteq> LF) (drop 7 t))"

definition codexSandboxFailed :: "string \<Rightarrow> bool" where
  "codexSandboxFailed text =
     (let s = map js_lower text in
      some_suffix (\<lambda>t. starts_with t ''fs sandbox helper failed'') s
      \<or> list_ex (bwrap_at s) [0..<length s]
      \<or> some_suffix sandbox_line s)"

definition sandbox_result :: "string \<Rightarrow> string \<Rightarrow> process_output \<Rightarrow> review_result" where
  "sandbox_result rid path out = with_process out (terminationError out) (reviewerErrorResult rid
     ''Codex reviewer could not inspect the evidence because its read-only filesystem sandbox failed to start.''
     path ''sandbox_unavailable'')"

text \<open>Both owned launches contribute to the settlement and to the diagnostic.\<close>

definition after_preflight :: "process_output option \<Rightarrow> process_output \<Rightarrow> process_output" where
  "after_preflight pre out =
     (case pre of
        None \<Rightarrow> out
      | Some p \<Rightarrow>
          out\<lparr>o_settlement := Some (if o_settlement p = Some Confirmed \<and> o_settlement out = Some Confirmed
                                   then Confirmed else Unconfirmed),
              terminationError :=
                (let d = join [LF] (texts [terminationError p, terminationError out]) in
                 if d = [] then None else Some d)\<rparr>)"

definition codex_main :: "parser \<Rightarrow> string \<Rightarrow> string \<Rightarrow> nat \<Rightarrow> reviewer_run \<Rightarrow> review_result" where
  "codex_main parse rid path timeoutMs x =
     (let out = after_preflight (preflight x) (proc x) in
      case processFailureResult rid path timeoutMs out of
        Some failure \<Rightarrow> failure
      | None \<Rightarrow>
          (if snd (finalFile x)
           then with_process out (terminationError out) (reviewerErrorResult rid
                  ''Codex reviewer final output exceeded the 100 MiB limit.'' path ''output_truncated'')
           else
             let finalText = (if trim (fst (finalFile x)) \<noteq> [] then fst (finalFile x)
                              else if x_text x \<noteq> [] then x_text x else stdout out);
                 result = parsed_reply parse rid path out finalText in
             if r_verdict result = VerdictError \<and> codexSandboxFailed (stderr out)
             then sandbox_result rid path out else result))"

definition codex_run :: "parser \<Rightarrow> string \<Rightarrow> string \<Rightarrow> nat \<Rightarrow> reviewer_run \<Rightarrow> review_result" where
  "codex_run parse rid path timeoutMs x =
     (case preflight x of
        Some p \<Rightarrow> (if codexSandboxFailed (stderr p) then sandbox_result rid path p
                   else codex_main parse rid path timeoutMs x)
      | None \<Rightarrow> codex_main parse rid path timeoutMs x)"

subsection \<open>Pi\<close>

definition pi_error :: "string \<Rightarrow> string \<Rightarrow> process_output \<Rightarrow> string \<Rightarrow> string \<Rightarrow> review_result" where
  "pi_error rid path out s err = with_process out (terminationError out) (reviewerErrorResult rid s path err)"

definition pi_run :: "parser \<Rightarrow> string \<Rightarrow> string \<Rightarrow> nat \<Rightarrow> reviewer_run \<Rightarrow> review_result" where
  "pi_run parse rid path timeoutMs x =
     (let out = proc x in
      case processFailureResult rid path timeoutMs out of
        Some failure \<Rightarrow> failure
      | None \<Rightarrow>
          (if present (x_error x)
           then with_process out (Some (join [LF] (texts [x_error x, terminationError out])))
                  (reviewerErrorResult rid ''Reviewer provider failed before producing a final response.'' path ''provider_error'')
           else if trim (x_text x) = [] then
             (if stdoutTruncated out
              then pi_error rid path out ''Reviewer output was truncated before a final assistant text was captured.'' ''output_truncated''
              else pi_error rid path out ''Reviewer did not produce final assistant text.'' ''missing_final_text'')
           else if sessionFile x = None
           then pi_error rid path out
                  ''Reviewer did not report its own native session reference, so the pass was not accepted.'' ''session_reference_missing''
           else parsed_reply parse rid path out (x_text x)))"

subsection \<open>The adapter of a reviewer\<close>

datatype adapter_kind = GenericCli | CodexCli | ClaudeCli | PiModel

text \<open>The model of a Pi reviewer is always set.\<close>

record decider =
  dc_id :: string
  dc_adapter :: adapter_kind
  dc_model :: "string option"
  dc_thinkingLevel :: "string option"

fun adapter_name :: "adapter_kind \<Rightarrow> string" where
  "adapter_name GenericCli = ''generic-cli''"
| "adapter_name CodexCli = ''codex-cli''"
| "adapter_name ClaudeCli = ''claude-cli''"
| "adapter_name PiModel = ''pi-model''"

definition reviewerDisplayLabel :: "decider \<Rightarrow> string" where
  "reviewerDisplayLabel d =
     (if dc_adapter d = PiModel
      then (if present (dc_thinkingLevel d)
            then the (dc_model d) @ '' ('' @ the (dc_thinkingLevel d) @ '')'' else the (dc_model d))
      else if (dc_adapter d = CodexCli \<or> dc_adapter d = ClaudeCli) \<and> present (dc_model d)
      then dc_id d @ '' ['' @ adapter_name (dc_adapter d) @ ''/'' @ the (dc_model d) @ '']''
      else dc_id d)"

definition adapter_run :: "adapter_kind \<Rightarrow> parser \<Rightarrow> string \<Rightarrow> string \<Rightarrow> nat \<Rightarrow> reviewer_run \<Rightarrow> review_result" where
  "adapter_run k =
     (case k of GenericCli \<Rightarrow> generic_run | CodexCli \<Rightarrow> codex_run | ClaudeCli \<Rightarrow> claude_run | PiModel \<Rightarrow> pi_run)"

end
