(* ===== verification/Review_Outcome.thy ===== *)
theory Review_Outcome
  imports Reviewer_Adapters Review_Feedback
begin

text \<open>
  One invocation of the reviewers, from their results to the decision of the gate:
  \<open>src/src/review.ts\<close> (\<open>executeReviewerInvocation\<close> and what it calls) and the reports of
  \<open>src/src/review-report.ts\<close>.  What the file system answers is an argument: the message of a
  thrown \<open>Error\<close>, or \<open>None\<close> for another thrown value.  Reviewer sessions, telemetry, usage and
  the fingerprint of the configuration are left out.
\<close>

type_synonym thrown = "string option"

definition message_or :: "string \<Rightarrow> thrown \<Rightarrow> string" where
  "message_or d t = (case t of Some m \<Rightarrow> m | None \<Rightarrow> d)"

subsection \<open>Dispositions\<close>

datatype review_aggregate = AllPassed | PassedWithWarnings | ChangesNeeded | Failed

definition has_verdict :: "verdict \<Rightarrow> review_result list \<Rightarrow> bool" where
  "has_verdict v rs \<longleftrightarrow> list_ex (\<lambda>r. r_verdict r = v) rs"

definition aggregateReviewDisposition :: "review_result list \<Rightarrow> review_aggregate" where
  "aggregateReviewDisposition rs =
     (if has_verdict NeedsChanges rs then ChangesNeeded
      else
        let passes = length (filter (\<lambda>r. r_verdict r = Pass) rs);
            errors = length (filter (\<lambda>r. r_verdict r = VerdictError) rs) in
        if passes > 0 then (if errors > 0 then PassedWithWarnings else AllPassed) else Failed)"

definition hasPartialReviewerFailure :: "review_result list option \<Rightarrow> bool" where
  "hasPartialReviewerFailure rs =
     (case rs of
        None \<Rightarrow> False
      | Some rs \<Rightarrow> has_verdict Pass rs \<and> has_verdict VerdictError rs \<and> \<not> has_verdict NeedsChanges rs)"

definition count_verdict :: "verdict \<Rightarrow> review_result list \<Rightarrow> nat" where
  "count_verdict v rs = length (filter (\<lambda>r. r_verdict r = v) rs)"

definition reviewerVerdictSummary :: "review_result list \<Rightarrow> string" where
  "reviewerVerdictSummary rs =
     join '', '' (map (\<lambda>v. nat_str (count_verdict v rs) @ '' '' @ verdict_text v)
       (filter (\<lambda>v. count_verdict v rs > 0) [NeedsChanges, Pass, VerdictError]))"

definition aggregateProcessSettlement :: "review_result list \<Rightarrow> settlement" where
  "aggregateProcessSettlement rs =
     (if list_all (\<lambda>r. processSettlement r = Some Confirmed) rs then Confirmed else Unconfirmed)"

definition reviewerDiagnostics :: "review_result list \<Rightarrow> string option" where
  "reviewerDiagnostics rs =
     nonempty (join [LF] (map (\<lambda>r. reviewerId r @ '': '' @ the (r_diagnostic r))
       (filter (\<lambda>r. present (r_diagnostic r)) rs)))"

definition GATE :: string where "GATE = ''gate''"

definition gate_result :: "verdict \<Rightarrow> string \<Rightarrow> finding list \<Rightarrow> string option \<Rightarrow> review_result" where
  "gate_result v s fs err = (plain_result GATE v s None err)\<lparr>r_findings := fs\<rparr>"

definition labelled_findings :: "verdict \<Rightarrow> review_result list \<Rightarrow> finding list" where
  "labelled_findings v rs =
     concat (map (\<lambda>r. map (\<lambda>f. f\<lparr>f_reviewerId := Some (reviewerId r)\<rparr>) (r_findings r))
       (filter (\<lambda>r. r_verdict r = v) rs))"

text \<open>\<open>None\<close> is the throw at the end, when no result has any of the three verdicts.\<close>

definition decideReviewResults :: "review_result list \<Rightarrow> review_result option" where
  "decideReviewResults rs =
     (case rs of
        [r] \<Rightarrow> Some r
      | _ \<Rightarrow>
          (let errors = filter (\<lambda>r. r_verdict r = VerdictError) rs;
               aggregate = aggregateReviewDisposition rs in
           if has_verdict NeedsChanges rs
           then Some (gate_result NeedsChanges (reviewerVerdictSummary rs) (labelled_findings NeedsChanges rs)
                  (if errors \<noteq> [] then Some ''partial_reviewer_error'' else None))
           else if aggregate = AllPassed \<or> aggregate = PassedWithWarnings
           then Some (gate_result Pass (reviewerVerdictSummary rs) (labelled_findings Pass rs)
                  (if aggregate = PassedWithWarnings then Some ''partial_reviewer_error'' else None))
           else if errors \<noteq> []
           then Some (gate_result VerdictError (reviewerVerdictSummary rs) []
                  (Some (if list_all (\<lambda>r. r_error r = Some ''aborted'') errors then ''aborted'' else ''reviewer_error'')))
           else None))"

definition abortedResult :: "review_result list \<Rightarrow> review_result" where
  "abortedResult rs =
     (gate_result VerdictError ''Review aborted.'' [] (Some ''aborted''))
       \<lparr>processSettlement := Some (aggregateProcessSettlement rs), r_diagnostic := reviewerDiagnostics rs\<rparr>"

definition reviewWasAborted :: "bool \<Rightarrow> review_result list \<Rightarrow> bool" where
  "reviewWasAborted signalled rs \<longleftrightarrow> signalled \<or> list_ex (\<lambda>r. r_error r = Some ''aborted'') rs"

datatype retain_bundles = RetainNever | RetainOnFailure | RetainAlways

definition shouldRetainBundle :: "retain_bundles \<Rightarrow> review_result \<Rightarrow> review_result list \<Rightarrow> bool" where
  "shouldRetainBundle policy result rs =
     (if policy = RetainAlways then True
      else if policy \<noteq> RetainOnFailure then False
      else r_verdict result = VerdictError \<or> has_verdict VerdictError rs)"

subsection \<open>The reviewers of an invocation\<close>

fun first_by_id :: "string list \<Rightarrow> decider list \<Rightarrow> decider list" where
  "first_by_id seen [] = []"
| "first_by_id seen (d # ds) =
     (if dc_id d \<in> set seen then first_by_id seen ds else d # first_by_id (dc_id d # seen) ds)"

definition unavailable_result :: "string \<Rightarrow> review_result" where
  "unavailable_result selection =
     plain_result selection VerdictError
       (''Reviewer selection '' @ selection @ '' is not available in the current configuration and was not run.'')
       None (Some ''reviewer_unavailable'')"

fun distinct_selections :: "string list \<Rightarrow> string list \<Rightarrow> string list" where
  "distinct_selections seen [] = []"
| "distinct_selections seen (s # ss) =
     (if s \<in> set seen then distinct_selections seen ss else s # distinct_selections (s # seen) ss)"

definition resolveExecutableReviewers ::
  "decider list \<Rightarrow> string list \<Rightarrow> string list \<Rightarrow> decider list \<times> review_result list" where
  "resolveExecutableReviewers resolved unknownIds unresolved =
     (first_by_id [] resolved, map unavailable_result (distinct_selections [] (unknownIds @ unresolved)))"

text \<open>
  What happens to one reviewer: its adapter throws or returns, and writing its artifacts may throw.
  A raw output path that is set is moved to the directory of the published results.
\<close>

record reviewer_event =
  ran :: "thrown + review_result"
  written :: "thrown option"

record staged =
  st_result :: review_result
  artifactError :: "string option"

definition thrown_result :: "string \<Rightarrow> thrown \<Rightarrow> review_result" where
  "thrown_result rid t =
     (plain_result rid VerdictError (message_or ''Reviewer failed.'' t) None (Some (message_or ''review_failed'' t)))
       \<lparr>r_diagnostic := Some (message_or ''Reviewer failed before settlement could be confirmed.'' t)\<rparr>"

definition moved_output :: "(string \<Rightarrow> string) \<Rightarrow> review_result \<Rightarrow> review_result" where
  "moved_output move r =
     (if present (rawOutputPath r) then r\<lparr>rawOutputPath := map_option move (rawOutputPath r)\<rparr> else r)"

definition runSingleReviewer :: "(string \<Rightarrow> string) \<Rightarrow> string \<Rightarrow> reviewer_event \<Rightarrow> staged" where
  "runSingleReviewer move rid e =
     (let r = moved_output move (case ran e of Inl t \<Rightarrow> thrown_result rid t | Inr r \<Rightarrow> r);
          err = (case ran e of Inl t \<Rightarrow> Some (message_or ''artifact write failed'' t) | Inr _ \<Rightarrow> None) in
      case written e of
        None \<Rightarrow> \<lparr>st_result = r, artifactError = err\<rparr>
      | Some t \<Rightarrow>
          (let m = message_or ''artifact write failed'' t in
           \<lparr>st_result = r\<lparr>reviewerId := rid, r_verdict := VerdictError,
                          r_summary := ''Reviewer artifacts could not be written completely.'',
                          r_findings := [], r_error := Some ''artifact_write_failed'',
                          r_diagnostic := Some (join [LF] (texts [r_diagnostic r, Some m]))\<rparr>,
            artifactError = Some m\<rparr>))"

definition labelled :: "string \<Rightarrow> review_result \<Rightarrow> review_result" where
  "labelled l r = (if displayLabel r = None then r\<lparr>displayLabel := Some l\<rparr> else r)"

definition stage :: "(string \<Rightarrow> string \<Rightarrow> string) \<Rightarrow> decider \<times> reviewer_event \<Rightarrow> staged" where
  "stage move de =
     (let s = runSingleReviewer (move (dc_id (fst de))) (dc_id (fst de)) (snd de) in
      s\<lparr>st_result := labelled (reviewerDisplayLabel (fst de)) (st_result s)\<rparr>)"

text \<open>The message with which publication fails, if it does.\<close>

definition display_name :: "decider list \<Rightarrow> string \<Rightarrow> string" where
  "display_name ds rid =
     (case map_of (rev (map (\<lambda>d. (dc_id d, reviewerDisplayLabel d)) ds)) rid of Some l \<Rightarrow> l | None \<Rightarrow> rid)"

definition publishStagedReviewerSet :: "decider list \<Rightarrow> thrown option \<Rightarrow> staged list \<Rightarrow> thrown option" where
  "publishStagedReviewerSet ds io ss =
     (let incomplete = filter (\<lambda>s. present (artifactError s)) ss in
      if incomplete \<noteq> []
      then Some (Some (join ''; '' (map (\<lambda>s. display_name ds (reviewerId (st_result s)) @ '': '' @ the (artifactError s)) incomplete)))
      else io)"

definition publication_failure :: "review_result list \<Rightarrow> thrown \<Rightarrow> review_result" where
  "publication_failure rs t =
     (gate_result VerdictError ''Reviewer results could not be published atomically.'' [] (Some ''artifact_publication_failed''))
       \<lparr>r_diagnostic := Some (join [LF] (texts [Some (message_or ''Reviewer artifact publication failed.'' t), reviewerDiagnostics rs])),
        processSettlement := Some (aggregateProcessSettlement rs)\<rparr>"

datatype invocation =
    InvocationAborted review_result
  | InvocationDecided review_result "review_result list" bool

definition telemetry_diagnostic :: "string list \<Rightarrow> review_result \<Rightarrow> review_result" where
  "telemetry_diagnostic failures r =
     (if failures = [] then r
      else r\<lparr>r_diagnostic := Some (join [LF] (texts [r_diagnostic r,
              Some (''Artifact telemetry publication failed: '' @ join ''; '' failures)]))\<rparr>)"

text \<open>
  The decision of a single result is that result itself, so that what is stored in the decision is
  also stored in the list.  \<open>None\<close> is the throw of the decision.
\<close>

definition decide_invocation ::
  "retain_bundles \<Rightarrow> string list \<Rightarrow> review_result list \<Rightarrow> review_result list \<Rightarrow> invocation option" where
  "decide_invocation policy telemetry staged_results rs =
     (case decideReviewResults rs of
        None \<Rightarrow> None
      | Some r \<Rightarrow>
          (let r1 = r\<lparr>processSettlement := Some (aggregateProcessSettlement staged_results)\<rparr>;
               r2 = (if length rs > 1 then r1\<lparr>r_diagnostic := reviewerDiagnostics rs\<rparr> else r1);
               r3 = telemetry_diagnostic telemetry r2;
               rs3 = (if length rs = 1 then [r3] else rs) in
           Some (InvocationDecided r3 rs3 (telemetry \<noteq> [] \<or> shouldRetainBundle policy r3 rs3))))"

record invocation_input =
  deciders :: "(decider \<times> reviewer_event) list"
  unavailable :: "review_result list"
  move_output :: "string \<Rightarrow> string \<Rightarrow> string"
  signal_aborted :: bool
  publication :: "thrown option"
  telemetryFailures :: "string list"
  retain :: retain_bundles

definition executeReviewerInvocation :: "invocation_input \<Rightarrow> invocation option" where
  "executeReviewerInvocation input =
     (let ss = map (stage (move_output input)) (deciders input);
          rs = map st_result ss in
      if reviewWasAborted (signal_aborted input) rs then Some (InvocationAborted (abortedResult rs))
      else case publishStagedReviewerSet (map fst (deciders input)) (publication input) ss of
        Some t \<Rightarrow> (let r = publication_failure rs t in Some (InvocationDecided r [r] True))
      | None \<Rightarrow> decide_invocation (retain input) (telemetryFailures input) rs (rs @ unavailable input))"

text \<open>What the window keeps of it.\<close>

definition invocation_retained :: "invocation \<Rightarrow> bool" where
  "invocation_retained i = (case i of InvocationAborted _ \<Rightarrow> False | InvocationDecided _ _ b \<Rightarrow> b)"

definition keep_retention :: "invocation \<Rightarrow> review_window \<Rightarrow> review_window" where
  "keep_retention i w = w\<lparr>retainBundleAfterClose := retainBundleAfterClose w \<or> invocation_retained i\<rparr>"

subsection \<open>Reports\<close>

datatype error_category = Capacity | Timeout | Cancellation | ProcessExit | InvalidOutput | Sandbox | Infrastructure

definition contains :: "string \<Rightarrow> string \<Rightarrow> bool" where
  "contains s p \<longleftrightarrow> some_suffix (\<lambda>t. starts_with t p) s"

definition line_end :: "char \<Rightarrow> bool" where "line_end c \<longleftrightarrow> c = LF \<or> c = CR"

definition rate_limit :: "string \<Rightarrow> bool" where
  "rate_limit t \<longleftrightarrow> starts_with t ''rate'' \<and>
     (starts_with (drop 4 t) ''limit''
      \<or> (case drop 4 t of [] \<Rightarrow> False | c # u \<Rightarrow> \<not> line_end c \<and> starts_with u ''limit''))"

definition exit_number :: "string \<Rightarrow> bool" where
  "exit_number t \<longleftrightarrow> starts_with t ''exit_'' \<and> (case drop 5 t of [] \<Rightarrow> False | c # _ \<Rightarrow> is_digit c)"

definition classifyReviewerError :: "review_result \<Rightarrow> error_category" where
  "classifyReviewerError r =
     (let text = map js_lower (or_else (r_error r) [] @ '' '' @ r_summary r @ '' '' @ or_else (r_diagnostic r) []) in
      if contains text ''overload'' \<or> contains text ''capacity'' \<or> some_suffix rate_limit text \<or> contains text ''too many requests''
      then Capacity
      else if contains text ''timeout'' \<or> contains text ''timed out'' then Timeout
      else if contains text ''abort'' \<or> contains text ''cancel'' then Cancellation
      else if contains text ''sandbox'' then Sandbox
      else if list_ex (contains text) [''invalid_json'', ''missing_json'', ''schema_error'', ''output_truncated'', ''missing_final_text'']
      then InvalidOutput
      else if some_suffix exit_number text \<or> contains text ''exited with status'' then ProcessExit
      else Infrastructure)"

record reviewer_evidence =
  re_reviewerId :: string
  re_displayLabel :: string
  re_verdict :: verdict
  re_summary :: string
  re_guidance :: "string option"
  re_findings :: "finding list"
  re_error :: "string option"
  re_diagnostic :: "string option"
  errorCategory :: "error_category option"

record cycle_evidence =
  ce_reviewSequence :: nat
  ce_aggregate :: review_aggregate
  ce_summary :: string
  ce_disposition :: "disposition option"
  ce_reviewers :: "reviewer_evidence list"

definition reviewer_evidence_of :: "review_result \<Rightarrow> reviewer_evidence" where
  "reviewer_evidence_of r =
     \<lparr>re_reviewerId = reviewerId r, re_displayLabel = or_else (displayLabel r) (reviewerId r),
      re_verdict = r_verdict r, re_summary = r_summary r, re_guidance = r_guidance r, re_findings = r_findings r,
      re_error = r_error r, re_diagnostic = r_diagnostic r,
      errorCategory = (if r_verdict r = VerdictError then Some (classifyReviewerError r) else None)\<rparr>"

definition buildCycleEvidence :: "nat \<Rightarrow> string \<Rightarrow> review_result list \<Rightarrow> disposition option \<Rightarrow> cycle_evidence" where
  "buildCycleEvidence n s rs d =
     \<lparr>ce_reviewSequence = n, ce_aggregate = aggregateReviewDisposition rs, ce_summary = s, ce_disposition = d,
      ce_reviewers = map reviewer_evidence_of rs\<rparr>"

record review_report =
  rp_aggregate :: review_aggregate
  rp_summary :: string
  reviewCycles :: nat
  latestReviewSequence :: nat
  rp_reviewers :: "reviewer_evidence list"
  rp_history :: "cycle_evidence list"
  artifactDir :: "string option"

definition reportFromCycles :: "cycle_evidence list \<Rightarrow> string option \<Rightarrow> review_report option" where
  "reportFromCycles cycles dir =
     (if cycles = [] then None
      else let latest = last cycles in
        Some \<lparr>rp_aggregate = ce_aggregate latest, rp_summary = ce_summary latest, reviewCycles = length cycles,
              latestReviewSequence = ce_reviewSequence latest, rp_reviewers = ce_reviewers latest,
              rp_history = cycles, artifactDir = dir\<rparr>)"

record run_output =
  ro_result :: "review_result option"
  ro_reviewerResults :: "review_result list option"
  ro_reviewSequence :: "nat option"

definition cycle_of_output :: "nat \<Rightarrow> run_output \<Rightarrow> cycle_evidence list" where
  "cycle_of_output i o' =
     (case (ro_result o', ro_reviewerResults o') of
        (Some r, Some rs) \<Rightarrow> [buildCycleEvidence (or_else (ro_reviewSequence o') (i + 1)) (r_summary r) rs None]
      | _ \<Rightarrow> [])"

definition buildReviewReportFromOutputs :: "run_output list \<Rightarrow> string option \<Rightarrow> review_report option" where
  "buildReviewReportFromOutputs outs dir =
     reportFromCycles (concat (map (\<lambda>i. cycle_of_output i (outs ! i)) [0..<length outs])) dir"

text \<open>The durable record of one cycle, and the marker left when it could not be written.\<close>

record candidate_identity =
  baseCommit :: string
  commitSha :: string
  treeSha :: string
  cand_ref :: string

record cycle_reviewer =
  cr_reviewerId :: string
  cr_displayLabel :: "string option"
  cr_verdict :: verdict
  cr_summary :: string
  cr_guidance :: "string option"
  cr_error :: "string option"
  cr_findings :: "finding list"

record cycle_record =
  cy_taskId :: string
  cy_waveId :: string
  cy_cycle :: nat
  cy_reviewSequence :: nat
  cy_completedAt :: string
  cy_candidate :: candidate_identity
  cy_aggregate :: review_aggregate
  cy_summary :: string
  cy_reviewers :: "cycle_reviewer list"

definition cycle_reviewer_of :: "review_result \<Rightarrow> cycle_reviewer" where
  "cycle_reviewer_of r =
     \<lparr>cr_reviewerId = reviewerId r, cr_displayLabel = displayLabel r, cr_verdict = r_verdict r,
      cr_summary = r_summary r, cr_guidance = r_guidance r,
      cr_error = (if r_verdict r = VerdictError then r_error r else None),
      cr_findings = map (\<lambda>f. f\<lparr>f_reviewerId := None\<rparr>) (r_findings r)\<rparr>"

definition gate_aggregate :: "review_result option \<Rightarrow> review_aggregate" where
  "gate_aggregate g =
     (case g of
        None \<Rightarrow> Failed
      | Some r \<Rightarrow> (case r_verdict r of Pass \<Rightarrow> AllPassed | NeedsChanges \<Rightarrow> ChangesNeeded | VerdictError \<Rightarrow> Failed))"

record cycle_input =
  ci_taskId :: string
  ci_waveId :: string
  ci_cycle :: nat
  ci_reviewSequence :: "nat option"
  ci_candidate :: candidate_identity
  ci_result :: "review_result option"
  ci_reviewerResults :: "review_result list option"

definition buildReviewCycleRecord :: "string \<Rightarrow> cycle_input \<Rightarrow> cycle_record" where
  "buildReviewCycleRecord now input =
     (let gate = ci_result input;
          rs = or_else (ci_reviewerResults input) (case gate of Some g \<Rightarrow> [g] | None \<Rightarrow> []) in
      \<lparr>cy_taskId = ci_taskId input, cy_waveId = ci_waveId input, cy_cycle = ci_cycle input,
       cy_reviewSequence = or_else (ci_reviewSequence input) (ci_cycle input), cy_completedAt = now,
       cy_candidate = ci_candidate input, cy_aggregate = gate_aggregate gate,
       cy_summary = (case gate of Some g \<Rightarrow> r_summary g | None \<Rightarrow> ''Review completed without a gate result.''),
       cy_reviewers = map cycle_reviewer_of rs\<rparr>)"

record unpublished_marker =
  um_taskId :: string
  um_waveId :: string
  um_cycle :: nat
  um_reviewSequence :: nat
  um_completedAt :: string
  um_aggregate :: review_aggregate
  um_summary :: string
  um_reason :: string
  um_cut :: bool

definition MAX_MARKER_REASON_CHARS :: nat where "MAX_MARKER_REASON_CHARS = 200"

text \<open>\<open>um_cut\<close> says that an ellipsis, one code unit, follows the reason.\<close>

definition buildReviewCycleUnpublishedMarker :: "cycle_record \<Rightarrow> string \<Rightarrow> unpublished_marker" where
  "buildReviewCycleUnpublishedMarker c m =
     \<lparr>um_taskId = cy_taskId c, um_waveId = cy_waveId c, um_cycle = cy_cycle c,
      um_reviewSequence = cy_reviewSequence c, um_completedAt = cy_completedAt c,
      um_aggregate = cy_aggregate c, um_summary = cy_summary c,
      um_reason = (if length m > MAX_MARKER_REASON_CHARS then take (MAX_MARKER_REASON_CHARS - 1) m else m),
      um_cut = (length m > MAX_MARKER_REASON_CHARS)\<rparr>"

end
