(* ===== verification/Review_Gate.thy ===== *)
theory Review_Gate
  imports Review_Outcome
begin

text \<open>
  One review of the gate, \<open>runReview\<close> of \<open>src/src/review.ts\<close>: its input checks, the decision
  whether the work needs a review at all, and the invocation.  The settled evidence is an argument:
  the changes of the window and of the exchange, the changes \<open>collect\<close> finds in the retained tool
  evidence (of one exchange or of all), the paths outside the review root and the results whose
  operation was seen to change a file.  Changes are ordered by \<open>rank\<close>, the collation of
  \<open>localeCompare\<close>.  The cancellation signal is read twice, when the evidence has settled and when the
  reviewers have ended.  Staged baseline recoveries are not modelled: \<open>cancelSettlement\<close> is unset.
\<close>

subsection \<open>Input\<close>

datatype input_error = InvalidIdentity identity_error | InvalidExactChange string | NoReviewers

fun bad_path :: "json list \<Rightarrow> bool" where
  "bad_path js = list_ex (\<lambda>j. case j of JStr s \<Rightarrow> s = [] | _ \<Rightarrow> True) js"

definition path_set :: "json list \<Rightarrow> string list" where
  "path_set js = map (\<lambda>j. case j of JStr s \<Rightarrow> s | _ \<Rightarrow> []) js"

fun omitted_error :: "string list \<Rightarrow> json list \<Rightarrow> string option" where
  "omitted_error paths [] = None"
| "omitted_error paths (j # js) =
     (if \<not> isRecord (Some j) then Some ''exactChange.omitted entries must be objects.''
      else case json_string (field j ''path'') of
        None \<Rightarrow> Some ''exactChange.omitted entries must have a string path.''
      | Some p \<Rightarrow>
          (if json_string (field j ''reason'') = None then Some ''exactChange.omitted entries must have a string reason.''
           else if p \<notin> set paths then Some ''exactChange.omitted path not in changedPaths.''
           else omitted_error paths js))"

text \<open>The checks of \<open>exactChange\<close>, in order; \<open>Inr\<close> holds its paths, patch, mark and omissions.\<close>

definition validateExactChange :: "nat \<Rightarrow> json \<Rightarrow> string + (string list \<times> patch_result)" where
  "validateExactChange maxPatchBytes ec =
     (if \<not> isRecord (Some ec) then Inl ''exactChange must be an object.''
      else case field ec ''changedPaths'' of
        Some (JArr paths) \<Rightarrow>
          (case field ec ''patch'' of
             Some (JStr p) \<Rightarrow>
               (case field ec ''truncated'' of
                  Some (JBool t) \<Rightarrow>
                    (case field ec ''omitted'' of
                       Some (JArr om) \<Rightarrow>
                         (if bad_path paths then Inl ''exactChange.changedPaths must contain non-empty strings.''
                          else case omitted_error (path_set paths) om of
                            Some e \<Rightarrow> Inl e
                          | None \<Rightarrow>
                              (if \<not> t \<and> om \<noteq> [] then Inl ''exactChange cannot have omitted entries when truncated is false.''
                               else if byte_length p > maxPatchBytes then Inl ''exactChange.patch exceeds maxPatchBytes.''
                               else Inr (path_set paths, \<lparr>patch = p, truncated = t,
                                      omitted = map (\<lambda>j. (or_else (json_string (field j ''path'')) [],
                                                          or_else (json_string (field j ''reason'')) [])) om\<rparr>)))
                     | _ \<Rightarrow> Inl ''exactChange.omitted must be an array.'')
                | _ \<Rightarrow> Inl ''exactChange.truncated must be a boolean.'')
           | _ \<Rightarrow> Inl ''exactChange.patch must be a string.'')
      | _ \<Rightarrow> Inl ''exactChange.changedPaths must be an array.'')"

definition validateReviewInput ::
  "nat \<Rightarrow> json option \<Rightarrow> json option \<Rightarrow> input_error + (string list \<times> patch_result) option" where
  "validateReviewInput maxPatchBytes identity exact =
     (case Option.bind identity validateChangeIdentity of
        Some e \<Rightarrow> Inl (InvalidIdentity e)
      | None \<Rightarrow>
          (case exact of
             None \<Rightarrow> Inr None
           | Some ec \<Rightarrow>
               (if identity = None then Inl (InvalidExactChange ''exactChange requires changeIdentity to be set.'')
                else case validateExactChange maxPatchBytes ec of
                  Inl e \<Rightarrow> Inl (InvalidExactChange e)
                | Inr x \<Rightarrow> Inr (Some x))))"

subsection \<open>Observed activity\<close>

definition KNOWN_READ_ONLY_TOOLS :: "string list" where
  "KNOWN_READ_ONLY_TOOLS =
     [''read'', ''grep'', ''glob'', ''find'', ''ls'', ''gitread'', ''websearch'', ''webfetch'', ''browserscreenshot'']"

definition isReviewableToolObservation :: "evidence_event \<Rightarrow> bool" where
  "isReviewableToolObservation e \<longleftrightarrow>
     map js_lower (trim (ee_toolName e)) \<notin> set KNOWN_READ_ONLY_TOOLS
     \<or> candidatePaths e \<noteq> []
     \<or> list_ex (\<lambda>s. s \<noteq> ''tool_result_error'') (riskSignals e)"

definition hasObservedOutsideCandidate :: "(string \<Rightarrow> bool) \<Rightarrow> evidence_event \<Rightarrow> bool" where
  "hasObservedOutsideCandidate outside e \<longleftrightarrow> isReviewableToolObservation e \<and> list_ex outside (candidatePaths e)"

definition hasCapturedPrimaryActivity ::
  "(string \<Rightarrow> bool) \<Rightarrow> nat list \<Rightarrow> evidence_event list \<Rightarrow> nat \<Rightarrow> bool" where
  "hasCapturedPrimaryActivity outside changedResults es seq \<longleftrightarrow>
     list_ex (hasObservedOutsideCandidate outside) es
     \<or> list_ex (\<lambda>e. ee_phase e = ToolResult \<and> ee_exchangeSequence e = Some seq \<and> ee_sequence e \<in> set changedResults) es"

definition is_call :: "evidence_event \<Rightarrow> bool" where
  "is_call e \<longleftrightarrow> ee_phase e = ToolCall \<and> isReviewableToolObservation e"

definition last_option :: "'a list \<Rightarrow> 'a option" where
  "last_option xs = (if xs = [] then None else Some (last xs))"

definition last_review :: "review_window \<Rightarrow> nat option" where
  "last_review w = map_option fb_sequence (last_option (reviewHistory w))"

definition hasNewQualifyingToolCall :: "review_window option \<Rightarrow> bool" where
  "hasNewQualifyingToolCall win =
     (case win of
        None \<Rightarrow> True
      | Some w \<Rightarrow>
          (let current = filter (\<lambda>x. ex_causedBySequence x = last_review w) (exchanges w);
               earlier = map ex_sequence (filter (\<lambda>x. ex_causedBySequence x \<noteq> last_review w) (exchanges w)) in
           list_ex (\<lambda>x. list_ex is_call (evidenceEvents x)) current
           \<or> list_ex (\<lambda>e. is_call e \<and> (case ee_exchangeSequence e of None \<Rightarrow> False | Some n \<Rightarrow> n \<notin> set earlier))
                (ev_events (evidence w))))"

subsection \<open>The changes of a review\<close>

definition mergeChanges :: "(string \<Rightarrow> int) \<Rightarrow> changed_file list \<Rightarrow> changed_file list \<Rightarrow> changed_file list" where
  "mergeChanges rank ws es =
     sort_key (rank \<circ> path)
       (fold (\<lambda>c cs. if path c \<in> path ` set cs then cs else cs @ [c]) es
         (fold (\<lambda>c cs. if path c \<in> path ` set cs then map (\<lambda>d. if path d = path c then c else d) cs else cs @ [c]) ws []))"

definition side_effects :: "changed_file list \<Rightarrow> changed_file list \<Rightarrow> changed_file list" where
  "side_effects ws es = filter (\<lambda>c. path c \<notin> path ` set ws) es"

datatype evidence_method = SnapshotEvidence | ToolOnlyEvidence | ToolOnlyFallback

record settled =
  evidenceMethod :: evidence_method
  s_workspaceChanges :: "changed_file list"
  s_exchangeWorkspaceChanges :: "changed_file list"
  s_windowPatch :: "patch_result option"
  s_exchangePatch :: "string option"
  primaryToolChangeGate :: bool

record review_input =
  now :: string
  settledBaseline :: settled
  collect :: "nat option \<Rightarrow> changed_file list"
  rank :: "string \<Rightarrow> int"
  toolEvidence :: "evidence_state option"
  requiresReview :: bool
  exactChange :: "(string list \<times> patch_result) option"
  correctionAttemptCount :: nat
  requireNewToolActivity :: bool
  in_capturedPassActivity :: bool
  outsideRoot :: "string \<Rightarrow> bool"
  changedResults :: "nat list"
  maxPatchBytes :: nat
  in_bundleDir :: string
  resolvedReviewers :: "decider list"
  unknownIds :: "string list"
  unresolvedSelections :: "string list"
  reviewerEvents :: "decider \<Rightarrow> reviewer_event"
  in_move :: "string \<Rightarrow> string \<Rightarrow> string"
  in_signal :: bool
  in_signal_after :: bool
  in_publication :: "thrown option"
  in_telemetry :: "string list"
  retainBundles :: retain_bundles

abbreviation evidence_kind :: "review_input \<Rightarrow> evidence_method" where
  "evidence_kind input \<equiv> evidenceMethod (settledBaseline input)"

definition evidence_changes :: "review_input \<Rightarrow> changed_file list" where
  "evidence_changes input =
     (if evidence_kind input \<noteq> SnapshotEvidence \<or> toolEvidence input \<noteq> None then collect input None else [])"

definition exchange_evidence_changes :: "review_input \<Rightarrow> nat option \<Rightarrow> changed_file list" where
  "exchange_evidence_changes input seq =
     (if evidence_kind input \<noteq> SnapshotEvidence then collect input seq
      else if toolEvidence input \<noteq> None \<and> seq \<noteq> None then collect input seq
      else evidence_changes input)"

definition hasExactChanges :: "review_input \<Rightarrow> bool" where
  "hasExactChanges input \<longleftrightarrow>
     evidence_kind input = SnapshotEvidence \<and> (case exactChange input of None \<Rightarrow> False | Some (ps, _) \<Rightarrow> ps \<noteq> [])"

definition patch_text :: "review_input \<Rightarrow> changed_file list \<Rightarrow> string" where
  "patch_text input cs = (if cs \<noteq> [] then patch (buildUnifiedPatch cs (maxPatchBytes input)) else [])"

text \<open>The exchange the window was in is completed with what it changed.\<close>

definition active_sequence :: "review_window option \<Rightarrow> nat option" where
  "active_sequence win = map_option ae_sequence (Option.bind win activeExchange)"

definition exchange_side_effects :: "review_input \<Rightarrow> review_window option \<Rightarrow> changed_file list" where
  "exchange_side_effects input win =
     side_effects (s_exchangeWorkspaceChanges (settledBaseline input))
       (exchange_evidence_changes input (active_sequence win))"

definition exchange_input_of :: "review_input \<Rightarrow> review_window option \<Rightarrow> exchange_input" where
  "exchange_input_of input win =
     (let ws = s_exchangeWorkspaceChanges (settledBaseline input) in
      \<lparr>in_workspaceChanges = ws, in_sideEffectChanges = exchange_side_effects input win,
       in_workspacePatch = (if ws \<noteq> [] then or_else (s_exchangePatch (settledBaseline input)) (patch_text input ws) else []),
       in_sideEffectPatch = patch_text input (exchange_side_effects input win)\<rparr>)"

definition complete_exchange ::
  "review_input \<Rightarrow> review_window option \<Rightarrow> exchange_context option \<times> review_window option" where
  "complete_exchange input win =
     (case win of
        None \<Rightarrow> (None, None)
      | Some w \<Rightarrow>
          (let (x, w') = completeActiveExchange (now input) (exchange_input_of input win) w in (x, Some w')))"

subsection \<open>Is there anything to review?\<close>

datatype no_review = NoInitialChanges | UnchangedReviewResponse | UnchangedDeferredResponse
  | NoNewToolActivity | NoNewReviewableActivity

definition observed_events :: "review_input \<Rightarrow> exchange_context option \<Rightarrow> evidence_event list" where
  "observed_events input completed =
     (case completed of
        Some x \<Rightarrow> evidenceEvents x
      | None \<Rightarrow> (case toolEvidence input of Some ev \<Rightarrow> ev_events ev | None \<Rightarrow> []))"

definition observed_tool_work :: "review_input \<Rightarrow> exchange_context option \<Rightarrow> bool" where
  "observed_tool_work input completed \<longleftrightarrow>
     evidence_kind input \<noteq> SnapshotEvidence \<and>
     (if primaryToolChangeGate (settledBaseline input)
      then list_ex isReviewableToolObservation (observed_events input completed)
      else observed_events input completed \<noteq> [])"

definition evidence_requires_review :: "review_input \<Rightarrow> bool" where
  "evidence_requires_review input \<longleftrightarrow> toolEvidence input \<noteq> None \<and> requiresReview input"

definition retained_observation :: "review_input \<Rightarrow> exchange_context option \<Rightarrow> bool" where
  "retained_observation input completed \<longleftrightarrow>
     evidence_requires_review input \<and>
     (evidence_kind input = SnapshotEvidence \<or> observed_events input completed \<noteq> [])"

definition exchange_reviewable :: "review_input \<Rightarrow> review_window option \<Rightarrow> exchange_context option \<Rightarrow> bool" where
  "exchange_reviewable input win completed \<longleftrightarrow>
     s_exchangeWorkspaceChanges (settledBaseline input) \<noteq> []
     \<or> exchange_side_effects input win \<noteq> []
     \<or> hasExactChanges input
     \<or> retained_observation input completed
     \<or> observed_tool_work input completed"

text \<open>The exchange that answers a passing review without a new request of the user.\<close>

definition response_exchange :: "exchange_context option \<Rightarrow> review_window option \<Rightarrow> exchange_context option" where
  "response_exchange completed win =
     (case completed of Some x \<Rightarrow> Some x | None \<Rightarrow> Option.bind win (\<lambda>w. last_option (exchanges w)))"

definition pass_response :: "exchange_context option \<Rightarrow> review_window option \<Rightarrow> bool" where
  "pass_response completed win =
     (case (Option.bind win (\<lambda>w. last_option (reviewHistory w)), response_exchange completed win) of
        (Some f, Some x) \<Rightarrow>
          fb_verdict f = Pass \<and> ex_causedBySequence x = Some (fb_sequence f) \<and> ex_causedByVerdict x = Some Pass
          \<and> ex_responseMode x = Some Observation \<and> userRequests x = []
      | _ \<Rightarrow> False)"

definition captured_pass_activity :: "review_input \<Rightarrow> exchange_context option \<Rightarrow> review_window option \<Rightarrow> bool" where
  "captured_pass_activity input completed win \<longleftrightarrow>
     in_capturedPassActivity input
     \<or> requireNewToolActivity input \<and> pass_response completed win
        \<and> (case response_exchange completed win of
             None \<Rightarrow> False
           | Some x \<Rightarrow> hasCapturedPrimaryActivity (outsideRoot input)
                         (if toolEvidence input = None then [] else changedResults input) (evidenceEvents x) (ex_sequence x))"

definition response_mode_of :: "review_window option \<Rightarrow> response_mode option" where
  "response_mode_of win = Option.bind (Option.bind win activeExchange) ae_responseMode"

definition correction_validation :: "review_input \<Rightarrow> review_window option \<Rightarrow> bool" where
  "correction_validation input win \<longleftrightarrow> hasUnresolvedReview win \<or> correctionAttemptCount input > 0"

text \<open>\<open>win\<close> is the window before its exchange is completed, \<open>win'\<close> the one after.\<close>

definition review_changes :: "review_input \<Rightarrow> changed_file list" where
  "review_changes input = mergeChanges (rank input) (s_workspaceChanges (settledBaseline input)) (evidence_changes input)"

definition review_side_effects :: "review_input \<Rightarrow> changed_file list" where
  "review_side_effects input = side_effects (s_workspaceChanges (settledBaseline input)) (evidence_changes input)"

definition any_reviewable_event :: "review_input \<Rightarrow> bool" where
  "any_reviewable_event input =
     (case toolEvidence input of None \<Rightarrow> False | Some ev \<Rightarrow> list_ex isReviewableToolObservation (ev_events ev))"

definition review_needed ::
  "review_input \<Rightarrow> review_window option \<Rightarrow> exchange_context option \<Rightarrow> review_window option \<Rightarrow> no_review option" where
  "review_needed input win completed win' =
     (let captured = captured_pass_activity input completed win';
          correcting = correction_validation input win';
          changes = review_changes input in
      if requireNewToolActivity input \<and> pass_response completed win' \<and> \<not> captured
      then Some NoNewReviewableActivity
      else if (response_mode_of win = Some Observation \<or> response_mode_of win = Some Deferred)
              \<and> \<not> exchange_reviewable input win completed \<and> \<not> captured
      then Some (if response_mode_of win = Some Deferred then UnchangedDeferredResponse else UnchangedReviewResponse)
      else if evidence_kind input = SnapshotEvidence \<and> changes = [] \<and> \<not> correcting \<and> \<not> hasExactChanges input
              \<and> \<not> captured \<and> \<not> evidence_requires_review input
      then Some NoInitialChanges
      else if primaryToolChangeGate (settledBaseline input) \<and> changes = [] \<and> review_side_effects input = []
              \<and> \<not> correcting \<and> \<not> captured \<and> \<not> evidence_requires_review input \<and> \<not> any_reviewable_event input
      then Some NoInitialChanges
      else if requireNewToolActivity input \<and> \<not> captured \<and> \<not> hasNewQualifyingToolCall win'
      then Some NoNewToolActivity
      else None)"

subsection \<open>The review\<close>

definition submitted_patch :: "review_input \<Rightarrow> review_window option \<Rightarrow> patch_result" where
  "submitted_patch input win' =
     (let ws = s_workspaceChanges (settledBaseline input) in
      case (if evidence_kind input = SnapshotEvidence then exactChange input else None) of
        Some (_, p) \<Rightarrow> p
      | None \<Rightarrow>
          (if ws \<noteq> [] then or_else (s_windowPatch (settledBaseline input)) (buildUnifiedPatch ws (maxPatchBytes input))
           else \<lparr>patch = (if correction_validation input win'
                  then ''(no net submitted workspace changes; validate the current workspace against the prior review feedback)''
                  else ''(no submitted workspace changes detected; review captured side effects below)''),
                truncated = False, omitted = []\<rparr>))"

definition registerBundleWithWindow :: "review_window option \<Rightarrow> string \<Rightarrow> review_window option" where
  "registerBundleWithWindow win dir =
     map_option (\<lambda>w. w\<lparr>bundleDir := Some dir, nextReviewSequence := nextReviewSequence w + 1\<rparr>) win"

datatype review_outcome =
    NotReviewed no_review
  | ReviewError input_error
  | ReviewAborted review_result
  | Reviewed review_result "review_result list" nat bool

definition invocation_input_of :: "review_input \<Rightarrow> decider list \<Rightarrow> review_result list \<Rightarrow> invocation_input" where
  "invocation_input_of input ds us =
     \<lparr>deciders = map (\<lambda>d. (d, reviewerEvents input d)) ds, unavailable = us, move_output = in_move input,
      signal_aborted = in_signal_after input, publication = in_publication input,
      telemetryFailures = in_telemetry input, retain = retainBundles input\<rparr>"

definition runReviewSettled ::
  "review_input \<Rightarrow> review_window option \<Rightarrow> review_outcome option \<times> review_window option" where
  "runReviewSettled input win =
     (let (completed, win') = complete_exchange input win in
      case review_needed input win completed win' of
        Some reason \<Rightarrow> (Some (NotReviewed reason), win')
      | None \<Rightarrow>
          (let (ds, us) = resolveExecutableReviewers (resolvedReviewers input) (unknownIds input) (unresolvedSelections input) in
           if ds = [] \<and> us = [] then (Some (ReviewError NoReviewers), win')
           else
             let seq = (case win' of Some w \<Rightarrow> nextReviewSequence w | None \<Rightarrow> 1);
                 win2 = registerBundleWithWindow win' (in_bundleDir input) in
             case executeReviewerInvocation (invocation_input_of input ds us) of
               None \<Rightarrow> (None, win2)
             | Some i \<Rightarrow>
                 (Some (case i of
                          InvocationAborted r \<Rightarrow> ReviewAborted r
                        | InvocationDecided r rs kept \<Rightarrow> Reviewed r rs seq kept),
                  map_option (keep_retention i) win2)))"

definition runReview ::
  "json option \<Rightarrow> json option \<Rightarrow> review_input \<Rightarrow> review_window option \<Rightarrow> review_outcome option \<times> review_window option" where
  "runReview identity exact input win =
     (case validateReviewInput (maxPatchBytes input) identity exact of
        Inl e \<Rightarrow> (Some (ReviewError e), win)
      | Inr x \<Rightarrow>
          (if in_signal input then (Some (ReviewAborted (abortedResult [])), win)
           else runReviewSettled (input\<lparr>exactChange := x\<rparr>) win))"

subsection \<open>Questions to the reviewers and paused exchanges\<close>

datatype ask_outcome =
    AskError input_error
  | AskAborted review_result
  | Answered review_result "review_result list" bool

definition runAskReviewer ::
  "json option \<Rightarrow> review_input \<Rightarrow> review_window option \<Rightarrow> ask_outcome option \<times> review_window option" where
  "runAskReviewer identity input win =
     (case Option.bind identity validateChangeIdentity of
        Some e \<Rightarrow> (Some (AskError (InvalidIdentity e)), win)
      | None \<Rightarrow>
          (if in_signal input then (Some (AskAborted (abortedResult [])), win)
           else
             let (ds, us) = resolveExecutableReviewers (resolvedReviewers input) (unknownIds input) (unresolvedSelections input) in
             if ds = [] \<and> us = [] then (Some (AskError NoReviewers), win)
             else
               let win2 = registerBundleWithWindow win (in_bundleDir input) in
               case executeReviewerInvocation (invocation_input_of input ds us) of
                 None \<Rightarrow> (None, win2)
               | Some i \<Rightarrow>
                   (Some (case i of
                            InvocationAborted r \<Rightarrow> AskAborted r
                          | InvocationDecided r rs kept \<Rightarrow> Answered r rs kept),
                    map_option (keep_retention i) win2)))"

text \<open>
  A paused exchange is completed without a review.  \<open>typed\<close> says that it settles against a frozen
  checkpoint or tool evidence; then the patch of its changes is the settled one.
\<close>

definition collectPausedReviewExchange :: "bool \<Rightarrow> review_input \<Rightarrow> review_window \<Rightarrow> review_window" where
  "collectPausedReviewExchange typed input w =
     (case activeExchange w of
        None \<Rightarrow> w
      | Some active \<Rightarrow>
          (let ws = s_workspaceChanges (settledBaseline input);
               es = (if typed \<and> evidence_kind input \<noteq> SnapshotEvidence \<or> toolEvidence input \<noteq> None
                     then collect input (Some (ae_sequence active)) else []) in
           snd (completeActiveExchange (now input)
             \<lparr>in_workspaceChanges = ws, in_sideEffectChanges = side_effects ws es,
              in_workspacePatch =
                (if typed then (case s_windowPatch (settledBaseline input) of Some p \<Rightarrow> patch p | None \<Rightarrow> [])
                 else patch_text input ws),
              in_sideEffectPatch = patch_text input (side_effects ws es)\<rparr> w)))"

end
