(* ===== verification/Review_Verdict_Spec.thy ===== *)
theory Review_Verdict_Spec
  imports Reviewer_Adapters
begin

text \<open>
  What a parsed reply shows: a passing result comes from a piece of the reply that is valid JSON as it
  stands, and every result is well formed.  The interface \<open>reviewer_adapter\<close> states what the gate
  relies on in an adapter; all four adapters are instances of it.
\<close>

subsection \<open>Candidates are pieces of the reply\<close>

definition piece :: "string \<Rightarrow> string \<Rightarrow> bool" where
  "piece text raw \<longleftrightarrow> (\<exists>pre post. raw = pre @ text @ post)"

lemma piece_refl [intro, simp]: "piece s s"
  unfolding piece_def by (rule exI [of _ "[]"], rule exI [of _ "[]"]) simp

lemma piece_trans: "piece a b \<Longrightarrow> piece b c \<Longrightarrow> piece a c"
  unfolding piece_def by (metis append.assoc)

lemma piece_drop: "piece (drop n s) s"
  unfolding piece_def by (metis append_take_drop_id append_Nil2)

lemma piece_take: "piece (take n s) s"
  unfolding piece_def by (metis append_take_drop_id append_Nil)

lemma piece_slice: "piece (slice s i j) s"
  unfolding slice_def by (metis piece_drop piece_take piece_trans)

lemma piece_trim_start: "piece (trim_start s) s"
  unfolding trim_start_def dropWhile_eq_drop by (rule piece_drop)

lemma piece_trim_end: "piece (trim_end s) s"
proof -
  have "rev s = takeWhile js_space (rev s) @ dropWhile js_space (rev s)" by simp
  then have "s = rev (dropWhile js_space (rev s)) @ rev (takeWhile js_space (rev s))"
    by (metis rev_append rev_rev_ident)
  then show ?thesis unfolding piece_def trim_end_def by (metis append_Nil)
qed

lemma piece_trim: "piece (trim s) s"
  unfolding trim_def by (metis piece_trim_start piece_trim_end piece_trans)

definition pieces :: "string list \<Rightarrow> string \<Rightarrow> bool" where
  "pieces ts raw \<longleftrightarrow> (\<forall>t \<in> set ts. piece t raw)"

lemma scan_pieces:
  "pieces (objects st) text \<Longrightarrow> pieces (objects (scan_char text i st)) text"
  by (auto simp: scan_char_def Let_def pieces_def piece_slice split: option.splits)

lemma fold_scan_pieces:
  "pieces (objects st) text \<Longrightarrow> pieces (objects (fold (scan_char text) is st)) text"
  by (induction "is" arbitrary: st) (simp_all add: scan_pieces)

lemma extractBalancedJsonObjects_pieces: "pieces (extractBalancedJsonObjects text) text"
  unfolding extractBalancedJsonObjects_def by (rule fold_scan_pieces) (simp add: pieces_def)

lemma pieces_trans: "pieces ts a \<Longrightarrow> piece a b \<Longrightarrow> pieces ts b"
  unfolding pieces_def by (metis piece_trans)

lemma fences_pieces: "pieces (fences s) s"
proof (induction s rule: fences.induct)
  case (2 c s)
  show ?case
  proof (cases "fence_at (c # s)")
    case None
    have "piece s (c # s)" using piece_drop [of 1 "c # s"] by simp
    with 2(1) [OF None] None show ?thesis by (simp add: pieces_trans)
  next
    case (Some br)
    obtain body rest where br: "br = (body, rest)" by (cases br)
    obtain p q where e: "c # s = p @ body @ q @ rest" using fence_at_suffix Some br by blast
    have b: "piece body (c # s)" unfolding piece_def e by blast
    have "piece rest (c # s)" unfolding piece_def e by (metis append.assoc append_Nil2)
    with 2(2) [OF Some br [symmetric]] Some br b show ?thesis by (simp add: pieces_def) (metis piece_trans)
  qed
qed (simp add: pieces_def)

definition honest :: "string \<Rightarrow> json_candidate list \<Rightarrow> bool" where
  "honest raw cs \<longleftrightarrow> (\<forall>c \<in> set cs. \<not> repaired c \<longrightarrow> piece (c_value c) raw)"

lemma honest_add: "honest raw cs \<Longrightarrow> piece t raw \<Longrightarrow> honest raw (add_candidate repair isWhole t cs)"
  using piece_trans [OF piece_trim, of t raw]
  by (auto simp: honest_def add_candidate_def Let_def)

lemma honest_fold: "honest raw cs \<Longrightarrow> pieces ts raw \<Longrightarrow> honest raw (fold (add_candidate repair isWhole) ts cs)"
  by (induction ts arbitrary: cs) (auto simp: pieces_def honest_add)

lemma honest_fence: "honest raw cs \<Longrightarrow> piece t raw \<Longrightarrow> honest raw (add_fence repair t cs)"
  unfolding add_fence_def
  by (intro honest_fold honest_add pieces_trans [OF extractBalancedJsonObjects_pieces])

lemma honest_fences: "honest raw cs \<Longrightarrow> pieces ts raw \<Longrightarrow> honest raw (fold (add_fence repair) ts cs)"
  by (induction ts arbitrary: cs) (auto simp: pieces_def honest_fence)

lemma extractJsonCandidates_honest: "honest raw (extractJsonCandidates repair raw)"
proof -
  have e: "honest raw []" by (simp add: honest_def)
  have "honest raw (if trim raw \<noteq> [] then add_candidate repair True (trim raw) [] else [])"
    using honest_add [OF e piece_trim] e by simp
  from honest_fold [OF honest_fences [OF this fences_pieces] extractBalancedJsonObjects_pieces]
  show ?thesis by (simp add: extractJsonCandidates_def Let_def)
qed

subsection \<open>The shape of a result\<close>

lemma parse_finding_message: "parse_finding j = Inl m \<Longrightarrow> m \<noteq> []"
  by (auto simp: parse_finding_def split: json.splits if_splits option.splits prod.splits)

lemma parse_findings_message: "parse_findings items = Inl m \<Longrightarrow> m \<noteq> []"
  by (induction items) (auto dest: parse_finding_message split: sum.splits)

lemma normalizeReviewResult_cases:
  obtains (bad) m where "m \<noteq> []" "normalizeReviewResult rid j path = schemaError rid m path"
  | (good) kvs v body guide items fs err where
      "j = JObj kvs" "verdict_of (map_of kvs ''verdict'') = Some v"
      "json_string (map_of kvs ''summary'') = Some body" "trim body \<noteq> []"
      "map_of kvs ''findings'' = Some (JArr items)" "parse_findings items = Inr fs"
      "(v = VerdictError) = (err \<noteq> [])"
      "normalizeReviewResult rid j path = (plain_result rid v (trim body) path (nonempty err))
         \<lparr>r_guidance := nonempty guide, r_findings := fs\<rparr>"
proof (cases "\<exists>m. m \<noteq> [] \<and> normalizeReviewResult rid j path = schemaError rid m path")
  case True
  with bad show thesis by blast
next
  case False
  then obtain kvs where j: "j = JObj kvs" by (cases j) (auto simp: normalizeReviewResult_def Let_def)
  obtain v where v: "verdict_of (map_of kvs ''verdict'') = Some v"
    using False by (auto simp: normalizeReviewResult_def Let_def j split: if_splits option.splits)
  define body where "body = (case json_string (map_of kvs ''summary'') of Some s \<Rightarrow> trim s | None \<Rightarrow> [])"
  have t: "body \<noteq> []"
    using False unfolding normalizeReviewResult_def Let_def j
    by (auto simp: v body_def [symmetric] split: if_splits)
  then obtain s where s: "json_string (map_of kvs ''summary'') = Some s" "body = trim s"
    unfolding body_def by (cases "json_string (map_of kvs ''summary'')") auto
  obtain guide where g: "optional_string (map_of kvs ''guidance'') = Some guide"
    using False t unfolding normalizeReviewResult_def Let_def j
    by (auto simp: v body_def [symmetric] split: if_splits option.splits)
  obtain items where i: "map_of kvs ''findings'' = Some (JArr items)"
    using False t g unfolding normalizeReviewResult_def Let_def j
    by (cases "map_of kvs ''findings''"; cases "the (map_of kvs ''findings'')")
       (auto simp: v body_def [symmetric] split: if_splits)
  obtain fs where f: "parse_findings items = Inr fs"
    using False t g i unfolding normalizeReviewResult_def Let_def j
    by (cases "parse_findings items") (auto simp: v body_def [symmetric] dest: parse_findings_message split: if_splits)
  obtain err where e: "optional_string (map_of kvs ''error'') = Some err"
    using False t g i f unfolding normalizeReviewResult_def Let_def j
    by (cases "optional_string (map_of kvs ''error'')") (auto simp: v body_def [symmetric] split: if_splits)
  have "(v = VerdictError) = (err \<noteq> []) \<and> normalizeReviewResult rid j path =
     (plain_result rid v body path (nonempty err))\<lparr>r_guidance := nonempty guide, r_findings := fs\<rparr>"
    using False t g i f e unfolding normalizeReviewResult_def Let_def j
    by (auto simp: v body_def [symmetric] split: if_splits)
  with good j v s t i f show thesis by blast
qed

lemma parse_findings_set:
  "parse_findings items = Inr fs \<Longrightarrow> f \<in> set fs \<Longrightarrow> \<exists>j \<in> set items. parse_finding j = Inr f"
  by (induction items arbitrary: fs) (auto split: sum.splits)

lemma parse_findings_all:
  "parse_findings items = Inr fs \<Longrightarrow> j \<in> set items \<Longrightarrow> \<exists>f \<in> set fs. parse_finding j = Inr f"
  by (induction items arbitrary: fs) (auto split: sum.splits)

lemma integral_floor_pos:
  assumes "snd (quotient_of r) = 1" "(r :: rat) > 0"
  shows "0 < nat \<lfloor>r\<rfloor>"
proof -
  have "r = of_int (fst (quotient_of r))"
    using quotient_of_div [of r "fst (quotient_of r)" "snd (quotient_of r)"] assms(1)
    by (metis div_by_1 of_int_1 prod.collapse)
  then obtain n where n: "r = of_int n" by blast
  with assms(2) have "0 < n" by simp
  with n show ?thesis by simp
qed

lemma line_of_positive: "line_of j = Some ln \<Longrightarrow> ln \<noteq> Some 0"
  using integral_floor_pos by (fastforce simp: line_of_def split: option.splits json.splits if_splits)

lemma parse_finding_good:
  assumes "parse_finding j = Inr f"
  shows "severity_of (field j ''severity'') = Some (f_severity f)" "f_file f \<noteq> []" "f_line f \<noteq> Some 0"
    "trim (f_issue f) = f_issue f" "f_reviewerId f = None"
proof -
  obtain kvs where j: "j = JObj kvs" using assms by (cases j) (auto simp: parse_finding_def)
  obtain sev issue rec ln where *: "severity_of (map_of kvs ''severity'') = Some sev"
    "line_of (map_of kvs ''line'') = Some ln"
    "f = \<lparr>f_reviewerId = None, f_severity = sev, f_file = normalizeFindingFile (map_of kvs ''file''),
          f_line = ln, f_issue = trim issue, f_recommendation = trim rec\<rparr>"
    using assms by (auto simp: parse_finding_def j split: if_splits option.splits prod.splits)
  show "f_line f \<noteq> Some 0" using *(2) line_of_positive [of "map_of kvs ''line''" ln] *(3) by auto
  show "severity_of (field j ''severity'') = Some (f_severity f)" using * j by simp
  show "f_file f \<noteq> []" using * by (auto simp: normalizeFindingFile_def split: option.splits)
  show "trim (f_issue f) = f_issue f" "f_reviewerId f = None" using * by auto
qed

definition well_formed_result :: "string \<Rightarrow> string option \<Rightarrow> review_result \<Rightarrow> bool" where
  "well_formed_result rid path r \<longleftrightarrow>
     reviewerId r = rid \<and> rawOutputPath r = path \<and> r_summary r \<noteq> []
     \<and> (r_verdict r = VerdictError) = (r_error r \<noteq> None) \<and> r_error r \<noteq> Some [] \<and> r_guidance r \<noteq> Some []
     \<and> (r_verdict r = Pass \<longrightarrow> (\<forall>f \<in> set (r_findings r). f_severity f = NonBlocking))
     \<and> (\<forall>f \<in> set (r_findings r). f_file f \<noteq> [] \<and> f_line f \<noteq> Some 0 \<and> f_reviewerId f = None)
     \<and> processSettlement r = None \<and> r_diagnostic r = None \<and> displayLabel r = None"

lemma well_formed_error: "m \<noteq> [] \<Longrightarrow> e \<noteq> [] \<Longrightarrow> well_formed_result rid path (plain_result rid VerdictError m path (Some e))"
  by (simp add: well_formed_result_def plain_result_def)

definition blocked :: "review_result \<Rightarrow> bool" where
  "blocked v \<longleftrightarrow> r_verdict v \<noteq> VerdictError \<and> list_ex (\<lambda>f. f_severity f = Blocking) (r_findings v)"

text \<open>The verdict a valid reply leads to.\<close>

definition settled_verdict :: "review_result \<Rightarrow> review_result" where
  "settled_verdict v = (if blocked v then v\<lparr>r_verdict := NeedsChanges\<rparr> else v)"

lemma severity_cases: "f_severity f \<noteq> Blocking \<longleftrightarrow> f_severity f = NonBlocking"
  by (cases "f_severity f") auto

lemma normalized_well_formed:
  assumes "r_error (normalizeReviewResult rid j path) \<noteq> Some ''schema_error''"
  shows "well_formed_result rid path (settled_verdict (normalizeReviewResult rid j path))"
proof (cases rule: normalizeReviewResult_cases [of rid j path])
  case (bad m)
  with assms show ?thesis by (simp add: schemaError_def plain_result_def)
next
  case (good kvs v body guide items fs err)
  have fs: "f_file f \<noteq> [] \<and> f_line f \<noteq> Some 0 \<and> f_reviewerId f = None" if "f \<in> set fs" for f
    using parse_findings_set [OF good(6) that] parse_finding_good by blast
  show ?thesis
    unfolding good(8) settled_verdict_def well_formed_result_def
    using fs good(4,7)
    by (cases v) (auto simp: plain_result_def nonempty_def blocked_def list_ex_iff severity_cases)
qed

lemma candidate_loop_Inl:
  "candidate_loop parse rid path cs st = Inl r \<Longrightarrow>
   \<exists>c \<in> set cs. \<exists>j. parse (c_value c) = Some j
     \<and> r_error (normalizeReviewResult rid j path) \<noteq> Some ''schema_error''
     \<and> \<not> (repaired c \<and> r_verdict (normalizeReviewResult rid j path) = Pass)
     \<and> r = settled_verdict (normalizeReviewResult rid j path)"
proof (induction parse rid path cs st rule: candidate_loop.induct)
  case (2 parse rid path c cs st)
  show ?case
  proof (cases "parse (c_value c)")
    case None
    with 2 show ?thesis by auto
  next
    case (Some j)
    define v where "v = normalizeReviewResult rid j path"
    consider (schema) "r_error v = Some ''schema_error''"
      | (skip) "r_error v \<noteq> Some ''schema_error''" "repaired c" "r_verdict v = Pass"
      | (taken) "r_error v \<noteq> Some ''schema_error''" "\<not> (repaired c \<and> r_verdict v = Pass)" by blast
    then show ?thesis
    proof cases
      case schema
      with 2(2) [OF Some v_def] 2(4) Some show ?thesis by (auto simp: Let_def v_def [symmetric])
    next
      case skip
      with 2(3) [OF Some v_def] 2(4) Some show ?thesis by (auto simp: Let_def v_def [symmetric])
    next
      case taken
      with 2(4) Some have "r = settled_verdict v"
        by (auto simp: Let_def v_def [symmetric] settled_verdict_def blocked_def split: if_splits)
      with taken Some show ?thesis unfolding v_def by auto
    qed
  qed
qed simp

definition schema_results :: "string \<Rightarrow> string option \<Rightarrow> parse_state \<Rightarrow> bool" where
  "schema_results rid path st \<longleftrightarrow>
     (case firstSchemaError st of None \<Rightarrow> True | Some e \<Rightarrow> well_formed_result rid path e \<and> r_verdict e = VerdictError)"

lemma normalized_schema_error:
  assumes "r_error (normalizeReviewResult rid j path) = Some ''schema_error''"
  shows "well_formed_result rid path (normalizeReviewResult rid j path)
         \<and> r_verdict (normalizeReviewResult rid j path) = VerdictError"
proof (cases rule: normalizeReviewResult_cases [of rid j path])
  case (bad m)
  then show ?thesis by (simp add: schemaError_def well_formed_error) (simp add: plain_result_def)
next
  case (good kvs v body guide items fs err)
  have v: "v = VerdictError" using assms good(7,8) by (auto simp: plain_result_def nonempty_def split: if_splits)
  have fs: "f_file f \<noteq> [] \<and> f_line f \<noteq> Some 0 \<and> f_reviewerId f = None" if "f \<in> set fs" for f
    using parse_findings_set [OF good(6) that] parse_finding_good by blast
  show ?thesis
    unfolding good(8) well_formed_result_def
    using fs good(4,7) v by (auto simp: plain_result_def nonempty_def)
qed

lemma candidate_loop_Inr:
  "candidate_loop parse rid path cs st = Inr st' \<Longrightarrow> schema_results rid path st \<Longrightarrow> schema_results rid path st'"
proof (induction parse rid path cs st rule: candidate_loop.induct)
  case (2 parse rid path c cs st)
  show ?case
  proof (cases "parse (c_value c)")
    case None
    with 2 show ?thesis by (auto simp: schema_results_def)
  next
    case (Some j)
    define v where "v = normalizeReviewResult rid j path"
    show ?thesis
    proof (cases "r_error v = Some ''schema_error''")
      case True
      have "schema_results rid path (st\<lparr>firstSchemaError := (case firstSchemaError st of None \<Rightarrow> Some v | e \<Rightarrow> e)\<rparr>)"
        using 2(5) normalized_schema_error [of rid j path] True
        by (auto simp: schema_results_def v_def split: option.splits)
      with 2(2) [OF Some v_def True] 2(4) Some True show ?thesis by (simp add: Let_def v_def [symmetric])
    next
      case False
      with 2(3) [OF Some v_def False] 2(4,5) Some show ?thesis
        by (auto simp: Let_def v_def [symmetric] split: if_splits)
    qed
  qed
qed simp

lemma parseReviewResult_cases:
  obtains (answer) c j where "c \<in> set (extractJsonCandidates True raw)" "parse (c_value c) = Some j"
      "r_error (normalizeReviewResult rid j path) \<noteq> Some ''schema_error''"
      "\<not> (repaired c \<and> r_verdict (normalizeReviewResult rid j path) = Pass)"
      "parseReviewResult parse rid raw path = settled_verdict (normalizeReviewResult rid j path)"
  | (failure) "well_formed_result rid path (parseReviewResult parse rid raw path)"
      "r_verdict (parseReviewResult parse rid raw path) = VerdictError"
proof (cases "candidate_loop parse rid path (extractJsonCandidates True raw)
    \<lparr>firstParseError = False, firstReviewParseError = False, firstSchemaError = None\<rparr>")
  case (Inl r)
  from candidate_loop_Inl [OF Inl] answer Inl show thesis by (auto simp: parseReviewResult_def)
next
  case (Inr st)
  have "schema_results rid path st" using candidate_loop_Inr [OF Inr] by (simp add: schema_results_def)
  with Inr show thesis
    by (intro failure)
       (auto simp: parseReviewResult_def Let_def schema_results_def well_formed_error split: option.splits,
        auto simp: plain_result_def)
qed

lemma parseReviewResult_well_formed: "well_formed_result rid path (parseReviewResult parse rid raw path)"
  by (cases rule: parseReviewResult_cases [of raw parse rid path]) (simp_all add: normalized_well_formed)

lemma settled_pass: "r_verdict (settled_verdict v) = Pass \<Longrightarrow> r_verdict v = Pass \<and> \<not> blocked v"
  by (auto simp: settled_verdict_def split: if_splits)

lemma verdict_of_pass: "verdict_of j = Some Pass \<Longrightarrow> j = Some (JStr ''pass'')"
  by (auto simp: verdict_of_def json_string_def split: if_splits option.splits json.splits)

lemma severity_non_blocking: "severity_of j = Some NonBlocking \<Longrightarrow> j = Some (JStr ''non_blocking'')"
  by (auto simp: severity_of_def json_string_def split: if_splits option.splits json.splits)

text \<open>What makes a JSON value a pass.\<close>

definition passing_object :: "json \<Rightarrow> bool" where
  "passing_object j \<longleftrightarrow>
     (\<exists>kvs items. j = JObj kvs \<and> map_of kvs ''verdict'' = Some (JStr ''pass'')
       \<and> map_of kvs ''findings'' = Some (JArr items)
       \<and> (\<forall>item \<in> set items. field item ''severity'' = Some (JStr ''non_blocking'')))"

lemma normalized_pass:
  assumes "r_verdict (settled_verdict (normalizeReviewResult rid j path)) = Pass"
  shows "passing_object j"
proof (cases rule: normalizeReviewResult_cases [of rid j path])
  case (bad m)
  with settled_pass [OF assms] show ?thesis by (simp add: schemaError_def plain_result_def)
next
  case (good kvs v body guide items fs err)
  from settled_pass [OF assms] have v: "v = Pass" by (simp add: good(8) plain_result_def)
  from settled_pass [OF assms] have nb: "\<not> blocked (normalizeReviewResult rid j path)" by blast
  have "field item ''severity'' = Some (JStr ''non_blocking'')" if item: "item \<in> set items" for item
  proof -
    obtain f where f: "f \<in> set fs" "parse_finding item = Inr f" using parse_findings_all [OF good(6) item] by blast
    have "f_severity f = NonBlocking"
      using nb f(1) v unfolding good(8) by (simp add: blocked_def plain_result_def list_ex_iff severity_cases)
    with parse_finding_good(1) [OF f(2)] severity_non_blocking show ?thesis by simp
  qed
  with good(1,2,5) v verdict_of_pass show ?thesis unfolding passing_object_def by blast
qed

lemma parsed_pass:
  assumes "r_verdict (parseReviewResult parse rid raw path) = Pass"
  shows "\<exists>t j. piece t raw \<and> parse t = Some j \<and> passing_object j"
proof (cases rule: parseReviewResult_cases [of raw parse rid path])
  case (answer c j)
  from answer(5) assms have p: "r_verdict (settled_verdict (normalizeReviewResult rid j path)) = Pass" by simp
  with settled_pass answer(4) have "\<not> repaired c" by blast
  with extractJsonCandidates_honest [of raw True] answer(1) have "piece (c_value c) raw" by (simp add: honest_def)
  with answer(2) normalized_pass [OF p] show ?thesis by blast
next
  case failure
  with assms show ?thesis by simp
qed

text \<open>
  C28. A reviewer passes only on the strength of valid JSON it really wrote: if the parsed result is a
  pass, some contiguous piece of the reply, unrepaired, parses to an object whose verdict is "pass" and
  all of whose findings are non-blocking.  No parser is assumed correct for this.
\<close>
theorem pass_rests_on_valid_json:
  assumes "r_verdict (parseReviewResult parse rid raw path) = Pass"
  shows "\<exists>t j. piece t raw \<and> parse t = Some j \<and> passing_object j"
  using assms by (rule parsed_pass)

definition demo_json :: json where
  "demo_json = JObj [(''verdict'', JStr ''pass''), (''summary'', JStr ''ok''), (''findings'', JArr [])]"

definition demo_parse :: parser where
  "demo_parse s = (if s = ''{1}'' then Some demo_json else None)"

theorem pass_rests_on_valid_json_witness:
  "r_verdict (parseReviewResult demo_parse ''r'' ''So {1}'' None) = Pass
   \<and> (\<exists>t j. piece t ''So {1}'' \<and> demo_parse t = Some j \<and> passing_object j)"
proof -
  have *: "r_verdict (parseReviewResult demo_parse ''r'' ''So {1}'' None) = Pass" by code_simp
  from * pass_rests_on_valid_json [OF *] show ?thesis by blast
qed

text \<open>
  Whatever text a reviewer returns, and whatever the parser says of its parts, the result is well
  formed: it carries the reviewer's own identity, a summary, an error exactly with the error verdict, no
  blocking finding with a pass, findings with a file and a positive line, and none of the fields that
  only the host may set.
\<close>
theorem parsed_results_well_formed:
  "well_formed_result rid path (parseReviewResult parse rid raw path)"
  by (rule parseReviewResult_well_formed)

subsection \<open>Adapters\<close>

definition clean_exit :: "process_output \<Rightarrow> bool" where
  "clean_exit out \<longleftrightarrow> \<not> aborted out \<and> \<not> timedOut out \<and> \<not> present (stdinError out) \<and> code out = Some 0"

lemma processFailureResult_None: "processFailureResult rid path t out = None \<longleftrightarrow> clean_exit out"
  by (auto simp: processFailureResult_def clean_exit_def)

lemma processFailureResult_Some:
  "processFailureResult rid path t out = Some r \<Longrightarrow> r_verdict r = VerdictError \<and> reviewerId r = rid"
  by (auto simp: processFailureResult_def with_process_def reviewerErrorResult_def plain_result_def split: if_splits)

text \<open>The texts a process leaves that may hold the reply.\<close>

definition reply_of :: "reviewer_run \<Rightarrow> string \<Rightarrow> bool" where
  "reply_of x reply \<longleftrightarrow> reply = stdout (proc x) \<or> reply = x_text x \<or> reply = fst (finalFile x)"

text \<open>What a passing run of a reviewer rests on.\<close>

definition passing_run :: "parser \<Rightarrow> reviewer_run \<Rightarrow> bool" where
  "passing_run parse x \<longleftrightarrow>
     clean_exit (proc x)
     \<and> (\<exists>reply t j. reply_of x reply \<and> piece t reply \<and> parse t = Some j \<and> passing_object j)"

locale reviewer_adapter =
  fixes run :: "parser \<Rightarrow> string \<Rightarrow> string \<Rightarrow> nat \<Rightarrow> reviewer_run \<Rightarrow> review_result"
  assumes own_id: "reviewerId (run parse rid path t x) = rid"
    and decides_from_reply:
      "r_verdict (run parse rid path t x) \<noteq> VerdictError \<Longrightarrow>
       clean_exit (proc x) \<and> (\<exists>reply out diag. reply_of x reply \<and> run parse rid path t x =
          with_process out diag (parseReviewResult parse rid reply (Some path)))"
begin

lemma pass_needs_json:
  assumes "r_verdict (run parse rid path t x) = Pass"
  shows "passing_run parse x"
proof -
  obtain reply out diag where *: "clean_exit (proc x)" "reply_of x reply"
    "run parse rid path t x = with_process out diag (parseReviewResult parse rid reply (Some path))"
    using decides_from_reply [of parse rid path t x] assms by auto
  then have "r_verdict (parseReviewResult parse rid reply (Some path)) = Pass"
    using assms by (simp add: with_process_def)
  from parsed_pass [OF this] * show ?thesis unfolding passing_run_def by blast
qed

lemma pass_has_no_blocking:
  assumes "r_verdict (run parse rid path t x) = Pass" "f \<in> set (r_findings (run parse rid path t x))"
  shows "f_severity f = NonBlocking"
proof -
  obtain reply out diag where
    *: "run parse rid path t x = with_process out diag (parseReviewResult parse rid reply (Some path))"
    using decides_from_reply [of parse rid path t x] assms by auto
  with assms parseReviewResult_well_formed [of rid "Some path" parse reply] show ?thesis
    by (simp add: well_formed_result_def with_process_def)
qed

end

lemma parsed_reply_id [simp]: "reviewerId (parsed_reply parse rid path out reply) = rid"
  using parseReviewResult_well_formed [of rid "Some path" parse reply]
  by (simp add: parsed_reply_def with_process_def well_formed_result_def)

lemma clean_after_preflight: "clean_exit (after_preflight pre out) = clean_exit out"
  by (cases pre) (simp_all add: after_preflight_def clean_exit_def)

lemmas adapter_defs = with_process_def reviewerErrorResult_def plain_result_def sandbox_result_def pi_error_def

lemma clean_no_failure: "clean_exit out \<Longrightarrow> processFailureResult rid path t out = None"
  by (simp add: processFailureResult_None)

lemma no_failure_clean:
  "r_verdict (case processFailureResult rid path t out of Some f \<Rightarrow> g f | None \<Rightarrow> b) \<noteq> VerdictError \<Longrightarrow>
   (\<And>f. r_verdict f = VerdictError \<Longrightarrow> r_verdict (g f) = VerdictError) \<Longrightarrow> clean_exit out"
  by (cases "processFailureResult rid path t out") (auto simp: processFailureResult_None dest: processFailureResult_Some)

interpretation generic: reviewer_adapter generic_run
proof
  fix parse rid path t x
  show "reviewerId (generic_run parse rid path t x) = rid"
    by (auto simp: generic_run_def dest: processFailureResult_Some split: option.splits)
  assume "r_verdict (generic_run parse rid path t x) \<noteq> VerdictError"
  then have "clean_exit (proc x)" unfolding generic_run_def by (rule no_failure_clean)
  then show "clean_exit (proc x) \<and> (\<exists>reply out diag. reply_of x reply \<and> generic_run parse rid path t x =
      with_process out diag (parseReviewResult parse rid reply (Some path)))"
    by (auto simp: generic_run_def clean_no_failure parsed_reply_def reply_of_def)
qed

interpretation claude: reviewer_adapter claude_run
proof
  fix parse rid path t x
  show "reviewerId (claude_run parse rid path t x) = rid"
    by (auto simp: claude_run_def adapter_defs dest: processFailureResult_Some split: option.splits)
  assume d: "r_verdict (claude_run parse rid path t x) \<noteq> VerdictError"
  then have c: "clean_exit (proc x)" unfolding claude_run_def by (rule no_failure_clean) simp
  with d show "clean_exit (proc x) \<and> (\<exists>reply out diag. reply_of x reply \<and> claude_run parse rid path t x =
      with_process out diag (parseReviewResult parse rid reply (Some path)))"
    by (cases "present (x_error x)") (auto simp: claude_run_def clean_no_failure parsed_reply_def adapter_defs reply_of_def)
qed

interpretation pi: reviewer_adapter pi_run
proof
  fix parse rid path t x
  show "reviewerId (pi_run parse rid path t x) = rid"
    by (auto simp: pi_run_def Let_def adapter_defs dest: processFailureResult_Some split: option.splits)
  assume d: "r_verdict (pi_run parse rid path t x) \<noteq> VerdictError"
  then have c: "clean_exit (proc x)" unfolding pi_run_def Let_def by (rule no_failure_clean)
  with d have "pi_run parse rid path t x = parsed_reply parse rid path (proc x) (x_text x)"
    by (auto simp: pi_run_def Let_def clean_no_failure adapter_defs split: if_splits)
  with c show "clean_exit (proc x) \<and> (\<exists>reply out diag. reply_of x reply \<and> pi_run parse rid path t x =
      with_process out diag (parseReviewResult parse rid reply (Some path)))"
    by (auto simp: parsed_reply_def reply_of_def)
qed

lemma codex_main_id: "reviewerId (codex_main parse rid path t x) = rid"
  by (auto simp: codex_main_def Let_def adapter_defs dest: processFailureResult_Some split: option.splits)

lemma codex_main_decides:
  assumes d: "r_verdict (codex_main parse rid path t x) \<noteq> VerdictError"
  shows "clean_exit (proc x) \<and> (\<exists>reply out diag. reply_of x reply \<and> codex_main parse rid path t x =
      with_process out diag (parseReviewResult parse rid reply (Some path)))"
proof -
  define out where "out = after_preflight (preflight x) (proc x)"
  define final where "final = (if trim (fst (finalFile x)) \<noteq> [] then fst (finalFile x)
                               else if x_text x \<noteq> [] then x_text x else stdout out)"
  note d' = d [unfolded codex_main_def Let_def, folded out_def, folded final_def]
  have c: "clean_exit out" using d' by (rule no_failure_clean)
  have "codex_main parse rid path t x = parsed_reply parse rid path out final"
    using d' c unfolding codex_main_def Let_def out_def [symmetric] final_def [symmetric]
    by (auto simp: clean_no_failure adapter_defs split: if_splits)
  moreover have "reply_of x final"
    by (cases "preflight x") (auto simp: reply_of_def final_def out_def after_preflight_def)
  ultimately show ?thesis using c unfolding out_def by (auto simp: clean_after_preflight parsed_reply_def)
qed

interpretation codex: reviewer_adapter codex_run
proof
  fix parse rid path t x
  show "reviewerId (codex_run parse rid path t x) = rid"
    by (auto simp: codex_run_def codex_main_id adapter_defs split: option.splits)
  assume d: "r_verdict (codex_run parse rid path t x) \<noteq> VerdictError"
  then have "codex_run parse rid path t x = codex_main parse rid path t x"
    by (auto simp: codex_run_def adapter_defs split: option.splits if_splits)
  with d codex_main_decides [of parse rid path t x]
  show "clean_exit (proc x) \<and> (\<exists>reply out diag. reply_of x reply \<and> codex_run parse rid path t x =
      with_process out diag (parseReviewResult parse rid reply (Some path)))" by simp
qed

interpretation adapters: reviewer_adapter "adapter_run k" for k
  by (cases k) (simp_all add: adapter_run_def generic.reviewer_adapter_axioms codex.reviewer_adapter_axioms
      claude.reviewer_adapter_axioms pi.reviewer_adapter_axioms)

end
