(* ===== verification/Review_Gate_Spec.thy ===== *)
theory Review_Gate_Spec
  imports Review_Gate Review_Verdict_Spec
begin

text \<open>
  What the gate promises: the decision agrees with the reported disposition, a pass is earned by a
  reviewer that ran and passed, and an invocation always decides, with a number of its own.
\<close>

subsection \<open>Dispositions\<close>

lemma verdict_cases: "r_verdict r \<noteq> Pass \<Longrightarrow> r_verdict r \<noteq> NeedsChanges \<Longrightarrow> r_verdict r = VerdictError"
  by (cases "r_verdict r") auto

lemma has_verdict_filter: "has_verdict v rs \<longleftrightarrow> filter (\<lambda>r. r_verdict r = v) rs \<noteq> []"
  by (simp add: has_verdict_def list_ex_iff filter_empty_conv)

lemma some_verdict: "rs \<noteq> [] \<Longrightarrow> has_verdict Pass rs \<or> has_verdict NeedsChanges rs \<or> has_verdict VerdictError rs"
  by (cases rs) (auto simp: has_verdict_def dest: verdict_cases)

lemma aggregate_alt:
  "aggregateReviewDisposition rs =
     (if has_verdict NeedsChanges rs then ChangesNeeded
      else if has_verdict Pass rs then (if has_verdict VerdictError rs then PassedWithWarnings else AllPassed)
      else Failed)"
  by (simp add: aggregateReviewDisposition_def has_verdict_filter)

fun aggregate_verdict :: "review_aggregate \<Rightarrow> verdict" where
  "aggregate_verdict AllPassed = Pass"
| "aggregate_verdict PassedWithWarnings = Pass"
| "aggregate_verdict ChangesNeeded = NeedsChanges"
| "aggregate_verdict Failed = VerdictError"

lemma decide_single: "decideReviewResults [r] = Some r"
  by (simp add: decideReviewResults_def)

lemma decide_many:
  "length rs \<noteq> 1 \<Longrightarrow> decideReviewResults rs =
     (if has_verdict NeedsChanges rs
      then Some (gate_result NeedsChanges (reviewerVerdictSummary rs) (labelled_findings NeedsChanges rs)
             (if has_verdict VerdictError rs then Some ''partial_reviewer_error'' else None))
      else if has_verdict Pass rs
      then Some (gate_result Pass (reviewerVerdictSummary rs) (labelled_findings Pass rs)
             (if has_verdict VerdictError rs then Some ''partial_reviewer_error'' else None))
      else if has_verdict VerdictError rs
      then Some (gate_result VerdictError (reviewerVerdictSummary rs) []
             (Some (if list_all (\<lambda>r. r_error r = Some ''aborted'') (filter (\<lambda>r. r_verdict r = VerdictError) rs)
                    then ''aborted'' else ''reviewer_error'')))
      else None)"
  by (auto simp: decideReviewResults_def Let_def aggregate_alt has_verdict_filter split: list.splits)

lemma gate_result_fields [simp]:
  "r_verdict (gate_result v s fs e) = v" "r_error (gate_result v s fs e) = e" "r_findings (gate_result v s fs e) = fs"
  by (simp_all add: gate_result_def plain_result_def)

lemma single_list: "length rs = 1 \<Longrightarrow> \<exists>r. rs = [r]"
  by (cases rs) auto

lemma decide_verdict:
  "map_option r_verdict (decideReviewResults rs) =
     (if rs = [] then None else Some (aggregate_verdict (aggregateReviewDisposition rs)))"
proof (cases "length rs = 1")
  case True
  then obtain r where "rs = [r]" using single_list by blast
  then show ?thesis by (cases "r_verdict r") (auto simp: decide_single aggregate_alt has_verdict_def)
next
  case False
  then show ?thesis using some_verdict [of rs]
    by (auto simp: decide_many aggregate_alt) (auto simp: has_verdict_def)
qed

lemma labelled_findings_iff:
  "f \<in> set (labelled_findings v rs) \<longleftrightarrow>
   (\<exists>r \<in> set rs. r_verdict r = v \<and> f \<in> (\<lambda>g. g\<lparr>f_reviewerId := Some (reviewerId r)\<rparr>) ` set (r_findings r))"
  by (auto simp: labelled_findings_def)

text \<open>
  C31. The decision of the gate and the disposition its reports show never disagree.  The gate decides
  exactly when it has a result; it asks for changes as soon as one reviewer does, passes when some
  reviewer passes and none asks for changes, and fails otherwise; a pass of several reviewers is marked
  as partial exactly when the report calls it a partial failure; and the findings it hands on are those
  of the reviewers that share its verdict, each under the name of its reviewer.
\<close>
theorem decision_agrees_with_report:
  "map_option r_verdict (decideReviewResults rs) =
     (if rs = [] then None else Some (aggregate_verdict (aggregateReviewDisposition rs)))
   \<and> hasPartialReviewerFailure (Some rs) = (aggregateReviewDisposition rs = PassedWithWarnings)
   \<and> (length rs = 1 \<or> (case decideReviewResults rs of
        None \<Rightarrow> rs = []
      | Some r \<Rightarrow>
          (r_verdict r = Pass \<and> r_error r = Some ''partial_reviewer_error'') = hasPartialReviewerFailure (Some rs)
          \<and> r_findings r = (if r_verdict r = VerdictError then [] else labelled_findings (r_verdict r) rs)))"
proof (intro conjI)
  show "hasPartialReviewerFailure (Some rs) = (aggregateReviewDisposition rs = PassedWithWarnings)"
    by (auto simp: hasPartialReviewerFailure_def aggregate_alt)
  show "length rs = 1 \<or> (case decideReviewResults rs of
        None \<Rightarrow> rs = []
      | Some r \<Rightarrow>
          (r_verdict r = Pass \<and> r_error r = Some ''partial_reviewer_error'') = hasPartialReviewerFailure (Some rs)
          \<and> r_findings r = (if r_verdict r = VerdictError then [] else labelled_findings (r_verdict r) rs))"
  proof (cases "length rs = 1")
    case False
    with some_verdict [of rs] show ?thesis
      by (auto simp: decide_many hasPartialReviewerFailure_def)
  qed simp
qed (rule decide_verdict)

subsection \<open>An invocation always decides\<close>

lemma decide_Some: "rs \<noteq> [] \<Longrightarrow> \<exists>r. decideReviewResults rs = Some r"
  using decide_verdict [of rs] by auto

lemma decide_invocation_Some:
  assumes "rs \<noteq> []"
  obtains r where "decideReviewResults rs = Some r"
    "decide_invocation policy telemetry ss rs =
       (let r1 = r\<lparr>processSettlement := Some (aggregateProcessSettlement ss)\<rparr>;
            r2 = (if length rs > 1 then r1\<lparr>r_diagnostic := reviewerDiagnostics rs\<rparr> else r1);
            r3 = telemetry_diagnostic telemetry r2;
            rs3 = (if length rs = 1 then [r3] else rs) in
        Some (InvocationDecided r3 rs3 (telemetry \<noteq> [] \<or> shouldRetainBundle policy r3 rs3)))"
  using decide_Some [OF assms] by (auto simp: decide_invocation_def)

lemma decide_invocation_verdict:
  assumes "decide_invocation policy telemetry ss rs = Some (InvocationDecided r rs' kept)"
  shows "\<exists>q. decideReviewResults rs = Some q \<and> r_verdict r = r_verdict q \<and> r_findings r = r_findings q"
proof -
  obtain q where q: "decideReviewResults rs = Some q"
    using assms by (auto simp: decide_invocation_def split: option.splits)
  with assms have "r_verdict r = r_verdict q \<and> r_findings r = r_findings q"
    by (auto simp: decide_invocation_def Let_def telemetry_diagnostic_def split: if_splits)
  with q show ?thesis by blast
qed

lemma executeReviewerInvocation_Some:
  assumes "deciders input \<noteq> [] \<or> unavailable input \<noteq> []"
  shows "executeReviewerInvocation input \<noteq> None"
proof -
  define rs where "rs = map st_result (map (stage (move_output input)) (deciders input)) @ unavailable input"
  have "rs \<noteq> []" using assms by (simp add: rs_def)
  then obtain r where "decideReviewResults rs = Some r" using decide_Some by blast
  then show ?thesis
    unfolding executeReviewerInvocation_def Let_def rs_def [symmetric]
    by (auto simp: decide_invocation_def Let_def split: option.splits)
qed

subsection \<open>A pass is earned\<close>

lemma stage_pass:
  assumes "r_verdict (st_result (stage move (d, e))) \<noteq> VerdictError"
  obtains r where "written e = None" "ran e = Inr r"
    "r_verdict (st_result (stage move (d, e))) = r_verdict r" "r_findings (st_result (stage move (d, e))) = r_findings r"
proof -
  have w: "written e = None"
    using assms by (auto simp: stage_def runSingleReviewer_def Let_def labelled_def split: option.splits if_splits)
  obtain r where r: "ran e = Inr r"
    using assms w by (auto simp: stage_def runSingleReviewer_def Let_def labelled_def moved_output_def
        thrown_result_def plain_result_def split: sum.splits if_splits)
  have "st_result (stage move (d, e)) = labelled (reviewerDisplayLabel d) (moved_output (move (dc_id d)) r)"
    by (simp add: stage_def runSingleReviewer_def Let_def w r)
  with that [OF w r] show thesis by (simp add: labelled_def moved_output_def)
qed

lemma first_by_id_subset: "set (first_by_id seen ds) \<subseteq> set ds"
  by (induction seen ds rule: first_by_id.induct) auto

lemma unavailable_error: "u \<in> set (snd (resolveExecutableReviewers ds us vs)) \<Longrightarrow> r_verdict u = VerdictError"
  by (auto simp: resolveExecutableReviewers_def unavailable_result_def plain_result_def)

definition from_adapter :: "parser \<Rightarrow> decider \<Rightarrow> reviewer_event \<Rightarrow> bool" where
  "from_adapter parse d e \<longleftrightarrow>
     (case ran e of
        Inl _ \<Rightarrow> True
      | Inr r \<Rightarrow> \<exists>path t x. r = adapter_run (dc_adapter d) parse (dc_id d) path t x)"

text \<open>Reviewer \<open>d\<close> ran to a clean end, passed in valid JSON, and its artifacts were written.\<close>

definition passed_reviewer :: "parser \<Rightarrow> decider \<Rightarrow> reviewer_event \<Rightarrow> bool" where
  "passed_reviewer parse d e \<longleftrightarrow>
     written e = None
     \<and> (\<exists>r path t x. ran e = Inr r \<and> r_verdict r = Pass
          \<and> r = adapter_run (dc_adapter d) parse (dc_id d) path t x \<and> passing_run parse x)"

definition non_blocking :: "review_result \<Rightarrow> bool" where
  "non_blocking r \<longleftrightarrow> (\<forall>f \<in> set (r_findings r). f_severity f = NonBlocking)"

lemma stage_passed:
  assumes "from_adapter parse d e" "r_verdict (st_result (stage move (d, e))) = Pass"
  shows "passed_reviewer parse d e \<and> non_blocking (st_result (stage move (d, e)))"
proof -
  have "r_verdict (st_result (stage move (d, e))) \<noteq> VerdictError" using assms(2) by simp
  then obtain r where r: "written e = None" "ran e = Inr r"
    "r_verdict (st_result (stage move (d, e))) = r_verdict r" "r_findings (st_result (stage move (d, e))) = r_findings r"
    by (rule stage_pass)
  have p: "r_verdict r = Pass" using assms(2) r(3) by simp
  obtain path t x where x: "r = adapter_run (dc_adapter d) parse (dc_id d) path t x"
    using assms(1) r(2) by (auto simp: from_adapter_def)
  have "passing_run parse x" using adapters.pass_needs_json p unfolding x by blast
  moreover have "non_blocking r" using adapters.pass_has_no_blocking p unfolding x non_blocking_def by blast
  ultimately show ?thesis using r(1,2,4) p x unfolding passed_reviewer_def non_blocking_def by metis
qed

lemma labelled_non_blocking:
  assumes "\<forall>r \<in> set rs. r_verdict r = Pass \<longrightarrow> non_blocking r"
  shows "\<forall>f \<in> set (labelled_findings Pass rs). f_severity f = NonBlocking"
  using assms by (auto simp: labelled_findings_iff non_blocking_def)

lemma decide_pass:
  assumes "decideReviewResults rs = Some q" "r_verdict q = Pass"
    and "\<forall>r \<in> set rs. r_verdict r = Pass \<longrightarrow> non_blocking r"
  shows "has_verdict Pass rs \<and> \<not> has_verdict NeedsChanges rs \<and> non_blocking q"
proof (cases "length rs = 1")
  case True
  then obtain r where "rs = [r]" using single_list by blast
  with assms show ?thesis by (simp add: decide_single has_verdict_def)
next
  case False
  with assms(1,2) have *: "has_verdict Pass rs" "\<not> has_verdict NeedsChanges rs"
    "q = gate_result Pass (reviewerVerdictSummary rs) (labelled_findings Pass rs)
             (if has_verdict VerdictError rs then Some ''partial_reviewer_error'' else None)"
    by (auto simp: decide_many split: if_splits)
  with labelled_non_blocking [OF assms(3)] show ?thesis by (simp add: non_blocking_def)
qed

lemma invocation_pass:
  assumes ev: "\<forall>(d, e) \<in> set (deciders input). from_adapter parse d e"
    and un: "\<forall>u \<in> set (unavailable input). r_verdict u = VerdictError"
    and dec: "executeReviewerInvocation input = Some (InvocationDecided r rs kept)" "r_verdict r = Pass"
  shows "\<not> signal_aborted input \<and> publication input = None \<and> non_blocking r
    \<and> \<not> has_verdict NeedsChanges (map (\<lambda>de. st_result (stage (move_output input) de)) (deciders input))
    \<and> (\<exists>(d, e) \<in> set (deciders input). passed_reviewer parse d e)"
proof -
  define ss where "ss = map (stage (move_output input)) (deciders input)"
  define all where "all = map st_result ss @ unavailable input"
  have na: "\<not> reviewWasAborted (signal_aborted input) (map st_result ss)"
    using dec(1) by (auto simp: executeReviewerInvocation_def Let_def ss_def split: if_splits)
  have pub: "publishStagedReviewerSet (map fst (deciders input)) (publication input) ss = None"
    using dec na by (auto simp: executeReviewerInvocation_def Let_def ss_def publication_failure_def split: option.splits)
  have di: "decide_invocation (retain input) (telemetryFailures input) (map st_result ss) all = Some (InvocationDecided r rs kept)"
    using dec(1) na pub by (simp add: executeReviewerInvocation_def Let_def ss_def all_def)
  obtain q where q: "decideReviewResults all = Some q" "r_verdict q = Pass" "r_findings q = r_findings r"
    using decide_invocation_verdict [OF di] dec(2) by auto
  have staged: "passed_reviewer parse d e \<and> non_blocking (st_result (stage (move_output input) (d, e)))"
    if "(d, e) \<in> set (deciders input)" "r_verdict (st_result (stage (move_output input) (d, e))) = Pass" for d e
    using stage_passed that ev by blast
  have nb: "\<forall>x \<in> set all. r_verdict x = Pass \<longrightarrow> non_blocking x"
    using staged un by (auto simp: all_def ss_def)
  from decide_pass [OF q(1,2) nb]
  have p: "has_verdict Pass all" "\<not> has_verdict NeedsChanges all" "non_blocking q" by auto
  obtain d e where "(d, e) \<in> set (deciders input)" "r_verdict (st_result (stage (move_output input) (d, e))) = Pass"
    using p(1) un by (auto simp: has_verdict_def list_ex_iff all_def ss_def)
  with staged have "\<exists>(d, e) \<in> set (deciders input). passed_reviewer parse d e" by blast
  moreover have "publication input = None" using pub by (auto simp: publishStagedReviewerSet_def Let_def split: if_splits)
  ultimately show ?thesis
    using na p q(3) by (auto simp: reviewWasAborted_def non_blocking_def has_verdict_def list_ex_iff all_def ss_def)
qed

lemma runReviewSettled_Reviewed:
  assumes "fst (runReviewSettled input win) = Some (Reviewed r rs seq kept)"
  obtains ds us where "resolveExecutableReviewers (resolvedReviewers input) (unknownIds input) (unresolvedSelections input) = (ds, us)"
    "executeReviewerInvocation (invocation_input_of input ds us) = Some (InvocationDecided r rs kept)"
proof -
  obtain completed win' where c: "complete_exchange input win = (completed, win')" by (metis surj_pair)
  obtain ds us where d: "resolveExecutableReviewers (resolvedReviewers input) (unknownIds input) (unresolvedSelections input) = (ds, us)"
    by (metis surj_pair)
  have "executeReviewerInvocation (invocation_input_of input ds us) = Some (InvocationDecided r rs kept)"
    using assms by (auto simp: runReviewSettled_def Let_def c d split: option.splits if_splits invocation.splits)
  with d that show thesis by blast
qed

lemma runReview_Reviewed:
  assumes "fst (runReview identity exact input win) = Some (Reviewed r rs seq kept)"
  obtains x where "\<not> in_signal input" "validateReviewInput (maxPatchBytes input) identity exact = Inr x"
    "fst (runReviewSettled (input\<lparr>exactChange := x\<rparr>) win) = Some (Reviewed r rs seq kept)"
  using assms by (auto simp: runReview_def split: sum.splits if_splits)

lemma runReview_pass:
  assumes ev: "\<And>d. from_adapter parse d (reviewerEvents input d)"
    and rv: "fst (runReview identity exact input win) = Some (Reviewed r rs seq kept)" "r_verdict r = Pass"
  shows "\<not> in_signal input \<and> \<not> in_signal_after input \<and> in_publication input = None \<and> non_blocking r
    \<and> (\<exists>d \<in> set (resolvedReviewers input). passed_reviewer parse d (reviewerEvents input d))"
proof -
  obtain x where sig: "\<not> in_signal input"
    and x: "fst (runReviewSettled (input\<lparr>exactChange := x\<rparr>) win) = Some (Reviewed r rs seq kept)"
    using runReview_Reviewed [OF rv(1)] by blast
  obtain ds us where d: "resolveExecutableReviewers (resolvedReviewers input) (unknownIds input) (unresolvedSelections input) = (ds, us)"
    "executeReviewerInvocation (invocation_input_of (input\<lparr>exactChange := x\<rparr>) ds us) = Some (InvocationDecided r rs kept)"
    using runReviewSettled_Reviewed [OF x] by auto
  have e: "\<forall>(d, e) \<in> set (deciders (invocation_input_of (input\<lparr>exactChange := x\<rparr>) ds us)). from_adapter parse d e"
    using ev by (auto simp: invocation_input_of_def)
  have u: "\<forall>u \<in> set (unavailable (invocation_input_of (input\<lparr>exactChange := x\<rparr>) ds us)). r_verdict u = VerdictError"
    using unavailable_error [of _ "resolvedReviewers input" "unknownIds input" "unresolvedSelections input"]
    by (simp add: invocation_input_of_def d(1))
  have "set ds \<subseteq> set (resolvedReviewers input)"
    using d(1) first_by_id_subset by (auto simp: resolveExecutableReviewers_def)
  with invocation_pass [OF e u d(2) rv(2)] sig show ?thesis
    by (auto simp: invocation_input_of_def)
qed

text \<open>
  C8. The gate passes only what a reviewer passed.  If a review of the gate ends in a pass, then it was
  not cancelled, the results were published, no blocking finding is left in the decision, and one of the
  selected reviewers ran to a clean exit, passed by a piece of valid JSON in its own reply and had its
  artifacts written.  The only hypothesis is that results come from the four adapters.
\<close>
theorem gate_pass_is_earned:
  assumes "\<And>d. from_adapter parse d (reviewerEvents input d)"
    and "fst (runReview identity exact input win) = Some (Reviewed r rs seq kept)" "r_verdict r = Pass"
  shows "\<not> in_signal input \<and> \<not> in_signal_after input \<and> in_publication input = None \<and> non_blocking r
    \<and> (\<exists>d \<in> set (resolvedReviewers input). passed_reviewer parse d (reviewerEvents input d))"
  using assms by (rule runReview_pass)

definition demo_decider :: decider where
  "demo_decider = \<lparr>dc_id = ''r'', dc_adapter = GenericCli, dc_model = None, dc_thinkingLevel = None\<rparr>"

definition demo_run :: reviewer_run where
  "demo_run = \<lparr>proc = \<lparr>o_settlement = Some Confirmed, stdout = ''So {1}'', stderr = [], stdoutTruncated = False,
     code = Some 0, timedOut = False, aborted = False, stdinError = None, terminationError = None\<rparr>,
     preflight = None, x_text = [], x_error = None, finalFile = ([], False), sessionFile = None\<rparr>"

definition demo_event :: "decider \<Rightarrow> reviewer_event" where
  "demo_event d = \<lparr>ran = Inr (adapter_run (dc_adapter d) demo_parse (dc_id d) ''out'' 1000 demo_run), written = None\<rparr>"

definition demo_settled :: settled where
  "demo_settled = \<lparr>evidenceMethod = ToolOnlyEvidence, s_workspaceChanges = [], s_exchangeWorkspaceChanges = [],
     s_windowPatch = None, s_exchangePatch = None, primaryToolChangeGate = False\<rparr>"

definition demo_input :: review_input where
  "demo_input = \<lparr>now = ''t'', settledBaseline = demo_settled, collect = (\<lambda>_. []), rank = (\<lambda>_. 0), toolEvidence = None,
     requiresReview = False, exactChange = None, correctionAttemptCount = 0, requireNewToolActivity = False,
     in_capturedPassActivity = False, outsideRoot = (\<lambda>_. False), changedResults = [], maxPatchBytes = 1000,
     in_bundleDir = ''b'', resolvedReviewers = [demo_decider], unknownIds = [], unresolvedSelections = [],
     reviewerEvents = demo_event, in_move = (\<lambda>_ p. p), in_signal = False, in_signal_after = False, in_publication = None,
     in_telemetry = [], retainBundles = RetainOnFailure\<rparr>"

theorem gate_pass_is_earned_witness:
  "\<exists>r rs seq kept. fst (runReview None None demo_input None) = Some (Reviewed r rs seq kept) \<and> r_verdict r = Pass
    \<and> non_blocking r \<and> (\<exists>d. d = demo_decider \<and> passed_reviewer demo_parse d (demo_event d))"
proof -
  define ok where "ok = (\<lambda>out. case out of Some (Reviewed r _ _ _) \<Rightarrow> r_verdict r = Pass | _ \<Rightarrow> False)"
  have "ok (fst (runReview None None demo_input None))" unfolding ok_def by code_simp
  then obtain r rs seq kept where r: "fst (runReview None None demo_input None) = Some (Reviewed r rs seq kept)"
    "r_verdict r = Pass" by (auto simp: ok_def split: option.splits review_outcome.splits)
  have a: "from_adapter demo_parse d (reviewerEvents demo_input d)" for d
    by (auto simp: demo_input_def demo_event_def from_adapter_def)
  from gate_pass_is_earned [OF a r] r show ?thesis by (auto simp: demo_input_def)
qed

subsection \<open>What a run leaves\<close>

lemma complete_exchange_keeps:
  "complete_exchange input win = (completed, win') \<Longrightarrow>
   map_option reviewHistory win' = map_option reviewHistory win
   \<and> map_option nextReviewSequence win' = map_option nextReviewSequence win
   \<and> hasUnresolvedReview win' = hasUnresolvedReview win"
  by (cases win)
     (auto simp: complete_exchange_def completeActiveExchange_def Let_def hasUnresolvedReview_def
       split: option.splits prod.splits)

definition next_review :: "review_window option \<Rightarrow> nat" where
  "next_review win = (case win of None \<Rightarrow> 1 | Some w \<Rightarrow> nextReviewSequence w)"

definition history :: "review_window option \<Rightarrow> feedback_context list" where
  "history win = (case win of None \<Rightarrow> [] | Some w \<Rightarrow> reviewHistory w)"

lemma next_review_map: "map_option nextReviewSequence a = map_option nextReviewSequence b \<Longrightarrow> next_review a = next_review b"
  by (cases a; cases b) (auto simp: next_review_def)

lemma history_map: "map_option reviewHistory a = map_option reviewHistory b \<Longrightarrow> history a = history b"
  by (cases a; cases b) (auto simp: history_def)

lemma registered:
  "history (registerBundleWithWindow win d) = history win"
  "next_review (map_option (keep_retention i) (registerBundleWithWindow win d)) =
     (if win = None then 1 else next_review win + 1)"
  "history (map_option (keep_retention i) win) = history win"
  by (cases win; simp add: history_def next_review_def registerBundleWithWindow_def keep_retention_def)+

text \<open>What each outcome does to the numbering of the reviews.\<close>

definition outcome_numbering :: "review_window option \<Rightarrow> review_outcome option \<Rightarrow> review_window option \<Rightarrow> bool" where
  "outcome_numbering win out win' \<longleftrightarrow>
     (case out of
        None \<Rightarrow> False
      | Some (NotReviewed _) \<Rightarrow> next_review win' = next_review win
      | Some (ReviewError _) \<Rightarrow> next_review win' = next_review win
      | Some (ReviewAborted _) \<Rightarrow> next_review win' = next_review win \<or> next_review win' = next_review win + 1
      | Some (Reviewed r rs seq kept) \<Rightarrow>
          rs \<noteq> [] \<and> seq = next_review win \<and> (win = None \<or> next_review win' = seq + 1))"

lemma decided_nonempty:
  assumes "executeReviewerInvocation input = Some (InvocationDecided r rs kept)"
  shows "rs \<noteq> []"
proof -
  have "rs \<noteq> []" if d: "decide_invocation policy telemetry ss all = Some (InvocationDecided r rs kept)"
    for policy telemetry ss all
  proof -
    have "all \<noteq> []" using d decide_verdict [of all] by (auto simp: decide_invocation_def split: option.splits)
    with d show ?thesis by (auto simp: decide_invocation_def Let_def split: option.splits if_splits)
  qed
  with assms show ?thesis
    by (auto simp: executeReviewerInvocation_def Let_def split: if_splits option.splits)
qed

lemma runReviewSettled_numbering:
  "outcome_numbering win (fst (runReviewSettled input win)) (snd (runReviewSettled input win))
   \<and> history (snd (runReviewSettled input win)) = history win"
proof -
  obtain completed win' where c: "complete_exchange input win = (completed, win')" by (metis surj_pair)
  obtain ds us where d: "resolveExecutableReviewers (resolvedReviewers input) (unknownIds input) (unresolvedSelections input) = (ds, us)"
    by (metis surj_pair)
  have k: "next_review win' = next_review win" "history win' = history win"
    using complete_exchange_keeps [OF c] next_review_map history_map by blast+
  have n: "win' = None \<longleftrightarrow> win = None"
    using c by (auto simp: complete_exchange_def split: option.splits prod.splits)
  define win2 where "win2 = registerBundleWithWindow win' (in_bundleDir input)"
  define inv where "inv = invocation_input_of input ds us"
  show ?thesis
  proof (cases "review_needed input win completed win'")
    case (Some why)
    then show ?thesis by (simp add: runReviewSettled_def c k outcome_numbering_def)
  next
    case None
    note needed = None
    show ?thesis
    proof (cases "ds = [] \<and> us = []")
      case True
      with None show ?thesis by (simp add: runReviewSettled_def c d k outcome_numbering_def)
    next
      case False
      then have "executeReviewerInvocation inv \<noteq> None"
        using executeReviewerInvocation_Some [of inv] by (auto simp: inv_def invocation_input_of_def)
      then obtain i where i: "executeReviewerInvocation inv = Some i" by blast
      have run: "runReviewSettled input win =
        (Some (case i of InvocationAborted r \<Rightarrow> ReviewAborted r
               | InvocationDecided r rs kept \<Rightarrow> Reviewed r rs (next_review win') kept),
         map_option (keep_retention i) win2)"
        using needed False i
        by (auto simp: runReviewSettled_def c d Let_def inv_def win2_def next_review_def [symmetric])
      have h: "history (map_option (keep_retention i) win2) = history win"
        by (simp add: win2_def registered k)
      have m: "next_review (map_option (keep_retention i) win2) = (if win = None then 1 else next_review win + 1)"
        by (simp add: win2_def registered k n)
      have one: "win = None \<Longrightarrow> next_review win = 1" by (simp add: next_review_def)
      show ?thesis
        using decided_nonempty [of inv] i h m one
        by (cases i) (auto simp: run outcome_numbering_def k)
    qed
  qed
qed

text \<open>
  C19. A review always concludes, and its number is its own.  The aggregation never throws, whatever the
  reviewers, the file system and the configuration do; a completed review carries the next number of
  its window and moves that number on by one, so that no two reviews share one; a run that is skipped or
  rejected leaves the numbering alone; and no run changes the recorded history, which only recording
  the feedback extends.
\<close>
theorem review_run_concludes:
  "outcome_numbering win (fst (runReview identity exact input win)) (snd (runReview identity exact input win))
   \<and> history (snd (runReview identity exact input win)) = history win"
  using runReviewSettled_numbering
  by (auto simp: runReview_def outcome_numbering_def split: sum.splits)

end
