(* ===== verification/Tool_Decision.thy ===== *)
theory Tool_Decision
  imports Review_Verdict
begin

text \<open>
  The verdict of the tool protection auditor, \<open>src/src/tool-protection/decision.ts\<close>.  \<open>JSON.parse\<close>
  is the parameter \<open>parse\<close>, \<open>None\<close> when it throws.  A reply is a list of code units below 256, so it
  has no byte order mark; a decoded string is a list of code units, since an escape can name any.  An
  index past the end of a scan is the length of the reply minus that of the rest.  Each throw is a value
  of \<open>decision_error\<close>.
\<close>

datatype decision_value = PASS | FAIL

record protection_decision =
  decision :: decision_value
  reason :: "string option"

datatype decision_error =
    EmptyPayload
  | InvalidEnvelope
  | NotJsonObject
  | UncheckableFields
  | DuplicateField "nat list"
  | UnsupportedField string
  | InvalidDecision
  | ReasonNotString
  | ReasonTooLong
  | Contradictory

definition PROTECTION_DECISION_MAX_REASON_CHARS :: nat where
  "PROTECTION_DECISION_MAX_REASON_CHARS = 4000"

subsection \<open>Scanning JSON text\<close>

definition json_blank :: "char \<Rightarrow> bool" where
  "json_blank c \<longleftrightarrow> c = CHR '' '' \<or> c = TAB \<or> c = LF \<or> c = CR"

definition skipJsonWhitespace :: "string \<Rightarrow> string" where
  "skipJsonWhitespace s = dropWhile json_blank s"

definition unit_of :: "char \<Rightarrow> nat" where "unit_of c = of_char c"

definition units :: "string \<Rightarrow> nat list" where "units s = map unit_of s"

definition hex_value :: "char \<Rightarrow> nat option" where
  "hex_value c =
     (let n = unit_of c in
      if 48 \<le> n \<and> n \<le> 57 then Some (n - 48)
      else if 65 \<le> n \<and> n \<le> 70 then Some (n - 55)
      else if 97 \<le> n \<and> n \<le> 102 then Some (n - 87) else None)"

definition simple_escape :: "char \<Rightarrow> nat option" where
  "simple_escape c =
     map_of [(QUOTE, unit_of QUOTE), (BACKSLASH, unit_of BACKSLASH), (CHR ''/'', unit_of (CHR ''/'')),
             (CHR ''b'', 8), (CHR ''f'', 12), (CHR ''n'', 10), (CHR ''r'', 13), (CHR ''t'', 9)] c"

text \<open>The string after its opening quote: its decoded units and what follows the closing quote.\<close>

fun string_body :: "string \<Rightarrow> (nat list \<times> string) option" where
  "string_body [] = None"
| "string_body (c # s) =
     (if c = QUOTE then Some ([], s)
      else if c \<noteq> BACKSLASH then map_option (apfst ((#) (unit_of c))) (string_body s)
      else case s of
        [] \<Rightarrow> None
      | e # t \<Rightarrow>
          (if e = CHR ''u'' then
             (case t of
                a # b # c' # d # u \<Rightarrow>
                  (case (hex_value a, hex_value b, hex_value c', hex_value d) of
                     (Some w, Some x, Some y, Some z) \<Rightarrow>
                       map_option (apfst ((#) (4096 * w + 256 * x + 16 * y + z))) (string_body u)
                   | _ \<Rightarrow> None)
              | _ \<Rightarrow> None)
           else case simple_escape e of
             None \<Rightarrow> None
           | Some n \<Rightarrow> map_option (apfst ((#) n)) (string_body t)))"

definition readJsonString :: "string \<Rightarrow> (nat list \<times> string) option" where
  "readJsonString s = (case s of [] \<Rightarrow> None | c # t \<Rightarrow> if c = QUOTE then string_body t else None)"

lemma string_body_shorter: "string_body s = Some (v, r) \<Longrightarrow> length r < length s"
proof (induction s arbitrary: v r rule: string_body.induct)
  case (2 c s)
  then show ?case
    by (force split: if_splits list.splits option.splits)
qed simp

lemma readJsonString_shorter: "readJsonString s = Some (v, r) \<Longrightarrow> length r < length s"
  by (auto simp: readJsonString_def dest: string_body_shorter split: list.splits if_splits)

lemma skipJsonWhitespace_le: "length (skipJsonWhitespace s) \<le> length s"
  by (simp add: skipJsonWhitespace_def length_dropWhile_le)

text \<open>
  The containers of a value are skipped with the stack of the closing brackets that are due, which is
  the chain of the recursive calls.
\<close>

fun skip_body :: "string \<Rightarrow> bool \<Rightarrow> string \<Rightarrow> string option" where
  "skip_body [] ins s = Some s"
| "skip_body (cl # st) ins [] = None"
| "skip_body (cl # st) True (c # s) =
     (if c = BACKSLASH then (case s of [] \<Rightarrow> None | _ # t \<Rightarrow> skip_body (cl # st) True t)
      else skip_body (cl # st) (c \<noteq> QUOTE) s)"
| "skip_body (cl # st) False (c # s) =
     (if c = QUOTE then skip_body (cl # st) True s
      else if c = CHR ''{'' then skip_body (CHR ''}'' # cl # st) False s
      else if c = CHR ''['' then skip_body (CHR '']'' # cl # st) False s
      else if c = cl then skip_body st False s
      else skip_body (cl # st) False s)"

lemma skip_body_le: "skip_body st ins s = Some r \<Longrightarrow> length r \<le> length s"
  by (induction st ins s rule: skip_body.induct) (force split: if_splits list.splits)+

definition js_digit :: "char \<Rightarrow> bool" where "js_digit c \<longleftrightarrow> 48 \<le> unit_of c \<and> unit_of c \<le> 57"

definition skip_digits :: "string \<Rightarrow> string option" where
  "skip_digits s = (case s of [] \<Rightarrow> None | c # _ \<Rightarrow> if js_digit c then Some (dropWhile js_digit s) else None)"

definition skip_fraction :: "string \<Rightarrow> string" where
  "skip_fraction s =
     (case s of [] \<Rightarrow> s | c # t \<Rightarrow> if c = CHR ''.'' then or_else (skip_digits t) s else s)"

definition skip_exponent :: "string \<Rightarrow> string" where
  "skip_exponent s =
     (case s of
        [] \<Rightarrow> s
      | c # t \<Rightarrow>
          (if c = CHR ''e'' \<or> c = CHR ''E''
           then or_else (skip_digits (case t of [] \<Rightarrow> t | d # u \<Rightarrow> if d = CHR ''-'' \<or> d = CHR ''+'' then u else t)) s
           else s))"

definition skip_number :: "string \<Rightarrow> string option" where
  "skip_number s =
     (let u = (case s of [] \<Rightarrow> s | c # t \<Rightarrow> if c = CHR ''-'' then t else s) in
      case u of
        [] \<Rightarrow> None
      | c # t \<Rightarrow>
          (if c = CHR ''0'' then Some (skip_exponent (skip_fraction t))
           else if js_digit c then Some (skip_exponent (skip_fraction (dropWhile js_digit t)))
           else None))"

definition skipJsonValue :: "string \<Rightarrow> string option" where
  "skipJsonValue s =
     (case s of
        [] \<Rightarrow> None
      | c # t \<Rightarrow>
          (if c = QUOTE then map_option snd (readJsonString s)
           else if c = CHR ''{'' then skip_body [CHR ''}''] False t
           else if c = CHR ''['' then skip_body [CHR '']''] False t
           else if starts_with s ''true'' then Some (drop 4 s)
           else if starts_with s ''false'' then Some (drop 5 s)
           else if starts_with s ''null'' then Some (drop 4 s)
           else skip_number s))"

lemma skip_digits_le: "skip_digits s = Some r \<Longrightarrow> length r \<le> length s"
  by (auto simp: skip_digits_def length_dropWhile_le le_SucI split: list.splits if_splits)

lemma skip_fraction_le: "length (skip_fraction s) \<le> length s"
  by (auto simp: skip_fraction_def or_else_def split: list.splits option.splits dest: skip_digits_le)

lemma skip_exponent_le: "length (skip_exponent s) \<le> length s"
  by (auto simp: skip_exponent_def or_else_def split: list.splits option.splits if_splits dest!: skip_digits_le)

lemma skip_number_le: "skip_number s = Some r \<Longrightarrow> length r \<le> length s"
  using skip_exponent_le skip_fraction_le length_dropWhile_le
  by (fastforce simp: skip_number_def Let_def split: list.splits if_splits intro: order_trans le_SucI)

lemma skipJsonValue_le: "skipJsonValue s = Some r \<Longrightarrow> length r \<le> length s"
  by (auto simp: skipJsonValue_def split: list.splits if_splits
      dest: readJsonString_shorter skip_body_le skip_number_le)

text \<open>The names of the members of an object, in the order of the text; \<open>None\<close> is a scan that fails.\<close>

function member_keys :: "string \<Rightarrow> nat list list option" where
  "member_keys s =
     (case readJsonString (skipJsonWhitespace s) of
        None \<Rightarrow> None
      | Some (k, r) \<Rightarrow>
          (case skipJsonWhitespace r of
             [] \<Rightarrow> None
           | c # v \<Rightarrow>
               (if c \<noteq> CHR '':'' then None
                else case skipJsonValue (skipJsonWhitespace v) of
                  None \<Rightarrow> None
                | Some w \<Rightarrow>
                    (case skipJsonWhitespace w of
                       [] \<Rightarrow> None
                     | d # u \<Rightarrow>
                         (if d = CHR '','' then map_option ((#) k) (member_keys u)
                          else if d = CHR ''}'' then (if skipJsonWhitespace u = [] then Some [k] else None)
                          else None)))))"
  by pat_completeness auto
termination
proof (relation "measure length", simp, simp)
  fix s kr k r c v w d u
  assume 1: "readJsonString (skipJsonWhitespace s) = Some kr" "(k, r) = kr" and 2: "skipJsonWhitespace r = c # v"
    and 3: "skipJsonValue (skipJsonWhitespace v) = Some w" and 4: "skipJsonWhitespace w = d # u"
  have "length r < length s" using readJsonString_shorter [of "skipJsonWhitespace s" k r] 1 skipJsonWhitespace_le [of s] by simp
  moreover have "length v < length r" using skipJsonWhitespace_le [of r] 2 by simp
  moreover have "length w \<le> length v"
    using skipJsonValue_le [OF 3] skipJsonWhitespace_le [of v] by simp
  moreover have "length u < length w" using skipJsonWhitespace_le [of w] 4 by simp
  ultimately show "length u < length s" by simp
qed

definition scanTopLevelKeys :: "string \<Rightarrow> nat list list option" where
  "scanTopLevelKeys s =
     (case skipJsonWhitespace s of
        [] \<Rightarrow> None
      | c # t \<Rightarrow>
          (if c \<noteq> CHR ''{'' then None
           else case skipJsonWhitespace t of
             d # u \<Rightarrow> (if d = CHR ''}'' then (if skipJsonWhitespace u = [] then Some [] else None) else member_keys t)
           | [] \<Rightarrow> None))"

subsection \<open>Containers of the reply\<close>

text \<open>What follows the closing bracket of the container a text starts with.\<close>

function match_end :: "nat \<Rightarrow> string \<Rightarrow> string option" where
  "match_end level [] = None"
| "match_end level (c # s) =
     (if c = QUOTE then
        (case readJsonString (c # s) of None \<Rightarrow> None | Some (v, r) \<Rightarrow> match_end level r)
      else if c = CHR ''{'' \<or> c = CHR ''['' then match_end (Suc level) s
      else if c = CHR ''}'' \<or> c = CHR '']'' then
        (case level of 0 \<Rightarrow> None | Suc d \<Rightarrow> (if d = 0 then Some s else match_end d s))
      else match_end level s)"
  by pat_completeness auto
termination
  by (relation "measure (length \<circ> snd)") (auto dest: readJsonString_shorter)

definition rest_index :: "string \<Rightarrow> string \<Rightarrow> nat" where
  "rest_index text r = length text - length r"

definition matchContainerEnd :: "string \<Rightarrow> nat \<Rightarrow> nat option" where
  "matchContainerEnd text start = map_option (rest_index text) (match_end 0 (drop start text))"

definition read_at :: "string \<Rightarrow> nat \<Rightarrow> (nat list \<times> nat) option" where
  "read_at text i = map_option (apsnd (rest_index text)) (readJsonString (drop i text))"

definition DECISION :: "nat list" where "DECISION = units ''decision''"

text \<open>The first character that is not blank, from an index on or before it.\<close>

definition next_char :: "string \<Rightarrow> nat \<Rightarrow> char option" where
  "next_char text i = (case skipJsonWhitespace (drop i text) of [] \<Rightarrow> None | c # _ \<Rightarrow> Some c)"

definition previousNonWhitespace :: "string \<Rightarrow> nat \<Rightarrow> char option" where
  "previousNonWhitespace text i = (case skipJsonWhitespace (rev (take i text)) of [] \<Rightarrow> None | c # _ \<Rightarrow> Some c)"

definition isDecisionKeyPosition :: "string \<Rightarrow> nat \<Rightarrow> nat \<Rightarrow> char list \<Rightarrow> bool" where
  "isDecisionKeyPosition payload nameStart afterName containers \<longleftrightarrow>
     next_char payload afterName = Some (CHR '':'')
     \<or> (case containers of c # _ \<Rightarrow> c = CHR ''{'' | [] \<Rightarrow> False)
        \<and> (previousNonWhitespace payload nameStart = Some (CHR ''{'')
           \<or> previousNonWhitespace payload nameStart = Some (CHR '',''))"

text \<open>
  The walk over a region; the open containers are kept innermost first.  The result says whether a
  decision key was found, and whether inside an array below the root.
\<close>

lemma read_at_next: "read_at text i = Some (v, j) \<Longrightarrow> i < j \<and> j \<le> length text"
proof -
  assume "read_at text i = Some (v, j)"
  then obtain r where r: "readJsonString (drop i text) = Some (v, r)" "j = length text - length r"
    by (auto simp: read_at_def rest_index_def)
  from readJsonString_shorter [OF r(1)] r(2) show ?thesis by simp
qed

function scan_walk :: "string \<Rightarrow> nat \<Rightarrow> nat \<Rightarrow> char list \<Rightarrow> bool \<Rightarrow> bool \<times> bool" where
  "scan_walk payload i stop containers found =
     (if i \<ge> stop \<or> i \<ge> length payload then (found, False)
      else
        let c = payload ! i in
        if c = QUOTE then
          (case read_at payload i of
             None \<Rightarrow> scan_walk payload (Suc i) stop containers found
           | Some (v, j) \<Rightarrow>
               (if v = DECISION \<and> isDecisionKeyPosition payload i j containers
                then (if CHR ''['' \<in> set (butlast containers) then (True, True)
                      else scan_walk payload (min j stop) stop containers True)
                else scan_walk payload (min j stop) stop containers found))
        else if c = CHR ''{'' \<or> c = CHR ''['' then scan_walk payload (Suc i) stop (c # containers) found
        else if c = CHR ''}'' \<and> (case containers of d # _ \<Rightarrow> d = CHR ''{'' | [] \<Rightarrow> False)
        then scan_walk payload (Suc i) stop (drop 1 containers) found
        else if c = CHR '']'' \<and> (case containers of d # _ \<Rightarrow> d = CHR ''['' | [] \<Rightarrow> False)
        then scan_walk payload (Suc i) stop (drop 1 containers) found
        else scan_walk payload (Suc i) stop containers found)"
  by pat_completeness auto
termination
  by (relation "measure (\<lambda>(payload, i, stop, _). stop - i)") (auto dest: read_at_next)

text \<open>The second pass, at one quote.\<close>

definition broken_key_at :: "string \<Rightarrow> nat \<Rightarrow> bool" where
  "broken_key_at payload i \<longleftrightarrow>
     (case read_at payload i of
        None \<Rightarrow> False
      | Some (v, j) \<Rightarrow>
          v = DECISION
          \<and> (next_char payload j = Some (CHR '':'')
             \<or> previousNonWhitespace payload i \<noteq> Some (CHR '':'')
                \<and> next_char payload j \<noteq> Some (CHR '']'') \<and> next_char payload j \<noteq> Some (CHR '','')))"

definition scanDecisionKeys :: "string \<Rightarrow> nat \<Rightarrow> nat \<Rightarrow> bool \<Rightarrow> bool \<times> bool" where
  "scanDecisionKeys payload start stop recoverMalformed =
     (let w = scan_walk payload start stop [] False in
      if snd w then w
      else if fst w \<or> \<not> recoverMalformed then w
      else (list_ex (broken_key_at payload) [start..<min stop (length payload)], False))"

record region =
  r_open :: char
  r_start :: nat
  r_end :: nat
  complete :: bool
  envelope :: bool
  decisionBearing :: bool
  decisionInArray :: bool

definition region_at :: "(string \<Rightarrow> json option) \<Rightarrow> string \<Rightarrow> nat \<Rightarrow> region" where
  "region_at parse payload start =
     (let closed = matchContainerEnd payload start;
          stop = or_else closed (length payload);
          text = slice payload start stop;
          parsed = (if closed \<noteq> None then parse text else None);
          keys = (if isRecord parsed then scanTopLevelKeys text else None);
          w = scanDecisionKeys payload start stop (parsed = None) in
      \<lparr>r_open = payload ! start, r_start = start, r_end = stop, complete = (parsed \<noteq> None),
       envelope = (case keys of None \<Rightarrow> False | Some ks \<Rightarrow> DECISION \<in> set ks),
       decisionBearing = fst w, decisionInArray = snd w\<rparr>)"

lemma matchContainerEnd_next:
  assumes "matchContainerEnd text i = Some j"
  shows "i < j \<and> j \<le> length text"
proof -
  have le: "match_end d s = Some r \<Longrightarrow> length r < length s" for d s r
    by (induction d s rule: match_end.induct)
       (force split: if_splits option.splits nat.splits dest: readJsonString_shorter)+
  obtain r where r: "match_end 0 (drop i text) = Some r" "j = length text - length r"
    using assms by (auto simp: matchContainerEnd_def rest_index_def)
  from le [OF r(1)] r(2) show ?thesis by simp
qed

definition opens :: "char \<Rightarrow> bool" where "opens c \<longleftrightarrow> c = CHR ''{'' \<or> c = CHR ''[''"

text \<open>Positions inside a region are covered: the scan goes on behind it.\<close>

function scan_regions :: "(string \<Rightarrow> json option) \<Rightarrow> string \<Rightarrow> nat \<Rightarrow> region list" where
  "scan_regions parse payload i =
     (if i \<ge> length payload then []
      else if \<not> opens (payload ! i) then scan_regions parse payload (Suc i)
      else let r = region_at parse payload i in r # scan_regions parse payload (r_end r))"
  by pat_completeness auto
termination
  by (relation "measure (\<lambda>(_, payload, i). length payload - i)")
     (auto simp: region_at_def Let_def or_else_def dest: matchContainerEnd_next split: option.splits)

definition scanContainerRegions :: "(string \<Rightarrow> json option) \<Rightarrow> string \<Rightarrow> region list" where
  "scanContainerRegions parse payload = scan_regions parse payload 0"

subsection \<open>Fences of another language\<close>

definition language_char :: "char \<Rightarrow> bool" where
  "language_char c \<longleftrightarrow>
     (let n = unit_of c in (65 \<le> n \<and> n \<le> 90) \<or> (97 \<le> n \<and> n \<le> 122) \<or> (48 \<le> n \<and> n \<le> 57)
        \<or> c = CHR ''+'' \<or> c = CHR ''!'' \<or> c = CHR ''-'')"

text \<open>The language, the body and the rest of a fenced block a text starts with.\<close>

definition language_fence :: "string \<Rightarrow> (string \<times> string \<times> string) option" where
  "language_fence s =
     (if \<not> starts_with s FENCE then None
      else
        let r = skip_blanks (drop 3 s) in
        map_option (Pair (takeWhile language_char r)) (fence_body (dropWhile language_char r)))"

lemma language_fence_shorter: "language_fence s = Some (l, body, rest) \<Longrightarrow> length body + length rest + 3 \<le> length s"
proof -
  assume a: "language_fence s = Some (l, body, rest)"
  define r where "r = skip_blanks (drop 3 s)"
  have st: "starts_with s FENCE" and f: "fence_body (dropWhile language_char r) = Some (body, rest)"
    using a by (auto simp: language_fence_def Let_def r_def split: if_splits)
  have "3 \<le> length s"
    using st by (auto simp: starts_with_iff_prefix FENCE_def prefix_def)
  moreover have "length r \<le> length s - 3" unfolding r_def skip_blanks_def by (metis length_drop length_dropWhile_le)
  moreover have "length body + length rest \<le> length (dropWhile language_char r)"
    using fence_body_suffix [OF f] by auto
  moreover have "length (dropWhile language_char r) \<le> length r" by (rule length_dropWhile_le)
  ultimately show ?thesis by simp
qed

text \<open>The bodies as ranges of the reply, from the left.\<close>

function foreign_ranges :: "string \<Rightarrow> string \<Rightarrow> (nat \<times> nat) list" where
  "foreign_ranges payload [] = []"
| "foreign_ranges payload (c # s) =
     (case language_fence (c # s) of
        None \<Rightarrow> foreign_ranges payload s
      | Some (l, body, rest) \<Rightarrow>
          (let stop = rest_index payload rest - 3;
               more = foreign_ranges payload rest in
           if l = [] \<or> map js_lower l = ''json'' \<or> body = [] then more
           else (stop - length body, stop) # more))"
  by pat_completeness auto
termination
  by (relation "measure (length \<circ> snd)") (auto dest: language_fence_shorter)

definition foreignLanguageFenceRanges :: "string \<Rightarrow> (nat \<times> nat) list" where
  "foreignLanguageFenceRanges payload = foreign_ranges payload payload"

definition within :: "nat \<Rightarrow> nat \<times> nat \<Rightarrow> bool" where
  "within i rg \<longleftrightarrow> fst rg \<le> i \<and> i < snd rg"

subsection \<open>Refusals\<close>

fun outside_envelope :: "(nat \<times> nat) list \<Rightarrow> region list \<Rightarrow> decision_error option" where
  "outside_envelope foreign [] = None"
| "outside_envelope foreign (r # rs) =
     (if \<not> decisionBearing r then outside_envelope foreign rs
      else if list_ex (within (r_start r)) foreign then Some InvalidEnvelope
      else if r_open r = CHR ''['' \<or> decisionInArray r then Some NotJsonObject
      else if \<not> complete r then Some InvalidEnvelope
      else outside_envelope foreign rs)"

definition rejectDecisionOutsideEnvelope :: "string \<Rightarrow> region list \<Rightarrow> decision_error option" where
  "rejectDecisionOutsideEnvelope payload rs = outside_envelope (foreignLanguageFenceRanges payload) rs"

definition dangling_at :: "string \<Rightarrow> nat \<Rightarrow> bool" where
  "dangling_at payload i \<longleftrightarrow>
     (case read_at payload i of
        None \<Rightarrow> False
      | Some (v, j) \<Rightarrow> v = DECISION \<and> next_char payload j = Some (CHR '':''))"

definition rejectDanglingDecisionKey :: "string \<Rightarrow> nat \<Rightarrow> nat \<Rightarrow> bool" where
  "rejectDanglingDecisionKey payload start stop = list_ex (dangling_at payload) [start..<stop]"

fun dangling :: "string \<Rightarrow> nat \<Rightarrow> region list \<Rightarrow> bool" where
  "dangling payload cursor [] = rejectDanglingDecisionKey payload cursor (length payload)"
| "dangling payload cursor (r # rs) =
     (rejectDanglingDecisionKey payload cursor (r_start r) \<or> dangling payload (max cursor (r_end r)) rs)"

definition rejectDanglingDecisionKeys :: "string \<Rightarrow> region list \<Rightarrow> decision_error option" where
  "rejectDanglingDecisionKeys payload rs = (if dangling payload 0 rs then Some InvalidEnvelope else None)"

subsection \<open>Decisions\<close>

text \<open>The first name, in order, that occurred before.\<close>

fun first_duplicate :: "nat list list \<Rightarrow> nat list list \<Rightarrow> nat list option" where
  "first_duplicate seen [] = None"
| "first_duplicate seen (k # ks) = (if k \<in> set seen then Some k else first_duplicate (k # seen) ks)"

definition validateDecisionObject :: "(string \<times> json) list \<Rightarrow> nat list list \<Rightarrow> decision_error + protection_decision" where
  "validateDecisionObject kvs keys =
     (case first_duplicate [] keys of
        Some k \<Rightarrow> Inl (DuplicateField k)
      | None \<Rightarrow>
          (case find (\<lambda>k. k \<noteq> ''decision'' \<and> k \<noteq> ''reason'') (map fst kvs) of
             Some k \<Rightarrow> Inl (UnsupportedField k)
           | None \<Rightarrow>
               (case (if map_of kvs ''decision'' = Some (JStr ''PASS'') then Some PASS
                      else if map_of kvs ''decision'' = Some (JStr ''FAIL'') then Some FAIL else None) of
                  None \<Rightarrow> Inl InvalidDecision
                | Some d \<Rightarrow>
                    (case map_of kvs ''reason'' of
                       None \<Rightarrow> Inr \<lparr>decision = d, reason = None\<rparr>
                     | Some (JStr w) \<Rightarrow>
                         (if length w > PROTECTION_DECISION_MAX_REASON_CHARS then Inl ReasonTooLong
                          else Inr \<lparr>decision = d, reason = Some w\<rparr>)
                     | _ \<Rightarrow> Inl ReasonNotString))))"

text \<open>The occurrences of a validated candidate, one after the other.\<close>

function occurrences :: "string \<Rightarrow> string \<Rightarrow> nat \<Rightarrow> (nat \<times> nat) list" where
  "occurrences payload candidate from =
     (if candidate = [] \<or> length payload < from + length candidate then []
      else case find_from (\<lambda>i. starts_with (drop i payload) candidate) from (length payload) of
        None \<Rightarrow> []
      | Some i \<Rightarrow> (i, i + length candidate) # occurrences payload candidate (i + length candidate))"
  by pat_completeness auto
termination
  by (relation "measure (\<lambda>(payload, _, from). length payload - from)")
     (auto dest!: find_from_SomeD simp flip: length_greater_0_conv)

definition accountValidatedCandidate :: "string \<Rightarrow> string \<Rightarrow> (nat \<times> nat) list" where
  "accountValidatedCandidate payload candidate = occurrences payload candidate 0"

fun decisions_of ::
  "(string \<Rightarrow> json option) \<Rightarrow> string \<Rightarrow> json_candidate list
   \<Rightarrow> decision_error + (protection_decision list \<times> (nat \<times> nat) list)" where
  "decisions_of parse payload [] = Inr ([], [])"
| "decisions_of parse payload (c # cs) =
     (if repaired c then decisions_of parse payload cs
      else case parse (c_value c) of
        None \<Rightarrow> decisions_of parse payload cs
      | Some j \<Rightarrow>
          (case j of
             JObj kvs \<Rightarrow>
               (case scanTopLevelKeys (c_value c) of
                  None \<Rightarrow> Inl UncheckableFields
                | Some keys \<Rightarrow>
                    (if DECISION \<notin> set keys \<and> \<not> whole c then decisions_of parse payload cs
                     else case validateDecisionObject kvs keys of
                       Inl e \<Rightarrow> Inl e
                     | Inr d \<Rightarrow>
                         (case decisions_of parse payload cs of
                            Inl e \<Rightarrow> Inl e
                          | Inr (ds, spans) \<Rightarrow> Inr (d # ds, accountValidatedCandidate payload (c_value c) @ spans))))
           | _ \<Rightarrow> (if whole c then Inl NotJsonObject else decisions_of parse payload cs)))"

definition parseProtectionDecision ::
  "(string \<Rightarrow> json option) \<Rightarrow> string \<Rightarrow> decision_error + protection_decision" where
  "parseProtectionDecision parse payload =
     (if trim payload = [] then Inl EmptyPayload
      else
        let regions = scanContainerRegions parse payload in
        case rejectDecisionOutsideEnvelope payload regions of
          Some e \<Rightarrow> Inl e
        | None \<Rightarrow>
            (case rejectDanglingDecisionKeys payload regions of
               Some e \<Rightarrow> Inl e
             | None \<Rightarrow>
                 (case decisions_of parse payload (extractJsonCandidates False payload) of
                    Inl e \<Rightarrow> Inl e
                  | Inr (ds, spans) \<Rightarrow>
                      (if list_ex (\<lambda>r. envelope r \<and> \<not> list_ex (within (r_start r)) spans) regions
                       then Inl InvalidEnvelope
                       else case ds of
                         [] \<Rightarrow> Inl InvalidEnvelope
                       | d # _ \<Rightarrow>
                           (if list_ex (\<lambda>d. decision d = PASS) ds \<and> list_ex (\<lambda>d. decision d = FAIL) ds
                            then Inl Contradictory else Inr d)))))"

end
