(* ===== verification/Tool_Decision_Spec.thy ===== *)
theory Tool_Decision_Spec
  imports Tool_Decision Review_Verdict_Spec
begin

text \<open>
  What an accepted verdict of the tool protection auditor rests on: one verdict, stated by a piece of
  the reply that is valid JSON, with no other text in the reply that looks like a decision.
\<close>

subsection \<open>Regions\<close>

lemma region_at_fields [simp]:
  "r_start (region_at parse payload i) = i" "r_open (region_at parse payload i) = payload ! i"
  by (simp_all add: region_at_def Let_def)

lemma region_at_end:
  assumes "i < length payload"
  shows "i < r_end (region_at parse payload i) \<and> r_end (region_at parse payload i) \<le> length payload"
  using assms matchContainerEnd_next [of payload i]
  by (cases "matchContainerEnd payload i") (auto simp: region_at_def Let_def or_else_def)

text \<open>Regions in order, without overlap, from an index on.\<close>

fun tiled :: "string \<Rightarrow> nat \<Rightarrow> region list \<Rightarrow> bool" where
  "tiled payload i [] \<longleftrightarrow> (\<forall>k. i \<le> k \<longrightarrow> k < length payload \<longrightarrow> \<not> opens (payload ! k))"
| "tiled payload i (r # rs) \<longleftrightarrow>
     i \<le> r_start r \<and> r_start r < r_end r \<and> r_end r \<le> length payload \<and> opens (payload ! r_start r)
     \<and> r_open r = payload ! r_start r
     \<and> (\<forall>k. i \<le> k \<longrightarrow> k < r_start r \<longrightarrow> \<not> opens (payload ! k)) \<and> tiled payload (r_end r) rs"

lemma tiled_weaken: "tiled payload (Suc i) rs \<Longrightarrow> \<not> opens (payload ! i) \<Longrightarrow> tiled payload i rs"
proof (cases rs)
  case Nil
  assume "tiled payload (Suc i) rs" "\<not> opens (payload ! i)"
  with Nil show ?thesis by simp (metis Suc_leI le_neq_implies_less)
next
  case (Cons r more)
  assume t: "tiled payload (Suc i) rs" "\<not> opens (payload ! i)"
  then have "\<not> opens (payload ! k)" if "i \<le> k" "k < r_start r" for k
    using that Cons by (cases "k = i") auto
  with t Cons show ?thesis by simp
qed

lemma scan_regions_tiled: "tiled payload i (scan_regions parse payload i)"
proof (induction parse payload i rule: scan_regions.induct)
  case (1 parse payload i)
  show ?case
  proof (cases "i \<ge> length payload \<or> \<not> opens (payload ! i)")
    case True
    with 1 show ?thesis
      by (subst scan_regions.simps) (auto simp del: scan_regions.simps intro: tiled_weaken)
  next
    case False
    then have "tiled payload (r_end (region_at parse payload i)) (scan_regions parse payload (r_end (region_at parse payload i)))"
      using 1(2) by auto
    with False region_at_end [of i payload parse] show ?thesis
      by (subst scan_regions.simps) (auto simp del: scan_regions.simps simp: Let_def)
  qed
qed

lemma tiled_covers:
  "tiled payload i rs \<Longrightarrow> i \<le> k \<Longrightarrow> k < length payload \<Longrightarrow> opens (payload ! k) \<Longrightarrow>
   \<exists>r \<in> set rs. within k (r_start r, r_end r)"
proof (induction rs arbitrary: i)
  case (Cons r rs)
  show ?case
  proof (cases "k < r_end r")
    case True
    with Cons.prems have "r_start r \<le> k" by (meson not_le tiled.simps(2))
    with True show ?thesis by (auto simp: within_def)
  next
    case False
    with Cons.prems Cons.IH [of "r_end r"] show ?thesis by auto
  qed
qed auto

subsection \<open>Keys outside the regions\<close>

lemma not_dangling:
  "\<not> dangling payload i rs \<Longrightarrow> tiled payload i' rs \<Longrightarrow> i' \<le> i \<Longrightarrow> i \<le> k \<Longrightarrow> k < length payload \<Longrightarrow>
   dangling_at payload k \<Longrightarrow> \<exists>r \<in> set rs. within k (r_start r, r_end r)"
proof (induction rs arbitrary: i i')
  case Nil
  then show ?case by (auto simp: rejectDanglingDecisionKey_def list_ex_iff)
next
  case (Cons r rs)
  show ?case
  proof (cases "r_start r \<le> k \<and> k < r_end r")
    case True
    then show ?thesis by (auto simp: within_def)
  next
    case False
    have "\<not> k < r_start r" using Cons.prems by (auto simp: rejectDanglingDecisionKey_def list_ex_iff)
    with False have "max i (r_end r) \<le> k" using Cons.prems(4) by auto
    with Cons.prems Cons.IH [of "max i (r_end r)" "r_end r"] show ?thesis by auto
  qed
qed

subsection \<open>Stated verdicts\<close>

fun value_text :: "decision_value \<Rightarrow> string" where
  "value_text PASS = ''PASS''"
| "value_text FAIL = ''FAIL''"

text \<open>\<open>j\<close> is a decision object that says exactly \<open>d\<close>.\<close>

definition states :: "json \<Rightarrow> protection_decision \<Rightarrow> bool" where
  "states j d \<longleftrightarrow>
     (\<exists>kvs. j = JObj kvs \<and> fst ` set kvs \<subseteq> {''decision'', ''reason''}
       \<and> map_of kvs ''decision'' = Some (JStr (value_text (decision d)))
       \<and> map_of kvs ''reason'' = map_option JStr (reason d)
       \<and> (\<forall>w. reason d = Some w \<longrightarrow> length w \<le> PROTECTION_DECISION_MAX_REASON_CHARS))"

lemma first_duplicate_None: "first_duplicate seen ks = None \<longleftrightarrow> distinct ks \<and> set seen \<inter> set ks = {}"
  by (induction seen ks rule: first_duplicate.induct) auto

lemma find_field_None:
  "find (\<lambda>k. k \<noteq> a \<and> k \<noteq> b) (map fst kvs) = None \<longleftrightarrow> fst ` set kvs \<subseteq> {a, b}"
  by (auto simp: find_None_iff)

lemma validateDecisionObject_Inr:
  assumes "validateDecisionObject kvs keys = Inr d"
  shows "states (JObj kvs) d \<and> distinct keys"
proof -
  have d: "distinct keys"
    using assms first_duplicate_None [of "[]" keys] by (auto simp: validateDecisionObject_def split: option.splits)
  have f: "fst ` set kvs \<subseteq> {''decision'', ''reason''}"
    using assms find_field_None [of "''decision''" "''reason''" kvs]
    by (auto simp: validateDecisionObject_def split: option.splits)
  have "map_of kvs ''decision'' = Some (JStr (value_text (decision d)))
       \<and> map_of kvs ''reason'' = map_option JStr (reason d)
       \<and> (\<forall>w. reason d = Some w \<longrightarrow> length w \<le> PROTECTION_DECISION_MAX_REASON_CHARS)"
    using assms by (auto simp: validateDecisionObject_def split: option.splits if_splits json.splits)
  with d f show ?thesis by (auto simp: states_def)
qed

lemma occurrences_slice:
  "(a, b) \<in> set (occurrences payload t i) \<Longrightarrow> slice payload a b = t"
proof (induction payload t i rule: occurrences.induct)
  case (1 payload t i)
  show ?case
  proof (cases "t = [] \<or> length payload < i + length t")
    case True
    with 1(2) show ?thesis by (subst (asm) occurrences.simps) simp
  next
    case False
    show ?thesis
    proof (cases "find_from (\<lambda>i. starts_with (drop i payload) t) i (length payload)")
      case None
      with 1(2) False show ?thesis by (subst (asm) occurrences.simps) simp
    next
      case (Some k)
      have "starts_with (drop k payload) t" using find_from_SomeD [OF Some] by simp
      then have "slice payload k (k + length t) = t"
        by (auto simp: slice_def starts_with_iff_prefix prefix_def)
      with 1(1) [OF False Some] 1(2) False Some show ?thesis
        by (subst (asm) occurrences.simps) (auto simp del: occurrences.simps)
    qed
  qed
qed

definition decides :: "(string \<Rightarrow> json option) \<Rightarrow> json_candidate \<Rightarrow> (string \<times> json) list \<Rightarrow> bool" where
  "decides parse c kvs \<longleftrightarrow>
     \<not> repaired c \<and> parse (c_value c) = Some (JObj kvs)
     \<and> (\<exists>keys. scanTopLevelKeys (c_value c) = Some keys \<and> DECISION \<in> set keys)"

lemma decisions_of_sound:
  assumes "decisions_of parse payload cs = Inr (ds, spans)"
  shows "(\<forall>d \<in> set ds. \<exists>c \<in> set cs. \<not> repaired c \<and> (\<exists>j. parse (c_value c) = Some j \<and> states j d))
    \<and> (\<forall>c \<in> set cs. \<forall>kvs. decides parse c kvs \<longrightarrow> (\<exists>d \<in> set ds. states (JObj kvs) d))
    \<and> (\<forall>(a, b) \<in> set spans. \<exists>d \<in> set ds. \<exists>j. parse (slice payload a b) = Some j \<and> states j d)"
  using assms
proof (induction cs arbitrary: ds spans)
  case (Cons c cs)
  show ?case
  proof (cases "repaired c")
    case True
    with Cons show ?thesis by (auto simp: decides_def)
  next
    case r: False
    show ?thesis
    proof (cases "parse (c_value c)")
      case None
      with r Cons show ?thesis by (auto simp: decides_def)
    next
      case (Some j)
      show ?thesis
      proof (cases "\<exists>kvs. j = JObj kvs")
        case False
        then have "decisions_of parse payload cs = Inr (ds, spans)"
          using Cons.prems r Some by (cases j) (auto split: if_splits)
        with Cons.IH False Some show ?thesis by (auto simp: decides_def)
      next
        case True
        then obtain kvs where j: "j = JObj kvs" by blast
        obtain keys where k: "scanTopLevelKeys (c_value c) = Some keys"
          using Cons.prems r Some j by (auto split: option.splits)
        show ?thesis
        proof (cases "DECISION \<notin> set keys \<and> \<not> whole c")
          case True
          then have "decisions_of parse payload cs = Inr (ds, spans)" using Cons.prems r Some j k by simp
          with Cons.IH True k show ?thesis by (auto simp: decides_def)
        next
          case False
          then obtain d ds' spans' where d: "validateDecisionObject kvs keys = Inr d"
            "decisions_of parse payload cs = Inr (ds', spans')" "ds = d # ds'"
            "spans = accountValidatedCandidate payload (c_value c) @ spans'"
            using Cons.prems r Some j k by (auto split: sum.splits prod.splits)
          have s: "states (JObj kvs) d" using validateDecisionObject_Inr [OF d(1)] by blast
          have sp: "parse (slice payload a b) = Some j" if "(a, b) \<in> set (accountValidatedCandidate payload (c_value c))" for a b
            using occurrences_slice that Some unfolding accountValidatedCandidate_def by metis
          show ?thesis
            using Cons.IH [OF d(2)] s sp r Some j d(3,4) by (fastforce simp: decides_def)
        qed
      qed
    qed
  qed
qed simp

lemma outside_envelope_None:
  "outside_envelope fs rs = None \<Longrightarrow> r \<in> set rs \<Longrightarrow> decisionBearing r \<Longrightarrow>
   complete r \<and> r_open r \<noteq> CHR ''['' \<and> \<not> decisionInArray r \<and> \<not> list_ex (within (r_start r)) fs"
  by (induction fs rs rule: outside_envelope.induct) (auto split: if_splits)

lemma parseProtectionDecision_Inr:
  assumes "parseProtectionDecision parse payload = Inr d"
  obtains ds spans where
    "rejectDecisionOutsideEnvelope payload (scanContainerRegions parse payload) = None"
    "rejectDanglingDecisionKeys payload (scanContainerRegions parse payload) = None"
    "decisions_of parse payload (extractJsonCandidates False payload) = Inr (d # ds, spans)"
    "\<forall>r \<in> set (scanContainerRegions parse payload). envelope r \<longrightarrow> list_ex (within (r_start r)) spans"
    "\<forall>e \<in> set ds. decision e = decision d"
proof -
  obtain ds' spans where *:
    "rejectDecisionOutsideEnvelope payload (scanContainerRegions parse payload) = None"
    "rejectDanglingDecisionKeys payload (scanContainerRegions parse payload) = None"
    "decisions_of parse payload (extractJsonCandidates False payload) = Inr (ds', spans)"
    "\<not> list_ex (\<lambda>r. envelope r \<and> \<not> list_ex (within (r_start r)) spans) (scanContainerRegions parse payload)"
    and e: "(case ds' of [] \<Rightarrow> Inl InvalidEnvelope | d # _ \<Rightarrow>
        (if list_ex (\<lambda>d. decision d = PASS) ds' \<and> list_ex (\<lambda>d. decision d = FAIL) ds'
         then Inl Contradictory else Inr d)) = Inr d"
    using assms by (auto simp: parseProtectionDecision_def Let_def split: if_splits option.splits sum.splits prod.splits)
  obtain ds where ds: "ds' = d # ds" "\<not> (list_ex (\<lambda>d. decision d = PASS) ds' \<and> list_ex (\<lambda>d. decision d = FAIL) ds')"
    using e by (auto split: list.splits if_splits)
  have "decision x = decision d" if "x \<in> set ds" for x
    using ds that by (cases "decision x"; cases "decision d") (auto simp: list_ex_iff)
  with * ds that show thesis by (auto simp: list_ex_iff)
qed

text \<open>Each part of what an accepted verdict means for the reply.\<close>

definition stated_in :: "(string \<Rightarrow> json option) \<Rightarrow> string \<Rightarrow> protection_decision \<Rightarrow> bool" where
  "stated_in parse payload d \<longleftrightarrow> (\<exists>t j. piece t payload \<and> parse t = Some j \<and> states j d)"

definition uncontradicted :: "(string \<Rightarrow> json option) \<Rightarrow> string \<Rightarrow> protection_decision \<Rightarrow> bool" where
  "uncontradicted parse payload d \<longleftrightarrow>
     (\<forall>c \<in> set (extractJsonCandidates False payload). \<forall>kvs. decides parse c kvs \<longrightarrow>
        map_of kvs ''decision'' = Some (JStr (value_text (decision d))))
     \<and> (\<forall>r \<in> set (scanContainerRegions parse payload). envelope r \<longrightarrow>
          (\<exists>a b j e. within (r_start r) (a, b) \<and> parse (slice payload a b) = Some j
             \<and> states j e \<and> decision e = decision d))"

definition nothing_hidden :: "(string \<Rightarrow> json option) \<Rightarrow> string \<Rightarrow> bool" where
  "nothing_hidden parse payload \<longleftrightarrow>
     (\<forall>k < length payload. dangling_at payload k \<longrightarrow>
        (\<exists>r \<in> set (scanContainerRegions parse payload). within k (r_start r, r_end r)))
     \<and> (\<forall>r \<in> set (scanContainerRegions parse payload). decisionBearing r \<longrightarrow>
          complete r \<and> r_open r = CHR ''{'' \<and> \<not> decisionInArray r
          \<and> (\<forall>f \<in> set (foreignLanguageFenceRanges payload). \<not> within (r_start r) f))"

lemma tiled_opens: "tiled payload i rs \<Longrightarrow> r \<in> set rs \<Longrightarrow> opens (r_open r)"
  by (induction rs arbitrary: i) auto

text \<open>
  C4. The auditor's verdict is taken only when it is unambiguous.  If a reply is accepted with a verdict,
  a piece of the reply is, as it stands, a JSON object that states exactly this verdict and reason and
  nothing else; every other decision object found in the reply, and every container of it with a
  decision field, states the same verdict; and no text that looks like a decision is left elsewhere: a
  decision key stands only in a container that is one complete JSON object, outside arrays and outside
  fences of another language.  Nothing is assumed of the parser.
\<close>
theorem accepted_decision_is_unambiguous:
  assumes "parseProtectionDecision parse payload = Inr d"
  shows "stated_in parse payload d \<and> uncontradicted parse payload d \<and> nothing_hidden parse payload"
proof -
  define rs where "rs = scanContainerRegions parse payload"
  obtain ds spans where p: "rejectDecisionOutsideEnvelope payload rs = None" "rejectDanglingDecisionKeys payload rs = None"
    "decisions_of parse payload (extractJsonCandidates False payload) = Inr (d # ds, spans)"
    "\<forall>r \<in> set rs. envelope r \<longrightarrow> list_ex (within (r_start r)) spans" "\<forall>e \<in> set ds. decision e = decision d"
    unfolding rs_def using assms by (rule parseProtectionDecision_Inr)
  note s = decisions_of_sound [OF p(3)]
  have same: "decision e = decision d" if "e \<in> set (d # ds)" for e using p(5) that by auto
  have tiled: "tiled payload 0 rs" unfolding rs_def scanContainerRegions_def by (rule scan_regions_tiled)
  have "stated_in parse payload d"
  proof -
    obtain c j where "c \<in> set (extractJsonCandidates False payload)" "\<not> repaired c" "parse (c_value c) = Some j" "states j d"
      using s by auto
    then show ?thesis using extractJsonCandidates_honest [of payload False] unfolding stated_in_def honest_def by blast
  qed
  moreover have "uncontradicted parse payload d"
  proof -
    have "map_of kvs ''decision'' = Some (JStr (value_text (decision d)))"
      if c: "c \<in> set (extractJsonCandidates False payload)" "decides parse c kvs" for c kvs
    proof -
      obtain e where e: "e \<in> set (d # ds)" "states (JObj kvs) e" using s c by blast
      have "map_of kvs ''decision'' = Some (JStr (value_text (decision e)))" using e(2) unfolding states_def by blast
      then show ?thesis unfolding same [OF e(1)] .
    qed
    moreover have "\<exists>a b j e. within (r_start r) (a, b) \<and> parse (slice payload a b) = Some j \<and> states j e \<and> decision e = decision d"
      if r: "r \<in> set rs" "envelope r" for r
    proof -
      obtain a b where "(a, b) \<in> set spans" "within (r_start r) (a, b)" using p(4) r by (auto simp: list_ex_iff)
      with s same show ?thesis by blast
    qed
    ultimately show ?thesis unfolding uncontradicted_def rs_def by blast
  qed
  moreover have "nothing_hidden parse payload"
  proof -
    have "\<exists>r \<in> set rs. within k (r_start r, r_end r)" if "k < length payload" "dangling_at payload k" for k
      using not_dangling [of payload 0 rs 0 k] p(2) tiled that
      by (auto simp: rejectDanglingDecisionKeys_def split: if_splits)
    moreover have "complete r \<and> r_open r = CHR ''{'' \<and> \<not> decisionInArray r
          \<and> (\<forall>f \<in> set (foreignLanguageFenceRanges payload). \<not> within (r_start r) f)"
      if "r \<in> set rs" "decisionBearing r" for r
      using outside_envelope_None [of _ rs r] p(1) tiled_opens [OF tiled that(1)] that
      by (auto simp: rejectDecisionOutsideEnvelope_def opens_def list_ex_iff)
    ultimately show ?thesis unfolding nothing_hidden_def rs_def by blast
  qed
  ultimately show ?thesis by blast
qed

definition demo_reply :: string where
  "demo_reply = ''ok '' @ ''{'' @ [QUOTE] @ ''decision'' @ [QUOTE] @ '':'' @ [QUOTE] @ ''PASS'' @ [QUOTE] @ ''}''"

definition pass_parse :: parser where
  "pass_parse s = (if s = drop 3 demo_reply then Some (JObj [(''decision'', JStr ''PASS'')]) else None)"

theorem accepted_decision_is_unambiguous_witness:
  "parseProtectionDecision pass_parse demo_reply = Inr \<lparr>decision = PASS, reason = None\<rparr>
   \<and> stated_in pass_parse demo_reply \<lparr>decision = PASS, reason = None\<rparr>
   \<and> nothing_hidden pass_parse demo_reply"
proof -
  have *: "parseProtectionDecision pass_parse demo_reply = Inr \<lparr>decision = PASS, reason = None\<rparr>" by code_simp
  from * accepted_decision_is_unambiguous [OF *] show ?thesis by blast
qed

text \<open>
  The containers that are checked are all there are: they follow one another without overlap, each
  opens with a bracket and ends inside the reply, and every bracket that opens lies in one of them.
\<close>
lemma regions_cover_every_bracket:
  "tiled payload 0 (scanContainerRegions parse payload)
   \<and> {k. k < length payload \<and> opens (payload ! k)}
       \<subseteq> (\<Union>r \<in> set (scanContainerRegions parse payload). {r_start r..<r_end r})"
proof (intro conjI subsetI)
  show "tiled payload 0 (scanContainerRegions parse payload)"
    unfolding scanContainerRegions_def by (rule scan_regions_tiled)
  fix k assume "k \<in> {k. k < length payload \<and> opens (payload ! k)}"
  with tiled_covers [OF scan_regions_tiled, of 0 k payload parse]
  show "k \<in> (\<Union>r \<in> set (scanContainerRegions parse payload). {r_start r..<r_end r})"
    by (auto simp: scanContainerRegions_def within_def)
qed

end
