(* ===== verification/Pending_Questions.thy ===== *)
theory Pending_Questions
  imports Prelude "HOL-Library.AList"
begin

text \<open>
  The questions and notices that wait for the user in one session:
  \<open>src/src/user-question/controller.ts\<close>.  A session manager, a notice record and a promise are objects;
  they are numbers here, new ones from the counter \<open>objects\<close>.  What the host answers (whether the
  interface is available, notices are enabled, the agent is idle, the sender exists) is an argument.  The
  callbacks a notice request makes on the way may do anything to the state: they are functions.  Promises
  and messages are recorded: \<open>results\<close> has the result of each settled promise, \<open>sent\<close> the messages
  with the session that was bound when they were sent.
\<close>

datatype question_mode = Async | Sync
datatype outcome = Answered string bool | Declined | Interrupted | Settled
datatype submit_status = Delivered | StatusDeclined | Rejected

record pending_question =
  pq_id :: string
  pq_toolCallId :: string
  pq_question :: string
  pq_choices :: "string list"
  pq_mode :: question_mode
  pq_session :: nat

record pending_notice =
  pn_object :: nat
  pn_id :: string
  pn_toolCallId :: string
  pn_title :: string
  pn_body :: string
  pn_context :: "string option"
  pn_session :: nat

datatype pending_input = Question pending_question | Notice pending_notice

text \<open>
  A message to the model.  \<open>AnswerTo\<close> quotes the question, bounded, with an ellipsis when it is cut.
\<close>

datatype message = AnswerTo string bool string | DetailsOf string string "string option"

record world =
  pending :: "(string \<times> pending_input) list"
  waiters :: "(string \<times> nat) list"
  listeners :: "(nat \<times> string) list"
  noticeDetailsInFlight :: "(string \<times> nat) list"
  currentIdentity :: "nat option"
  sessionEpoch :: nat
  nextId :: nat
  nextNoticeId :: nat
  objects :: nat
  promises :: "nat list"
  results :: "(nat \<times> outcome) list"
  sent :: "(nat \<times> message \<times> bool) list"

definition new_world :: world where
  "new_world = \<lparr>pending = [], waiters = [], listeners = [], noticeDetailsInFlight = [], currentIdentity = None,
     sessionEpoch = 0, nextId = 1, nextNoticeId = 1, objects = 0, promises = [], results = [], sent = []\<rparr>"

definition MAX_QUESTION_CHARS :: nat where "MAX_QUESTION_CHARS = 2000"
definition MAX_CHOICE_COUNT :: nat where "MAX_CHOICE_COUNT = 12"
definition MAX_CHOICE_CHARS :: nat where "MAX_CHOICE_CHARS = 300"
definition DELIVERY_QUESTION_BOUND :: nat where "DELIVERY_QUESTION_BOUND = 200"

subsection \<open>Promises and messages\<close>

text \<open>A promise keeps its first result; its abort listener is removed.\<close>

definition settleWaiter :: "nat \<Rightarrow> outcome \<Rightarrow> world \<Rightarrow> world" where
  "settleWaiter n r w =
     w\<lparr>listeners := AList.delete n (listeners w),
       results := (if n \<in> fst ` set (results w) then results w else (n, r) # results w)\<rparr>"

definition settle_all :: "world \<Rightarrow> world" where
  "settle_all w = fold (\<lambda>(_, n). settleWaiter n Settled) (waiters w) w"

definition clear_pending :: "world \<Rightarrow> world" where
  "clear_pending w = w\<lparr>waiters := [], pending := [], noticeDetailsInFlight := []\<rparr>"

definition send_message :: "message \<Rightarrow> bool \<Rightarrow> world \<Rightarrow> world" where
  "send_message m steer w =
     (case currentIdentity w of None \<Rightarrow> w | Some s \<Rightarrow> w\<lparr>sent := (s, m, steer) # sent w\<rparr>)"

subsection \<open>Sessions\<close>

definition beginSession :: "nat option \<Rightarrow> world \<Rightarrow> bool \<times> world" where
  "beginSession identity w =
     (let w1 = w\<lparr>sessionEpoch := Suc (sessionEpoch w)\<rparr> in
      case identity of
        None \<Rightarrow> (False, w1\<lparr>currentIdentity := None\<rparr>)
      | Some i \<Rightarrow> (True, (clear_pending (settle_all w1))\<lparr>nextId := 1, nextNoticeId := 1, currentIdentity := Some i\<rparr>))"

definition endSession :: "world \<Rightarrow> world" where
  "endSession w = (clear_pending (settle_all (w\<lparr>sessionEpoch := Suc (sessionEpoch w)\<rparr>)))\<lparr>currentIdentity := None\<rparr>"

definition isSessionBound :: "bool \<Rightarrow> nat \<Rightarrow> world \<Rightarrow> bool" where
  "isSessionBound uiAvailable identity w \<longleftrightarrow> uiAvailable \<and> currentIdentity w = Some identity"

subsection \<open>Registration\<close>

datatype register_error = Unavailable | IdentityMismatch | Invalid | FeatureDisabled

text \<open>An absent list of choices is the empty one.\<close>

definition normalizeChoices :: "string list option \<Rightarrow> string list option" where
  "normalizeChoices choices =
     (case choices of
        None \<Rightarrow> Some []
      | Some cs \<Rightarrow>
          (if length cs > MAX_CHOICE_COUNT then None
           else if list_all (\<lambda>c. trim c \<noteq> [] \<and> length (trim c) \<le> MAX_CHOICE_CHARS) cs then Some (map trim cs)
           else None))"

definition question_id :: "nat \<Rightarrow> string" where "question_id n = CHR ''q'' # nat_str n"
definition notice_id :: "nat \<Rightarrow> string" where "notice_id n = CHR ''n'' # nat_str n"

record question_input =
  qi_toolCallId :: string
  qi_question :: string
  qi_choices :: "string list option"
  qi_mode :: question_mode

definition put_pending :: "string \<Rightarrow> pending_input \<Rightarrow> world \<Rightarrow> world" where
  "put_pending k p w = w\<lparr>pending := AList.update k p (pending w)\<rparr>"

definition register ::
  "bool \<Rightarrow> question_input \<Rightarrow> nat option \<Rightarrow> world \<Rightarrow> (register_error + pending_question) \<times> world" where
  "register uiAvailable input ctxIdentity w =
     (if \<not> uiAvailable then (Inl Unavailable, w)
      else case currentIdentity w of
        None \<Rightarrow> (Inl Unavailable, w)
      | Some s \<Rightarrow>
          (if ctxIdentity \<noteq> Some s then (Inl IdentityMismatch, w)
           else
             let q = trim (qi_question input) in
             if q = [] \<or> length q > MAX_QUESTION_CHARS then (Inl Invalid, w)
             else case normalizeChoices (qi_choices input) of
               None \<Rightarrow> (Inl Invalid, w)
             | Some choices \<Rightarrow>
                 (let rec = \<lparr>pq_id = question_id (nextId w), pq_toolCallId = qi_toolCallId input, pq_question = q,
                             pq_choices = choices, pq_mode = qi_mode input, pq_session = s\<rparr> in
                  (Inr rec, put_pending (pq_id rec) (Question rec) (w\<lparr>nextId := Suc (nextId w)\<rparr>)))))"

record notice_input =
  ni_toolCallId :: string
  ni_title :: string
  ni_body :: string
  ni_context :: "string option"

definition registerNotice ::
  "bool \<Rightarrow> bool \<Rightarrow> notice_input \<Rightarrow> nat option \<Rightarrow> world \<Rightarrow> (register_error + pending_notice) \<times> world" where
  "registerNotice uiAvailable featureEnabled input ctxIdentity w =
     (if \<not> uiAvailable then (Inl Unavailable, w)
      else if \<not> featureEnabled then (Inl FeatureDisabled, w)
      else case currentIdentity w of
        None \<Rightarrow> (Inl Unavailable, w)
      | Some s \<Rightarrow>
          (if ctxIdentity \<noteq> Some s then (Inl IdentityMismatch, w)
           else if trim (ni_title input) = [] \<or> trim (ni_body input) = [] then (Inl Invalid, w)
           else
             let rec = \<lparr>pn_object = objects w, pn_id = notice_id (nextNoticeId w), pn_toolCallId = ni_toolCallId input,
                        pn_title = ni_title input, pn_body = ni_body input, pn_context = ni_context input, pn_session = s\<rparr> in
             (Inr rec, put_pending (pn_id rec) (Notice rec)
                (w\<lparr>nextNoticeId := Suc (nextNoticeId w), objects := Suc (objects w)\<rparr>))))"

subsection \<open>Actions of the user\<close>

definition session_of :: "pending_input \<Rightarrow> nat" where
  "session_of p = (case p of Question q \<Rightarrow> pq_session q | Notice n \<Rightarrow> pn_session n)"

definition belongsToCurrentSession :: "pending_input \<Rightarrow> world \<Rightarrow> bool" where
  "belongsToCurrentSession p w \<longleftrightarrow> currentIdentity w = Some (session_of p)"

definition remove_pending :: "string \<Rightarrow> world \<Rightarrow> world" where
  "remove_pending k w = w\<lparr>pending := AList.delete k (pending w)\<rparr>"

definition boundQuestion :: "string \<Rightarrow> string \<times> bool" where
  "boundQuestion q =
     (if length q \<le> DELIVERY_QUESTION_BOUND then (q, False) else (take (DELIVERY_QUESTION_BOUND - 1) q, True))"

definition formatAnswerDelivery :: "string \<Rightarrow> string \<Rightarrow> message" where
  "formatAnswerDelivery q a = AnswerTo (fst (boundQuestion q)) (snd (boundQuestion q)) a"

text \<open>\<open>idle\<close> is \<open>None\<close> when the probe throws; nothing is sent then.\<close>

definition deliverAsyncAnswer :: "bool \<Rightarrow> bool option \<Rightarrow> pending_question \<Rightarrow> string \<Rightarrow> world \<Rightarrow> world" where
  "deliverAsyncAnswer canSend idle q a w =
     (if \<not> canSend \<or> \<not> belongsToCurrentSession (Question q) w then w
      else case idle of
        None \<Rightarrow> w
      | Some i \<Rightarrow> send_message (formatAnswerDelivery (pq_question q) a) (\<not> i) w)"

definition live_question :: "string \<Rightarrow> world \<Rightarrow> pending_question option" where
  "live_question k w =
     (case map_of (pending w) k of
        Some (Question q) \<Rightarrow> (if belongsToCurrentSession (Question q) w then Some q else None)
      | _ \<Rightarrow> None)"

definition live_notice :: "string \<Rightarrow> world \<Rightarrow> pending_notice option" where
  "live_notice k w =
     (case map_of (pending w) k of
        Some (Notice n) \<Rightarrow> (if belongsToCurrentSession (Notice n) w then Some n else None)
      | _ \<Rightarrow> None)"

definition submitAnswer ::
  "bool \<Rightarrow> bool option \<Rightarrow> string \<Rightarrow> string \<Rightarrow> world \<Rightarrow> (submit_status \<times> bool) \<times> world" where
  "submitAnswer canSend idle k raw w =
     (case live_question k w of
        None \<Rightarrow> ((Rejected, pending w = []), w)
      | Some q \<Rightarrow>
          (let a = trim raw in
           if a = [] then ((Rejected, False), w)
           else
             let w1 = remove_pending k w in
             case pq_mode q of
               Sync \<Rightarrow>
                 (case map_of (waiters w1) k of
                    None \<Rightarrow> ((Rejected, pending w1 = []), w1)
                  | Some n \<Rightarrow>
                      (let w2 = settleWaiter n (Answered a (a \<in> set (pq_choices q))) w1 in
                       ((Delivered, pending w1 = []), w2\<lparr>waiters := AList.delete k (waiters w2)\<rparr>)))
             | Async \<Rightarrow>
                 ((Delivered, pending w1 = []), deliverAsyncAnswer canSend idle q a w1)))"

definition submitDecline :: "string \<Rightarrow> world \<Rightarrow> (submit_status \<times> bool) \<times> world" where
  "submitDecline k w =
     (case live_question k w of
        None \<Rightarrow> ((Rejected, pending w = []), w)
      | Some q \<Rightarrow>
          (let w1 = remove_pending k w;
               w2 = (case (if pq_mode q = Sync then map_of (waiters w1) k else None) of
                       None \<Rightarrow> w1
                     | Some n \<Rightarrow> (let w3 = settleWaiter n Declined w1 in w3\<lparr>waiters := AList.delete k (waiters w3)\<rparr>)) in
           ((StatusDeclined, pending w1 = []), w2)))"

definition closeNotice :: "string \<Rightarrow> world \<Rightarrow> bool \<times> world" where
  "closeNotice k w = (case live_notice k w of None \<Rightarrow> (False, w) | Some n \<Rightarrow> (True, remove_pending k w))"

text \<open>
  A request for details.  \<open>expected\<close> is the object of the notice the popup showed.  The state change
  callback of the removal and the idle probe may do anything; \<open>ui\<close> answers whether the interface is
  available, each time it is asked.
\<close>

record details_host =
  ui :: "world \<Rightarrow> bool"
  during_remove :: "world \<Rightarrow> world"
  can_send :: bool
  idle_probe :: "(world \<Rightarrow> bool option \<times> world) option"

definition still_consumed :: "details_host \<Rightarrow> nat \<Rightarrow> pending_notice \<Rightarrow> string \<Rightarrow> world \<Rightarrow> bool" where
  "still_consumed h epoch n k w \<longleftrightarrow>
     sessionEpoch w = epoch \<and> currentIdentity w = Some (pn_session n) \<and> k \<notin> fst ` set (pending w)
     \<and> isSessionBound (ui h w) (pn_session n) w"

definition end_details :: "string \<Rightarrow> nat \<Rightarrow> world \<Rightarrow> world" where
  "end_details k obj w =
     (if map_of (noticeDetailsInFlight w) k = Some obj
      then w\<lparr>noticeDetailsInFlight := AList.delete k (noticeDetailsInFlight w)\<rparr> else w)"

definition formatNoticeDetailsDelivery :: "pending_notice \<Rightarrow> message" where
  "formatNoticeDetailsDelivery n = DetailsOf (pn_title n) (pn_body n) (pn_context n)"

definition details_body :: "details_host \<Rightarrow> pending_notice \<Rightarrow> string \<Rightarrow> nat \<Rightarrow> world \<Rightarrow> bool \<times> world" where
  "details_body h n k epoch w =
     (let w1 = during_remove h (remove_pending k w) in
      if \<not> still_consumed h epoch n k w1 then (False, w1)
      else if \<not> can_send h then (False, w1)
      else
        let (idle, w2) = (case idle_probe h of None \<Rightarrow> (Some True, w1) | Some probe \<Rightarrow> probe w1) in
        case idle of
          None \<Rightarrow> (False, w2)
        | Some i \<Rightarrow>
            (if \<not> still_consumed h epoch n k w2 then (False, w2)
             else (True, send_message (formatNoticeDetailsDelivery n) (\<not> i) w2)))"

definition requestNoticeDetails ::
  "details_host \<Rightarrow> string \<Rightarrow> nat option \<Rightarrow> world \<Rightarrow> bool \<times> world" where
  "requestNoticeDetails h k expected w =
     (case live_notice k w of
        None \<Rightarrow> (False, w)
      | Some n \<Rightarrow>
          (if (case expected of None \<Rightarrow> False | Some e \<Rightarrow> e \<noteq> pn_object n)
              \<or> \<not> isSessionBound (ui h w) (pn_session n) w
              \<or> map_of (noticeDetailsInFlight w) k = Some (pn_object n)
           then (False, w)
           else
             let (ok, w1) = details_body h n k (sessionEpoch w)
                   (w\<lparr>noticeDetailsInFlight := AList.update k (pn_object n) (noticeDetailsInFlight w)\<rparr>) in
             (ok, end_details k (pn_object n) w1)))"

subsection \<open>Waiting\<close>

datatype abort_signal = NoSignal | SignalAborted | SignalLive

text \<open>The promise of a wait is a new object.\<close>

definition waitForAnswer :: "string \<Rightarrow> abort_signal \<Rightarrow> world \<Rightarrow> nat \<times> world" where
  "waitForAnswer k signal w =
     (let n = objects w; w1 = w\<lparr>objects := Suc n, promises := n # promises w\<rparr> in
      case live_question k w of
        None \<Rightarrow> (n, settleWaiter n Settled w1)
      | Some q \<Rightarrow>
          (if pq_mode q \<noteq> Sync then (n, settleWaiter n Settled w1)
           else
             let w2 = w1\<lparr>waiters := AList.update k n (waiters w1)\<rparr> in
             case signal of
               NoSignal \<Rightarrow> (n, w2)
             | SignalAborted \<Rightarrow> (n, settleWaiter n Interrupted (remove_pending k w2))
             | SignalLive \<Rightarrow> (n, w2\<lparr>listeners := AList.update n k (listeners w2)\<rparr>)))"

text \<open>The signal of a wait fires; its listener runs once.\<close>

definition abort_wait :: "nat \<Rightarrow> world \<Rightarrow> world" where
  "abort_wait n w =
     (case map_of (listeners w) n of
        None \<Rightarrow> w
      | Some k \<Rightarrow> settleWaiter n Interrupted (remove_pending k (w\<lparr>waiters := AList.delete k (waiters w)\<rparr>)))"

end
