(* ===== verification/Pending_Questions_Spec.thy ===== *)
theory Pending_Questions_Spec
  imports Pending_Questions
begin

text \<open>
  What the questions and notices of a session promise.  An answer that reaches a waiting tool was typed
  by the user for that very question; every wait is settled when its session ends; what is pending belongs
  to the current session; a notice request sends its details to the session that created the notice,
  whatever the callbacks of the host did meanwhile.

  \<open>user_op\<close> is an operation without callbacks, \<open>op_step\<close> one such operation as the tools call it
  (\<open>user-question/tool.ts\<close> registers a question and waits for it once), \<open>user_step\<close> adds the request
  for details whose callbacks run operations themselves.
\<close>

datatype user_op =
    BeginSession "nat option"
  | EndSession
  | Register bool question_input "nat option"
  | RegisterNotice bool bool notice_input "nat option"
  | SubmitAnswer bool "bool option" string string
  | SubmitDecline string
  | CloseNotice string
  | WaitForAnswer string abort_signal
  | AbortWait nat

fun perform :: "user_op \<Rightarrow> world \<Rightarrow> world" where
  "perform (BeginSession i) w = snd (beginSession i w)"
| "perform EndSession w = endSession w"
| "perform (Register available input i) w = snd (register available input i w)"
| "perform (RegisterNotice available feature input i) w = snd (registerNotice available feature input i w)"
| "perform (SubmitAnswer send idle k raw) w = snd (submitAnswer send idle k raw w)"
| "perform (SubmitDecline k) w = snd (submitDecline k w)"
| "perform (CloseNotice k) w = snd (closeNotice k w)"
| "perform (WaitForAnswer k signal) w = snd (waitForAnswer k signal w)"
| "perform (AbortWait n) w = abort_wait n w"

definition waits_once :: "user_op \<Rightarrow> world \<Rightarrow> bool" where
  "waits_once op w = (case op of WaitForAnswer k signal \<Rightarrow> map_of (waiters w) k = None | _ \<Rightarrow> True)"

inductive op_step :: "world \<Rightarrow> world \<Rightarrow> bool" where
  perform: "waits_once op w \<Longrightarrow> op_step w (perform op w)"

definition runs_operations :: "(world \<Rightarrow> world) \<Rightarrow> bool" where
  "runs_operations f \<longleftrightarrow> (\<forall>w. op_step\<^sup>*\<^sup>* w (f w))"

definition well_behaved_host :: "details_host \<Rightarrow> bool" where
  "well_behaved_host h \<longleftrightarrow>
     runs_operations (during_remove h)
     \<and> (case idle_probe h of None \<Rightarrow> True | Some probe \<Rightarrow> runs_operations (\<lambda>w. snd (probe w)))"

inductive user_step :: "world \<Rightarrow> world \<Rightarrow> bool" where
  operation: "op_step w w' \<Longrightarrow> user_step w w'"
| details: "well_behaved_host h \<Longrightarrow> user_step w (snd (requestNoticeDetails h k expected w))"

subsection \<open>Settling\<close>

lemma settleWaiter_simps [simp]:
  "pending (settleWaiter n r w) = pending w" "waiters (settleWaiter n r w) = waiters w"
  "promises (settleWaiter n r w) = promises w" "currentIdentity (settleWaiter n r w) = currentIdentity w"
  "sessionEpoch (settleWaiter n r w) = sessionEpoch w" "sent (settleWaiter n r w) = sent w"
  "listeners (settleWaiter n r w) = AList.delete n (listeners w)"
  "noticeDetailsInFlight (settleWaiter n r w) = noticeDetailsInFlight w" "objects (settleWaiter n r w) = objects w"
  by (simp_all add: settleWaiter_def)

lemma settleWaiter_settles [simp]: "fst ` set (results (settleWaiter n r w)) = insert n (fst ` set (results w))"
  by (auto simp: settleWaiter_def)

lemma settle_fold:
  defines "settle \<equiv> \<lambda>(k :: string, n). settleWaiter n Settled"
  shows "pending (fold settle xs w) = pending w" "waiters (fold settle xs w) = waiters w"
    "promises (fold settle xs w) = promises w" "currentIdentity (fold settle xs w) = currentIdentity w"
    "sent (fold settle xs w) = sent w" "objects (fold settle xs w) = objects w"
    "fst ` set (results (fold settle xs w)) = snd ` set xs \<union> fst ` set (results w)"
    "map_of (listeners (fold settle xs w)) m = (if m \<in> snd ` set xs then None else map_of (listeners w) m)"
  unfolding settle_def by (induction xs arbitrary: w) (simp_all add: split_beta AList.delete_conv)

lemma settle_all_simps [simp]:
  "pending (settle_all w) = pending w" "waiters (settle_all w) = waiters w" "promises (settle_all w) = promises w"
  "currentIdentity (settle_all w) = currentIdentity w" "sent (settle_all w) = sent w"
  "fst ` set (results (settle_all w)) = snd ` set (waiters w) \<union> fst ` set (results w)"
  "map_of (listeners (settle_all w)) m = (if m \<in> snd ` set (waiters w) then None else map_of (listeners w) m)"
  unfolding settle_all_def by (rule settle_fold)+

lemma clear_pending_simps [simp]:
  "pending (clear_pending w) = []" "waiters (clear_pending w) = []" "promises (clear_pending w) = promises w"
  "results (clear_pending w) = results w" "listeners (clear_pending w) = listeners w" "sent (clear_pending w) = sent w"
  by (simp_all add: clear_pending_def)

lemma send_message_simps [simp]:
  "pending (send_message m s w) = pending w" "waiters (send_message m s w) = waiters w"
  "promises (send_message m s w) = promises w" "results (send_message m s w) = results w"
  "listeners (send_message m s w) = listeners w" "currentIdentity (send_message m s w) = currentIdentity w"
  by (simp_all add: send_message_def split: option.splits)

lemma deliverAsyncAnswer_simps [simp]:
  "pending (deliverAsyncAnswer c i q a w) = pending w" "waiters (deliverAsyncAnswer c i q a w) = waiters w"
  "promises (deliverAsyncAnswer c i q a w) = promises w" "results (deliverAsyncAnswer c i q a w) = results w"
  "listeners (deliverAsyncAnswer c i q a w) = listeners w"
  "currentIdentity (deliverAsyncAnswer c i q a w) = currentIdentity w"
  by (auto simp: deliverAsyncAnswer_def split: option.splits)

lemma remove_pending_simps [simp]:
  "pending (remove_pending k w) = AList.delete k (pending w)" "waiters (remove_pending k w) = waiters w"
  "promises (remove_pending k w) = promises w" "results (remove_pending k w) = results w"
  "listeners (remove_pending k w) = listeners w" "currentIdentity (remove_pending k w) = currentIdentity w"
  "sessionEpoch (remove_pending k w) = sessionEpoch w" "sent (remove_pending k w) = sent w"
  by (simp_all add: remove_pending_def)

lemma put_pending_simps [simp]:
  "pending (put_pending k p w) = AList.update k p (pending w)" "waiters (put_pending k p w) = waiters w"
  "promises (put_pending k p w) = promises w" "results (put_pending k p w) = results w"
  "listeners (put_pending k p w) = listeners w" "currentIdentity (put_pending k p w) = currentIdentity w"
  "sent (put_pending k p w) = sent w"
  by (simp_all add: put_pending_def)

subsection \<open>The invariant\<close>

text \<open>
  Every promise is settled or held by a waiter; a listener belongs to the waiter of its id; what is
  pending while a session is bound was created in it.
\<close>

definition settled :: "world \<Rightarrow> nat set" where "settled w = fst ` set (results w)"

definition all_settled :: "world \<Rightarrow> bool" where "all_settled w \<longleftrightarrow> set (promises w) \<subseteq> settled w"

definition waits_held :: "world \<Rightarrow> bool" where
  "waits_held w \<longleftrightarrow>
     (\<forall>n. n \<in> set (promises w) \<longrightarrow> n \<in> settled w \<or> (\<exists>k. map_of (waiters w) k = Some n))
     \<and> (\<forall>n k. map_of (listeners w) n = Some k \<longrightarrow> map_of (waiters w) k = Some n)"

definition session_local :: "world \<Rightarrow> bool" where
  "session_local w \<longleftrightarrow>
     (case currentIdentity w of None \<Rightarrow> True | Some s \<Rightarrow> session_of ` ran (map_of (pending w)) \<subseteq> {s})"

definition questions_inv :: "world \<Rightarrow> bool" where
  "questions_inv w \<longleftrightarrow> waits_held w \<and> session_local w"

lemma live_question_SomeD:
  "live_question k w = Some q \<Longrightarrow> map_of (pending w) k = Some (Question q) \<and> currentIdentity w = Some (pq_session q)"
  by (auto simp: live_question_def belongsToCurrentSession_def session_of_def split: option.splits pending_input.splits if_splits)

lemma live_notice_SomeD:
  "live_notice k w = Some n \<Longrightarrow> map_of (pending w) k = Some (Notice n) \<and> currentIdentity w = Some (pn_session n)"
  by (auto simp: live_notice_def belongsToCurrentSession_def session_of_def split: option.splits pending_input.splits if_splits)

lemma session_local_new:
  assumes "session_local w" and "currentIdentity w = Some (session_of p)"
    and "pending w' = AList.update k p (pending w)" "currentIdentity w' = currentIdentity w"
  shows "session_local w'"
  using assms by (auto simp: session_local_def AList.update_conv' ran_def split: if_splits)

lemma session_local_fewer:
  assumes "session_local w" and "ran (map_of (pending w')) \<subseteq> ran (map_of (pending w))"
    and "currentIdentity w' = None \<or> currentIdentity w' = currentIdentity w \<or> pending w' = []"
  shows "session_local w'"
  using assms by (auto simp: session_local_def split: option.splits) blast+

lemma ran_delete: "ran (map_of (AList.delete k xs)) \<subseteq> ran (map_of xs)"
  by (auto simp: AList.delete_conv ran_def)

lemma waits_held_same:
  assumes "waits_held w" "promises w' = promises w" "results w' = results w" "waiters w' = waiters w" "listeners w' = listeners w"
  shows "waits_held w'"
  using assms by (simp add: waits_held_def settled_def)

text \<open>A waiter that is settled leaves the table together with its listener.\<close>

lemma waits_held_settle:
  assumes "waits_held w" "promises w' = promises w" "settled w' = insert n (settled w)"
    and "waiters w' = AList.delete k (waiters w)" "listeners w' = AList.delete n (listeners w)"
    and "map_of (waiters w) k = Some n"
  shows "waits_held w'"
  using assms unfolding waits_held_def by (auto simp: AList.delete_conv) (metis option.inject)+

lemma waits_held_cleared:
  assumes "waits_held w" "promises w' = promises w" "settled w' = snd ` set (waiters w) \<union> settled w"
    and "waiters w' = []" "\<And>m. map_of (listeners w') m = (if m \<in> snd ` set (waiters w) then None else map_of (listeners w) m)"
  shows "waits_held w'" "all_settled w'"
proof -
  have ran: "map_of (waiters w) k = Some n \<Longrightarrow> n \<in> snd ` set (waiters w)" for k n
    by (auto dest!: map_of_SomeD intro: rev_image_eqI)
  show "all_settled w'" using assms(1,2,3) ran by (auto simp: all_settled_def waits_held_def)
  moreover have "map_of (listeners w') m = None" for m
  proof (cases "map_of (listeners w) m")
    case (Some k)
    then have "map_of (waiters w) k = Some m" using assms(1) by (simp add: waits_held_def)
    then have "m \<in> snd ` set (waiters w)" by (rule ran)
    then show ?thesis using assms(5) by simp
  qed (simp add: assms(5))
  ultimately show "waits_held w'" by (auto simp: waits_held_def all_settled_def)
qed


subsection \<open>Every operation keeps the invariant\<close>

lemma begin_keeps: "questions_inv w \<Longrightarrow> questions_inv (snd (beginSession i w))"
proof (cases i)
  case None
  assume "questions_inv w"
  with None show ?thesis
    by (auto simp: beginSession_def questions_inv_def session_local_def intro: waits_held_same)
next
  case (Some s)
  assume inv: "questions_inv w"
  let ?v = "w\<lparr>sessionEpoch := Suc (sessionEpoch w)\<rparr>"
  have "waits_held (snd (beginSession i w))"
    using inv Some waits_held_cleared(1) [of w "snd (beginSession i w)"]
    by (simp add: questions_inv_def beginSession_def settled_def)
  then show ?thesis using Some by (simp add: questions_inv_def session_local_def beginSession_def)
qed

lemma end_settles:
  assumes "questions_inv w"
  shows "waits_held (endSession w)" "all_settled (endSession w)"
  using assms waits_held_cleared [of w "endSession w"]
  by (simp_all add: questions_inv_def endSession_def settled_def)

lemma begin_settles:
  assumes "questions_inv w"
  shows "all_settled (snd (beginSession (Some s) w))"
  using assms waits_held_cleared(2) [of w "snd (beginSession (Some s) w)"]
  by (simp add: questions_inv_def beginSession_def settled_def)

lemma end_keeps: "questions_inv w \<Longrightarrow> questions_inv (endSession w)"
  using end_settles(1) by (simp add: questions_inv_def session_local_def endSession_def)

lemma put_keeps:
  assumes "questions_inv w" "currentIdentity w = Some (session_of p)"
  shows "questions_inv (put_pending k p (w\<lparr>nextId := i\<rparr>))"
    and "questions_inv (put_pending k p (w\<lparr>nextNoticeId := i, objects := j\<rparr>))"
proof -
  have "questions_inv w'" if "pending w' = AList.update k p (pending w)" "currentIdentity w' = currentIdentity w"
    "promises w' = promises w" "results w' = results w" "waiters w' = waiters w" "listeners w' = listeners w" for w'
    using assms that unfolding questions_inv_def
    by (intro conjI waits_held_same [of w w'] session_local_new [of w p w' k]) simp_all
  then show "questions_inv (put_pending k p (w\<lparr>nextId := i\<rparr>))"
    and "questions_inv (put_pending k p (w\<lparr>nextNoticeId := i, objects := j\<rparr>))" by simp_all
qed

lemma register_keeps: "questions_inv w \<Longrightarrow> questions_inv (snd (register available input i w))"
  unfolding register_def Let_def by (auto split: option.splits intro!: put_keeps simp: session_of_def)

lemma registerNotice_keeps: "questions_inv w \<Longrightarrow> questions_inv (snd (registerNotice available feature input i w))"
  unfolding registerNotice_def Let_def by (auto split: option.splits intro!: put_keeps simp: session_of_def)

lemma removed_keeps:
  assumes "questions_inv w" "pending w' = AList.delete k (pending w)" "currentIdentity w' = currentIdentity w"
    and "promises w' = promises w" "results w' = results w" "waiters w' = waiters w" "listeners w' = listeners w"
  shows "questions_inv w'"
  using assms ran_delete [of k "pending w"] unfolding questions_inv_def
  by (intro conjI waits_held_same [of w w'] session_local_fewer [of w w']) simp_all

lemma answered_keeps:
  assumes "questions_inv w" "pending w' = AList.delete k (pending w)" "currentIdentity w' = currentIdentity w"
    and "promises w' = promises w" "settled w' = insert n (settled w)"
    and "waiters w' = AList.delete k (waiters w)" "listeners w' = AList.delete n (listeners w)"
    and "map_of (waiters w) k = Some n"
  shows "questions_inv w'"
  using assms ran_delete [of k "pending w"] unfolding questions_inv_def
  by (intro conjI waits_held_settle [of w w' n k] session_local_fewer [of w w']) simp_all

lemma submitAnswer_keeps: "questions_inv w \<Longrightarrow> questions_inv (snd (submitAnswer send idle k raw w))"
  unfolding submitAnswer_def Let_def
  by (auto split: option.splits question_mode.splits
      intro: removed_keeps [where k = k and w = w] answered_keeps [where k = k and w = w] simp: settled_def)

lemma submitDecline_keeps: "questions_inv w \<Longrightarrow> questions_inv (snd (submitDecline k w))"
  unfolding submitDecline_def Let_def
  by (auto split: option.splits question_mode.splits if_splits
      intro: removed_keeps [where k = k and w = w] answered_keeps [where k = k and w = w] simp: settled_def)

lemma closeNotice_keeps: "questions_inv w \<Longrightarrow> questions_inv (snd (closeNotice k w))"
  unfolding closeNotice_def by (auto split: option.splits intro: removed_keeps [where k = k and w = w])

lemma abort_keeps: "questions_inv w \<Longrightarrow> questions_inv (abort_wait n w)"
  unfolding abort_wait_def
  by (auto split: option.splits intro!: answered_keeps [of w _ _ n] simp: settled_def)
    (simp add: questions_inv_def waits_held_def)

text \<open>A wait makes a new promise: settled at once, or held by the waiter of its id.\<close>

lemma waits_held_new:
  assumes "waits_held w" "promises w' = n # promises w" "map_of (waiters w) k = None"
    and "waiters w' \<in> {waiters w, AList.update k n (waiters w)}" "settled w \<subseteq> settled w'"
    and "n \<in> settled w' \<or> waiters w' = AList.update k n (waiters w)"
    and "\<And>m j. map_of (listeners w') m = Some j \<Longrightarrow>
           map_of (listeners w) m = Some j \<or> m = n \<and> j = k \<and> waiters w' = AList.update k n (waiters w)"
  shows "waits_held w'"
proof -
  have kept: "map_of (waiters w) j = Some m \<Longrightarrow> map_of (waiters w') j = Some m" for j m
    using assms(3,4) by (auto simp: AList.update_conv)
  show ?thesis
    unfolding waits_held_def
  proof (intro conjI allI impI)
    fix m assume "m \<in> set (promises w')"
    then show "m \<in> settled w' \<or> (\<exists>j. map_of (waiters w') j = Some m)"
    proof (cases "m = n")
      case True
      then show ?thesis using assms(6) by (auto simp: AList.update_conv')
    next
      case False
      then have "m \<in> settled w \<or> (\<exists>j. map_of (waiters w) j = Some m)"
        using \<open>m \<in> set (promises w')\<close> assms(1,2) by (simp add: waits_held_def)
      then show ?thesis using assms(5) kept by blast
    qed
  next
    fix m j assume "map_of (listeners w') m = Some j"
    from assms(7) [OF this] show "map_of (waiters w') j = Some m"
      using assms(1) kept by (auto simp: waits_held_def AList.update_conv')
  qed
qed

lemma waitForAnswer_new:
  fixes w k signal
  defines "n \<equiv> objects w" and "w' \<equiv> snd (waitForAnswer k signal w)"
  shows "promises w' = n # promises w" "currentIdentity w' = currentIdentity w"
    and "pending w' \<in> {pending w, AList.delete k (pending w)}"
    and "waiters w' \<in> {waiters w, AList.update k n (waiters w)}"
    and "settled w' \<in> {settled w, insert n (settled w)}"
    and "n \<in> settled w' \<or> waiters w' = AList.update k n (waiters w)"
    and "listeners w' \<in> {listeners w, AList.delete n (listeners w)}
         \<or> listeners w' = AList.update n k (listeners w) \<and> waiters w' = AList.update k n (waiters w)"
  unfolding w'_def n_def waitForAnswer_def Let_def settled_def
  by (cases "live_question k w"; cases signal; simp)+

lemma wait_keeps:
  assumes "questions_inv w" "map_of (waiters w) k = None"
  shows "questions_inv (snd (waitForAnswer k signal w))"
proof -
  define n where "n = objects w"
  define w' where "w' = snd (waitForAnswer k signal w)"
  note new = waitForAnswer_new [where k = k and signal = signal and w = w, folded n_def, folded w'_def]
  have "waits_held w'"
  proof (rule waits_held_new [of w _ n k])
    fix m j assume "map_of (listeners w') m = Some j"
    then show "map_of (listeners w) m = Some j \<or> m = n \<and> j = k \<and> waiters w' = AList.update k n (waiters w)"
      using new(7) by (auto simp: AList.delete_conv AList.update_conv split: if_splits)
  qed (use assms new in \<open>auto simp: questions_inv_def\<close>)
  moreover have "session_local w'"
  proof (rule session_local_fewer [of w])
    show "ran (map_of (pending w')) \<subseteq> ran (map_of (pending w))"
      using new(3) ran_delete [of k "pending w"] by (elim insertE) simp_all
  qed (use assms(1) new(2) in \<open>simp_all add: questions_inv_def\<close>)
  ultimately show ?thesis by (simp add: questions_inv_def w'_def)
qed

lemma perform_keeps: "questions_inv w \<Longrightarrow> waits_once op w \<Longrightarrow> questions_inv (perform op w)"
  by (cases op) (simp_all add: waits_once_def begin_keeps end_keeps register_keeps registerNotice_keeps
    submitAnswer_keeps submitDecline_keeps closeNotice_keeps wait_keeps abort_keeps)

interpretation operations: guarded_system "\<lambda>w. w = new_world" op_step questions_inv
proof unfold_locales
  show "questions_inv w" if "w = new_world" for w
    using that by (simp add: questions_inv_def waits_held_def session_local_def new_world_def)
qed (auto elim!: op_step.cases intro: perform_keeps)

lemma callback_keeps: "runs_operations f \<Longrightarrow> questions_inv w \<Longrightarrow> questions_inv (f w)"
  using operations.run_inv by (auto simp: runs_operations_def)

lemma unchanged_keeps:
  assumes "questions_inv w" "pending w' = pending w" "currentIdentity w' = currentIdentity w"
    and "promises w' = promises w" "results w' = results w" "waiters w' = waiters w" "listeners w' = listeners w"
  shows "questions_inv w'"
  using assms unfolding questions_inv_def
  by (intro conjI waits_held_same [of w w'] session_local_fewer [of w w']) simp_all

lemma in_flight_keeps:
  "questions_inv w \<Longrightarrow> questions_inv (w\<lparr>noticeDetailsInFlight := xs\<rparr>)"
  "questions_inv w \<Longrightarrow> questions_inv (end_details k obj w)"
  "questions_inv w \<Longrightarrow> questions_inv (send_message m steer w)"
  "questions_inv w \<Longrightarrow> questions_inv (remove_pending k w)"
proof -
  show "questions_inv w \<Longrightarrow> questions_inv (remove_pending k w)" by (rule removed_keeps [of w _ k]) simp_all
qed (rule unchanged_keeps [of w]; simp add: end_details_def)+

lemma details_keeps:
  assumes "well_behaved_host h" "questions_inv w"
  shows "questions_inv (snd (requestNoticeDetails h k expected w))"
proof -
  have removed: "questions_inv (during_remove h (remove_pending j v))" if "questions_inv v" for j v
    using assms(1) that by (intro callback_keeps [of "during_remove h"] in_flight_keeps) (simp_all add: well_behaved_host_def)
  have probed: "questions_inv (snd (probe v))" if "questions_inv v" "idle_probe h = Some probe" for probe v
    using assms(1) that callback_keeps [of "\<lambda>w. snd (probe w)"] by (simp add: well_behaved_host_def)
  have body: "questions_inv (snd (details_body h n k epoch v))" if v: "questions_inv v" for n epoch v
  proof -
    define v1 where "v1 = during_remove h (remove_pending k v)"
    have v1: "questions_inv v1" unfolding v1_def by (rule removed [OF v])
    show ?thesis
    proof (cases "idle_probe h")
      case None
      then show ?thesis using v1 by (simp add: details_body_def flip: v1_def) (simp add: in_flight_keeps)
    next
      case (Some probe)
      have "questions_inv (snd (probe v1))" by (rule probed [OF v1 Some])
      then show ?thesis
        using v1 Some by (cases "probe v1") (auto simp: details_body_def in_flight_keeps simp flip: v1_def split: option.splits)
    qed
  qed
  show ?thesis
  proof (cases "live_notice k w")
    case (Some n)
    define v where "v = w\<lparr>noticeDetailsInFlight := AList.update k (pn_object n) (noticeDetailsInFlight w)\<rparr>"
    have "questions_inv (snd (details_body h n k (sessionEpoch w) v))"
      unfolding v_def by (intro body in_flight_keeps assms(2))
    then show ?thesis
      using assms(2) Some by (simp add: requestNoticeDetails_def split_beta in_flight_keeps flip: v_def)
  qed (simp add: requestNoticeDetails_def assms(2))
qed

interpretation users: guarded_system "\<lambda>w. w = new_world" user_step questions_inv
  by unfold_locales (auto elim!: user_step.cases intro: operations.init_inv operations.step_inv details_keeps)


subsection \<open>Answers\<close>

lemma old_results:
  "results (perform op w) = results w" if "\<And>k s. op \<noteq> WaitForAnswer k s" "\<And>n. op \<noteq> AbortWait n" "\<And>i. op \<noteq> BeginSession i"
    "op \<noteq> EndSession" "\<And>k. op \<noteq> SubmitDecline k" "\<And>x y k r. op \<noteq> SubmitAnswer x y k r"
  using that
  by (cases op) (auto simp: register_def registerNotice_def closeNotice_def Let_def split: option.splits)

lemma settle_answers:
  "(n, Answered a c) \<in> set (results (settleWaiter m r w)) \<Longrightarrow> (n, Answered a c) \<in> set (results w) \<or> m = n \<and> r = Answered a c"
  by (auto simp: settleWaiter_def split: if_splits)

lemma settle_all_answers: "(n, Answered a c) \<in> set (results (settle_all w)) \<Longrightarrow> (n, Answered a c) \<in> set (results w)"
proof -
  have "(n, Answered a c) \<in> set (results (fold (\<lambda>(k :: string, n). settleWaiter n Settled) xs w)) \<Longrightarrow>
      (n, Answered a c) \<in> set (results w)" for xs
    by (induction xs arbitrary: w) (auto dest!: settle_answers)
  then show "(n, Answered a c) \<in> set (results (settle_all w)) \<Longrightarrow> (n, Answered a c) \<in> set (results w)"
    unfolding settle_all_def .
qed

lemma answer_source:
  assumes "(n, Answered a c) \<in> set (results (perform op w))" "(n, Answered a c) \<notin> set (results w)"
  obtains send idle k raw where "op = SubmitAnswer send idle k raw"
proof (cases op)
  case (BeginSession i)
  then show ?thesis using assms by (cases i) (auto simp: beginSession_def dest!: settle_all_answers)
next
  case EndSession
  then show ?thesis using assms by (auto simp: endSession_def dest!: settle_all_answers)
next
  case (SubmitDecline k)
  then show ?thesis using assms
    by (auto simp: submitDecline_def Let_def split: option.splits if_splits dest!: settle_answers)
next
  case (WaitForAnswer k signal)
  then show ?thesis using assms
    by (auto simp: waitForAnswer_def Let_def split: option.splits if_splits abort_signal.splits dest!: settle_answers)
next
  case (AbortWait m)
  then show ?thesis using assms by (auto simp: abort_wait_def split: option.splits dest!: settle_answers)
qed (use assms old_results [of op w] that in auto)

lemma submitted_answer:
  assumes "(n, Answered a c) \<in> set (results (snd (submitAnswer send idle k raw w)))" "(n, Answered a c) \<notin> set (results w)"
  obtains q where "live_question k w = Some q" "pq_mode q = Sync" "a = trim raw" "a \<noteq> []"
    "c \<longleftrightarrow> a \<in> set (pq_choices q)" "map_of (waiters w) k = Some n"
    "pending (snd (submitAnswer send idle k raw w)) = AList.delete k (pending w)"
proof (cases "live_question k w")
  case (Some q)
  then show ?thesis
    using assms that [of q]
    by (cases "map_of (waiters w) k"; cases "pq_mode q") (auto simp: submitAnswer_def Let_def split: if_splits dest!: settle_answers)
qed (use assms in \<open>simp add: submitAnswer_def\<close>)

text \<open>
  C14. The answer a waiting tool gets is what the user typed for the question it waits for: when an
  operation makes a wait end with an answer, it is the submission of that answer (trimmed, not empty) for
  a live synchronous question of the current session whose waiter is that wait, it says truly whether the
  answer is one of the choices, and the question is pending no more.
\<close>

theorem answers_are_the_users:
  assumes "(n, Answered a c) \<in> set (results (perform op w))" and "(n, Answered a c) \<notin> set (results w)"
  shows "\<exists>send idle k raw q. op = SubmitAnswer send idle k raw \<and> live_question k w = Some q \<and> pq_mode q = Sync
    \<and> a = trim raw \<and> a \<noteq> [] \<and> (c \<longleftrightarrow> a \<in> set (pq_choices q)) \<and> map_of (waiters w) k = Some n
    \<and> map_of (pending (perform op w)) k = None"
proof (rule answer_source [OF assms])
  fix send idle k raw assume op: "op = SubmitAnswer send idle k raw"
  with assms obtain q where "live_question k w = Some q" "pq_mode q = Sync" "a = trim raw" "a \<noteq> []"
    "c \<longleftrightarrow> a \<in> set (pq_choices q)" "map_of (waiters w) k = Some n"
    "pending (snd (submitAnswer send idle k raw w)) = AList.delete k (pending w)"
    by (auto elim: submitted_answer)
  with op show ?thesis by (auto simp: AList.delete_conv)
qed

text \<open>A session that asks whether to proceed, and the waits of its tool.\<close>

definition yes_no :: question_input where
  "yes_no = \<lparr>qi_toolCallId = ''call'', qi_question = '' Proceed? '', qi_choices = Some [''yes'', ''no''], qi_mode = Sync\<rparr>"

definition asked :: world where
  "asked = fold perform [BeginSession (Some 7), Register True yes_no (Some 7), WaitForAnswer ''q1'' SignalLive] new_world"

lemma answers_are_the_users_witness:
  "\<exists>send idle k raw q. SubmitAnswer True None ''q1'' '' yes'' = SubmitAnswer send idle k raw
    \<and> live_question k asked = Some q \<and> pq_mode q = Sync
    \<and> ''yes'' = trim raw \<and> ''yes'' \<noteq> [] \<and> (True \<longleftrightarrow> ''yes'' \<in> set (pq_choices q)) \<and> map_of (waiters asked) k = Some 0
    \<and> map_of (pending (perform (SubmitAnswer True None ''q1'' '' yes'') asked)) k = None"
  by (rule answers_are_the_users) code_simp+

subsection \<open>Ends of sessions\<close>

text \<open>
  C27. No wait outlives its session: whatever was asked, answered, declined or aborted before, with
  whatever the callbacks of notice requests did, the end of the session and the start of the next one
  leave every promise ever given settled, and nothing pending.
\<close>

theorem no_wait_outlives_session:
  assumes "user_step\<^sup>*\<^sup>* new_world w"
  shows "all_settled (endSession w) \<and> all_settled (snd (beginSession (Some s) w))
    \<and> pending (endSession w) = [] \<and> pending (snd (beginSession (Some s) w)) = []"
proof -
  have "questions_inv w" using assms by (rule users.reachable_inv [OF refl])
  then show ?thesis using end_settles(2) begin_settles
    by (simp add: endSession_def beginSession_def)
qed

lemma performed_reachable: "list_all (\<lambda>op. \<forall>k s. op \<noteq> WaitForAnswer k s) ops \<Longrightarrow> user_step\<^sup>*\<^sup>* w (fold perform ops w)"
proof (induction ops arbitrary: w)
  case (Cons op ops)
  then have "waits_once op w" by (auto simp: waits_once_def split: user_op.splits)
  then have "user_step w (perform op w)" by (intro user_step.operation op_step.perform)
  with Cons show ?case by (auto intro: converse_rtranclp_into_rtranclp)
qed simp

lemma asked_reachable: "user_step\<^sup>*\<^sup>* new_world asked"
proof -
  define ops where "ops = [BeginSession (Some 7), Register True yes_no (Some 7)]"
  have "user_step\<^sup>*\<^sup>* new_world (fold perform ops new_world)"
    by (rule performed_reachable) (simp add: ops_def)
  moreover have "map_of (waiters (fold perform ops new_world)) ''q1'' = None" unfolding ops_def by code_simp
  then have "user_step (fold perform ops new_world) (perform (WaitForAnswer ''q1'' SignalLive) (fold perform ops new_world))"
    by (intro user_step.operation op_step.perform) (simp add: waits_once_def)
  ultimately show ?thesis by (simp add: asked_def ops_def)
qed

lemma no_wait_outlives_session_witness:
  "promises asked = [0] \<and> \<not> all_settled asked
   \<and> all_settled (endSession asked) \<and> all_settled (snd (beginSession (Some 8) asked))
   \<and> pending (endSession asked) = [] \<and> pending (snd (beginSession (Some 8) asked)) = []"
  using no_wait_outlives_session [OF asked_reachable, of 8] by (intro conjI) (code_simp | simp)+

subsection \<open>Requests for details\<close>

lemma details_body_sends:
  assumes "details_body h n k epoch w = (True, w')"
  shows "\<exists>steer rest. sent w' = (pn_session n, formatNoticeDetailsDelivery n, steer) # rest \<and> sessionEpoch w' = epoch
    \<and> k \<notin> fst ` set (pending w')"
  using assms
  by (cases "idle_probe h")
    (auto simp: details_body_def Let_def send_message_def still_consumed_def split: if_splits option.splits prod.splits)

text \<open>
  When a request for details reports success, the last message sent is the full text of the notice the
  user selected, and it went to the session that created the notice: no matter what the state change
  callback and the idle probe of the host did in between, the session is still the same binding of the same
  session and the notice was not put back.
\<close>

theorem details_reach_their_session:
  assumes "requestNoticeDetails h k expected w = (True, w')"
  shows "\<exists>n steer rest. live_notice k w = Some n \<and> sent w' = (pn_session n, formatNoticeDetailsDelivery n, steer) # rest
    \<and> sessionEpoch w' = sessionEpoch w \<and> k \<notin> fst ` set (pending w') \<and> expected \<in> {None, Some (pn_object n)}"
proof (cases "live_notice k w")
  case (Some n)
  define v where "v = w\<lparr>noticeDetailsInFlight := AList.update k (pn_object n) (noticeDetailsInFlight w)\<rparr>"
  obtain ok w1 where body: "details_body h n k (sessionEpoch w) v = (ok, w1)" by fastforce
  with assms Some have "ok" "w' = end_details k (pn_object n) w1" "expected \<in> {None, Some (pn_object n)}"
    by (auto simp: requestNoticeDetails_def simp flip: v_def split: if_splits option.splits)
  moreover have "sent (end_details k (pn_object n) w1) = sent w1" "sessionEpoch (end_details k (pn_object n) w1) = sessionEpoch w1"
    "pending (end_details k (pn_object n) w1) = pending w1" by (simp_all add: end_details_def)
  ultimately show ?thesis using details_body_sends [of h n k "sessionEpoch w" v w1] body Some by auto
qed (use assms in \<open>simp add: requestNoticeDetails_def\<close>)

definition noticed :: world where
  "noticed = fold perform [BeginSession (Some 7),
     RegisterNotice True True \<lparr>ni_toolCallId = ''call'', ni_title = ''Note'', ni_body = ''The port changed.'', ni_context = None\<rparr> (Some 7)]
     new_world"

text \<open>A host whose callback closes a notice that is gone and whose probe says the agent is busy.\<close>

definition busy_host :: details_host where
  "busy_host = \<lparr>ui = (\<lambda>_. True), during_remove = (\<lambda>w. snd (closeNotice ''n1'' w)), can_send = True,
     idle_probe = Some (\<lambda>w. (Some False, w))\<rparr>"

lemma details_reach_their_session_witness:
  "\<exists>n steer rest. live_notice ''n1'' noticed = Some n
    \<and> sent (snd (requestNoticeDetails busy_host ''n1'' (Some 0) noticed)) = (pn_session n, formatNoticeDetailsDelivery n, steer) # rest
    \<and> sessionEpoch (snd (requestNoticeDetails busy_host ''n1'' (Some 0) noticed)) = sessionEpoch noticed
    \<and> ''n1'' \<notin> fst ` set (pending (snd (requestNoticeDetails busy_host ''n1'' (Some 0) noticed)))
    \<and> Some 0 \<in> {None, Some (pn_object n)}"
proof (rule details_reach_their_session)
  have "fst (requestNoticeDetails busy_host ''n1'' (Some 0) noticed)" by code_simp
  then show "requestNoticeDetails busy_host ''n1'' (Some 0) noticed
    = (True, snd (requestNoticeDetails busy_host ''n1'' (Some 0) noticed))" by (simp add: prod_eq_iff)
qed

text \<open>What is pending while a session is bound was created in it.\<close>

lemma pending_is_local:
  "user_step\<^sup>*\<^sup>* new_world w \<Longrightarrow> currentIdentity w = Some s \<Longrightarrow> map_of (pending w) k = Some p \<Longrightarrow> session_of p = s"
  using users.reachable_inv [OF refl, of w] by (auto simp: questions_inv_def session_local_def ran_def)

end
