(* ===== verification/Terminal_Input.thy ===== *)
theory Terminal_Input
  imports Prelude
begin

text \<open>
  The keyboard and mouse packets a terminal sends to the session host:
  \<open>src/src/session-host/input.ts\<close>, its parsers.  A text is the list of its code units, natural numbers,
  because it may hold any character; \<open>lit\<close> spells the units of an ASCII text.  A modifier set is the
  8-bit word of the Kitty protocol.  The regular expressions of the source are matched by splitting at
  their separators, which occur in no group of theirs.

  A packet is not of the form (\<open>Unmatched\<close>, \<open>undefined\<close> in the source), is refused (\<open>Refused\<close>,
  \<open>null\<close>), or is a key.
\<close>

unbundle bit_operations_syntax

type_synonym code_units = "nat list"

definition lit :: "string \<Rightarrow> code_units" where [js]: "lit s = map of_char s"

lemma lit_Nil [simp]: "lit [] = []" by (simp add: lit_def)

lemma lit_append: "lit (s @ t) = lit s @ lit t" by (simp add: lit_def)

definition ESC :: nat where [js]: "ESC = 27"
definition CSI :: code_units where [js]: "CSI = ESC # lit ''[''"
definition SS3 :: code_units where [js]: "SS3 = ESC # lit ''O''"
definition SUSPEND_CONTROL :: nat where [js]: "SUSPEND_CONTROL = 26"
definition MAX_CSI_PACKET_LENGTH :: nat where [js]: "MAX_CSI_PACKET_LENGTH = 256"
definition MAX_SAFE_INTEGER :: nat where [js]: "MAX_SAFE_INTEGER = 2 ^ 53 - 1"

type_synonym modifier_set = "8 word"

definition KITTY_SHIFT :: modifier_set where [js]: "KITTY_SHIFT = 1"
definition KITTY_ALT :: modifier_set where [js]: "KITTY_ALT = 2"
definition KITTY_CTRL :: modifier_set where [js]: "KITTY_CTRL = 4"
definition KITTY_SUPER :: modifier_set where [js]: "KITTY_SUPER = 8"
definition KITTY_HYPER :: modifier_set where [js]: "KITTY_HYPER = 16"
definition KITTY_META :: modifier_set where [js]: "KITTY_META = 32"
definition KITTY_CAPS_LOCK :: modifier_set where [js]: "KITTY_CAPS_LOCK = 64"
definition KITTY_NUM_LOCK :: modifier_set where [js]: "KITTY_NUM_LOCK = 128"
definition LOCK_MODIFIERS :: modifier_set where [js]: "LOCK_MODIFIERS = KITTY_CAPS_LOCK OR KITTY_NUM_LOCK"
definition XTERM_MODIFIERS :: modifier_set where
  [js]: "XTERM_MODIFIERS = KITTY_SHIFT OR KITTY_ALT OR KITTY_CTRL OR KITTY_META"

definition hasModifier :: "modifier_set \<Rightarrow> modifier_set \<Rightarrow> bool" where
  [js]: "hasModifier m b \<longleftrightarrow> m AND b \<noteq> 0"

datatype special_key =
    KUp | KDown | KRight | KLeft | KHome | KEnd | KInsert | KDelete | KPageUp | KPageDown
  | F1 | F2 | F3 | F4 | F5 | F6 | F7 | F8 | F9 | F10 | F11 | F12 | KpBegin

datatype event_type = Press | Repeat | Release

record key_event =
  codepoint :: "nat option"
  special :: "special_key option"
  modifiers :: modifier_set
  eventType :: event_type
  shifted :: "nat option"
  baseLayout :: "nat option"

definition key_press :: "nat \<Rightarrow> modifier_set \<Rightarrow> key_event" where
  [js]: "key_press cp m = \<lparr>codepoint = Some cp, special = None, modifiers = m, eventType = Press, shifted = None, baseLayout = None\<rparr>"

definition special_event :: "special_key \<Rightarrow> modifier_set \<Rightarrow> event_type \<Rightarrow> key_event" where
  [js]: "special_event k m t = \<lparr>codepoint = None, special = Some k, modifiers = m, eventType = t, shifted = None, baseLayout = None\<rparr>"

datatype 'a parsed = Unmatched | Refused | Parsed 'a

subsection \<open>Code points\<close>

definition isUnicodeScalar :: "nat \<Rightarrow> bool" where
  [js]: "isUnicodeScalar cp \<longleftrightarrow> cp \<le> 0x10ffff \<and> \<not> (0xd800 \<le> cp \<and> cp \<le> 0xdfff)"

definition isOfficialFunctionalCodepoint :: "nat \<Rightarrow> bool" where
  [js]: "isOfficialFunctionalCodepoint cp \<longleftrightarrow> 57358 \<le> cp \<and> cp \<le> 57363 \<or> 57376 \<le> cp \<and> cp \<le> 57454"

definition isValidKeyboardCodepoint :: "nat \<Rightarrow> bool" where
  [js]: "isValidKeyboardCodepoint cp \<longleftrightarrow>
     (if \<not> isUnicodeScalar cp then False
      else if cp \<in> {9, 13, 27, 32, 127} then True
      else if cp < 0x20 \<or> 0x7f \<le> cp \<and> cp \<le> 0x9f then False
      else if 0xe000 \<le> cp \<and> cp \<le> 0xf8ff then isOfficialFunctionalCodepoint cp
      else if 0xf0000 \<le> cp \<and> cp \<le> 0xffffd then False
      else if 0x100000 \<le> cp \<and> cp \<le> 0x10fffd then False
      else True)"

definition isPrintableCodepoint :: "nat \<Rightarrow> bool" where
  [js]: "isPrintableCodepoint cp \<longleftrightarrow>
     isValidKeyboardCodepoint cp \<and> 0x20 \<le> cp \<and> cp \<noteq> 0x7f \<and> \<not> isOfficialFunctionalCodepoint cp"

subsection \<open>Numbers\<close>

definition is_dec :: "nat \<Rightarrow> bool" where [js]: "is_dec u \<longleftrightarrow> 48 \<le> u \<and> u \<le> 57"

definition dec_val :: "code_units \<Rightarrow> nat" where [js]: "dec_val s = foldl (\<lambda>v u. 10 * v + (u - 48)) 0 s"

definition dec :: "nat \<Rightarrow> code_units" where [js]: "dec n = lit (nat_str n)"

text \<open>\<open>[0-9]+\<close> and \<open>[0-9]*\<close>.\<close>

definition digits1 :: "code_units \<Rightarrow> bool" where [js]: "digits1 s \<longleftrightarrow> s \<noteq> [] \<and> list_all is_dec s"
definition digits0 :: "code_units \<Rightarrow> bool" where [js]: "digits0 s \<longleftrightarrow> list_all is_dec s"

text \<open>A number above the safe integers is rounded to one above them, so it is refused as it is here.\<close>

definition parseDecimal :: "code_units \<Rightarrow> nat \<Rightarrow> nat option" where
  [js]: "parseDecimal s bound =
     (if s = [] \<or> length s > 16 \<or> \<not> digits1 s then None
      else if dec_val s \<le> MAX_SAFE_INTEGER \<and> dec_val s \<le> bound then Some (dec_val s) else None)"

definition event_of :: "nat option \<Rightarrow> event_type option" where
  [js]: "event_of n = (if n = Some 1 then Some Press else if n = Some 2 then Some Repeat else if n = Some 3 then Some Release else None)"

definition parse_event :: "code_units option \<Rightarrow> event_type option" where
  [js]: "parse_event e = (case e of None \<Rightarrow> Some Press | Some s \<Rightarrow> event_of (parseDecimal s 3))"

text \<open>The fields of a packet: \<open>CSI\<close>, the text between, and a final unit.\<close>

definition csi_body :: "char \<Rightarrow> code_units \<Rightarrow> code_units option" where
  [js]: "csi_body c data =
     (if starts_with data CSI \<and> length data \<ge> 3 \<and> last data = of_char c then Some (butlast (drop 2 data)) else None)"

definition COLON :: nat where [js]: "COLON = 58"
definition SEMICOLON :: nat where [js]: "SEMICOLON = 59"

text \<open>\<open>([0-9]+)(?::([0-9]+))?\<close>: modifiers, and perhaps the event type.\<close>

definition modifier_field :: "code_units \<Rightarrow> (code_units \<times> code_units option) option" where
  [js]: "modifier_field x =
     (case split_on COLON x of
        [m] \<Rightarrow> (if digits1 m then Some (m, None) else None)
      | [m, e] \<Rightarrow> (if digits1 m \<and> digits1 e then Some (m, Some e) else None)
      | _ \<Rightarrow> None)"

text \<open>The set of a modifier parameter: one more than the set, at most 256.\<close>

definition modifiers_of :: "nat \<Rightarrow> modifier_set" where
  [js]: "modifiers_of n = word_of_nat (n - 1)"

definition parseModifierParameter :: "code_units option \<Rightarrow> modifier_set option" where
  [js]: "parseModifierParameter v =
     (case v of
        None \<Rightarrow> Some 0
      | Some s \<Rightarrow>
          (case parseDecimal s 256 of
             None \<Rightarrow> None
           | Some n \<Rightarrow> (if n < 1 then None else Some (modifiers_of n))))"

subsection \<open>The Kitty protocol\<close>

text \<open>An absent alternate key is \<open>Some None\<close>; \<open>None\<close> is one that is refused.\<close>

definition validAlternateCodepoint :: "code_units option \<Rightarrow> nat option option" where
  [js]: "validAlternateCodepoint v =
     (case v of
        None \<Rightarrow> Some None
      | Some s \<Rightarrow>
          (if s = [] then Some None
           else case parseDecimal s 0x10ffff of
             None \<Rightarrow> None
           | Some n \<Rightarrow>
               (if \<not> isUnicodeScalar n \<or> n < 0x20 \<or> 0x7f \<le> n \<and> n \<le> 0x9f then None else Some (Some n))))"

definition key_field :: "code_units \<Rightarrow> bool" where
  [js]: "key_field k \<longleftrightarrow>
     (let parts = split_on COLON k in
      length parts \<le> 3 \<and> digits1 (hd parts) \<and> list_all digits0 (tl parts))"

definition text_field :: "code_units \<Rightarrow> bool" where
  [js]: "text_field t \<longleftrightarrow> list_all digits1 (split_on COLON t)"

text \<open>The groups of the pattern: the key, the modifiers and event, and whether there is a text.\<close>

definition csi_u_groups :: "code_units \<Rightarrow> (code_units \<times> (code_units \<times> code_units option) option \<times> bool) option" where
  [js]: "csi_u_groups data =
     (case csi_body (CHR ''u'') data of
        None \<Rightarrow> None
      | Some body \<Rightarrow>
          (case split_on SEMICOLON body of
             [k] \<Rightarrow> (if key_field k then Some (k, None, False) else None)
           | [k, x] \<Rightarrow>
               (if \<not> key_field k then None
                else case modifier_field x of
                  Some m \<Rightarrow> Some (k, Some m, False)
                | None \<Rightarrow> (if text_field x then Some (k, None, True) else None))
           | [k, x, t] \<Rightarrow>
               (if key_field k \<and> modifier_field x \<noteq> None \<and> text_field t then Some (k, modifier_field x, True) else None)
           | _ \<Rightarrow> None))"

definition csi_u_event ::
  "code_units list \<Rightarrow> (code_units \<times> code_units option) option \<Rightarrow> key_event parsed" where
  [js]: "csi_u_event parts field =
     (case parseDecimal (hd parts) 0x10ffff of
        None \<Rightarrow> Refused
      | Some cp \<Rightarrow>
          (if \<not> isValidKeyboardCodepoint cp then Refused
           else case (validAlternateCodepoint (js_nth parts 1), validAlternateCodepoint (js_nth parts 2)) of
             (Some sh, Some bl) \<Rightarrow>
               (if length parts = 2 \<and> js_nth parts 1 = Some [] then Refused
                else if length parts = 3 \<and> js_nth parts 1 = Some [] \<and> js_nth parts 2 = Some [] then Refused
                else case parseModifierParameter (map_option fst field) of
                  None \<Rightarrow> Refused
                | Some m \<Rightarrow>
                    (if sh \<noteq> None \<and> m AND KITTY_SHIFT = 0 then Refused
                     else case parse_event (case field of None \<Rightarrow> None | Some (_, e) \<Rightarrow> e) of
                       None \<Rightarrow> Refused
                     | Some t \<Rightarrow>
                         Parsed \<lparr>codepoint = Some cp, special = None, modifiers = m, eventType = t, shifted = sh, baseLayout = bl\<rparr>))
           | _ \<Rightarrow> Refused))"

definition parseKittyCsiU :: "code_units \<Rightarrow> key_event parsed" where
  [js]: "parseKittyCsiU data =
     (if length data > MAX_CSI_PACKET_LENGTH then Refused
      else case csi_u_groups data of
        None \<Rightarrow> Unmatched
      | Some (k, field, with_text) \<Rightarrow> (if with_text then Refused else csi_u_event (split_on COLON k) field))"


subsection \<open>The other spellings of keys\<close>

text \<open>\<open>modifyOtherKeys\<close>: the set has Shift, Alt and Ctrl at their bits and Meta at bit 8.\<close>

definition parseModifyOtherKeys :: "code_units \<Rightarrow> key_event parsed" where
  [js]: "parseModifyOtherKeys data =
     (if length data > MAX_CSI_PACKET_LENGTH then Refused
      else case map_option (split_on SEMICOLON) (csi_body (CHR ''~'') data) of
        Some [a, m, c] \<Rightarrow>
          (if \<not> (a = lit ''27'' \<and> digits1 m \<and> digits1 c) then Unmatched
           else case (parseDecimal m 16, parseDecimal c 0x10ffff) of
             (Some n, Some cp) \<Rightarrow>
               (if n < 2 \<or> \<not> isValidKeyboardCodepoint cp then Refused
                else
                  let x = modifiers_of n;
                      ms = (x AND (KITTY_SHIFT OR KITTY_ALT OR KITTY_CTRL)) OR (if x AND 8 \<noteq> 0 then KITTY_META else 0) in
                  Parsed (key_press cp ms))
           | _ \<Rightarrow> Refused)
      | _ \<Rightarrow> Unmatched)"

definition CSI_LETTER_KEYS :: "(nat \<times> special_key) list" where
  [js]: "CSI_LETTER_KEYS = zip (lit ''ABCDHFPQRS'') [KUp, KDown, KRight, KLeft, KHome, KEnd, F1, F2, F3, F4]"

definition CSI_TILDE_KEYS :: "(nat \<times> special_key) list" where
  [js]: "CSI_TILDE_KEYS =
     [(1, KHome), (2, KInsert), (3, KDelete), (4, KEnd), (5, KPageUp), (6, KPageDown), (7, KHome), (8, KEnd),
      (11, F1), (12, F2), (13, F3), (14, F4), (15, F5), (17, F6), (18, F7), (19, F8), (20, F9), (21, F10), (23, F11), (24, F12)]"

definition KEYPAD_SS3_TO_CODEPOINT :: "(nat \<times> nat) list" where
  [js]: "KEYPAD_SS3_TO_CODEPOINT =
     zip (lit ''pqrstuvwxynojmkMXlE'')
       [57399, 57400, 57401, 57402, 57403, 57404, 57405, 57406, 57407, 57408, 57409, 57410, 57411, 57412, 57413, 57414, 57415, 57416, 57427]"

definition isDeviceAttributeRequest :: "code_units \<Rightarrow> bool" where
  [js]: "isDeviceAttributeRequest data \<longleftrightarrow>
     (case csi_body (CHR ''c'') data of
        None \<Rightarrow> False
      | Some body \<Rightarrow>
          list_all (\<lambda>u. is_dec u \<or> u = SEMICOLON)
            (if body \<noteq> [] \<and> hd body \<in> set (lit ''?>='') then tl body else body))"

definition cursor_position_report :: "code_units \<Rightarrow> bool" where
  [js]: "cursor_position_report data \<longleftrightarrow>
     (case csi_body (CHR ''R'') data of
        None \<Rightarrow> False
      | Some body \<Rightarrow>
          (case split_on SEMICOLON (if starts_with body (lit ''?'') then tl body else body) of
             [r, c] \<Rightarrow> digits1 r \<and> digits1 c
           | _ \<Rightarrow> False))"

definition letter :: "nat \<Rightarrow> bool" where
  [js]: "letter u \<longleftrightarrow> 65 \<le> u \<and> u \<le> 90 \<or> 97 \<le> u \<and> u \<le> 122"

definition found_key :: "special_key option \<Rightarrow> modifier_set \<Rightarrow> event_type \<Rightarrow> key_event parsed" where
  [js]: "found_key k m t = (case k of None \<Rightarrow> Refused | Some sk \<Rightarrow> Parsed (special_event sk m t))"

definition ss3_key :: "code_units \<Rightarrow> key_event parsed" where
  [js]: "ss3_key data =
     (if \<not> (starts_with data SS3 \<and> length data = 3 \<and> letter (last data)) then Unmatched
      else case map_of KEYPAD_SS3_TO_CODEPOINT (last data) of
        Some cp \<Rightarrow> Parsed (key_press cp 0)
      | None \<Rightarrow>
          (case map_of (zip (lit ''abcd'') [KUp, KDown, KRight, KLeft]) (last data) of
             Some k \<Rightarrow> Parsed (special_event k KITTY_CTRL Press)
           | None \<Rightarrow> found_key (map_of CSI_LETTER_KEYS (last data)) 0 Press))"

definition shifted_arrow :: "code_units \<Rightarrow> key_event parsed" where
  [js]: "shifted_arrow data =
     (if starts_with data CSI \<and> length data = 3 \<and> last data \<in> set (lit ''abcd'')
      then found_key (map_of CSI_LETTER_KEYS (last data - 32)) KITTY_SHIFT Press else Unmatched)"

definition modified_tilde_key :: "code_units \<Rightarrow> key_event parsed" where
  [js]: "modified_tilde_key data =
     (case drop 2 data of
        [n, c] \<Rightarrow>
          (if starts_with data CSI \<and> 50 \<le> n \<and> n \<le> 56 \<and> c \<in> set (lit ''$^'')
           then found_key (case parseDecimal [n] 8 of None \<Rightarrow> None | Some v \<Rightarrow> map_of CSI_TILDE_KEYS v)
                  (if [c] = lit ''$'' then KITTY_SHIFT else KITTY_CTRL) Press
           else Unmatched)
      | _ \<Rightarrow> Unmatched)"

definition old_function_key :: "code_units \<Rightarrow> key_event parsed" where
  [js]: "old_function_key data =
     (if starts_with data (CSI @ lit ''['')
      then (case map_of [(lit ''A'', F1), (lit ''B'', F2), (lit ''C'', F3), (lit ''D'', F4), (lit ''E'', F5), (lit ''5~'', KPageUp), (lit ''6~'', KPageDown)]
                   (drop 3 data) of
              None \<Rightarrow> Unmatched
            | Some k \<Rightarrow> Parsed (special_event k 0 Press))
      else Unmatched)"

definition reverse_tab :: "code_units \<Rightarrow> key_event parsed" where
  [js]: "reverse_tab data =
     (case csi_body (CHR ''Z'') data of
        None \<Rightarrow> Unmatched
      | Some body \<Rightarrow>
          (if body = [] then Parsed (key_press 9 KITTY_SHIFT)
           else if starts_with body (lit ''1;'') \<and> digits1 (drop 2 body)
           then (case parseModifierParameter (Some (drop 2 body)) of None \<Rightarrow> Refused | Some m \<Rightarrow> Parsed (key_press 9 m))
           else Unmatched))"

text \<open>A functional key with its modifiers: \<open>field\<close> is the group of \<open>modifier_field\<close>, when it is there.\<close>

definition functional_key :: "special_key option \<Rightarrow> (code_units \<times> code_units option) option \<Rightarrow> key_event parsed" where
  [js]: "functional_key k field =
     (case (parseModifierParameter (map_option fst field), parse_event (case field of None \<Rightarrow> None | Some (_, e) \<Rightarrow> e)) of
        (Some m, Some t) \<Rightarrow> found_key k m t
      | _ \<Rightarrow> Refused)"

definition csi_letter :: "code_units \<Rightarrow> key_event parsed" where
  [js]: "csi_letter data =
     (if \<not> (starts_with data CSI \<and> length data \<ge> 3 \<and> last data \<in> set (lit ''ABCDHFPQRS'')) then Unmatched
      else
        let k = map_of CSI_LETTER_KEYS (last data) in
        case split_on SEMICOLON (butlast (drop 2 data)) of
          [a] \<Rightarrow> (if a = [] \<or> a = lit ''1'' then functional_key k None else Unmatched)
        | [a, x] \<Rightarrow>
            (case modifier_field x of
               Some f \<Rightarrow> (if a = lit ''1'' then functional_key k (Some f) else Unmatched)
             | None \<Rightarrow> Unmatched)
        | _ \<Rightarrow> Unmatched)"

definition tilde_key :: "code_units \<Rightarrow> (code_units \<times> code_units option) option \<Rightarrow> key_event parsed" where
  [js]: "tilde_key n field =
     (case parseDecimal n 999 of None \<Rightarrow> Refused | Some v \<Rightarrow> functional_key (map_of CSI_TILDE_KEYS v) field)"

definition csi_tilde :: "code_units \<Rightarrow> key_event parsed" where
  [js]: "csi_tilde data =
     (case map_option (split_on SEMICOLON) (csi_body (CHR ''~'') data) of
        Some [n] \<Rightarrow> (if digits1 n then tilde_key n None else Unmatched)
      | Some [n, x] \<Rightarrow>
          (case modifier_field x of
             Some f \<Rightarrow> (if digits1 n then tilde_key n (Some f) else Unmatched)
           | None \<Rightarrow> Unmatched)
      | _ \<Rightarrow> Unmatched)"

text \<open>The first form that matches decides.\<close>

definition or_parse :: "'a parsed \<Rightarrow> 'a parsed \<Rightarrow> 'a parsed" where
  [js]: "or_parse p q = (case p of Unmatched \<Rightarrow> q | _ \<Rightarrow> p)"

definition parseLegacyKeyboardSequence :: "code_units \<Rightarrow> key_event parsed" where
  [js]: "parseLegacyKeyboardSequence data =
     (if length data > MAX_CSI_PACKET_LENGTH then Refused
      else if isDeviceAttributeRequest data then Refused
      else if cursor_position_report data then Refused
      else or_parse (parseKittyCsiU data)
       (or_parse (parseModifyOtherKeys data)
       (or_parse (ss3_key data)
       (if data = CSI @ lit ''E'' then Parsed (key_press 57427 0)
        else or_parse (shifted_arrow data)
         (or_parse (modified_tilde_key data)
         (or_parse (old_function_key data)
         (or_parse (reverse_tab data)
         (or_parse (csi_letter data) (csi_tilde data)))))))))"

subsection \<open>The suspend key\<close>

definition Z_KEY_CODEPOINTS :: "nat list" where [js]: "Z_KEY_CODEPOINTS = [0x5a, 0x7a]"
definition Z_BASE_LAYOUT_CODEPOINT :: nat where [js]: "Z_BASE_LAYOUT_CODEPOINT = 0x7a"

definition AUTHORITATIVE_IDENTITY_SYMBOLS :: code_units where
  [js]: "AUTHORITATIVE_IDENTITY_SYMBOLS = lit (''`-=[]'' @ [char_of (92 :: nat)] @ '';'' @ [char_of (39 :: nat)] @ '',./!@#$%^&*()_+|~{}:<>?'')"

text \<open>\<open>String.fromCharCode\<close> keeps the low 16 bits.\<close>

definition isAuthoritativeIdentityCodepoint :: "nat \<Rightarrow> bool" where
  [js]: "isAuthoritativeIdentityCodepoint cp \<longleftrightarrow> 0x61 \<le> cp \<and> cp \<le> 0x7a \<or> cp mod 65536 \<in> set AUTHORITATIVE_IDENTITY_SYMBOLS"

definition unlocked :: "modifier_set \<Rightarrow> modifier_set" where
  [js]: "unlocked m = m AND NOT LOCK_MODIFIERS"

definition letterIdentityCodepoint :: "nat \<Rightarrow> modifier_set \<Rightarrow> nat" where
  [js]: "letterIdentityCodepoint cp m =
     (if hasModifier (unlocked m) KITTY_SHIFT \<and> 0x41 \<le> cp \<and> cp \<le> 0x5a then cp + 0x20 else cp)"

definition isSuspendKeyEvent :: "key_event \<Rightarrow> bool" where
  [js]: "isSuspendKeyEvent e \<longleftrightarrow>
     (case codepoint e of
        None \<Rightarrow> False
      | Some cp \<Rightarrow>
          (if \<not> hasModifier (modifiers e) KITTY_CTRL then False
           else
             let identity = letterIdentityCodepoint cp (modifiers e) in
             if identity \<in> set Z_KEY_CODEPOINTS then True
             else baseLayout e = Some Z_BASE_LAYOUT_CODEPOINT \<and> \<not> isAuthoritativeIdentityCodepoint identity))"

definition isSuspendEscapePacket :: "code_units \<Rightarrow> bool" where
  [js]: "isSuspendEscapePacket data \<longleftrightarrow>
     (case parseLegacyKeyboardSequence data of Parsed k \<Rightarrow> isSuspendKeyEvent k | _ \<Rightarrow> False)"

end
