(* ===== verification/Terminal_Output.thy ===== *)
theory Terminal_Output
  imports Terminal_Input
begin

text \<open>
  What the session host forwards to a child terminal: the encoders of \<open>src/src/session-host/input.ts\<close> and
  the translation of one packet.  A mouse report in the old encoding is bytes, everything else a text.
\<close>

datatype mouse_tracking = TrackNone | TrackX10 | TrackVt200 | TrackDrag | TrackAny
datatype mouse_encoding = EncDefault | EncSgr | EncSgrPixels

record modes =
  kittyFlags :: nat
  modifyOtherKeys :: nat
  applicationCursorKeys :: bool
  applicationKeypad :: bool
  bracketedPaste :: bool
  mouseTracking :: mouse_tracking
  mouseEncoding :: mouse_encoding

record viewport =
  vp_column :: nat
  vp_row :: nat
  vp_cols :: nat
  vp_rows :: nat

definition validModes :: "modes \<Rightarrow> bool" where
  [js]: "validModes m \<longleftrightarrow> kittyFlags m \<le> 7 \<and> modifyOtherKeys m \<le> 2"

definition validViewport :: "viewport \<Rightarrow> bool" where
  [js]: "validViewport v \<longleftrightarrow>
     vp_column v \<le> MAX_SAFE_INTEGER \<and> vp_row v \<le> MAX_SAFE_INTEGER \<and> vp_cols v \<le> MAX_SAFE_INTEGER \<and> 0 < vp_cols v
     \<and> vp_rows v \<le> MAX_SAFE_INTEGER \<and> 0 < vp_rows v
     \<and> vp_column v + vp_cols v \<le> MAX_SAFE_INTEGER \<and> vp_row v + vp_rows v \<le> MAX_SAFE_INTEGER"

definition kitty_flag :: "modes \<Rightarrow> nat \<Rightarrow> bool" where
  [js]: "kitty_flag m b \<longleftrightarrow> kittyFlags m AND b \<noteq> 0"

subsection \<open>Keys\<close>

text \<open>\<open>String.fromCodePoint\<close>: one code unit, or a surrogate pair.\<close>

definition fromCodePoint :: "nat \<Rightarrow> code_units" where
  [js]: "fromCodePoint cp =
     (if cp < 0x10000 then [cp] else [0xd800 + (cp - 0x10000) div 0x400, 0xdc00 + (cp - 0x10000) mod 0x400])"

definition event_number :: "event_type \<Rightarrow> nat" where
  [js]: "event_number t = (case t of Press \<Rightarrow> 1 | Repeat \<Rightarrow> 2 | Release \<Rightarrow> 3)"

definition kittyEventSuffix :: "modes \<Rightarrow> event_type \<Rightarrow> code_units" where
  [js]: "kittyEventSuffix md t = (if kitty_flag md 2 \<and> t \<noteq> Press then lit '':'' @ dec (event_number t) else [])"

definition modifier_parameter :: "modifier_set \<Rightarrow> code_units" where
  [js]: "modifier_parameter m = dec (1 + unat m)"

definition kitty_key_field :: "nat \<Rightarrow> modes \<Rightarrow> nat option \<Rightarrow> nat option \<Rightarrow> code_units" where
  [js]: "kitty_key_field cp md sh bl =
     dec cp @
     (if kitty_flag md 4 \<and> (sh \<noteq> None \<or> bl \<noteq> None)
      then (case sh of Some s \<Rightarrow> lit '':'' @ dec s | None \<Rightarrow> lit '':'') @
           (case bl of Some b \<Rightarrow> lit '':'' @ dec b | None \<Rightarrow> [])
      else [])"

definition kittyCodepointSequence ::
  "nat \<Rightarrow> modifier_set \<Rightarrow> event_type \<Rightarrow> modes \<Rightarrow> nat option \<Rightarrow> nat option \<Rightarrow> code_units" where
  [js]: "kittyCodepointSequence cp m t md sh bl =
     CSI @ kitty_key_field cp md sh bl @ lit '';'' @ modifier_parameter m @ kittyEventSuffix md t @ lit ''u''"

definition cursor_letter :: "special_key \<Rightarrow> code_units option" where
  [js]: "cursor_letter k = map_of [(KUp, lit ''A''), (KDown, lit ''B''), (KRight, lit ''C''), (KLeft, lit ''D'')] k"

definition function_letter :: "special_key \<Rightarrow> code_units option" where
  [js]: "function_letter k = map_of [(F1, lit ''P''), (F2, lit ''Q''), (F3, lit ''R''), (F4, lit ''S'')] k"

definition tilde_code :: "special_key \<Rightarrow> nat option" where
  [js]: "tilde_code k =
     map_of [(KInsert, 2), (KDelete, 3), (KPageUp, 5), (KPageDown, 6), (F5, 15), (F6, 17), (F7, 18), (F8, 19), (F9, 20), (F10, 21), (F11, 23), (F12, 24)] k"

text \<open>A modified key: \<open>CSI number ; modifiers event letter\<close>.\<close>

definition modified_key :: "code_units \<Rightarrow> modifier_set \<Rightarrow> event_type \<Rightarrow> modes \<Rightarrow> code_units \<Rightarrow> code_units" where
  [js]: "modified_key n m t md c = CSI @ n @ lit '';'' @ modifier_parameter m @ kittyEventSuffix md t @ c"

definition kittyFunctionalSequence :: "special_key \<Rightarrow> modifier_set \<Rightarrow> event_type \<Rightarrow> modes \<Rightarrow> code_units option" where
  [js]: "kittyFunctionalSequence k m t md =
     (let plain = (m = 0 \<and> t = Press) in
      case cursor_letter k of
        Some c \<Rightarrow>
          Some (if plain then (if applicationCursorKeys md then SS3 @ c else CSI @ c) else modified_key (lit ''1'') m t md c)
      | None \<Rightarrow>
          (if k = KHome \<or> k = KEnd
           then let c = (if k = KHome then lit ''H'' else lit ''F'') in
                Some (if plain then CSI @ c else modified_key (lit ''1'') m t md c)
           else case function_letter k of
             Some c \<Rightarrow>
               Some (if plain then SS3 @ c
                     else if k = F3 then modified_key (lit ''13'') m t md (lit ''~'')
                     else modified_key (lit ''1'') m t md c)
           | None \<Rightarrow>
               (case tilde_code k of
                  Some n \<Rightarrow> Some (if plain then CSI @ dec n @ lit ''~'' else modified_key (dec n) m t md (lit ''~''))
                | None \<Rightarrow>
                    (if k = KpBegin
                     then Some (if plain then SS3 @ lit ''E'' else kittyCodepointSequence 57427 m t md None None)
                     else None))))"

definition actualShiftedCodepoint :: "key_event \<Rightarrow> nat option" where
  [js]: "actualShiftedCodepoint e =
     (if \<not> hasModifier (modifiers e) KITTY_SHIFT then codepoint e
      else if shifted e \<noteq> None then shifted e
      else case codepoint e of
        None \<Rightarrow> None
      | Some cp \<Rightarrow> (if cp = 32 then Some 32 else if 0x61 \<le> cp \<and> cp \<le> 0x7a then Some (cp - 0x20) else None))"

definition toText :: "nat option \<Rightarrow> code_units option" where
  [js]: "toText cp = (case cp of None \<Rightarrow> None | Some c \<Rightarrow> if isPrintableCodepoint c then Some (fromCodePoint c) else None)"

definition LEGACY_TEXT_KEYS :: "nat list" where
  [js]: "LEGACY_TEXT_KEYS = 32 # lit ''abcdefghijklmnopqrstuvwxyz'' @ lit ''0123456789'' @ lit (''`-=[]'' @ [char_of (92 :: nat)] @ '';'' @ [char_of (39 :: nat)]) @ lit '',./''"

definition LEGACY_CTRL_MAP :: "nat \<Rightarrow> nat option" where
  [js]: "LEGACY_CTRL_MAP cp =
     (if 97 \<le> cp \<and> cp \<le> 122 then Some (cp - 96)
      else map_of [(32, 0), (47, 31), (48, 48), (49, 49), (50, 0), (51, 27), (52, 28), (53, 29), (54, 30), (55, 31), (56, 127), (57, 57),
                   (63, 127), (64, 0), (91, 27), (92, 28), (93, 29), (94, 30), (95, 31), (126, 30)] cp)"

definition csiuFallback :: "key_event \<Rightarrow> modes \<Rightarrow> code_units option" where
  [js]: "csiuFallback e md =
     (case codepoint e of
        None \<Rightarrow> None
      | Some cp \<Rightarrow> Some (kittyCodepointSequence cp (modifiers e) (eventType e) md (shifted e) (baseLayout e)))"

definition alt_prefix :: "modifier_set \<Rightarrow> code_units" where
  [js]: "alt_prefix m = (if hasModifier m KITTY_ALT \<or> hasModifier m KITTY_META then [ESC] else [])"

definition LEGACY_MODIFIERS :: modifier_set where
  [js]: "LEGACY_MODIFIERS = KITTY_SHIFT OR KITTY_ALT OR KITTY_CTRL OR KITTY_META"

definition encodeLegacyControl :: "key_event \<Rightarrow> code_units option" where
  [js]: "encodeLegacyControl e =
     (case codepoint e of
        None \<Rightarrow> None
      | Some cp \<Rightarrow>
          (let m = unlocked (modifiers e) in
           if m AND NOT LEGACY_MODIFIERS \<noteq> 0 then None
           else if cp = 27 then Some (alt_prefix m @ [ESC])
           else if cp = 13 then Some (alt_prefix m @ [13])
           else if cp = 9 then Some (alt_prefix m @ (if hasModifier m KITTY_SHIFT then CSI @ lit ''Z'' else [9]))
           else if cp = 127 then Some (alt_prefix m @ (if hasModifier m KITTY_CTRL then [8] else [127]))
           else None))"

definition isOrdinaryPrintableKey :: "nat \<Rightarrow> bool" where
  [js]: "isOrdinaryPrintableKey cp \<longleftrightarrow> isPrintableCodepoint cp \<and> \<not> isOfficialFunctionalCodepoint cp"

definition isMokEligible :: "nat \<Rightarrow> bool" where
  [js]: "isMokEligible cp \<longleftrightarrow> isOrdinaryPrintableKey cp \<or> cp = 9 \<or> cp = 13 \<or> cp = 127"

definition xtermModifierParameter :: "modifier_set \<Rightarrow> nat" where
  [js]: "xtermModifierParameter m =
     1 + ((if hasModifier m KITTY_SHIFT then 1 else 0) + (if hasModifier m KITTY_ALT then 2 else 0)
          + (if hasModifier m KITTY_CTRL then 4 else 0) + (if hasModifier m KITTY_META then 8 else 0))"

definition TEXT_MODIFIERS :: modifier_set where
  [js]: "TEXT_MODIFIERS = KITTY_ALT OR KITTY_CTRL OR KITTY_SUPER OR KITTY_HYPER OR KITTY_META"

definition eventWithNormalizedType :: "key_event \<Rightarrow> modes \<Rightarrow> key_event option" where
  [js]: "eventWithNormalizedType e md =
     (let dropped =
        (eventType e = Release \<and>
         (\<not> kitty_flag md 2
          \<or> codepoint e \<in> {Some 9, Some 13, Some 127, Some 57414}
          \<or> (codepoint e \<noteq> Some 27 \<and> special e = None
             \<and> \<not> (case codepoint e of None \<Rightarrow> False | Some cp \<Rightarrow> isOfficialFunctionalCodepoint cp)
             \<and> \<not> (case codepoint e of None \<Rightarrow> False
                  | Some cp \<Rightarrow> isOrdinaryPrintableKey cp \<and> modifiers e AND TEXT_MODIFIERS \<noteq> 0))))
      in if dropped then None
         else if eventType e = Repeat \<and> \<not> kitty_flag md 2 then Some (e\<lparr>eventType := Press\<rparr>)
         else Some e)"

definition isKeypadCodepoint :: "nat \<Rightarrow> bool" where
  [js]: "isKeypadCodepoint cp \<longleftrightarrow> 57399 \<le> cp \<and> cp \<le> 57427"

text \<open>The unit a keypad key stands for.\<close>

definition KEYPAD_VALUES :: "nat \<Rightarrow> nat option" where
  [js]: "KEYPAD_VALUES cp = map_of (zip [57399..<57417] (lit ''0123456789./*-+'' @ [13] @ lit ''=,'')) cp"

definition KEYPAD_APPLICATION_CODES :: "nat \<Rightarrow> nat option" where
  [js]: "KEYPAD_APPLICATION_CODES cp = map_of (zip ([57399..<57417] @ [57427]) (lit ''pqrstuvwxynojmkMXlE'')) cp"

definition KEYPAD_NAVIGATION :: "nat \<Rightarrow> special_key option" where
  [js]: "KEYPAD_NAVIGATION cp =
     map_of (zip [57417..<57427] [KLeft, KRight, KUp, KDown, KPageUp, KPageDown, KHome, KEnd, KInsert, KDelete]) cp"


subsection \<open>Encoding a key\<close>

definition encodeLegacyText :: "key_event \<Rightarrow> modes \<Rightarrow> code_units option" where
  [js]: "encodeLegacyText e md =
     (case codepoint e of
        None \<Rightarrow> None
      | Some cp \<Rightarrow>
          (let m = unlocked (modifiers e);
               shift = hasModifier m KITTY_SHIFT;
               alt = hasModifier m KITTY_ALT \<or> hasModifier m KITTY_META;
               control = hasModifier m KITTY_CTRL in
           if m AND NOT LEGACY_MODIFIERS \<noteq> 0 then csiuFallback e md
           else if control \<and> shift \<and> cp = 32 then Some (alt_prefix m @ [0])
           else if control \<and> shift then csiuFallback e md
           else if control
           then (case LEGACY_CTRL_MAP cp of
                   Some c \<Rightarrow> Some (alt_prefix m @ [c])
                 | None \<Rightarrow>
                     (if alt then (if cp \<in> set LEGACY_TEXT_KEYS then Some (ESC # fromCodePoint cp) else csiuFallback e md)
                      else if 0x20 \<le> cp \<and> cp \<le> 0x7e then Some (fromCodePoint cp)
                      else csiuFallback e md))
           else if alt \<and> cp \<notin> set LEGACY_TEXT_KEYS then csiuFallback e md
           else if shift \<and> actualShiftedCodepoint e = None then csiuFallback e md
           else case toText (if shift then actualShiftedCodepoint e else Some cp) of
             None \<Rightarrow> csiuFallback e md
           | Some t \<Rightarrow> Some (alt_prefix m @ t)))"

text \<open>The control keys Tab, Enter and Backspace when a child is not told about modified keys.\<close>

definition control_key :: "nat \<Rightarrow> key_event \<Rightarrow> modes \<Rightarrow> code_units option" where
  [js]: "control_key cp e md =
     (let m = unlocked (modifiers e) in
      if m = 0 then encodeLegacyControl e
      else if kitty_flag md 1 then csiuFallback e md
      else if cp = 9 \<and> m = KITTY_SHIFT \<or> cp = 13 \<and> m = KITTY_ALT \<or> cp = 127 \<and> m = KITTY_ALT then encodeLegacyControl e
      else csiuFallback e md)"

text \<open>\<open>modifyOtherKeys\<close> at level one; \<open>None\<close> goes on to the plain text.\<close>

definition level_one :: "nat \<Rightarrow> key_event \<Rightarrow> modes \<Rightarrow> code_units option option" where
  [js]: "level_one cp e md =
     (let m = unlocked (modifiers e) in
      if m AND NOT XTERM_MODIFIERS \<noteq> 0 then Some (csiuFallback e md)
      else
        let prefix = (if m AND (KITTY_ALT OR KITTY_META) \<noteq> 0 then [ESC] else []) in
        if cp = 32 \<and> hasModifier m KITTY_CTRL then Some (Some (prefix @ [0]))
        else if cp = 51 \<and> hasModifier m KITTY_CTRL \<and> \<not> hasModifier m KITTY_SHIFT then Some (Some (prefix @ [ESC]))
        else if \<not> (cp = 9 \<or> cp = 127) \<and> m AND (KITTY_SHIFT OR KITTY_CTRL) \<noteq> 0 \<and> m AND NOT (KITTY_SHIFT OR KITTY_CTRL) = 0
        then Some (Some (CSI @ lit ''27;'' @ modifier_parameter m @ lit '';'' @ dec cp @ lit ''~''))
        else None)"

definition encode_text_key :: "nat \<Rightarrow> key_event \<Rightarrow> modes \<Rightarrow> code_units option" where
  [js]: "encode_text_key cp e md =
     (let m = unlocked (modifiers e) in
      if \<not> isOrdinaryPrintableKey cp then None
      else if kitty_flag md 1
        \<and> (m AND TEXT_MODIFIERS \<noteq> 0 \<or> (hasModifier m KITTY_SHIFT \<and> hasModifier m KITTY_CTRL))
      then csiuFallback e md
      else case (if \<not> kitty_flag md 1 \<and> modifyOtherKeys md = 1 \<and> isMokEligible cp then level_one cp e md else None) of
        Some r \<Rightarrow> r
      | None \<Rightarrow> encodeLegacyText e md)"

text \<open>A key that is neither a named key nor on the keypad.\<close>

definition encode_codepoint :: "nat \<Rightarrow> key_event \<Rightarrow> modes \<Rightarrow> code_units option" where
  [js]: "encode_codepoint cp e md =
     (let m = unlocked (modifiers e) in
      if isOfficialFunctionalCodepoint cp then csiuFallback e md
      else if eventType e \<noteq> Press \<and> kitty_flag md 2 \<and> isOrdinaryPrintableKey cp \<and> m AND TEXT_MODIFIERS \<noteq> 0
      then csiuFallback e md
      else if cp = 27
      then (if kitty_flag md 1 \<or> m \<noteq> 0 \<or> eventType e \<noteq> Press then csiuFallback e md else encodeLegacyControl e)
      else if \<not> kitty_flag md 1 \<and> modifyOtherKeys md = 2 \<and> isMokEligible cp \<and> m \<noteq> 0
      then (if m AND NOT XTERM_MODIFIERS = 0
            then Some (CSI @ lit ''27;'' @ dec (xtermModifierParameter m) @ lit '';'' @ dec cp @ lit ''~'')
            else csiuFallback e md)
      else if cp = 9 \<or> cp = 13 \<or> cp = 127 then control_key cp e md
      else encode_text_key cp e md)"

text \<open>What \<open>encodeKey\<close> does with a keypad key is its argument \<open>keypad\<close>.\<close>

definition encode_with :: "(key_event \<Rightarrow> modes \<Rightarrow> code_units option) \<Rightarrow> key_event \<Rightarrow> modes \<Rightarrow> code_units option" where
  [js]: "encode_with keypad e0 md =
     (case eventWithNormalizedType e0 md of
        None \<Rightarrow> None
      | Some e \<Rightarrow>
          (case special e of
             Some k \<Rightarrow> kittyFunctionalSequence k (unlocked (modifiers e)) (eventType e) md
           | None \<Rightarrow>
               (case codepoint e of
                  None \<Rightarrow> None
                | Some cp \<Rightarrow>
                    (if \<not> isValidKeyboardCodepoint cp then None
                     else if isKeypadCodepoint cp then keypad e md
                     else encode_codepoint cp e md))))"

text \<open>
  The key a keypad key stands for goes through \<open>encodeKey\<close> again; that key is not on the keypad, so
  the recursion is one deep (\<open>encodeKey_unfold\<close>).
\<close>

definition encodeKeypad_with ::
  "(key_event \<Rightarrow> modes \<Rightarrow> code_units option) \<Rightarrow> key_event \<Rightarrow> modes \<Rightarrow> code_units option" where
  [js]: "encodeKeypad_with encode e md =
     (case codepoint e of
        None \<Rightarrow> None
      | Some cp \<Rightarrow>
          (let m = unlocked (modifiers e); navigation = KEYPAD_NAVIGATION cp in
           if \<not> isKeypadCodepoint cp then None
           else if kitty_flag md 1 then csiuFallback e md
           else if eventType e \<noteq> Press \<and> kitty_flag md 2
           then (case navigation of
                   Some k \<Rightarrow> kittyFunctionalSequence k m (eventType e) md
                 | None \<Rightarrow> csiuFallback e md)
           else if m \<noteq> 0
           then (case navigation of
                   Some k \<Rightarrow> kittyFunctionalSequence k m (eventType e) md
                 | None \<Rightarrow>
                     (case (if applicationKeypad md then None else KEYPAD_VALUES cp) of
                        Some v \<Rightarrow> encode (e\<lparr>codepoint := Some v, special := None\<rparr>) md
                      | None \<Rightarrow> csiuFallback e md))
           else if applicationKeypad md
           then (case navigation of
                   Some k \<Rightarrow> kittyFunctionalSequence k 0 (eventType e) md
                 | None \<Rightarrow> map_option (\<lambda>c. SS3 @ [c]) (KEYPAD_APPLICATION_CODES cp))
           else if cp = 57427 then Some (CSI @ lit ''E'')
           else case KEYPAD_VALUES cp of
             Some v \<Rightarrow> Some [v]
           | None \<Rightarrow>
               (case navigation of
                  Some k \<Rightarrow> kittyFunctionalSequence k 0 (eventType e) md
                | None \<Rightarrow> None)))"

definition encodeKeypad :: "key_event \<Rightarrow> modes \<Rightarrow> code_units option" where
  [js]: "encodeKeypad = encodeKeypad_with (encode_with (\<lambda>_ _. None))"

definition encodeKey :: "key_event \<Rightarrow> modes \<Rightarrow> code_units option" where
  [js]: "encodeKey = encode_with encodeKeypad"

subsection \<open>The mouse\<close>

record mouse_input =
  ms_button :: nat
  ms_x :: nat
  ms_y :: nat
  ms_release :: bool
  ms_motion :: bool
  ms_wheel :: bool

definition mouse_of :: "nat \<Rightarrow> nat \<Rightarrow> nat \<Rightarrow> bool \<Rightarrow> mouse_input" where
  [js]: "mouse_of button x y up =
     (let motion = (button AND 32 \<noteq> 0); wheel = (button AND 64 \<noteq> 0) in
      \<lparr>ms_button = button, ms_x = x, ms_y = y, ms_release = (up \<or> (\<not> motion \<and> \<not> wheel \<and> button AND 3 = 3)),
       ms_motion = motion, ms_wheel = wheel\<rparr>)"

definition sgr_mouse :: "code_units \<Rightarrow> mouse_input parsed" where
  [js]: "sgr_mouse data =
     (case split_on SEMICOLON (butlast (drop 3 data)) of
        [b, x, y] \<Rightarrow>
          (if \<not> (length data \<ge> 4 \<and> last data \<in> set (lit ''Mm'') \<and> digits1 b \<and> digits1 x \<and> digits1 y) then Unmatched
           else case (parseDecimal b 255, parseDecimal x MAX_SAFE_INTEGER, parseDecimal y MAX_SAFE_INTEGER) of
             (Some button, Some xx, Some yy) \<Rightarrow>
               (if xx < 1 \<or> yy < 1 then Refused else Parsed (mouse_of button (xx - 1) (yy - 1) ([last data] = lit ''m'')))
           | _ \<Rightarrow> Refused)
      | _ \<Rightarrow> Unmatched)"

definition x10_mouse :: "code_units \<Rightarrow> mouse_input parsed" where
  [js]: "x10_mouse data =
     (case drop 3 data of
        [b, x, y] \<Rightarrow>
          (if b < 32 \<or> b > 255 \<or> x < 33 \<or> x > 255 \<or> y < 33 \<or> y > 255 then Refused
           else Parsed (mouse_of (b - 32) (x - 33) (y - 33) False))
      | _ \<Rightarrow> Refused)"

definition parseMouseInput :: "code_units \<Rightarrow> mouse_input parsed" where
  [js]: "parseMouseInput data =
     (let isSgrMouse = starts_with data (CSI @ lit ''<''); isX10Mouse = starts_with data (CSI @ lit ''M'') in
      if \<not> isSgrMouse \<and> \<not> isX10Mouse then Unmatched
      else if length data > MAX_CSI_PACKET_LENGTH then Refused
      else if isSgrMouse \<and> sgr_mouse data \<noteq> Unmatched then sgr_mouse data
      else if isX10Mouse then x10_mouse data
      else Refused)"

definition mouseAllowed :: "mouse_input \<Rightarrow> mouse_tracking \<Rightarrow> bool" where
  [js]: "mouseAllowed ms tracking \<longleftrightarrow>
     (case tracking of
        TrackNone \<Rightarrow> False
      | TrackX10 \<Rightarrow> \<not> ms_release ms \<and> \<not> ms_motion ms \<and> \<not> ms_wheel ms
      | TrackVt200 \<Rightarrow> \<not> ms_motion ms
      | TrackDrag \<Rightarrow> \<not> ms_motion ms \<or> ms_button ms AND 3 \<noteq> 3
      | TrackAny \<Rightarrow> True)"

datatype forwarded = Text code_units | Bytes "nat list"

definition inside :: "mouse_input \<Rightarrow> viewport \<Rightarrow> bool" where
  [js]: "inside ms vp \<longleftrightarrow>
     vp_column vp \<le> ms_x ms \<and> ms_x ms < vp_column vp + vp_cols vp \<and> vp_row vp \<le> ms_y ms \<and> ms_y ms < vp_row vp + vp_rows vp"

text \<open>\<open>b & ~28\<close> and \<open>(b & ~3) | 3\<close>.\<close>

definition without_modifiers :: "nat \<Rightarrow> nat" where [js]: "without_modifiers b = b - (b AND 28)"
definition released_button :: "nat \<Rightarrow> nat" where [js]: "released_button b = (b - (b AND 3)) + 3"

text \<open>A template prints an integer with its sign; \<open>Buffer.from\<close> keeps the low byte of one.\<close>

definition dec_int :: "int \<Rightarrow> code_units" where
  [js]: "dec_int i = (if i < 0 then lit ''-'' @ dec (nat (- i)) else dec (nat i))"

definition byte :: "int \<Rightarrow> nat" where [js]: "byte i = nat (i mod 256)"

definition translateMouse :: "mouse_input \<Rightarrow> modes \<Rightarrow> viewport \<Rightarrow> forwarded option" where
  [js]: "translateMouse ms md vp =
     (if mouseEncoding md = EncSgrPixels then None
      else if \<not> inside ms vp then None
      else if \<not> mouseAllowed ms (mouseTracking md) then None
      else
        let localX = int (ms_x ms) - int (vp_column vp); localY = int (ms_y ms) - int (vp_row vp);
            button = (if mouseTracking md = TrackX10 then without_modifiers (ms_button ms) else ms_button ms) in
        if mouseEncoding md = EncSgr
        then Some (Text (CSI @ lit ''<'' @ dec button @ lit '';'' @ dec_int (localX + 1) @ lit '';'' @ dec_int (localY + 1)
                     @ (if ms_release ms then lit ''m'' else lit ''M'')))
        else
          let encodedButton = (if ms_release ms then released_button button else button) + 32;
              encodedX = localX + 33; encodedY = localY + 33 in
          if encodedButton > 255 \<or> encodedX > 255 \<or> encodedY > 255 then None
          else Some (Bytes [0x1b, 0x5b, 0x4d, encodedButton, byte encodedX, byte encodedY]))"

subsection \<open>One packet\<close>

definition PASTE_START :: code_units where [js]: "PASTE_START = CSI @ lit ''200~''"
definition PASTE_END :: code_units where [js]: "PASTE_END = CSI @ lit ''201~''"

definition translatePaste :: "code_units \<Rightarrow> modes \<Rightarrow> code_units parsed" where
  [js]: "translatePaste data md =
     (if \<not> starts_with data PASTE_START then Unmatched
      else if \<not> ends_with data PASTE_END \<or> length data < length PASTE_START + length PASTE_END then Refused
      else if bracketedPaste md then Parsed data
      else Parsed (slice data (length PASTE_START) (length data - length PASTE_END)))"

definition translateLegacyAltPacket :: "code_units \<Rightarrow> modes \<Rightarrow> code_units option" where
  [js]: "translateLegacyAltPacket data md =
     (case data of
        [e, cp] \<Rightarrow>
          (if e \<noteq> ESC then None
           else if cp = 13 then encodeKey (key_press 13 KITTY_ALT) md
           else if cp = 8 \<or> cp = 127
           then (let encoded = encodeKey (key_press 127 KITTY_ALT) md in
                 if cp = 8 \<and> encoded = Some [ESC, 127] then Some data else encoded)
           else if cp > 0x7e \<or> cp < 0x20 then None
           else
             let upper = (0x41 \<le> cp \<and> cp \<le> 0x5a);
                 base = (if upper then cp + 0x20 else cp);
                 m = (if upper then KITTY_ALT OR KITTY_SHIFT else KITTY_ALT) in
             if base \<in> set LEGACY_TEXT_KEYS then encodeKey (key_press base m) md else None)
      | _ \<Rightarrow> None)"

text \<open>The code points of a text; a surrogate alone is one.\<close>

fun code_points :: "code_units \<Rightarrow> nat list" where
  "code_points [] = []"
| "code_points [u] = [u]"
| "code_points (u # v # s) =
     (if 0xd800 \<le> u \<and> u \<le> 0xdbff \<and> 0xdc00 \<le> v \<and> v \<le> 0xdfff
      then (0x10000 + (u - 0xd800) * 0x400 + (v - 0xdc00)) # code_points s
      else u # code_points (v # s))"

definition translate_text :: "code_units \<Rightarrow> code_units option" where
  [js]: "translate_text data =
     (if list_ex (\<lambda>cp. 0x80 \<le> cp \<and> cp \<le> 0x9f) (code_points data) then None
      else if SUSPEND_CONTROL \<notin> set data then Some data
      else
        let withoutSuspend = join [] (split_on SUSPEND_CONTROL data) in
        if withoutSuspend = [] then None else Some withoutSuspend)"

definition translate_packet :: "code_units \<Rightarrow> modes \<Rightarrow> viewport \<Rightarrow> forwarded option" where
  [js]: "translate_packet data md vp =
     (if isSuspendEscapePacket data then None
      else case translatePaste data md of
        Parsed t \<Rightarrow> Some (Text t)
      | Refused \<Rightarrow> None
      | Unmatched \<Rightarrow>
          (case parseMouseInput data of
             Parsed ms \<Rightarrow> translateMouse ms md vp
           | Refused \<Rightarrow> None
           | Unmatched \<Rightarrow>
               (case parseLegacyKeyboardSequence data of
                  Parsed k \<Rightarrow> map_option Text (encodeKey k md)
                | Refused \<Rightarrow> None
                | Unmatched \<Rightarrow>
                    (case translateLegacyAltPacket data md of
                       Some t \<Rightarrow> Some (Text t)
                     | None \<Rightarrow> (if data = [ESC] then Some (Text [ESC]) else None)))))"

definition translateInput :: "code_units \<Rightarrow> modes \<Rightarrow> viewport \<Rightarrow> forwarded option" where
  [js]: "translateInput data md vp =
     (if data = [] \<or> \<not> validModes md \<or> \<not> validViewport vp then None
      else if ESC \<notin> set data then map_option Text (translate_text data)
      else translate_packet data md vp)"

definition KITTY_SHIFT_ENTER :: code_units where [js]: "KITTY_SHIFT_ENTER = CSI @ lit ''13;2u''"
definition KITTY_CTRL_J :: code_units where [js]: "KITTY_CTRL_J = CSI @ lit ''106;5u''"

definition normalizeNativeSourceInput :: "code_units \<Rightarrow> bool \<Rightarrow> code_units" where
  [js]: "normalizeNativeSourceInput data sourceKittyProtocolActive =
     (if sourceKittyProtocolActive \<and> (data = [ESC, 13] \<or> data = [10]) then KITTY_SHIFT_ENTER
      else if \<not> sourceKittyProtocolActive \<and> data = [10] then KITTY_CTRL_J
      else data)"

end
