(* ===== verification/Keyboard_Observer.thy ===== *)
theory Keyboard_Observer
  imports Terminal_Input "HOL-Library.Multiset"
begin

text \<open>
  The passive observer of the keyboard capabilities a terminal reports: \<open>KeyboardCapabilityObserver\<close> of
  \<open>src/src/session-host/input.ts\<close>.  The parser that cuts the bytes into sequences is a library of the host: it
  gets the chunks (\<open>feed\<close>) and calls back with sequences and pastes whenever it likes, so the events
  come in any order.  A wait is a number; \<open>resolved\<close> has the results of the settled ones.
\<close>

definition OBSERVER_BYTE_BUDGET :: nat where "OBSERVER_BYTE_BUDGET = 16 * 1024"
definition MAX_NEGOTIATION_PREFIX_LENGTH :: nat where "MAX_NEGOTIATION_PREFIX_LENGTH = 64"

record observer =
  currentFlags :: nat
  negotiationBuffer :: code_units
  negotiationTimer :: bool
  fedBytes :: nat
  ready :: bool
  stopped :: bool
  pendingWaits :: "nat list"
  waits :: nat
  resolved :: "(nat \<times> nat) list"
  flagChanges :: "nat list"

definition new_observer :: observer where
  "new_observer = \<lparr>currentFlags = 0, negotiationBuffer = [], negotiationTimer = False, fedBytes = 0, ready = False,
     stopped = False, pendingWaits = [], waits = 0, resolved = [], flagChanges = []\<rparr>"

definition clearNegotiationBuffer :: "observer \<Rightarrow> observer" where
  "clearNegotiationBuffer ob = ob\<lparr>negotiationTimer := False, negotiationBuffer := []\<rparr>"

definition setNegotiationBuffer :: "code_units \<Rightarrow> observer \<Rightarrow> observer" where
  "setNegotiationBuffer s ob = ob\<lparr>negotiationBuffer := s, negotiationTimer := True\<rparr>"

definition setFlags :: "nat \<Rightarrow> observer \<Rightarrow> observer" where
  "setFlags n ob =
     (if currentFlags ob = n then ob else ob\<lparr>currentFlags := n, flagChanges := n # flagChanges ob\<rparr>)"

definition resolve_all :: "observer \<Rightarrow> observer" where
  "resolve_all ob =
     ob\<lparr>resolved := map (\<lambda>n. (n, currentFlags ob)) (pendingWaits ob) @ resolved ob, pendingWaits := []\<rparr>"

definition setReady :: "observer \<Rightarrow> observer" where
  "setReady ob = (if ready ob then ob else resolve_all (ob\<lparr>ready := True\<rparr>))"

definition stopObserving :: "observer \<Rightarrow> observer" where
  "stopObserving ob =
     (if stopped ob then ob
      else (resolve_all (clearNegotiationBuffer (ob\<lparr>stopped := True\<rparr>)))\<lparr>ready := True\<rparr>)"

text \<open>The reply with the flags, the answer to the device attributes request, and their prefixes.\<close>

definition flags_reply :: "code_units \<Rightarrow> code_units option" where
  "flags_reply s =
     (case csi_body (CHR ''u'') s of
        None \<Rightarrow> None
      | Some body \<Rightarrow> (if starts_with body (lit ''?'') \<and> digits1 (tl body) then Some (tl body) else None))"

definition attributes_reply :: "code_units \<Rightarrow> bool" where
  "attributes_reply s \<longleftrightarrow>
     (case csi_body (CHR ''c'') s of
        None \<Rightarrow> False
      | Some body \<Rightarrow> starts_with body (lit ''?'') \<and> list_all (\<lambda>u. is_dec u \<or> u = SEMICOLON) (tl body))"

definition isNegotiationPrefix :: "code_units \<Rightarrow> bool" where
  "isNegotiationPrefix s \<longleftrightarrow>
     s = CSI \<or> (starts_with s (CSI @ lit ''?'') \<and> list_all (\<lambda>u. is_dec u \<or> u = SEMICOLON) (drop 3 s))"

definition observeReply :: "code_units \<Rightarrow> observer \<Rightarrow> bool \<times> observer" where
  "observeReply s ob =
     (case flags_reply s of
        Some n \<Rightarrow>
          (True, setReady (setFlags (case parseDecimal n 31 of None \<Rightarrow> 0 | Some v \<Rightarrow> v AND 7) ob))
      | None \<Rightarrow> (if attributes_reply s then (True, setReady ob) else (False, ob)))"

definition observe_fresh :: "code_units \<Rightarrow> observer \<Rightarrow> observer" where
  "observe_fresh s ob =
     (let (seen, ob1) = observeReply s ob in
      if seen then ob1 else if isNegotiationPrefix s then setNegotiationBuffer s ob1 else ob1)"

definition observeSequence :: "code_units \<Rightarrow> observer \<Rightarrow> observer" where
  "observeSequence s ob =
     (if stopped ob then ob
      else if negotiationBuffer ob \<noteq> []
      then
        (let candidate = negotiationBuffer ob @ s; short = (length candidate \<le> MAX_NEGOTIATION_PREFIX_LENGTH);
             (seen, ob1) = (if short then observeReply candidate ob else (False, ob)) in
         if seen then clearNegotiationBuffer ob1
         else if short \<and> isNegotiationPrefix candidate then setNegotiationBuffer candidate ob1
         else observe_fresh s (clearNegotiationBuffer ob1))
      else observe_fresh s ob)"

text \<open>A chunk: bytes, or a text with its length and its size in UTF-8.\<close>

datatype chunk = BufferChunk nat | TextChunk nat nat

definition chunk_size :: "chunk \<Rightarrow> nat" where
  "chunk_size c =
     (case c of BufferChunk n \<Rightarrow> n
      | TextChunk len bytes \<Rightarrow> if len > OBSERVER_BYTE_BUDGET then OBSERVER_BYTE_BUDGET + 1 else bytes)"

definition feed :: "chunk \<Rightarrow> observer \<Rightarrow> observer" where
  "feed c ob =
     (if stopped ob then ob
      else if chunk_size c > OBSERVER_BYTE_BUDGET - fedBytes ob then stopObserving ob
      else ob\<lparr>fedBytes := fedBytes ob + chunk_size c\<rparr>)"

definition wait :: "observer \<Rightarrow> nat \<times> observer" where
  "wait ob =
     (let n = waits ob; ob1 = ob\<lparr>waits := Suc n\<rparr> in
      if ready ob \<or> stopped ob then (n, ob1\<lparr>resolved := (n, currentFlags ob) # resolved ob\<rparr>)
      else (n, ob1\<lparr>pendingWaits := pendingWaits ob @ [n]\<rparr>))"

text \<open>The timer of a wait fires.\<close>

definition wait_expired :: "nat \<Rightarrow> observer \<Rightarrow> observer" where
  "wait_expired n ob =
     (if n \<in> set (pendingWaits ob)
      then ob\<lparr>pendingWaits := removeAll n (pendingWaits ob), resolved := (n, currentFlags ob) # resolved ob\<rparr>
      else ob)"

definition negotiation_expired :: "observer \<Rightarrow> observer" where
  "negotiation_expired ob =
     (if negotiationTimer ob then ob\<lparr>negotiationTimer := False, negotiationBuffer := []\<rparr> else ob)"

datatype observer_event =
    Feed chunk
  | Sequence code_units
  | Paste
  | Wait
  | WaitExpired nat
  | NegotiationExpired
  | Dispose

text \<open>\<open>Dispose\<close> is also the end of the observation window; a paste is heard until the observer stops.\<close>

fun observe :: "observer_event \<Rightarrow> observer \<Rightarrow> observer" where
  "observe (Feed c) ob = feed c ob"
| "observe (Sequence s) ob = observeSequence s ob"
| "observe Paste ob = (if stopped ob then ob else clearNegotiationBuffer ob)"
| "observe Wait ob = snd (wait ob)"
| "observe (WaitExpired n) ob = wait_expired n ob"
| "observe NegotiationExpired ob = negotiation_expired ob"
| "observe Dispose ob = stopObserving ob"

subsection \<open>What the observer promises\<close>

text \<open>
  Nothing more is fed than the budget, the flags are three bits, a kept prefix is short and timed, and
  a wait is resolved once; when a reply was seen or the observer stopped, all of them are.
\<close>

definition observer_inv :: "observer \<Rightarrow> bool" where
  "observer_inv ob \<longleftrightarrow>
     currentFlags ob \<le> 7 \<and> fedBytes ob \<le> OBSERVER_BYTE_BUDGET
     \<and> (negotiationBuffer ob \<noteq> [] \<longleftrightarrow> negotiationTimer ob)
     \<and> mset (pendingWaits ob @ map fst (resolved ob)) = mset [0..<waits ob]
     \<and> (ready ob \<or> stopped ob \<longrightarrow> pendingWaits ob = [])"

lemma observer_clear: "observer_inv ob \<Longrightarrow> observer_inv (clearNegotiationBuffer ob)"
  by (simp add: observer_inv_def clearNegotiationBuffer_def)

lemma observer_set: "observer_inv ob \<Longrightarrow> s \<noteq> [] \<Longrightarrow> observer_inv (setNegotiationBuffer s ob)"
  by (simp add: observer_inv_def setNegotiationBuffer_def)

lemma observer_flags: "observer_inv ob \<Longrightarrow> n \<le> 7 \<Longrightarrow> observer_inv (setFlags n ob)"
  by (simp add: observer_inv_def setFlags_def)

lemma observer_ready: "observer_inv ob \<Longrightarrow> observer_inv (setReady ob)"
  by (cases "ready ob") (auto simp: observer_inv_def setReady_def resolve_all_def comp_def ac_simps)

lemma observer_stop: "observer_inv ob \<Longrightarrow> observer_inv (stopObserving ob)"
  by (cases "stopped ob")
    (auto simp: observer_inv_def stopObserving_def resolve_all_def clearNegotiationBuffer_def comp_def ac_simps)

lemma and_7_bound: "(n :: nat) AND 7 \<le> 7"
proof -
  have "n AND 7 = n mod 8" using take_bit_eq_mask [of 3 n] by (simp add: take_bit_eq_mod mask_eq_exp_minus_1)
  then show ?thesis by simp
qed

lemma prefix_not_Nil: "isNegotiationPrefix s \<Longrightarrow> s \<noteq> []"
  by (auto simp: isNegotiationPrefix_def CSI_def)

lemma observer_reply: "observer_inv ob \<Longrightarrow> observer_inv (snd (observeReply s ob))"
  by (auto simp: observeReply_def and_7_bound split: option.splits intro!: observer_ready observer_flags)

lemma observer_fresh: "observer_inv ob \<Longrightarrow> observer_inv (observe_fresh s ob)"
  using observer_reply [of ob s]
  by (auto simp: observe_fresh_def split: prod.splits intro!: observer_set dest: prefix_not_Nil)

lemma observer_sequence:
  assumes "observer_inv ob"
  shows "observer_inv (observeSequence s ob)"
proof (cases "stopped ob \<or> negotiationBuffer ob = []")
  case True
  then show ?thesis using assms by (auto simp: observeSequence_def intro: observer_fresh)
next
  case False
  define candidate where "candidate = negotiationBuffer ob @ s"
  have "candidate \<noteq> []" using False by (simp add: candidate_def)
  obtain seen ob1 where reply: "(if length candidate \<le> MAX_NEGOTIATION_PREFIX_LENGTH then observeReply candidate ob else (False, ob)) = (seen, ob1)"
    by fastforce
  then have "observer_inv ob1" using observer_reply [OF assms, of candidate] assms by (auto split: if_splits)
  then show ?thesis
    using False reply \<open>candidate \<noteq> []\<close>
    by (simp add: observeSequence_def Let_def observer_clear observer_set observer_fresh flip: candidate_def)
qed

lemma observer_wait: "observer_inv ob \<Longrightarrow> observer_inv (snd (wait ob))"
  by (auto simp: observer_inv_def wait_def Let_def atLeast0_lessThan_Suc)

lemma distinct_waits:
  assumes "observer_inv ob"
  shows "distinct (pendingWaits ob @ map fst (resolved ob))"
proof -
  have "mset (pendingWaits ob @ map fst (resolved ob)) = mset [0..<waits ob]" using assms by (simp add: observer_inv_def)
  then show ?thesis by (metis distinct_upt mset_eq_imp_distinct_iff)
qed

lemma removeAll_mset: "distinct xs \<Longrightarrow> n \<in> set xs \<Longrightarrow> mset xs = add_mset n (mset (removeAll n xs))"
  by (simp add: distinct_remove1_removeAll [symmetric])

lemma observer_expired: "observer_inv ob \<Longrightarrow> observer_inv (wait_expired n ob)"
proof (cases "n \<in> set (pendingWaits ob)")
  case True
  assume inv: "observer_inv ob"
  then have "mset (pendingWaits ob) = add_mset n (mset (removeAll n (pendingWaits ob)))"
    using distinct_waits True by (intro removeAll_mset) simp_all
  with inv True show ?thesis by (auto simp: observer_inv_def wait_expired_def)
qed (simp add: wait_expired_def)

lemma observer_feed: "observer_inv ob \<Longrightarrow> observer_inv (feed c ob)"
  using observer_stop [of ob] by (auto simp: feed_def observer_inv_def)

lemma observe_keeps: "observer_inv ob \<Longrightarrow> observer_inv (observe e ob)"
proof (cases e)
  case NegotiationExpired
  then show "observer_inv ob \<Longrightarrow> observer_inv (observe e ob)" by (auto simp: observer_inv_def negotiation_expired_def)
qed (simp_all add: observer_feed observer_sequence observer_clear observer_wait observer_expired observer_stop)

interpretation keyboard: guarded_system "\<lambda>ob. ob = new_observer" "\<lambda>ob ob'. \<exists>e. ob' = observe e ob" observer_inv
  by unfold_locales (auto simp: observe_keeps, simp add: observer_inv_def new_observer_def)

text \<open>
  C33. Whatever the parser and the timers do, the observer of the keyboard stays within its byte budget, its
  flags are three bits, and every wait is pending or resolved once; once the observer stopped, or a reply
  was seen, none is pending.
\<close>

theorem keyboard_waits_resolved:
  "observer_inv (fold observe es new_observer)
   \<and> pendingWaits (observe Dispose (fold observe es new_observer)) = []
   \<and> mset (map fst (resolved (observe Dispose (fold observe es new_observer)))) = mset [0..<waits (fold observe es new_observer)]"
proof -
  have inv: "observer_inv (fold observe es new_observer)"
    by (rule keyboard.reachable_inv [OF refl fold_run])
  then have "observer_inv (observe Dispose (fold observe es new_observer))" by (rule observe_keeps)
  moreover have "stopped (observe Dispose ob)" "waits (observe Dispose ob) = waits ob" for ob
    by (simp_all add: stopObserving_def resolve_all_def clearNegotiationBuffer_def)
  ultimately have "pendingWaits (observe Dispose (fold observe es new_observer)) = []"
    "mset (pendingWaits (observe Dispose (fold observe es new_observer)) @ map fst (resolved (observe Dispose (fold observe es new_observer))))
     = mset [0..<waits (fold observe es new_observer)]"
    unfolding observer_inv_def by metis+
  with inv show ?thesis by simp
qed

end
