(* ===== verification/Terminal_Spec.thy ===== *)
theory Terminal_Spec
  imports Terminal_Output Keyboard_Observer "HOL-Library.Code_Target_Nat"
begin

text \<open>
  What the input translator of the session host promises: a printed key packet parses back to its key, a
  mouse report arrives in the coordinates of the child, and the suspend key never reaches a child, neither
  as its control character nor in another spelling.
\<close>

subsection \<open>Numbers\<close>

lemma of_char_digit: "is_digit c \<longleftrightarrow> is_dec (of_char c)" "is_digit c \<Longrightarrow> digit_val c = of_char c - 48"
  by (simp_all add: is_digit_def is_dec_def digit_val_def Let_def)

lemma dec_val_lit: "dec_val (lit s) = digits_val s"
  by (simp add: dec_val_def digits_val_def digit_val_def lit_def foldl_map)

lemma dec_val_dec [simp]: "dec_val (dec n) = n"
  by (simp add: dec_def dec_val_lit)

lemma dec_digits: "u \<in> set (dec n) \<Longrightarrow> is_dec u"
  using nat_str_digits [of n] by (auto simp: dec_def lit_def of_char_digit)

lemma dec_not_Nil [simp]: "dec n \<noteq> []"
  by (simp add: dec_def lit_def)

lemma digits_dec [simp]: "digits1 (dec n)" "digits0 (dec n)"
  using dec_digits by (auto simp: digits1_def digits0_def list_all_iff)

lemma length_nat_str_bound: "n < 10 ^ k \<Longrightarrow> 0 < k \<Longrightarrow> length (nat_str n) \<le> k"
proof (induction k arbitrary: n)
  case (Suc k)
  show ?case
  proof (cases "n < 10")
    case False
    then have "0 < k" using Suc.prems(1) by (cases k) auto
    moreover have "n div 10 < 10 ^ k" using Suc.prems(1) by (auto simp: div_less_iff_less_mult mult.commute)
    ultimately have "length (nat_str (n div 10)) \<le> k" using Suc.IH by blast
    with False show ?thesis by (simp add: length_nat_str)
  qed (simp add: length_nat_str)
qed simp

lemma parseDecimal_dec:
  assumes "n \<le> b" "n \<le> MAX_SAFE_INTEGER"
  shows "parseDecimal (dec n) b = Some n"
proof -
  have "length (dec n) \<le> 16"
    using assms(2) length_nat_str_bound [of n 16] by (simp add: dec_def lit_def MAX_SAFE_INTEGER_def)
  with assms show ?thesis by (simp add: parseDecimal_def)
qed

lemma parseDecimal_SomeD: "parseDecimal s b = Some n \<Longrightarrow> n \<le> b \<and> digits1 s \<and> n \<le> MAX_SAFE_INTEGER"
  by (auto simp: parseDecimal_def split: if_splits)

lemma length_dec_bound: "n < 10 ^ k \<Longrightarrow> 0 < k \<Longrightarrow> length (dec n) \<le> k"
  by (simp add: dec_def lit_def length_nat_str_bound)

subsection \<open>Fields\<close>

lemma lit_units [simp]: "lit '';'' = [SEMICOLON]" "lit '':'' = [COLON]" "lit ''u'' = [117]" "lit ''~'' = [126]" "lit ''M'' = [77]"
  "lit ''m'' = [109]" "lit ''<'' = [60]" "lit ''1'' = [49]" "lit ''13'' = [49, 51]" "lit ''27;'' = [50, 55, 59]" "lit ''27'' = [50, 55]"
  "lit ''['' = [91]" "lit ''O'' = [79]"
  by (simp_all add: lit_def SEMICOLON_def COLON_def)

lemma csi_body_print: "of_char c = u \<Longrightarrow> csi_body c (CSI @ b @ [u]) = Some b"
  by (simp add: csi_body_def CSI_def)

lemma csi_body_SomeD: "csi_body c data = Some b \<Longrightarrow> data = CSI @ b @ [of_char c]"
proof -
  assume "csi_body c data = Some b"
  then have d: "starts_with data CSI" "3 \<le> length data" "last data = of_char c" "b = butlast (drop 2 data)"
    by (auto simp: csi_body_def split: if_splits)
  then obtain r where r: "data = CSI @ r" by (auto simp: starts_with_iff_prefix prefix_def)
  with d(2) have "r \<noteq> []" by (auto simp: CSI_def)
  then have "r = butlast r @ [last r]" by simp
  moreover have "last data = last r" "drop 2 data = r" using r \<open>r \<noteq> []\<close> by (simp_all add: CSI_def)
  ultimately show ?thesis using d r by simp
qed

lemma no_separator:
  assumes "\<And>u. u \<in> set s \<Longrightarrow> is_dec u \<or> u = COLON"
  shows "SEMICOLON \<notin> set s"
  using assms by (fastforce simp: is_dec_def SEMICOLON_def COLON_def)

lemma no_colon: "COLON \<notin> set (dec n)" "SEMICOLON \<notin> set (dec n)"
  using dec_digits [of COLON n] dec_digits [of SEMICOLON n] by (auto simp: is_dec_def SEMICOLON_def COLON_def)

lemma split_dec [simp]: "split_on COLON (dec n) = [dec n]" "split_on SEMICOLON (dec n) = [dec n]"
  by (simp_all add: no_colon)

lemma split_dec_colon [simp]: "split_on COLON (dec n @ COLON # s) = dec n # split_on COLON s"
  by (simp add: split_on_append_sep no_colon)

text \<open>The printed event and modifiers are one field, which reads back as they are.\<close>

definition suffix_group :: "modes \<Rightarrow> event_type \<Rightarrow> code_units option" where
  "suffix_group md t = (if kitty_flag md 2 \<and> t \<noteq> Press then Some (dec (event_number t)) else None)"

lemma modifier_field_print:
  "modifier_field (modifier_parameter m @ kittyEventSuffix md t) = Some (modifier_parameter m, suffix_group md t)"
  by (simp add: modifier_field_def modifier_parameter_def kittyEventSuffix_def suffix_group_def)

lemma modifier_parameter_bound: "1 + unat (m :: modifier_set) \<le> 256"
proof -
  have "unat m < 2 ^ LENGTH(8)" by (rule unsigned_less)
  then show ?thesis by simp
qed

lemma parse_modifier_print: "parseModifierParameter (Some (modifier_parameter m)) = Some m"
proof -
  have "parseDecimal (dec (1 + unat m)) 256 = Some (1 + unat m)"
    using modifier_parameter_bound [of m] by (intro parseDecimal_dec) (simp_all add: MAX_SAFE_INTEGER_def)
  then show ?thesis by (simp add: parseModifierParameter_def modifier_parameter_def modifiers_of_def)
qed

lemma event_of_number: "event_of (Some (event_number t)) = Some t"
  by (cases t) (simp_all add: event_of_def event_number_def)

lemma parse_event_print: "parse_event (suffix_group md t) = Some (if kitty_flag md 2 then t else Press)"
proof -
  have "parseDecimal (dec (event_number t)) 3 = Some (event_number t)"
    by (intro parseDecimal_dec) (cases t; simp add: event_number_def MAX_SAFE_INTEGER_def)+
  then show ?thesis by (auto simp: suffix_group_def parse_event_def event_of_number)
qed

text \<open>The printed key field: its parts are the code point and the alternates the child is told.\<close>

definition key_parts :: "nat \<Rightarrow> modes \<Rightarrow> nat option \<Rightarrow> nat option \<Rightarrow> code_units list" where
  "key_parts cp md sh bl =
     dec cp # (if kitty_flag md 4 \<and> (sh \<noteq> None \<or> bl \<noteq> None)
               then (case sh of Some s \<Rightarrow> dec s | None \<Rightarrow> []) # (case bl of Some b \<Rightarrow> [dec b] | None \<Rightarrow> []) else [])"

lemma kitty_key_parts: "split_on COLON (kitty_key_field cp md sh bl) = key_parts cp md sh bl"
  by (auto simp: kitty_key_field_def key_parts_def split: option.splits)

lemma key_field_print: "key_field (kitty_key_field cp md sh bl)"
  by (auto simp: key_field_def kitty_key_parts key_parts_def digits0_def [of "[]"] split: option.splits)

lemma key_field_units: "u \<in> set (kitty_key_field cp md sh bl) \<Longrightarrow> is_dec u \<or> u = COLON"
  by (auto simp: kitty_key_field_def split: option.splits if_splits dest!: dec_digits)

lemma modifier_units: "u \<in> set (modifier_parameter m @ kittyEventSuffix md t) \<Longrightarrow> is_dec u \<or> u = COLON"
  by (auto simp: modifier_parameter_def kittyEventSuffix_def split: if_splits dest!: dec_digits)

lemma kitty_sequence_shape:
  "kittyCodepointSequence cp m t md sh bl =
     CSI @ (kitty_key_field cp md sh bl @ SEMICOLON # modifier_parameter m @ kittyEventSuffix md t) @ [117]"
  by (simp add: kittyCodepointSequence_def)

lemma csi_u_groups_print:
  "csi_u_groups (kittyCodepointSequence cp m t md sh bl)
   = Some (kitty_key_field cp md sh bl, Some (modifier_parameter m, suffix_group md t), False)"
proof -
  have "SEMICOLON \<notin> set (kitty_key_field cp md sh bl)" "SEMICOLON \<notin> set (modifier_parameter m @ kittyEventSuffix md t)"
    by (rule no_separator; erule key_field_units modifier_units)+
  then have "split_on SEMICOLON (kitty_key_field cp md sh bl @ SEMICOLON # modifier_parameter m @ kittyEventSuffix md t)
      = [kitty_key_field cp md sh bl, modifier_parameter m @ kittyEventSuffix md t]"
    by (simp add: split_on_append_sep)
  moreover have "csi_body (CHR ''u'') (kittyCodepointSequence cp m t md sh bl)
      = Some (kitty_key_field cp md sh bl @ SEMICOLON # modifier_parameter m @ kittyEventSuffix md t)"
    unfolding kitty_sequence_shape by (rule csi_body_print) simp
  ultimately show ?thesis by (simp add: csi_u_groups_def key_field_print modifier_field_print)
qed


subsection \<open>Printed keys parse back\<close>

text \<open>An alternate key the Kitty parser accepts, and an event it returns.\<close>

definition alternate_ok :: "nat \<Rightarrow> bool" where
  "alternate_ok n \<longleftrightarrow> isUnicodeScalar n \<and> \<not> n < 0x20 \<and> \<not> (0x7f \<le> n \<and> n \<le> 0x9f)"

definition key_ok :: "key_event \<Rightarrow> bool" where
  "key_ok k \<longleftrightarrow>
     (case codepoint k of None \<Rightarrow> False | Some cp \<Rightarrow> isValidKeyboardCodepoint cp) \<and> special k = None
     \<and> pred_option alternate_ok (shifted k) \<and> pred_option alternate_ok (baseLayout k)
     \<and> (shifted k = None \<or> modifiers k AND KITTY_SHIFT \<noteq> 0)"

text \<open>The part of an event a child with these modes is told.\<close>

definition told :: "modes \<Rightarrow> key_event \<Rightarrow> key_event" where
  "told md k =
     k\<lparr>eventType := (if kitty_flag md 2 then eventType k else Press),
       shifted := (if kitty_flag md 4 then shifted k else None),
       baseLayout := (if kitty_flag md 4 then baseLayout k else None)\<rparr>"

lemma validAlternate_dec: "alternate_ok n \<Longrightarrow> validAlternateCodepoint (Some (dec n)) = Some (Some n)"
  using parseDecimal_dec [of n "0x10ffff"]
  by (simp add: validAlternateCodepoint_def alternate_ok_def isUnicodeScalar_def MAX_SAFE_INTEGER_def)

lemma validAlternate_SomeD: "validAlternateCodepoint v = Some x \<Longrightarrow> pred_option alternate_ok x"
proof (cases "\<exists>s n. v = Some s \<and> parseDecimal s 0x10ffff = Some n")
  case True
  then obtain s n where "v = Some s" "parseDecimal s 0x10ffff = Some n" by blast
  then show "validAlternateCodepoint v = Some x \<Longrightarrow> pred_option alternate_ok x"
    by (cases x) (auto simp: validAlternateCodepoint_def alternate_ok_def split: if_splits)
qed (auto simp: validAlternateCodepoint_def split: option.splits if_splits)

lemma valid_codepoint_bound: "isValidKeyboardCodepoint cp \<Longrightarrow> cp \<le> 0x10ffff"
  by (auto simp: isValidKeyboardCodepoint_def isUnicodeScalar_def split: if_splits)

lemma parse_codepoint_dec: "isValidKeyboardCodepoint cp \<Longrightarrow> parseDecimal (dec cp) 0x10ffff = Some cp"
  using valid_codepoint_bound [of cp] by (intro parseDecimal_dec) (simp_all add: MAX_SAFE_INTEGER_def)

lemma csi_u_event_print:
  assumes "key_ok k" "codepoint k = Some cp"
  shows "csi_u_event (key_parts cp md (shifted k) (baseLayout k))
           (Some (modifier_parameter (modifiers k), suffix_group md (eventType k))) = Parsed (told md k)"
proof -
  have cp: "isValidKeyboardCodepoint cp" "parseDecimal (dec cp) 0x10ffff = Some cp"
    using assms parse_codepoint_dec by (simp_all add: key_ok_def)
  have absent: "validAlternateCodepoint None = Some None" "validAlternateCodepoint (Some []) = Some None"
    by (simp_all add: validAlternateCodepoint_def)
  have k: "special k = None" "codepoint k = Some cp" using assms by (simp_all add: key_ok_def)
  have eq: "k\<lparr>eventType := t, shifted := sh, baseLayout := bl\<rparr> =
      \<lparr>codepoint = Some cp, special = None, modifiers = modifiers k, eventType = t, shifted = sh, baseLayout = bl\<rparr>" for t sh bl
    using k by simp
  show ?thesis
    using assms cp absent
    by (cases "shifted k"; cases "baseLayout k"; cases "kitty_flag md 4")
      (auto simp: csi_u_event_def key_parts_def parse_modifier_print parse_event_print told_def eq key_ok_def validAlternate_dec)
qed

lemma dec_length_codepoint: "n \<le> 0x10ffff \<Longrightarrow> length (dec n) \<le> 7"
  by (rule length_dec_bound) simp_all

lemma alternate_length: "pred_option alternate_ok (Some n) \<Longrightarrow> length (dec n) \<le> 7"
  by (rule dec_length_codepoint) (simp add: alternate_ok_def isUnicodeScalar_def)

lemma kitty_sequence_length:
  assumes "key_ok k" "codepoint k = Some cp"
  shows "length (kittyCodepointSequence cp (modifiers k) (eventType k) md (shifted k) (baseLayout k)) \<le> MAX_CSI_PACKET_LENGTH"
proof -
  have "length (dec cp) \<le> 7"
    using assms valid_codepoint_bound by (intro dec_length_codepoint) (simp add: key_ok_def)
  moreover have "\<And>s. shifted k = Some s \<Longrightarrow> length (dec s) \<le> 7" "\<And>s. baseLayout k = Some s \<Longrightarrow> length (dec s) \<le> 7"
    using assms(1) alternate_length by (simp_all add: key_ok_def)
  ultimately have "length (kitty_key_field cp md (shifted k) (baseLayout k)) \<le> 23"
    by (cases "shifted k"; cases "baseLayout k") (simp_all add: kitty_key_field_def)
  moreover have "length (modifier_parameter (modifiers k)) \<le> 3"
    using modifier_parameter_bound [of "modifiers k"] unfolding modifier_parameter_def by (intro length_dec_bound) simp_all
  moreover have "length (dec (event_number (eventType k))) \<le> 1"
    by (rule length_dec_bound) (cases "eventType k"; simp add: event_number_def)+
  ultimately show ?thesis by (simp add: kitty_sequence_shape kittyEventSuffix_def CSI_def MAX_CSI_PACKET_LENGTH_def)
qed

lemma csi_body_other: "last data \<noteq> of_char c \<Longrightarrow> csi_body c data = None"
  by (simp add: csi_body_def)

lemma last_kitty: "last (kittyCodepointSequence cp m t md sh bl) = 117"
  by (simp add: kitty_sequence_shape)

lemma or_parse_first: "p \<noteq> Unmatched \<Longrightarrow> or_parse p q = p"
  by (cases p) (simp_all add: or_parse_def)

text \<open>A packet that ends in \<open>u\<close> is read by the Kitty parser, unless it is too long.\<close>

lemma parse_u_packet:
  assumes "last data = 117" "parseKittyCsiU data \<noteq> Unmatched" "length data \<le> MAX_CSI_PACKET_LENGTH"
  shows "parseLegacyKeyboardSequence data = parseKittyCsiU data"
proof -
  have "csi_body (CHR ''c'') data = None" "csi_body (CHR ''R'') data = None"
    using assms(1) by (simp_all add: csi_body_other)
  then have "\<not> isDeviceAttributeRequest data" "\<not> cursor_position_report data"
    by (simp_all add: isDeviceAttributeRequest_def cursor_position_report_def)
  with assms(2,3) show ?thesis
    by (simp add: parseLegacyKeyboardSequence_def or_parse_first)
qed

lemma parse_kitty_sequence:
  assumes "key_ok k" "codepoint k = Some cp"
  shows "parseLegacyKeyboardSequence (kittyCodepointSequence cp (modifiers k) (eventType k) md (shifted k) (baseLayout k))
    = Parsed (told md k)"
proof -
  have "parseKittyCsiU (kittyCodepointSequence cp (modifiers k) (eventType k) md (shifted k) (baseLayout k)) = Parsed (told md k)"
    using kitty_sequence_length [OF assms, of md] csi_u_event_print [OF assms, of md]
    by (simp add: parseKittyCsiU_def csi_u_groups_print kitty_key_parts)
  then show ?thesis using kitty_sequence_length [OF assms, of md] parse_u_packet [OF last_kitty] by simp
qed

lemma csiuFallback_print: "csiuFallback k md = Some t \<Longrightarrow> key_ok k \<Longrightarrow> parseLegacyKeyboardSequence t = Parsed (told md k)"
  using parse_kitty_sequence by (auto simp: csiuFallback_def split: option.splits)

lemma parsed_key_ok: "parseKittyCsiU data = Parsed k \<Longrightarrow> key_ok k"
proof -
  assume "parseKittyCsiU data = Parsed k"
  then obtain parts field where "csi_u_event parts field = Parsed k"
    by (auto simp: parseKittyCsiU_def split: if_splits option.splits)
  then show ?thesis
    by (auto simp: csi_u_event_def key_ok_def split: option.splits if_splits dest!: validAlternate_SomeD)
qed


subsection \<open>Suspend packets\<close>

lemma suspend_press: "isSuspendKeyEvent (key_press cp m) \<longleftrightarrow> hasModifier m KITTY_CTRL \<and> cp \<in> {0x5a, 0x7a}"
  by (auto simp: isSuspendKeyEvent_def key_press_def letterIdentityCodepoint_def Z_KEY_CODEPOINTS_def Let_def)

lemma suspend_None: "codepoint e = None \<Longrightarrow> \<not> isSuspendKeyEvent e"
  by (simp add: isSuspendKeyEvent_def)

lemma suspend_Some:
  "codepoint e = Some cp \<Longrightarrow> isSuspendKeyEvent e \<longleftrightarrow> hasModifier (modifiers e) KITTY_CTRL \<and>
     (letterIdentityCodepoint cp (modifiers e) \<in> set Z_KEY_CODEPOINTS
      \<or> baseLayout e = Some Z_BASE_LAYOUT_CODEPOINT \<and> \<not> isAuthoritativeIdentityCodepoint (letterIdentityCodepoint cp (modifiers e)))"
  by (auto simp: isSuspendKeyEvent_def Let_def)

lemma suspend_z: "codepoint e = Some cp \<Longrightarrow> cp \<in> {0x5a, 0x7a} \<Longrightarrow> hasModifier (modifiers e) KITTY_CTRL \<Longrightarrow> isSuspendKeyEvent e"
  by (auto simp: isSuspendKeyEvent_def letterIdentityCodepoint_def Z_KEY_CODEPOINTS_def Let_def)

lemma suspend_told: "isSuspendKeyEvent (told md k) \<Longrightarrow> isSuspendKeyEvent k"
  by (auto simp: isSuspendKeyEvent_def told_def Let_def split: option.splits if_splits)

lemma suspend_special: "\<not> isSuspendKeyEvent (special_event k m t)"
  by (simp add: isSuspendKeyEvent_def special_event_def)

lemma found_key_special: "found_key k m t = Parsed e \<Longrightarrow> \<exists>sk. special e = Some sk \<and> \<not> isSuspendKeyEvent e"
  by (auto simp: found_key_def special_event_def isSuspendKeyEvent_def split: option.splits)

text \<open>Keys of the other spellings are special keys, or have a code point and neither Ctrl nor the name of Z.\<close>

definition plain_key :: "key_event \<Rightarrow> bool" where
  "plain_key e \<longleftrightarrow> \<not> isSuspendKeyEvent e \<and> (special e \<noteq> None \<or> key_ok e)"

lemma plain_special: "plain_key (special_event k m t)"
  unfolding plain_key_def using suspend_special [of k m t] by (simp add: special_event_def)

lemma key_ok_press: "isValidKeyboardCodepoint cp \<Longrightarrow> key_ok (key_press cp m)"
  by (simp add: key_ok_def key_press_def)

lemma plain_press: "isValidKeyboardCodepoint cp \<Longrightarrow> \<not> (hasModifier m KITTY_CTRL \<and> cp \<in> {0x5a, 0x7a}) \<Longrightarrow> plain_key (key_press cp m)"
  using suspend_press [of cp m] by (simp add: plain_key_def key_ok_press)

lemma found_plain: "found_key k m t = Parsed e \<Longrightarrow> plain_key e"
  by (auto simp: found_key_def plain_special split: option.splits)

lemma functional_plain: "functional_key k f = Parsed e \<Longrightarrow> plain_key e"
  by (auto simp: functional_key_def split: option.splits intro: found_plain)

lemma keypad_codepoints: "map_of KEYPAD_SS3_TO_CODEPOINT u = Some cp \<Longrightarrow> isValidKeyboardCodepoint cp \<and> cp \<notin> {0x5a, 0x7a}"
proof -
  have "list_all (\<lambda>cp. isValidKeyboardCodepoint cp \<and> cp \<notin> {0x5a, 0x7a}) (map snd KEYPAD_SS3_TO_CODEPOINT)"
    by (simp add: KEYPAD_SS3_TO_CODEPOINT_def lit_def isValidKeyboardCodepoint_def isUnicodeScalar_def isOfficialFunctionalCodepoint_def)
  moreover assume "map_of KEYPAD_SS3_TO_CODEPOINT u = Some cp"
  then have "cp \<in> set (map snd KEYPAD_SS3_TO_CODEPOINT)" by (metis map_of_SomeD list.set_map image_eqI snd_conv)
  ultimately show ?thesis by (simp only: list_all_iff) blast
qed

lemma valid_tab: "isValidKeyboardCodepoint 9" "isValidKeyboardCodepoint 57427"
  by (simp_all add: isValidKeyboardCodepoint_def isUnicodeScalar_def isOfficialFunctionalCodepoint_def)

lemma ss3_plain: "ss3_key data = Parsed e \<Longrightarrow> plain_key e"
  using keypad_codepoints [of "last data"]
  by (auto simp: ss3_key_def split: if_splits option.splits dest: found_plain intro!: plain_special plain_press)

lemma function_plain:
  "shifted_arrow data = Parsed e \<Longrightarrow> plain_key e" "old_function_key data = Parsed e \<Longrightarrow> plain_key e"
  by (auto simp only: shifted_arrow_def old_function_key_def parsed.inject parsed.distinct
    split: if_splits option.splits intro: found_plain plain_special)

lemma modified_tilde_plain: "modified_tilde_key data = Parsed e \<Longrightarrow> plain_key e"
  by (auto simp only: modified_tilde_key_def parsed.distinct split: if_splits list.splits intro: found_plain)

lemma reverse_tab_plain: "reverse_tab data = Parsed e \<Longrightarrow> plain_key e"
  by (auto simp only: reverse_tab_def parsed.inject parsed.distinct split: if_splits option.splits intro!: plain_press valid_tab)

lemma csi_letter_plain: "csi_letter data = Parsed e \<Longrightarrow> plain_key e"
  by (auto simp only: csi_letter_def Let_def parsed.distinct split: if_splits option.splits list.splits intro: functional_plain)

lemma csi_tilde_plain: "csi_tilde data = Parsed e \<Longrightarrow> plain_key e"
  by (auto simp only: csi_tilde_def tilde_key_def parsed.distinct split: if_splits option.splits list.splits intro: functional_plain)

lemmas other_spellings_plain = ss3_plain function_plain modified_tilde_plain reverse_tab_plain csi_letter_plain csi_tilde_plain

lemma or_parse_ParsedD: "or_parse p q = Parsed e \<Longrightarrow> p = Parsed e \<or> q = Parsed e"
  by (cases p) (simp_all add: or_parse_def)

lemma parsed_cases:
  assumes "parseLegacyKeyboardSequence data = Parsed e"
  obtains "parseKittyCsiU data = Parsed e" | "parseModifyOtherKeys data = Parsed e" | "plain_key e"
proof -
  have "plain_key (key_press 57427 0)" by (rule plain_press [OF valid_tab(2)]) simp
  then show ?thesis
    using assms that unfolding parseLegacyKeyboardSequence_def
    by (auto split: if_splits dest!: or_parse_ParsedD dest: other_spellings_plain)
qed

lemma mok_key: "parseModifyOtherKeys data = Parsed e \<Longrightarrow> \<exists>cp m. e = key_press cp m \<and> isValidKeyboardCodepoint cp"
  by (auto simp: parseModifyOtherKeys_def Let_def split: if_splits option.splits list.splits)

lemma parsed_ok: "parseLegacyKeyboardSequence data = Parsed e \<Longrightarrow> special e \<noteq> None \<or> key_ok e"
  by (erule parsed_cases) (auto simp: plain_key_def dest!: parsed_key_ok mok_key intro: key_ok_press)

lemma suspend_packet:
  assumes "isSuspendEscapePacket data"
  obtains k where "isSuspendKeyEvent k" "parseKittyCsiU data = Parsed k \<or> parseModifyOtherKeys data = Parsed k"
proof -
  obtain k where "parseLegacyKeyboardSequence data = Parsed k" "isSuspendKeyEvent k"
    using assms by (auto simp: isSuspendEscapePacket_def split: parsed.splits)
  then show ?thesis using that by (auto elim!: parsed_cases simp: plain_key_def)
qed

lemma suspend_shape:
  assumes "isSuspendEscapePacket data"
  obtains b where "data = CSI @ b @ [117]" "csi_u_groups data \<noteq> None"
    | b where "data = CSI @ lit ''27;'' @ b @ [126]" "parseModifyOtherKeys data \<noteq> Unmatched"
  using assms
proof (rule suspend_packet)
  fix k assume k: "isSuspendKeyEvent k" "parseKittyCsiU data = Parsed k \<or> parseModifyOtherKeys data = Parsed k"
  from k(2) show ?thesis
  proof
    assume "parseKittyCsiU data = Parsed k"
    then have "csi_u_groups data \<noteq> None" by (auto simp: parseKittyCsiU_def split: if_splits option.splits)
    moreover from this obtain b where "csi_body (CHR ''u'') data = Some b"
      by (cases "csi_body (CHR ''u'') data") (simp_all add: csi_u_groups_def)
    then have "data = CSI @ b @ [117]" by (auto dest: csi_body_SomeD)
    ultimately show ?thesis using that(1) by blast
  next
    assume mok: "parseModifyOtherKeys data = Parsed k"
    then obtain b m c where b: "csi_body (CHR ''~'') data = Some b" "split_on SEMICOLON b = [lit ''27'', m, c]"
      by (auto simp: parseModifyOtherKeys_def split: if_splits option.splits list.splits)
    then have "b = lit ''27'' @ SEMICOLON # m @ SEMICOLON # c"
      using join_split_on [of SEMICOLON b] by simp
    with b(1) have "data = CSI @ lit ''27;'' @ (m @ SEMICOLON # c) @ [126]"
      by (auto dest!: csi_body_SomeD simp: SEMICOLON_def)
    with mok show ?thesis using that(2) by simp
  qed
qed


subsection \<open>What a child may be sent\<close>

definition harmless :: "code_units \<Rightarrow> bool" where
  "harmless t \<longleftrightarrow> SUSPEND_CONTROL \<notin> set t \<and> \<not> isSuspendEscapePacket t"

lemma harmless_end: "SUSPEND_CONTROL \<notin> set t \<Longrightarrow> last t \<notin> {117, 126} \<Longrightarrow> harmless t"
  by (auto simp: harmless_def elim: suspend_shape)

lemma harmless_start: "SUSPEND_CONTROL \<notin> set t \<Longrightarrow> \<not> starts_with t CSI \<Longrightarrow> harmless t"
  by (auto simp: harmless_def elim: suspend_shape)

lemma dec_no_suspend: "SUSPEND_CONTROL \<notin> set (dec n)"
  using dec_digits [of SUSPEND_CONTROL n] by (auto simp: is_dec_def SUSPEND_CONTROL_def)

lemma suffix_no_suspend: "SUSPEND_CONTROL \<notin> set (modifier_parameter m @ kittyEventSuffix md t)"
  using modifier_units [of SUSPEND_CONTROL m md t] by (auto simp: is_dec_def SUSPEND_CONTROL_def COLON_def)

lemma csi_no_suspend: "SUSPEND_CONTROL \<notin> set CSI"
  by (simp add: SUSPEND_CONTROL_def CSI_def ESC_def)

lemma harmless_csiu: "csiuFallback e md = Some t \<Longrightarrow> key_ok e \<Longrightarrow> \<not> isSuspendKeyEvent e \<Longrightarrow> harmless t"
proof -
  assume t: "csiuFallback e md = Some t" and e: "key_ok e" "\<not> isSuspendKeyEvent e"
  have "\<not> isSuspendEscapePacket t"
    using csiuFallback_print [OF t e(1)] suspend_told [of md e] e(2) by (auto simp: isSuspendEscapePacket_def)
  moreover from t obtain cp where "t = kittyCodepointSequence cp (modifiers e) (eventType e) md (shifted e) (baseLayout e)"
    by (auto simp: csiuFallback_def split: option.splits)
  then have "SUSPEND_CONTROL \<notin> set t"
    using key_field_units [of SUSPEND_CONTROL] suffix_no_suspend csi_no_suspend
    by (auto simp: kitty_sequence_shape is_dec_def SUSPEND_CONTROL_def COLON_def SEMICOLON_def)
  ultimately show ?thesis by (simp add: harmless_def)
qed

text \<open>Modified functional keys have two fields, so they are no \<open>modifyOtherKeys\<close> packet.\<close>

lemma harmless_tilde:
  assumes "\<And>u. u \<in> set n \<Longrightarrow> is_dec u"
  shows "harmless (modified_key n m t md [126])" "harmless (CSI @ n @ [126])"
proof -
  define x where "x = modifier_parameter m @ kittyEventSuffix md t"
  have n: "SEMICOLON \<notin> set n" "SUSPEND_CONTROL \<notin> set n"
    using assms [of SEMICOLON] assms [of SUSPEND_CONTROL] by (auto simp: is_dec_def SEMICOLON_def SUSPEND_CONTROL_def)
  have x: "SEMICOLON \<notin> set x" "SUSPEND_CONTROL \<notin> set x"
    unfolding x_def by (rule no_separator, erule modifier_units) (rule suffix_no_suspend)
  have shape: "modified_key n m t md [126] = CSI @ (n @ SEMICOLON # x) @ [126]" by (simp add: modified_key_def x_def)
  have "csi_body (CHR ''~'') (modified_key n m t md [126]) = Some (n @ SEMICOLON # x)" "csi_body (CHR ''~'') (CSI @ n @ [126]) = Some n"
    unfolding shape by (rule csi_body_print; simp)+
  moreover have "split_on SEMICOLON (n @ SEMICOLON # x) = [n, x]" "split_on SEMICOLON n = [n]"
    using n x by (simp_all add: split_on_append_sep)
  ultimately have "parseModifyOtherKeys (modified_key n m t md [126]) \<in> {Unmatched, Refused}"
    "parseModifyOtherKeys (CSI @ n @ [126]) \<in> {Unmatched, Refused}"
    by (simp_all add: parseModifyOtherKeys_def)
  moreover have "csi_body (CHR ''u'') (modified_key n m t md [126]) = None" "csi_body (CHR ''u'') (CSI @ n @ [126]) = None"
    by (simp_all add: csi_body_other shape)
  then have "parseKittyCsiU (modified_key n m t md [126]) \<in> {Unmatched, Refused}" "parseKittyCsiU (CSI @ n @ [126]) \<in> {Unmatched, Refused}"
    by (simp_all add: parseKittyCsiU_def csi_u_groups_def)
  ultimately have "\<not> isSuspendEscapePacket (modified_key n m t md [126])" "\<not> isSuspendEscapePacket (CSI @ n @ [126])"
    by (auto elim!: suspend_packet)
  moreover have "SUSPEND_CONTROL \<notin> set (modified_key n m t md [126])" "SUSPEND_CONTROL \<notin> set (CSI @ n @ [126])"
    using n x csi_no_suspend by (auto simp: shape SUSPEND_CONTROL_def SEMICOLON_def)
  ultimately show "harmless (modified_key n m t md [126])" "harmless (CSI @ n @ [126])" by (simp_all add: harmless_def)
qed

lemma harmless_letter:
  assumes "c \<notin> {26, 117, 126}" "SUSPEND_CONTROL \<notin> set n"
  shows "harmless (modified_key n m t md [c])" "harmless (n @ [c])"
  using assms suffix_no_suspend [of m md t] csi_no_suspend
  by (auto intro!: harmless_end simp: modified_key_def SUSPEND_CONTROL_def SEMICOLON_def)

lemma kitty_begin_harmless: "harmless (kittyCodepointSequence 57427 m t md None None)"
proof -
  define e where "e = \<lparr>codepoint = Some 57427, special = None, modifiers = m, eventType = t, shifted = None, baseLayout = None\<rparr>"
  have "key_ok e" "\<not> isSuspendKeyEvent e"
    by (simp_all add: e_def key_ok_def valid_tab isSuspendKeyEvent_def letterIdentityCodepoint_def Z_KEY_CODEPOINTS_def Let_def)
  then show ?thesis using harmless_csiu [of e md] by (simp add: csiuFallback_def e_def)
qed

lemma harmless_functional: "kittyFunctionalSequence k m t md = Some s \<Longrightarrow> harmless s"
proof -
  assume "kittyFunctionalSequence k m t md = Some s"
  moreover have "SUSPEND_CONTROL \<notin> set CSI" "SUSPEND_CONTROL \<notin> set SS3" "SUSPEND_CONTROL \<notin> set [49]"
    by (simp_all add: CSI_def SS3_def ESC_def SUSPEND_CONTROL_def)
  note letters = this [THEN harmless_letter(2) [rotated]] this(3) [THEN harmless_letter(1) [rotated]]
  have "harmless (modified_key [49, 51] m t md [126])" by (rule harmless_tilde) (auto simp: is_dec_def)
  moreover have "harmless (modified_key (dec n) m t md [126])" "harmless (CSI @ dec n @ [126])" for n
    by (rule harmless_tilde, erule dec_digits)+
  ultimately show ?thesis using letters kitty_begin_harmless [of m t md]
    by (cases k) (auto simp: kittyFunctionalSequence_def cursor_letter_def function_letter_def tilde_code_def lit_def Let_def
      split: if_splits)
qed


subsection \<open>Encoded keys are harmless\<close>

text \<open>The set of an unlocked event, and its Ctrl.\<close>

lemma unlocked_bits: "unlocked m AND KITTY_CTRL = m AND KITTY_CTRL" "unlocked m AND TEXT_MODIFIERS = m AND TEXT_MODIFIERS"
  by (simp_all add: unlocked_def and.assoc LOCK_MODIFIERS_def KITTY_CAPS_LOCK_def KITTY_NUM_LOCK_def KITTY_CTRL_def
    TEXT_MODIFIERS_def KITTY_ALT_def KITTY_SUPER_def KITTY_HYPER_def KITTY_META_def)

lemma unlocked_ctrl: "hasModifier (unlocked m) KITTY_CTRL \<longleftrightarrow> hasModifier m KITTY_CTRL"
  by (simp add: hasModifier_def unlocked_bits)

lemma short_harmless: "length t \<le> 2 \<Longrightarrow> SUSPEND_CONTROL \<notin> set t \<Longrightarrow> harmless t"
  by (auto simp: harmless_def CSI_def elim!: suspend_shape)

lemma prefix_units: "set (alt_prefix m) \<subseteq> {27}" "length (alt_prefix m) \<le> 1"
  by (auto simp: alt_prefix_def ESC_def)

lemma harmless_prefix: "c \<noteq> 26 \<Longrightarrow> harmless (alt_prefix m @ [c])"
  using prefix_units [of m] by (intro short_harmless) (auto simp: SUSPEND_CONTROL_def)

lemma harmless_control: "encodeLegacyControl e = Some t \<Longrightarrow> harmless t"
proof -
  have "harmless (alt_prefix m @ CSI @ lit ''Z'')" for m
    by (rule harmless_end) (simp_all add: SUSPEND_CONTROL_def CSI_def ESC_def lit_def alt_prefix_def)
  then show "encodeLegacyControl e = Some t \<Longrightarrow> harmless t"
    by (auto simp: encodeLegacyControl_def ESC_def Let_def harmless_prefix split: option.splits if_splits)
qed

text \<open>A \<open>modifyOtherKeys\<close> packet for a key without Ctrl or without the name of Z.\<close>

lemma xterm_ctrl: "modifiers_of (xtermModifierParameter m) AND 4 \<noteq> 0 \<Longrightarrow> hasModifier m KITTY_CTRL"
  by (auto simp: modifiers_of_def xtermModifierParameter_def split: if_splits)

lemma mok_fields:
  assumes "map_option (split_on SEMICOLON) (csi_body (CHR ''~'') t) = Some [lit ''27'', dec n, dec cp]"
    and "parseModifyOtherKeys t = Parsed k"
  shows "k = key_press cp
    ((modifiers_of n AND (KITTY_SHIFT OR KITTY_ALT OR KITTY_CTRL)) OR (if modifiers_of n AND 8 \<noteq> 0 then KITTY_META else 0))"
proof -
  obtain v c where v: "parseDecimal (dec n) 16 = Some v" "parseDecimal (dec cp) 0x10ffff = Some c"
    using assms by (auto simp: parseModifyOtherKeys_def split: if_splits option.splits)
  then have "v = n" "c = cp" by (simp_all add: parseDecimal_def split: if_splits)
  then show ?thesis
    using assms v by (simp add: parseModifyOtherKeys_def Let_def split: if_split_asm)
qed

lemma mok_ctrl:
  "((x AND (KITTY_SHIFT OR KITTY_ALT OR KITTY_CTRL)) OR (if b then KITTY_META else 0)) AND KITTY_CTRL \<noteq> 0 \<Longrightarrow> x AND 4 \<noteq> 0"
  by (auto simp: and.assoc bit.conj_disj_distrib2 KITTY_SHIFT_def KITTY_ALT_def KITTY_CTRL_def KITTY_META_def split: if_splits)

lemma harmless_mok:
  assumes "modifiers_of n AND 4 \<noteq> 0 \<Longrightarrow> cp \<notin> {0x5a, 0x7a}"
  shows "harmless (CSI @ lit ''27;'' @ dec n @ lit '';'' @ dec cp @ lit ''~'')"
proof -
  define t where "t = CSI @ (lit ''27'' @ SEMICOLON # dec n @ SEMICOLON # dec cp) @ [126]"
  have "csi_body (CHR ''~'') t = Some (lit ''27'' @ SEMICOLON # dec n @ SEMICOLON # dec cp)"
    unfolding t_def by (rule csi_body_print) simp
  moreover have "split_on SEMICOLON (lit ''27'' @ SEMICOLON # dec n @ SEMICOLON # dec cp) = [lit ''27'', dec n, dec cp]"
    using no_colon by (simp add: split_on_append_sep SEMICOLON_def)
  ultimately have fields: "map_option (split_on SEMICOLON) (csi_body (CHR ''~'') t) = Some [lit ''27'', dec n, dec cp]" by simp
  have "\<not> isSuspendKeyEvent k" if "parseModifyOtherKeys t = Parsed k" for k
  proof
    define ms where "ms = (modifiers_of n AND (KITTY_SHIFT OR KITTY_ALT OR KITTY_CTRL)) OR (if modifiers_of n AND 8 \<noteq> 0 then KITTY_META else 0)"
    assume "isSuspendKeyEvent k"
    moreover have "k = key_press cp ms" unfolding ms_def by (rule mok_fields [OF fields that])
    ultimately have "ms AND KITTY_CTRL \<noteq> 0" "cp \<in> {0x5a, 0x7a}" using suspend_press [of cp ms] by (simp_all add: hasModifier_def)
    moreover from this(1) have "modifiers_of n AND 4 \<noteq> 0" unfolding ms_def by (rule mok_ctrl)
    ultimately show False using assms by blast
  qed
  moreover have "csi_body (CHR ''u'') t = None" by (rule csi_body_other) (simp add: t_def)
  then have "parseKittyCsiU t \<in> {Unmatched, Refused}" by (simp add: parseKittyCsiU_def csi_u_groups_def)
  ultimately have "\<not> isSuspendEscapePacket t" by (auto elim!: suspend_packet)
  moreover have "SUSPEND_CONTROL \<notin> set t"
    using dec_no_suspend by (simp add: t_def CSI_def ESC_def SUSPEND_CONTROL_def SEMICOLON_def)
  moreover have "CSI @ lit ''27;'' @ dec n @ lit '';'' @ dec cp @ lit ''~'' = t" by (simp add: t_def SEMICOLON_def)
  ultimately show ?thesis by (simp add: harmless_def)
qed

text \<open>An event that names no suspend key: what the encoders rely on.\<close>

lemma not_z: "\<not> isSuspendKeyEvent e \<Longrightarrow> codepoint e = Some cp \<Longrightarrow> hasModifier (modifiers e) KITTY_CTRL \<Longrightarrow> cp \<notin> {0x5a, 0x7a}"
  using suspend_z by blast

lemma level_one_harmless:
  assumes "level_one cp e md = Some (Some t)" "codepoint e = Some cp" "key_ok e" "\<not> isSuspendKeyEvent e"
  shows "harmless t"
proof -
  have "harmless (CSI @ lit ''27;'' @ modifier_parameter m @ lit '';'' @ dec cp @ lit ''~'')" if "m = unlocked (modifiers e)" for m
    unfolding modifier_parameter_def
  proof (rule harmless_mok)
    show "modifiers_of (1 + unat m) AND 4 \<noteq> 0 \<Longrightarrow> cp \<notin> {0x5a, 0x7a}"
      using not_z [OF assms(4,2)] unlocked_ctrl [of "modifiers e"] that by (simp add: modifiers_of_def hasModifier_def KITTY_CTRL_def)
  qed
  moreover have "harmless [ESC]" "harmless [ESC, ESC]" "harmless [0]" "harmless [ESC, 0]"
    by (rule short_harmless; simp add: ESC_def SUSPEND_CONTROL_def)+
  ultimately show ?thesis
    using assms harmless_csiu [of e md t]
    by (auto simp: level_one_def Let_def split: if_splits)
qed


lemma printable_units: "isPrintableCodepoint cp \<Longrightarrow> u \<in> set (fromCodePoint cp) \<Longrightarrow> 32 \<le> u"
  by (auto simp: isPrintableCodepoint_def fromCodePoint_def split: if_splits)

lemma harmless_text: "isPrintableCodepoint cp \<Longrightarrow> harmless (alt_prefix m @ fromCodePoint cp)"
proof -
  assume cp: "isPrintableCodepoint cp"
  then have units: "SUSPEND_CONTROL \<notin> set (alt_prefix m @ fromCodePoint cp)"
    using printable_units [of cp SUSPEND_CONTROL] prefix_units [of m] by (auto simp: SUSPEND_CONTROL_def)
  show ?thesis
  proof (cases "cp < 0x10000")
    case True
    then show ?thesis using prefix_units(2) [of m] units by (intro short_harmless) (simp_all add: fromCodePoint_def)
  next
    case False
    then have "\<not> starts_with (alt_prefix m @ fromCodePoint cp) CSI"
      by (auto simp: fromCodePoint_def alt_prefix_def CSI_def ESC_def)
    with units show ?thesis by (rule harmless_start)
  qed
qed

lemma legacy_text_key: "cp \<in> set LEGACY_TEXT_KEYS \<Longrightarrow> 32 \<le> cp \<and> cp < 127"
proof -
  have "list_all (\<lambda>cp. 32 \<le> cp \<and> cp < 127) LEGACY_TEXT_KEYS" by (simp add: LEGACY_TEXT_KEYS_def lit_def)
  then show "cp \<in> set LEGACY_TEXT_KEYS \<Longrightarrow> 32 \<le> cp \<and> cp < 127" by (simp only: list_all_iff)
qed

lemma ctrl_map_suspend: "LEGACY_CTRL_MAP cp = Some 26 \<Longrightarrow> cp = 0x7a"
  by (auto simp: LEGACY_CTRL_MAP_def split: if_splits)

lemma harmless_ascii: "32 \<le> cp \<Longrightarrow> cp < 127 \<Longrightarrow> harmless (alt_prefix m @ fromCodePoint cp)"
  using harmless_prefix [of cp m] by (simp add: fromCodePoint_def)

lemma alt_prefix_alt: "hasModifier m KITTY_ALT \<or> hasModifier m KITTY_META \<Longrightarrow> alt_prefix m = [ESC]"
  by (auto simp: alt_prefix_def)

lemma legacy_text_harmless:
  assumes "encodeLegacyText e md = Some t" "key_ok e" "\<not> isSuspendKeyEvent e"
  shows "harmless t"
proof -
  define m where "m = unlocked (modifiers e)"
  obtain cp where cp: "codepoint e = Some cp" using assms(1) by (auto simp: encodeLegacyText_def split: option.splits)
  have csiu: "csiuFallback e md = Some t \<Longrightarrow> harmless t" using harmless_csiu assms(2,3) by blast
  have ctrl: "c \<noteq> 26" if "hasModifier m KITTY_CTRL" "LEGACY_CTRL_MAP cp = Some c" for c
    using that ctrl_map_suspend [of cp] not_z [OF assms(3) cp] unlocked_ctrl [of "modifiers e"] by (auto simp: m_def)
  show ?thesis
  proof (cases "hasModifier m KITTY_CTRL")
    case True
    have plain: "harmless ([ESC] @ fromCodePoint cp)" if "cp \<in> set LEGACY_TEXT_KEYS"
      using harmless_ascii [of cp KITTY_ALT] legacy_text_key [OF that] by (simp add: alt_prefix_def hasModifier_def KITTY_ALT_def)
    have ascii: "harmless (fromCodePoint cp)" if "0x20 \<le> cp" "cp \<le> 0x7e"
      using harmless_ascii [of cp 0] that by (simp add: alt_prefix_def hasModifier_def)
    show ?thesis
      using assms(1) True csiu ctrl plain ascii harmless_prefix [of 0 m]
      by (auto simp: encodeLegacyText_def cp Let_def harmless_prefix simp flip: m_def split: if_splits option.splits)
  next
    case False
    then show ?thesis
      using assms(1) csiu harmless_text
      by (auto simp: encodeLegacyText_def cp Let_def toText_def simp flip: m_def split: if_splits option.splits)
  qed
qed

lemma text_key_harmless:
  assumes "encode_text_key cp e md = Some t" "codepoint e = Some cp" "key_ok e" "\<not> isSuspendKeyEvent e"
  shows "harmless t"
proof -
  have "csiuFallback e md = Some t \<or> level_one cp e md = Some (Some t) \<or> encodeLegacyText e md = Some t"
    using assms(1) by (auto simp: encode_text_key_def Let_def split: if_splits option.splits)
  then show ?thesis using assms harmless_csiu level_one_harmless legacy_text_harmless by blast
qed

lemma codepoint_harmless:
  assumes "encode_codepoint cp e md = Some t" "codepoint e = Some cp" "key_ok e" "\<not> isSuspendKeyEvent e"
  shows "harmless t"
proof -
  define m where "m = unlocked (modifiers e)"
  have "csiuFallback e md = Some t \<or> encodeLegacyControl e = Some t
      \<or> t = CSI @ lit ''27;'' @ dec (xtermModifierParameter m) @ lit '';'' @ dec cp @ lit ''~''
      \<or> encode_text_key cp e md = Some t"
    using assms(1) by (auto simp: encode_codepoint_def control_key_def Let_def simp flip: m_def split: if_splits)
  moreover have "harmless (CSI @ lit ''27;'' @ dec (xtermModifierParameter m) @ lit '';'' @ dec cp @ lit ''~'')"
    using not_z [OF assms(4,2)] unlocked_ctrl [of "modifiers e"] xterm_ctrl [of m] by (intro harmless_mok) (auto simp: m_def)
  ultimately show ?thesis using assms harmless_csiu harmless_control text_key_harmless by blast
qed

lemma normalized_event:
  assumes "eventWithNormalizedType e0 md = Some e"
  shows "codepoint e = codepoint e0" "special e = special e0" "modifiers e = modifiers e0"
    "shifted e = shifted e0" "baseLayout e = baseLayout e0"
  using assms by (auto simp: eventWithNormalizedType_def Let_def split: if_splits)

lemma same_key:
  assumes "codepoint e = codepoint e0" "special e = special e0" "modifiers e = modifiers e0"
    "shifted e = shifted e0" "baseLayout e = baseLayout e0"
  shows "key_ok e \<longleftrightarrow> key_ok e0" "isSuspendKeyEvent e \<longleftrightarrow> isSuspendKeyEvent e0"
  using assms by (simp add: key_ok_def, cases "codepoint e0") (simp_all add: suspend_None suspend_Some)

lemma encode_with_harmless:
  assumes "encode_with keypad e0 md = Some t" "plain_key e0"
    and "\<And>e cp. codepoint e = Some cp \<Longrightarrow> isKeypadCodepoint cp \<Longrightarrow> key_ok e \<Longrightarrow> \<not> isSuspendKeyEvent e \<Longrightarrow> keypad e md = Some t \<Longrightarrow> harmless t"
  shows "harmless t"
proof -
  obtain e where e: "eventWithNormalizedType e0 md = Some e"
    using assms(1) by (auto simp: encode_with_def split: option.splits)
  note same = same_key [OF normalized_event [OF e]]
  show ?thesis
  proof (cases "special e")
    case (Some k)
    then show ?thesis using assms(1) e harmless_functional by (auto simp: encode_with_def)
  next
    case None
    then have ok: "key_ok e" "\<not> isSuspendKeyEvent e"
      using assms(2) same normalized_event(2) [OF e] by (simp_all add: plain_key_def)
    then obtain cp where "codepoint e = Some cp" by (auto simp: key_ok_def split: option.splits)
    then show ?thesis
      using assms(1,3) ok None e codepoint_harmless by (auto simp: encode_with_def split: if_splits)
  qed
qed

text \<open>The unit a keypad key stands for.\<close>

lemma keypad_value: "KEYPAD_VALUES cp = Some v \<Longrightarrow> v \<in> set (lit ''0123456789./*-+'' @ [13] @ lit ''=,'')"
  unfolding KEYPAD_VALUES_def by (drule map_of_SomeD, drule set_zip_rightD)

lemma keypad_value_valid: "KEYPAD_VALUES cp = Some v \<Longrightarrow> isValidKeyboardCodepoint v \<and> v \<notin> {0x5a, 0x7a, 0x3a, 26}"
proof -
  have "list_all (\<lambda>v. isValidKeyboardCodepoint v \<and> v \<notin> {0x5a, 0x7a, 0x3a, 26}) (lit ''0123456789./*-+'' @ [13] @ lit ''=,'')"
    by (simp add: lit_def isValidKeyboardCodepoint_def isUnicodeScalar_def)
  then show "KEYPAD_VALUES cp = Some v \<Longrightarrow> isValidKeyboardCodepoint v \<and> v \<notin> {0x5a, 0x7a, 0x3a, 26}"
    unfolding list_all_iff by (rule bspec) (rule keypad_value)
qed

lemma keypad_identity:
  assumes "isKeypadCodepoint cp"
  shows "letterIdentityCodepoint cp m = cp" "\<not> isAuthoritativeIdentityCodepoint cp"
proof -
  have "57399 \<le> cp" "cp \<le> 57427" using assms by (simp_all add: isKeypadCodepoint_def)
  moreover have "list_all (\<lambda>u. u < 128) AUTHORITATIVE_IDENTITY_SYMBOLS" by (simp add: AUTHORITATIVE_IDENTITY_SYMBOLS_def lit_def)
  ultimately show "letterIdentityCodepoint cp m = cp" "\<not> isAuthoritativeIdentityCodepoint cp"
    by (auto simp: letterIdentityCodepoint_def isAuthoritativeIdentityCodepoint_def list_all_iff)
qed

lemma keypad_stands_for:
  assumes "codepoint e = Some cp" "isKeypadCodepoint cp" "key_ok e" "\<not> isSuspendKeyEvent e" "KEYPAD_VALUES cp = Some v"
  shows "plain_key (e\<lparr>codepoint := Some v, special := None\<rparr>)"
proof -
  let ?e = "e\<lparr>codepoint := Some v, special := None\<rparr>"
  have "\<not> (hasModifier (modifiers e) KITTY_CTRL \<and> baseLayout e = Some Z_BASE_LAYOUT_CODEPOINT)"
    using assms(4) keypad_identity [OF assms(2)] suspend_Some [OF assms(1)] by simp
  moreover have "letterIdentityCodepoint v m \<notin> set Z_KEY_CODEPOINTS" for m
    using keypad_value_valid [OF assms(5)] by (auto simp: letterIdentityCodepoint_def Z_KEY_CODEPOINTS_def)
  ultimately have "\<not> isSuspendKeyEvent ?e"
    using suspend_Some [of ?e v] by auto
  moreover have "key_ok ?e"
    using assms(3) keypad_value_valid [OF assms(5)] by (simp add: key_ok_def)
  ultimately show ?thesis by (simp add: plain_key_def)
qed

lemma application_code: "KEYPAD_APPLICATION_CODES cp = Some c \<Longrightarrow> c \<noteq> 26"
  unfolding KEYPAD_APPLICATION_CODES_def by (drule map_of_SomeD, drule set_zip_rightD) (auto simp: lit_def)


lemma keypad_harmless:
  assumes "encodeKeypad e md = Some t" "codepoint e = Some cp" "isKeypadCodepoint cp" "key_ok e" "\<not> isSuspendKeyEvent e"
  shows "harmless t"
proof -
  have csiu: "csiuFallback e md = Some t \<Longrightarrow> harmless t" using harmless_csiu assms(4,5) by blast
  have inner: "harmless t" if "KEYPAD_VALUES cp = Some v" "encode_with (\<lambda>_ _. None) (e\<lparr>codepoint := Some v, special := None\<rparr>) md = Some t" for v
    by (rule encode_with_harmless [OF that(2)]) (use keypad_stands_for [OF assms(2-5) that(1)] in simp_all)
  have "harmless (SS3 @ [c])" if "KEYPAD_APPLICATION_CODES cp = Some c" for c
    using application_code [OF that]
    by (intro harmless_start) (simp_all add: SS3_def CSI_def ESC_def SUSPEND_CONTROL_def)
  moreover have "harmless [v]" if "KEYPAD_VALUES cp = Some v" for v
    using keypad_value_valid [OF that] by (intro short_harmless) (simp_all add: SUSPEND_CONTROL_def)
  moreover have "harmless (CSI @ lit ''E'')"
    by (rule harmless_end) (simp_all add: CSI_def ESC_def SUSPEND_CONTROL_def lit_def)
  ultimately show ?thesis
    using assms(1-3) csiu inner harmless_functional
    by (auto simp: encodeKeypad_def encodeKeypad_with_def Let_def split: if_splits option.splits)
qed

lemma encodeKey_harmless: "encodeKey e md = Some t \<Longrightarrow> plain_key e \<Longrightarrow> harmless t"
  unfolding encodeKey_def by (erule encode_with_harmless) (auto intro: keypad_harmless)

text \<open>\<open>encodeKey\<close> calls itself for the key a keypad key stands for, which is not on the keypad.\<close>

lemma encode_with_off_keypad:
  assumes "codepoint e = Some cp" "\<not> isKeypadCodepoint cp"
  shows "encode_with keypad e md = encode_with keypad' e md"
proof (cases "eventWithNormalizedType e md")
  case (Some e')
  then show ?thesis using normalized_event(1) [OF Some] assms by (simp add: encode_with_def split: option.split)
qed (simp add: encode_with_def)

lemma encodeKey_unfold:
  "encodeKey = encode_with encodeKeypad" "encodeKeypad e md = encodeKeypad_with encodeKey e md"
proof -
  have "encode_with (\<lambda>_ _. None) (e\<lparr>codepoint := Some v, special := None\<rparr>) md = encodeKey (e\<lparr>codepoint := Some v, special := None\<rparr>) md"
    if "KEYPAD_VALUES cp = Some v" for cp v
  proof -
    have "list_all (\<lambda>v. \<not> isKeypadCodepoint v) (lit ''0123456789./*-+'' @ [13] @ lit ''=,'')"
      by (simp add: lit_def isKeypadCodepoint_def)
    then have "\<not> isKeypadCodepoint v" unfolding list_all_iff by (rule bspec) (rule keypad_value [OF that])
    then show ?thesis unfolding encodeKey_def by (intro encode_with_off_keypad) simp_all
  qed
  then show "encodeKeypad e md = encodeKeypad_with encodeKey e md"
    by (auto simp: encodeKeypad_def encodeKeypad_with_def Let_def split: option.split)
qed (rule encodeKey_def)

subsection \<open>The mouse\<close>

lemma sgr_fields:
  "split_on SEMICOLON (butlast (drop 3 (CSI @ lit ''<'' @ dec b @ lit '';'' @ dec x @ lit '';'' @ dec y @ [c]))) = [dec b, dec x, dec y]"
proof -
  have "butlast (drop 3 (CSI @ lit ''<'' @ dec b @ lit '';'' @ dec x @ lit '';'' @ dec y @ [c]))
      = dec b @ SEMICOLON # dec x @ SEMICOLON # dec y"
    by (simp add: CSI_def butlast_append)
  then show ?thesis using no_colon by (simp add: split_on_append_sep)
qed

lemma dec_int_nat: "dec_int (int n + 1) = dec (n + 1)"
  by (simp add: dec_int_def nat_add_distrib)

lemma byte_small: "n + 33 \<le> 255 \<Longrightarrow> byte (int n + 33) = n + 33"
  by (simp add: byte_def)

text \<open>Inside the viewport the local coordinates are natural numbers.\<close>

lemma translateMouse_inside:
  "translateMouse ms md vp =
     (if mouseEncoding md = EncSgrPixels \<or> \<not> inside ms vp \<or> \<not> mouseAllowed ms (mouseTracking md) then None
      else
        let x = ms_x ms - vp_column vp; y = ms_y ms - vp_row vp;
            button = (if mouseTracking md = TrackX10 then without_modifiers (ms_button ms) else ms_button ms);
            legacy = (if ms_release ms then released_button button else button) in
        if mouseEncoding md = EncSgr
        then Some (Text (CSI @ lit ''<'' @ dec button @ lit '';'' @ dec (x + 1) @ lit '';'' @ dec (y + 1)
                     @ (if ms_release ms then lit ''m'' else lit ''M'')))
        else if legacy + 32 > 255 \<or> x + 33 > 255 \<or> y + 33 > 255 then None
        else Some (Bytes [0x1b, 0x5b, 0x4d, legacy + 32, x + 33, y + 33]))"
proof (cases "inside ms vp")
  case True
  then have le: "vp_column vp \<le> ms_x ms" "vp_row vp \<le> ms_y ms" by (simp_all add: inside_def)
  let ?x = "ms_x ms - vp_column vp" and ?y = "ms_y ms - vp_row vp"
  have i: "int (ms_x ms) - int (vp_column vp) = int ?x" "int (ms_y ms) - int (vp_row vp) = int ?y"
    using le by simp_all
  have big: "int n + 33 > 255 \<longleftrightarrow> n + 33 > 255" for n by linarith
  show ?thesis
    using True unfolding translateMouse_def Let_def i dec_int_nat big by (auto simp: byte_small)
qed (simp add: translateMouse_def)

lemma mouse_harmless: "translateMouse ms md vp = Some (Text t) \<Longrightarrow> harmless t"
  using dec_no_suspend
  by (auto simp: translateMouse_inside Let_def CSI_def ESC_def SUSPEND_CONTROL_def SEMICOLON_def intro!: harmless_end split: if_splits)

lemma mouse_bytes_harmless: "translateMouse ms md vp = Some (Bytes bs) \<Longrightarrow> harmless bs"
proof -
  assume "translateMouse ms md vp = Some (Bytes bs)"
  then obtain b x y where bs: "bs = [27, 91, 77, b, x, y]" "32 \<le> b" "33 \<le> x" "33 \<le> y"
    by (auto simp: translateMouse_inside Let_def split: if_splits)
  have "csi_u_groups bs = None"
  proof (cases "csi_body (CHR ''u'') bs")
    case (Some body)
    then have body: "body = [77, b, x]" using bs(1) by (auto simp: csi_body_def split: if_splits)
    have "\<not> key_field k" if "hd k = 77" "k \<noteq> []" for k
      using that by (cases k) (auto simp: key_field_def Let_def digits1_def is_dec_def COLON_def)
    moreover have "hd (hd (split_on SEMICOLON body)) = 77" "hd (split_on SEMICOLON body) \<noteq> []"
      by (simp_all add: body SEMICOLON_def)
    ultimately have "\<not> key_field (hd (split_on SEMICOLON body))" by blast
    then show ?thesis using Some by (auto simp: csi_u_groups_def split: list.split)
  qed (simp add: csi_u_groups_def)
  moreover have "bs \<noteq> CSI @ lit ''27;'' @ c @ [126]" for c by (simp add: bs CSI_def)
  ultimately have "\<not> isSuspendEscapePacket bs" by (metis suspend_shape)
  then show ?thesis using bs by (simp add: harmless_def SUSPEND_CONTROL_def)
qed

subsection \<open>The suspend key never reaches a child\<close>

definition payload :: "forwarded \<Rightarrow> nat list" where
  "payload f = (case f of Text t \<Rightarrow> t | Bytes b \<Rightarrow> b)"

lemma set_join_split: "set (join [] (split_on c s)) = set s - {c}"
proof -
  have "set (join [] xs) = (\<Union>x \<in> set xs. set x)" for xs :: "'a list list"
    by (induction "[] :: 'a list" xs rule: join.induct) auto
  moreover have "(\<Union>x \<in> set (split_on c s). set x) = set s - {c}"
  proof (induction s)
    case (Cons a s)
    then show ?case by (cases "split_on c s") auto
  qed simp
  ultimately show ?thesis by simp
qed

lemma text_harmless: "translate_text data = Some t \<Longrightarrow> ESC \<notin> set data \<Longrightarrow> harmless t"
  by (rule harmless_start) (auto simp: translate_text_def Let_def set_join_split CSI_def starts_with_iff_prefix
    dest!: set_mono_prefix split: if_splits)

lemma alt_harmless: "translateLegacyAltPacket data md = Some t \<Longrightarrow> harmless t"
proof -
  assume alt: "translateLegacyAltPacket data md = Some t"
  have "plain_key (key_press cp m)" if "isValidKeyboardCodepoint cp" "m \<in> {KITTY_ALT, KITTY_ALT OR KITTY_SHIFT}" for cp m
    using that by (intro plain_press) (auto simp: hasModifier_def KITTY_ALT_def KITTY_SHIFT_def KITTY_CTRL_def)
  moreover have "isValidKeyboardCodepoint 13" "isValidKeyboardCodepoint 127"
    by (simp_all add: isValidKeyboardCodepoint_def isUnicodeScalar_def)
  moreover have "isValidKeyboardCodepoint cp" if "cp \<in> set LEGACY_TEXT_KEYS" for cp
    using legacy_text_key [OF that] by (simp add: isValidKeyboardCodepoint_def isUnicodeScalar_def)
  moreover have "harmless [ESC, 8]" by (rule short_harmless) (simp_all add: ESC_def SUSPEND_CONTROL_def)
  ultimately show ?thesis
    using alt by (auto simp: translateLegacyAltPacket_def Let_def split: list.splits if_splits intro: encodeKey_harmless)
qed

text \<open>
  C5. The suspend key never reaches a child.  Whatever the terminal sends, outside a bracketed paste, and
  whatever modes the child has set: what is forwarded does not contain the suspend control, and it is no
  packet that spells Ctrl+Z in one of the keyboard protocols.
\<close>

theorem suspend_never_forwarded:
  assumes "translateInput data md vp = Some out" and "\<not> starts_with data PASTE_START"
  shows "SUSPEND_CONTROL \<notin> set (payload out) \<and> \<not> isSuspendEscapePacket (payload out)"
proof -
  have esc: "harmless [ESC]" by (rule short_harmless) (simp_all add: ESC_def SUSPEND_CONTROL_def)
  have key: "harmless t" if "parseLegacyKeyboardSequence data = Parsed k" "\<not> isSuspendEscapePacket data" "encodeKey k md = Some t" for k t
    using that parsed_ok [OF that(1)] by (intro encodeKey_harmless [OF that(3)]) (simp add: plain_key_def isSuspendEscapePacket_def)
  have packet: "harmless (payload out)" if "translate_packet data md vp = Some out"
    using that assms(2) esc key
    by (cases out)
      (auto simp: translate_packet_def translatePaste_def payload_def mouse_harmless mouse_bytes_harmless alt_harmless
        split: if_splits parsed.splits option.splits)
  have "harmless (payload out)"
    using assms(1) packet text_harmless by (auto simp: translateInput_def payload_def split: if_splits)
  then show ?thesis by (simp add: harmless_def)
qed


definition plain_child :: modes where
  "plain_child = \<lparr>kittyFlags = 0, modifyOtherKeys = 0, applicationCursorKeys = False, applicationKeypad = False,
     bracketedPaste = False, mouseTracking = TrackAny, mouseEncoding = EncSgr\<rparr>"

definition kitty_child :: modes where "kitty_child = plain_child\<lparr>kittyFlags := 7\<rparr>"

definition right_pane :: viewport where
  "right_pane = \<lparr>vp_column = 30, vp_row = 0, vp_cols = 90, vp_rows = 40\<rparr>"

text \<open>Ctrl+K is the control 11 for a plain child; Ctrl+Z is nothing.\<close>

lemma suspend_never_forwarded_witness:
  "translateInput (CSI @ lit ''107;5u'') plain_child right_pane = Some (Text [11])
   \<and> translateInput (CSI @ lit ''122;5u'') plain_child right_pane = None
   \<and> SUSPEND_CONTROL \<notin> set (payload (Text [11])) \<and> \<not> isSuspendEscapePacket (payload (Text [11]))"
proof -
  have k: "translateInput (CSI @ lit ''107;5u'') plain_child right_pane = Some (Text [11])" by code_simp
  have "\<not> starts_with (CSI @ lit ''107;5u'') PASTE_START" by code_simp
  from suspend_never_forwarded [OF k this] k show ?thesis by (intro conjI) (simp_all, code_simp)
qed

subsection \<open>Keys keep their identity\<close>

lemma units_of_parts:
  assumes "\<And>p u. p \<in> set (split_on c s) \<Longrightarrow> u \<in> set p \<Longrightarrow> P u" "u \<in> set s"
  shows "P u \<or> u = c"
proof -
  have "(\<Union>x \<in> set (split_on c s). set x) = set s - {c}"
  proof (induction s)
    case (Cons a s)
    then show ?case by (cases "split_on c s") auto
  qed simp
  then show ?thesis using assms by blast
qed

definition field_unit :: "nat \<Rightarrow> bool" where "field_unit u \<longleftrightarrow> is_dec u \<or> u = COLON"

lemma colon_parts: "(\<And>p. p \<in> set (split_on COLON k) \<Longrightarrow> digits0 p) \<Longrightarrow> u \<in> set k \<Longrightarrow> field_unit u"
  using units_of_parts [of COLON k is_dec u] by (auto simp: field_unit_def digits0_def list_all_iff)

lemma digits_weaken: "digits1 p \<Longrightarrow> digits0 p"
  by (simp add: digits1_def digits0_def)

lemma key_field_unit: "key_field k \<Longrightarrow> u \<in> set k \<Longrightarrow> field_unit u"
  by (rule colon_parts [of k]) (cases "split_on COLON k"; auto simp: key_field_def Let_def list_all_iff intro: digits_weaken)+

lemma modifier_field_unit: "modifier_field x = Some m \<Longrightarrow> u \<in> set x \<Longrightarrow> field_unit u"
  by (rule colon_parts [of x]) (auto simp: modifier_field_def intro: digits_weaken split: list.splits if_splits)

lemma text_field_unit: "text_field t \<Longrightarrow> u \<in> set t \<Longrightarrow> field_unit u"
  by (rule colon_parts [of t]) (auto simp: text_field_def list_all_iff intro: digits_weaken)

lemma csi_u_units:
  assumes "csi_u_groups data = Some g"
  obtains b where "data = CSI @ b @ [117]" "\<And>u. u \<in> set b \<Longrightarrow> field_unit u \<or> u = SEMICOLON"
proof -
  obtain b where b: "csi_body (CHR ''u'') data = Some b"
    using assms by (cases "csi_body (CHR ''u'') data") (simp_all add: csi_u_groups_def)
  have "\<And>p u. p \<in> set (split_on SEMICOLON b) \<Longrightarrow> u \<in> set p \<Longrightarrow> field_unit u"
    using assms b
    by (auto simp: csi_u_groups_def key_field_unit text_field_unit split: list.splits if_splits option.splits
      intro: modifier_field_unit)
  then have "\<And>u. u \<in> set b \<Longrightarrow> field_unit u \<or> u = SEMICOLON" by (rule units_of_parts [of SEMICOLON b field_unit])
  moreover have "data = CSI @ b @ [117]" using b by (auto dest: csi_body_SomeD)
  ultimately show ?thesis using that by blast
qed

lemma csi_u_no_other:
  assumes "csi_u_groups data = Some g"
  shows "ESC \<in> set data" "\<not> starts_with data PASTE_START" "parseMouseInput data = Unmatched" "last data = 117"
proof -
  obtain b where b: "data = CSI @ b @ [117]" "\<And>u. u \<in> set b \<Longrightarrow> field_unit u \<or> u = SEMICOLON"
    by (rule csi_u_units [OF assms]) blast
  have "126 \<notin> set data" "60 \<notin> set data" "77 \<notin> set data"
    using b(2) [of 126] b(2) [of 60] b(2) [of 77]
    by (auto simp: b(1) CSI_def ESC_def field_unit_def is_dec_def COLON_def SEMICOLON_def)
  then show "\<not> starts_with data PASTE_START" "parseMouseInput data = Unmatched"
    by (auto simp: starts_with_iff_prefix PASTE_START_def parseMouseInput_def Let_def lit_def dest!: set_mono_prefix)
  show "ESC \<in> set data" "last data = 117" by (simp_all add: b(1) CSI_def)
qed

text \<open>
  What a child with all the supported enhancements gets for a key reported as \<open>CSI u\<close>: the event
  itself, its plain text, or nothing.  Without report-all-keys, plain text and its control keys are
  sent as text, and their releases are not sent.
\<close>

datatype kitty_report = SameEvent | PlainText code_units | NoReport

definition event_key :: "key_event \<Rightarrow> nat \<Rightarrow> bool" where
  "event_key k cp \<longleftrightarrow> cp = 27 \<or> isOfficialFunctionalCodepoint cp \<and> (cp = 57414 \<longrightarrow> eventType k \<noteq> Release)
     \<or> (32 \<le> cp \<and> cp \<noteq> 127 \<and> \<not> isOfficialFunctionalCodepoint cp \<and> modifiers k AND 62 \<noteq> 0)
     \<or> (cp \<in> {9, 13, 127} \<and> modifiers k AND 63 \<noteq> 0 \<and> eventType k \<noteq> Release)"

definition shifted_character :: "key_event \<Rightarrow> nat \<Rightarrow> nat option" where
  "shifted_character k cp =
     (case shifted k of
        Some c \<Rightarrow> Some c
      | None \<Rightarrow> if cp = 32 then Some 32 else if 97 \<le> cp \<and> cp \<le> 122 then Some (cp - 32) else None)"

definition kitty_report :: "key_event \<Rightarrow> nat \<Rightarrow> kitty_report" where
  "kitty_report k cp =
     (if event_key k cp then SameEvent
      else if eventType k = Release then NoReport
      else if cp \<in> {9, 13, 127} then PlainText [cp]
      else if modifiers k AND 1 = 0 then PlainText (fromCodePoint cp)
      else case shifted_character k cp of
          Some c \<Rightarrow> if isPrintableCodepoint c then PlainText (fromCodePoint c) else SameEvent
        | None \<Rightarrow> SameEvent)"

lemma all_flags: "kittyFlags md = 7 \<Longrightarrow> kitty_flag md 1 \<and> kitty_flag md 2 \<and> kitty_flag md 4"
  by (simp add: kitty_flag_def)

lemma modifier_masks:
  "TEXT_MODIFIERS = 62" "LEGACY_MODIFIERS = 39" "NOT LOCK_MODIFIERS = 63" "KITTY_SHIFT = 1" "KITTY_ALT = 2"
  "KITTY_CTRL = 4" "KITTY_META = 32"
  by (simp_all add: TEXT_MODIFIERS_def LEGACY_MODIFIERS_def LOCK_MODIFIERS_def KITTY_SHIFT_def KITTY_ALT_def
    KITTY_CTRL_def KITTY_SUPER_def KITTY_HYPER_def KITTY_META_def KITTY_CAPS_LOCK_def KITTY_NUM_LOCK_def)

lemma only_shift: "m AND 62 = 0 \<Longrightarrow> unlocked m = m AND 1" for m :: modifier_set
proof -
  assume "m AND 62 = 0"
  moreover have "(63 :: modifier_set) = 62 OR 1" by simp
  ultimately show ?thesis unfolding unlocked_def modifier_masks by (simp only: word_ao_dist2) simp
qed

lemma only_shift_masks:
  "(m AND 1) AND 2 = 0" "(m AND 1) AND 4 = 0" "(m AND 1) AND 32 = 0" "(m AND 1) AND NOT 39 = 0" "(m AND 1) AND 62 = 0"
  "(m AND 1) AND 1 = m AND 1" "(m AND 1) AND - 40 = 0" for m :: modifier_set
  by (simp_all add: and.assoc)

lemma legacy_text_shift:
  assumes "codepoint k = Some cp" "modifiers k AND 62 = 0" "isOrdinaryPrintableKey cp"
  shows "encodeLegacyText k md =
    (if modifiers k AND 1 = 0 then Some (fromCodePoint cp)
     else case shifted_character k cp of
         Some c \<Rightarrow> if isPrintableCodepoint c then Some (fromCodePoint c) else csiuFallback k md
       | None \<Rightarrow> csiuFallback k md)"
proof -
  have p: "isPrintableCodepoint cp" using assms(3) by (simp add: isOrdinaryPrintableKey_def)
  note m = only_shift [OF assms(2)]
  have pre: "alt_prefix (modifiers k AND 1) = []"
    by (simp add: alt_prefix_def hasModifier_def modifier_masks only_shift_masks)
  show ?thesis
  proof (cases "modifiers k AND 1 = 0")
    case True
    with assms(1) p m pre show ?thesis
      by (simp add: encodeLegacyText_def Let_def hasModifier_def modifier_masks toText_def)
  next
    case False
    then have sh: "actualShiftedCodepoint k = shifted_character k cp"
      using assms(1) by (auto simp: actualShiftedCodepoint_def shifted_character_def hasModifier_def modifier_masks)
    have "encodeLegacyText k md =
        (if shifted_character k cp = None then csiuFallback k md
         else case toText (shifted_character k cp) of None \<Rightarrow> csiuFallback k md | Some t \<Rightarrow> Some t)"
      using assms(1) m pre False
      by (simp add: encodeLegacyText_def Let_def hasModifier_def modifier_masks only_shift_masks sh split: option.split)
    with False show ?thesis by (cases "shifted_character k cp") (simp_all add: toText_def)
  qed
qed

lemma codepoint_kinds:
  assumes "isValidKeyboardCodepoint cp"
  shows "isOrdinaryPrintableKey cp \<longleftrightarrow> 32 \<le> cp \<and> cp \<noteq> 127 \<and> \<not> isOfficialFunctionalCodepoint cp"
    and "cp \<in> {9, 13, 27, 127} \<or> 32 \<le> cp"
  using assms by (auto simp: isOrdinaryPrintableKey_def isPrintableCodepoint_def isValidKeyboardCodepoint_def split: if_splits)

lemma functional_range: "isOfficialFunctionalCodepoint cp \<Longrightarrow> 57358 \<le> cp"
  by (auto simp: isOfficialFunctionalCodepoint_def)

lemma keypad_enter: "isOfficialFunctionalCodepoint 57414"
  by (simp add: isOfficialFunctionalCodepoint_def)

lemma normalized_kitty:
  assumes "codepoint k = Some cp" "isValidKeyboardCodepoint cp" "special k = None" "kittyFlags md = 7"
  shows "eventWithNormalizedType k md = (if eventType k = Release \<and> \<not> event_key k cp then None else Some k)"
  using assms all_flags [OF assms(4)] codepoint_kinds [OF assms(2)] functional_range [of cp] keypad_enter
  by (auto simp: eventWithNormalizedType_def Let_def event_key_def modifier_masks)

lemma encode_kitty_codepoint:
  assumes "codepoint k = Some cp" "isValidKeyboardCodepoint cp" "kittyFlags md = 7"
    "eventType k = Release \<longrightarrow> event_key k cp"
  shows "encode_codepoint cp k md =
    (case kitty_report k cp of SameEvent \<Rightarrow> csiuFallback k md | PlainText t \<Rightarrow> Some t | NoReport \<Rightarrow> None)"
proof -
  note flags = all_flags [OF assms(3)] and kinds = codepoint_kinds [OF assms(2)]
  consider "isOfficialFunctionalCodepoint cp" | "cp = 27" | "cp \<in> {9, 13, 127}" | "isOrdinaryPrintableKey cp"
    using kinds by auto
  then show ?thesis
  proof cases
    case 1
    then have "cp \<notin> {9, 13, 127}" using functional_range [of cp] by auto
    with 1 assms(4) show ?thesis
      by (auto simp: encode_codepoint_def kitty_report_def event_key_def)
  next
    case 2
    then show ?thesis using flags by (simp add: encode_codepoint_def kitty_report_def event_key_def
      isOfficialFunctionalCodepoint_def isOrdinaryPrintableKey_def isPrintableCodepoint_def Let_def)
  next
    case 3
    then have "\<not> isOfficialFunctionalCodepoint cp" "\<not> isOrdinaryPrintableKey cp" "cp \<noteq> 27"
      using functional_range [of cp] kinds by auto
    note cp = this
    have u: "unlocked (modifiers k) = modifiers k AND 63" by (simp add: unlocked_def modifier_masks)
    have "encode_codepoint cp k md = control_key cp k md"
      using cp 3 flags by (simp add: encode_codepoint_def Let_def)
    also have "\<dots> = (if modifiers k AND 63 = 0 then Some [cp] else csiuFallback k md)"
      using 3 flags assms(1) by (auto simp: control_key_def Let_def u encodeLegacyControl_def alt_prefix_def hasModifier_def)
    finally have e: "encode_codepoint cp k md = (if modifiers k AND 63 = 0 then Some [cp] else csiuFallback k md)" .
    have k: "event_key k cp \<longleftrightarrow> modifiers k AND 63 \<noteq> 0 \<and> eventType k \<noteq> Release"
      using 3 cp by (auto simp: event_key_def)
    show ?thesis using 3 k assms(4) by (auto simp: e kitty_report_def)
  next
    case 4
    then have cp: "32 \<le> cp" "cp \<noteq> 127" "\<not> isOfficialFunctionalCodepoint cp" using kinds by auto
    show ?thesis
    proof (cases "modifiers k AND 62 = 0")
      case True
      have "encode_text_key cp k md = encodeLegacyText k md"
        using 4 True flags only_shift [OF True]
        by (simp add: encode_text_key_def Let_def hasModifier_def modifier_masks only_shift_masks)
      with cp 4 True only_shift [OF True] legacy_text_shift [OF assms(1) True 4, of md] assms(4) flags show ?thesis
        by (auto simp: encode_codepoint_def kitty_report_def event_key_def Let_def modifier_masks only_shift_masks
            split: option.splits)
    next
      case False
      with cp 4 flags unlocked_bits(2) [of "modifiers k"] show ?thesis
        by (auto simp: encode_codepoint_def encode_text_key_def kitty_report_def event_key_def Let_def modifier_masks)
    qed
  qed
qed

lemma encode_kitty:
  assumes "key_ok k" "codepoint k = Some cp" "kittyFlags md = 7"
  shows "encodeKey k md =
    (case kitty_report k cp of SameEvent \<Rightarrow> csiuFallback k md | PlainText t \<Rightarrow> Some t | NoReport \<Rightarrow> None)"
proof -
  have cp: "isValidKeyboardCodepoint cp" "special k = None" using assms(1,2) by (simp_all add: key_ok_def)
  note norm = normalized_kitty [OF assms(2) cp assms(3)] and flags = all_flags [OF assms(3)]
  show ?thesis
  proof (cases "eventType k = Release \<and> \<not> event_key k cp")
    case True
    then show ?thesis using norm by (simp add: encodeKey_def encode_with_def kitty_report_def)
  next
    case kept: False
    show ?thesis
    proof (cases "isKeypadCodepoint cp")
      case True
      then have "isOfficialFunctionalCodepoint cp" by (auto simp: isKeypadCodepoint_def isOfficialFunctionalCodepoint_def)
      then have "kitty_report k cp = SameEvent" using kept by (auto simp: kitty_report_def event_key_def)
      moreover have "encodeKeypad k md = csiuFallback k md"
        using True assms(2) flags by (simp add: encodeKeypad_def encodeKeypad_with_def)
      moreover have "eventWithNormalizedType k md = Some k" using kept norm by auto
      ultimately show ?thesis using True assms(2) cp by (simp add: encodeKey_def encode_with_def)
    next
      case False
      then show ?thesis
        using kept norm assms(2) cp encode_kitty_codepoint [OF assms(2) cp(1) assms(3)]
        by (auto simp: encodeKey_def encode_with_def)
    qed
  qed
qed

lemma translate_kitty:
  assumes "parseKittyCsiU data = Parsed k" "\<not> isSuspendKeyEvent k" "validModes md" "validViewport vp"
  shows "translateInput data md vp = map_option Text (encodeKey k md)"
proof -
  from assms(1) obtain g where g: "csi_u_groups data = Some g" and len: "length data \<le> MAX_CSI_PACKET_LENGTH"
    by (auto simp: parseKittyCsiU_def split: if_splits option.splits)
  note other = csi_u_no_other [OF g]
  have parse: "parseLegacyKeyboardSequence data = Parsed k"
    using parse_u_packet [OF other(4) _ len] assms(1) by simp
  then have "\<not> isSuspendEscapePacket data" using assms(2) by (simp add: isSuspendEscapePacket_def)
  then show ?thesis
    using other assms(3,4) parse
    by (auto simp: translateInput_def translate_packet_def translatePaste_def)
qed

text \<open>
  C13. What a child that asked for all of the supported Kitty enhancements gets for a key that the
  terminal reported in the \<open>CSI u\<close> form, other than Ctrl+Z.  For Escape, a functional key, a printable key
  with a modifier other than Shift and a modified Tab, Enter or Backspace the child gets a packet that
  parses to the very event: its code point, modifiers with the locks, event type and alternate keys.  A
  printable key alone or with Shift arrives as its text (the shifted character for Shift, and the event
  where that character is not known), an unmodified Tab, Enter or Backspace as its control byte.  A
  release of these is not sent, nor is the release of the keypad Enter or of a modified Tab, Enter or
  Backspace.
\<close>

theorem kitty_child_gets_the_key:
  assumes "parseKittyCsiU data = Parsed k" and "\<not> isSuspendKeyEvent k"
    and "kittyFlags md = 7" and "validModes md" and "validViewport vp"
  shows "\<exists>cp. codepoint k = Some cp \<and>
    (case kitty_report k cp of
       SameEvent \<Rightarrow> \<exists>t. translateInput data md vp = Some (Text t) \<and> parseLegacyKeyboardSequence t = Parsed k
     | PlainText t \<Rightarrow> translateInput data md vp = Some (Text t)
     | NoReport \<Rightarrow> translateInput data md vp = None)"
proof -
  have ok: "key_ok k" using assms(1) by (rule parsed_key_ok)
  then obtain cp where cp: "codepoint k = Some cp" by (cases "codepoint k") (auto simp: key_ok_def)
  then obtain t where t: "csiuFallback k md = Some t" by (simp add: csiuFallback_def)
  have "told md k = k" using all_flags [OF assms(3)] by (simp add: told_def)
  then have "parseLegacyKeyboardSequence t = Parsed k" using csiuFallback_print [OF t ok] by simp
  then show ?thesis
    using cp t translate_kitty [OF assms(1,2,4,5)] encode_kitty [OF ok cp assms(3)]
    by (cases "kitty_report k cp") simp_all
qed

text \<open>A repeated Ctrl+Shift key with its alternates; the letter a; and the release of that letter.\<close>

lemma kitty_child_gets_the_key_witness:
  "(\<exists>t. translateInput (CSI @ lit ''1082:1050:107;6:2u'') kitty_child right_pane = Some (Text t)
   \<and> parseLegacyKeyboardSequence t
     = Parsed \<lparr>codepoint = Some 1082, special = None, modifiers = 5, eventType = Repeat, shifted = Some 1050, baseLayout = Some 107\<rparr>)
   \<and> translateInput (CSI @ lit ''97u'') kitty_child right_pane = Some (Text (lit ''a''))
   \<and> translateInput (CSI @ lit ''97;1:3u'') kitty_child right_pane = None"
proof -
  let ?k = "\<lparr>codepoint = Some 1082, special = None, modifiers = 5, eventType = Repeat, shifted = Some 1050, baseLayout = Some 107\<rparr>"
  let ?a = "\<lambda>t. \<lparr>codepoint = Some 97, special = None, modifiers = 0, eventType = t, shifted = None, baseLayout = None\<rparr>"
  have "parseKittyCsiU (CSI @ lit ''1082:1050:107;6:2u'') = Parsed ?k" "\<not> isSuspendKeyEvent ?k"
    "kitty_report ?k 1082 = SameEvent" by code_simp+
  moreover have "parseKittyCsiU (CSI @ lit ''97u'') = Parsed (?a Press)" "\<not> isSuspendKeyEvent (?a Press)"
    "kitty_report (?a Press) 97 = PlainText (lit ''a'')" by code_simp+
  moreover have "parseKittyCsiU (CSI @ lit ''97;1:3u'') = Parsed (?a Release)" "\<not> isSuspendKeyEvent (?a Release)"
    "kitty_report (?a Release) 97 = NoReport" by code_simp+
  moreover have "kittyFlags kitty_child = 7" "validModes kitty_child" "validViewport right_pane" by code_simp+
  ultimately show ?thesis
    using kitty_child_gets_the_key [of "CSI @ lit ''1082:1050:107;6:2u''" ?k kitty_child right_pane]
      kitty_child_gets_the_key [of "CSI @ lit ''97u''" "?a Press" kitty_child right_pane]
      kitty_child_gets_the_key [of "CSI @ lit ''97;1:3u''" "?a Release" kitty_child right_pane]
    by simp
qed

subsection \<open>Mouse reports arrive in the coordinates of the child\<close>

lemma parsed_mouse:
  assumes "parseMouseInput data = Parsed ms"
  obtains b x y up where "ms = mouse_of b x y up" "b \<le> 255"
proof -
  have "sgr_mouse data = Parsed ms \<or> x10_mouse data = Parsed ms"
    using assms by (auto simp: parseMouseInput_def Let_def split: if_splits)
  then show ?thesis
  proof
    assume "sgr_mouse data = Parsed ms"
    then show ?thesis
      by (auto simp: sgr_mouse_def split: list.splits if_splits option.splits dest!: parseDecimal_SomeD intro: that)
  next
    assume "x10_mouse data = Parsed ms"
    then show ?thesis by (auto simp: x10_mouse_def split: list.splits if_splits intro: that)
  qed
qed

lemma parse_printed_mouse:
  assumes "b \<le> 255" "1 \<le> x" "x \<le> MAX_SAFE_INTEGER" "1 \<le> y" "y \<le> MAX_SAFE_INTEGER"
  shows "parseMouseInput (CSI @ lit ''<'' @ dec b @ lit '';'' @ dec x @ lit '';'' @ dec y @ (if up then lit ''m'' else lit ''M''))
    = Parsed (mouse_of b (x - 1) (y - 1) up)"
proof -
  define t where "t = CSI @ lit ''<'' @ dec b @ lit '';'' @ dec x @ lit '';'' @ dec y @ [if up then 109 else 77]"
  have fields: "split_on SEMICOLON (butlast (drop 3 t)) = [dec b, dec x, dec y]" unfolding t_def by (rule sgr_fields)
  have ends: "last t = (if up then 109 else 77)" "4 \<le> length t" by (simp_all add: t_def CSI_def)
  have nums: "parseDecimal (dec b) 255 = Some b" "parseDecimal (dec x) MAX_SAFE_INTEGER = Some x" "parseDecimal (dec y) MAX_SAFE_INTEGER = Some y"
    using assms by (intro parseDecimal_dec; simp add: MAX_SAFE_INTEGER_def)+
  have "length (dec b) \<le> 3" "length (dec x) \<le> 16" "length (dec y) \<le> 16"
    using assms by (intro length_dec_bound; simp add: MAX_SAFE_INTEGER_def)+
  then have len: "length t \<le> MAX_CSI_PACKET_LENGTH" by (simp add: t_def CSI_def MAX_CSI_PACKET_LENGTH_def)
  have "sgr_mouse t = Parsed (mouse_of b (x - 1) (y - 1) up)"
    using assms fields ends nums by (simp add: sgr_mouse_def lit_def)
  moreover have "starts_with t (CSI @ lit ''<'')" by (simp add: t_def CSI_def)
  ultimately have "parseMouseInput t = Parsed (mouse_of b (x - 1) (y - 1) up)"
    using len by (simp add: parseMouseInput_def Let_def)
  moreover have "t = CSI @ lit ''<'' @ dec b @ lit '';'' @ dec x @ lit '';'' @ dec y @ (if up then lit ''m'' else lit ''M'')"
    by (simp add: t_def)
  ultimately show ?thesis by simp
qed

lemma mouse_not_paste: "parseMouseInput data \<noteq> Unmatched \<Longrightarrow> \<not> starts_with data PASTE_START"
  by (auto simp: parseMouseInput_def PASTE_START_def CSI_def lit_def starts_with_iff_prefix Let_def prefix_def split: if_splits)

lemma translate_mouse:
  assumes "parseMouseInput data = Parsed ms" "translateInput data md vp = Some out"
  shows "translateMouse ms md vp = Some out" "validViewport vp"
proof -
  have "ESC \<in> set data"
    using assms(1) by (auto simp: parseMouseInput_def CSI_def starts_with_iff_prefix Let_def dest!: set_mono_prefix split: if_splits)
  moreover have "\<not> starts_with data PASTE_START" using mouse_not_paste [of data] assms(1) by simp
  ultimately show "translateMouse ms md vp = Some out" "validViewport vp"
    using assms by (auto simp: translateInput_def translate_packet_def translatePaste_def split: if_splits)
qed

text \<open>
  The report of a child: its coordinates start at the corner of its viewport, the X10 protocol has no
  modifier bits (4, 8 and 16), and the byte encoding tells a release by the button bits 3.
\<close>

definition child_button :: "mouse_tracking \<Rightarrow> nat \<Rightarrow> nat" where
  "child_button tracking b = (if tracking = TrackX10 then b AND 227 else b)"

definition local_report :: "viewport \<Rightarrow> mouse_tracking \<Rightarrow> mouse_input \<Rightarrow> mouse_input" where
  "local_report vp tracking ms =
     ms\<lparr>ms_button := child_button tracking (ms_button ms), ms_x := ms_x ms - vp_column vp, ms_y := ms_y ms - vp_row vp\<rparr>"

definition legacy_report :: "viewport \<Rightarrow> mouse_tracking \<Rightarrow> mouse_input \<Rightarrow> mouse_input" where
  "legacy_report vp tracking ms =
     mouse_of (child_button tracking (ms_button ms) OR (if ms_release ms then 3 else 0))
       (ms_x ms - vp_column vp) (ms_y ms - vp_row vp) False"

lemma button_bits:
  assumes "b \<le> 255"
  shows "without_modifiers b = b AND 227" "released_button b = b OR 3" "b AND 227 \<le> 255"
proof -
  have b: "b AND 255 = b" using assms take_bit_eq_mask [of 8 b] by (simp add: take_bit_nat_eq_self mask_eq_exp_minus_1)
  have split: "(b AND m) + (b AND n) = b" if "m AND n = 0" "m OR n = 255" for m n
  proof -
    have "(b AND m) AND (b AND n) = b AND (m AND n)" by (simp add: ac_simps)
    then have "(b AND m) + (b AND n) = (b AND m) OR (b AND n)" using that(1) by (simp add: disjunctive_add_eq_or)
    also have "\<dots> = b AND (m OR n)" by (rule bit_eqI) (auto simp: bit_simps)
    finally show ?thesis using b that(2) by simp
  qed
  have m: "(b AND 227) + (b AND 28) = b" "(b AND 252) + (b AND 3) = b" by (rule split; simp)+
  show "without_modifiers b = b AND 227" using m(1) by (simp add: without_modifiers_def)
  show "b AND 227 \<le> 255" using m(1) assms by simp
  have "(b AND 252) + 3 = (b AND 252) OR 3" by (rule disjunctive_add_eq_or) (simp add: and.assoc)
  moreover have "(b AND 252) OR 3 = b OR 3"
  proof -
    have "b OR 3 = ((b AND 252) OR (b AND 3)) OR 3"
      using m(2) disjunctive_add_eq_or [of "b AND 252" "b AND 3"] by (simp add: ac_simps)
    also have "\<dots> = (b AND 252) OR 3" by (rule bit_eqI) (auto simp: bit_simps)
    finally show ?thesis by simp
  qed
  ultimately show "released_button b = b OR 3" using m(2) by (simp add: released_button_def)
qed

lemma child_button_bits: "(b AND 227) AND 32 = b AND 32" "(b AND 227) AND 64 = b AND 64" "(b AND 227) AND 3 = b AND 3" for b :: nat
  by (simp_all add: and.assoc flip: numeral_3_eq_3)

lemma local_report_mouse_of:
  "mouse_of (child_button tr (ms_button ms)) (ms_x ms - vp_column vp) (ms_y ms - vp_row vp) (ms_release ms) = local_report vp tr ms"
  if "ms = mouse_of b x y up" "tr = TrackX10 \<longrightarrow> \<not> ms_release ms"
  using that by (auto simp: mouse_of_def local_report_def child_button_def Let_def child_button_bits)

text \<open>
  C22. A mouse report that a child gets is the report of the terminal, taken to the coordinates of the
  child.  In every tracking mode it lies inside the viewport on all four sides and is of a kind the
  child asked for.  In the SGR encoding the child reads the coordinates from the corner of its viewport
  and the same press or release, motion, wheel and button, in the X10 mode without the modifier bits; in
  the byte encoding it reads the same coordinates and button, with the button bits 3 for a release.
\<close>

theorem mouse_reports_are_local:
  assumes "parseMouseInput data = Parsed ms" and "translateInput data md vp = Some out"
  shows "vp_column vp \<le> ms_x ms \<and> ms_x ms < vp_column vp + vp_cols vp
    \<and> vp_row vp \<le> ms_y ms \<and> ms_y ms < vp_row vp + vp_rows vp \<and> mouseAllowed ms (mouseTracking md)
    \<and> (case out of
         Text t \<Rightarrow> parseMouseInput t = Parsed (local_report vp (mouseTracking md) ms)
       | Bytes bs \<Rightarrow> parseMouseInput bs = Parsed (legacy_report vp (mouseTracking md) ms))"
proof -
  note moved = translate_mouse [OF assms(1,2)]
  obtain b x y up where ms: "ms = mouse_of b x y up" "b \<le> 255" by (rule parsed_mouse [OF assms(1)])
  then have b: "ms_button ms \<le> 255" by (simp add: mouse_of_def Let_def)
  have inside: "inside ms vp" and allowed: "mouseAllowed ms (mouseTracking md)"
    using moved(1) by (auto simp: translateMouse_inside Let_def split: if_splits)
  let ?tr = "mouseTracking md" and ?x = "ms_x ms - vp_column vp" and ?y = "ms_y ms - vp_row vp"
  let ?b = "child_button (mouseTracking md) (ms_button ms)"
  have button: "(if ?tr = TrackX10 then without_modifiers (ms_button ms) else ms_button ms) = ?b" "?b \<le> 255"
    using button_bits [OF b] b by (simp_all add: child_button_def)
  have "case out of
         Text t \<Rightarrow> parseMouseInput t = Parsed (local_report vp ?tr ms)
       | Bytes bs \<Rightarrow> parseMouseInput bs = Parsed (legacy_report vp ?tr ms)"
  proof (cases out)
    case (Text t)
    then have t: "t = CSI @ lit ''<'' @ dec ?b @ lit '';'' @ dec (?x + 1) @ lit '';'' @ dec (?y + 1)
        @ (if ms_release ms then lit ''m'' else lit ''M'')"
      using moved(1) by (auto simp: translateMouse_inside Let_def button split: if_splits)
    have "parseMouseInput t = Parsed (mouse_of ?b (?x + 1 - 1) (?y + 1 - 1) (ms_release ms))"
      unfolding t using button(2) moved(2) inside
      by (intro parse_printed_mouse) (auto simp: validViewport_def inside_def)
    moreover have "?tr = TrackX10 \<longrightarrow> \<not> ms_release ms" using allowed by (auto simp: mouseAllowed_def)
    ultimately show ?thesis using Text local_report_mouse_of [OF ms(1)] by simp
  next
    case (Bytes bs)
    let ?l = "if ms_release ms then released_button ?b else ?b"
    have bs: "bs = [0x1b, 0x5b, 0x4d, ?l + 32, ?x + 33, ?y + 33]" "?l + 32 \<le> 255" "?x + 33 \<le> 255" "?y + 33 \<le> 255"
      using moved(1) Bytes by (auto simp: translateMouse_inside Let_def button not_less split: if_splits)
    have l: "?l = ?b OR (if ms_release ms then 3 else 0)" using button_bits(2) [OF button(2)] by simp
    have "parseMouseInput bs = Parsed (mouse_of ?l ?x ?y False)"
      using bs(2-4) unfolding bs(1) by (simp add: parseMouseInput_def starts_with_def x10_mouse_def CSI_def ESC_def lit_def
          MAX_CSI_PACKET_LENGTH_def Let_def)
    then show ?thesis using Bytes by (simp add: legacy_report_def l)
  qed
  with inside allowed show ?thesis by (simp add: inside_def)
qed

text \<open>A click in a pane on the right for a child that tracks everything, and with Shift for an X10 child.\<close>

lemma mouse_reports_are_local_witness:
  "translateInput (CSI @ lit ''<0;41;6M'') plain_child right_pane = Some (Text (CSI @ lit ''<0;11;6M''))
   \<and> parseMouseInput (CSI @ lit ''<0;11;6M'') = Parsed (mouse_of 0 10 5 False)
   \<and> parseMouseInput [27, 91, 77, 33, 43, 38] = Parsed (mouse_of 1 10 5 False)"
proof -
  let ?x10 = "plain_child\<lparr>mouseTracking := TrackX10, mouseEncoding := EncDefault\<rparr>"
  have "parseMouseInput (CSI @ lit ''<0;41;6M'') = Parsed (mouse_of 0 40 5 False)" by code_simp
  moreover have moved: "translateInput (CSI @ lit ''<0;41;6M'') plain_child right_pane = Some (Text (CSI @ lit ''<0;11;6M''))" by code_simp
  moreover have "parseMouseInput (CSI @ lit ''<5;41;6M'') = Parsed (mouse_of 5 40 5 False)" by code_simp
  moreover have "translateInput (CSI @ lit ''<5;41;6M'') ?x10 right_pane = Some (Bytes [27, 91, 77, 33, 43, 38])" by code_simp
  moreover have "local_report right_pane (mouseTracking plain_child) (mouse_of 0 40 5 False) = mouse_of 0 10 5 False"
    "legacy_report right_pane (mouseTracking ?x10) (mouse_of 5 40 5 False) = mouse_of 1 10 5 False" by code_simp+
  ultimately show ?thesis
    using mouse_reports_are_local [of "CSI @ lit ''<0;41;6M''" _ plain_child right_pane]
      mouse_reports_are_local [of "CSI @ lit ''<5;41;6M''" _ ?x10 right_pane] by fastforce
qed

end
