(* ===== verification/Web_Cache.thy ===== *)
theory Web_Cache
  imports Prelude "HOL-Library.AList"
begin

text \<open>
  The page cache of the web tools, \<open>src/src/web/cache.ts\<close>.  A fetch awaits the removal of files, the
  download and the removal of what it evicts, so fetches overlap; a step is what runs between two awaits.
  An entry is an object, so it has a number; its requested URL is its key; the page it holds is left out.  A map keeps the order of
  insertion, and setting a key that is present keeps its place.  Clocks and sizes are arguments.
\<close>

record cache_entry =
  ce_id :: nat
  ce_diskBytes :: nat
  ce_lastAccessedAt :: nat

record cache_config =
  cacheMaxEntries :: nat
  cacheMaxBytes :: nat

record cache =
  entries :: "(string \<times> cache_entry) list"
  totalBytes :: nat
  cached_objects :: nat

definition new_cache :: cache where
  "new_cache = \<lparr>entries = [], totalBytes = 0, cached_objects = 0\<rparr>"

definition removeEntry :: "string \<Rightarrow> cache \<Rightarrow> cache" where
  "removeEntry url c =
     (case map_of (entries c) url of
        None \<Rightarrow> c
      | Some e \<Rightarrow> c\<lparr>entries := AList.delete url (entries c), totalBytes := totalBytes c - ce_diskBytes e\<rparr>)"

text \<open>The first of the entries that were used least recently: a stable sort, and its head.\<close>

fun oldest :: "(string \<times> cache_entry) list \<Rightarrow> (string \<times> cache_entry) option" where
  "oldest [] = None"
| "oldest (e # es) =
     (case oldest es of
        None \<Rightarrow> Some e
      | Some f \<Rightarrow> if ce_lastAccessedAt (snd e) \<le> ce_lastAccessedAt (snd f) then Some e else Some f)"

definition over_limit :: "cache_config \<Rightarrow> cache \<Rightarrow> bool" where
  "over_limit cfg c \<longleftrightarrow> length (entries c) > cacheMaxEntries cfg \<or> totalBytes c > cacheMaxBytes cfg"

definition evictable :: "string \<Rightarrow> cache \<Rightarrow> (string \<times> cache_entry) list" where
  "evictable protectedUrl c = filter (\<lambda>e. fst e \<noteq> protectedUrl \<or> length (entries c) = 1) (entries c)"

text \<open>One turn of the loop of \<open>evict\<close>: the cache, and whether the loop goes on.\<close>

definition evict_turn :: "cache_config \<Rightarrow> string \<Rightarrow> cache \<Rightarrow> cache \<times> bool" where
  "evict_turn cfg protectedUrl c =
     (if \<not> over_limit cfg c then (c, False)
      else case oldest (evictable protectedUrl c) of
        None \<Rightarrow> (c, False)
      | Some (url, e) \<Rightarrow> (removeEntry url c, url \<noteq> protectedUrl))"

lemma oldest_in: "oldest es = Some e \<Longrightarrow> e \<in> set es"
  by (induction es arbitrary: e) (auto split: option.splits if_splits)

lemma oldest_None: "oldest es = None \<longleftrightarrow> es = []"
  by (cases es) (auto split: option.splits)

lemma removeEntry_shorter:
  assumes "u \<in> fst ` set (entries c)"
  shows "length (entries (removeEntry u c)) < length (entries c)"
proof -
  obtain e where "map_of (entries c) u = Some e" using assms by (metis map_of_eq_None_iff option.exhaust)
  moreover have "length (filter (\<lambda>x. u \<noteq> fst x) (entries c)) < length (entries c)"
    using assms by (intro length_filter_less [of "(u, the (map_of (entries c) u))"]) (simp_all add: calculation map_of_SomeD)
  ultimately show ?thesis by (simp add: removeEntry_def AList.delete_eq case_prod_unfold)
qed

lemma evict_turn_shorter: "evict_turn cfg url c = (c', True) \<Longrightarrow> length (entries c') < length (entries c)"
  by (auto simp: evict_turn_def evictable_def split: if_splits option.splits dest!: oldest_in
    intro!: removeEntry_shorter intro: rev_image_eqI)

text \<open>The loop when nothing comes between its turns.\<close>

function evict :: "cache_config \<Rightarrow> string \<Rightarrow> cache \<Rightarrow> cache" where
  "evict cfg url c = (case evict_turn cfg url c of (c', again) \<Rightarrow> if again then evict cfg url c' else c')"
  by pat_completeness auto
termination
  by (relation "measure (\<lambda>(cfg, url, c). length (entries c))") (auto dest!: evict_turn_shorter [OF sym])

declare evict.simps [simp del]

subsection \<open>Fetches\<close>

definition touch :: "nat \<Rightarrow> nat \<Rightarrow> cache \<Rightarrow> cache" where
  "touch obj now c =
     c\<lparr>entries := map (\<lambda>(u, e). (u, if ce_id e = obj then e\<lparr>ce_lastAccessedAt := now\<rparr> else e)) (entries c)\<rparr>"

definition store_entry :: "string \<Rightarrow> nat \<Rightarrow> nat \<Rightarrow> cache \<Rightarrow> cache" where
  "store_entry url bytes now c =
     (let e = \<lparr>ce_id = cached_objects c, ce_diskBytes = bytes, ce_lastAccessedAt = now\<rparr> in
      c\<lparr>entries := AList.update url e (entries c), totalBytes := totalBytes c + bytes, cached_objects := Suc (cached_objects c)\<rparr>)"

definition cleanup :: "cache \<Rightarrow> cache" where
  "cleanup c = c\<lparr>entries := [], totalBytes := 0\<rparr>"

text \<open>
  A fetch that is under way: it waits for the removal of the page it refreshes, for its download, or for
  the removal of an evicted page, with its own entry.
\<close>

datatype flight = Refreshing string | Downloading string | Evicting string nat

record web =
  the_cache :: cache
  flights :: "(nat \<times> flight) list"

definition land :: "nat \<Rightarrow> web \<Rightarrow> web" where
  "land n w = w\<lparr>flights := AList.delete n (flights w)\<rparr>"

definition fly :: "nat \<Rightarrow> flight \<Rightarrow> web \<Rightarrow> web" where
  "fly n f w = w\<lparr>flights := AList.update n f (flights w)\<rparr>"

text \<open>The rest of a fetch whose entry is \<open>obj\<close>: turns of the eviction, one at a time, then the access time.\<close>

definition evict_on :: "cache_config \<Rightarrow> nat \<Rightarrow> string \<Rightarrow> nat \<Rightarrow> nat \<Rightarrow> web \<Rightarrow> web" where
  "evict_on cfg n url obj now w =
     (let (c, again) = evict_turn cfg url (the_cache w) in
      if again then fly n (Evicting url obj) (w\<lparr>the_cache := c\<rparr>)
      else land n (w\<lparr>the_cache := touch obj now c\<rparr>))"

datatype web_event =
    Fetch nat string bool nat
  | FilesRemoved nat cache_config nat
  | Downloaded nat cache_config nat nat
  | DownloadFailed nat
  | CleanUp

definition start_fetch :: "nat \<Rightarrow> string \<Rightarrow> bool \<Rightarrow> nat \<Rightarrow> web \<Rightarrow> web" where
  "start_fetch n url refresh now w =
     (case (if refresh then None else map_of (entries (the_cache w)) url) of
        Some e \<Rightarrow> w\<lparr>the_cache := touch (ce_id e) now (the_cache w)\<rparr>
      | None \<Rightarrow>
          (if refresh then fly n (Refreshing url) (w\<lparr>the_cache := removeEntry url (the_cache w)\<rparr>)
           else fly n (Downloading url) w))"

fun web_step :: "web_event \<Rightarrow> web \<Rightarrow> web" where
  "web_step (Fetch n url refresh now) w = (if map_of (flights w) n = None then start_fetch n url refresh now w else w)"
| "web_step (FilesRemoved n cfg now) w =
     (case map_of (flights w) n of
        Some (Refreshing url) \<Rightarrow> fly n (Downloading url) w
      | Some (Evicting url obj) \<Rightarrow> evict_on cfg n url obj now w
      | _ \<Rightarrow> w)"
| "web_step (Downloaded n cfg bytes now) w =
     (case map_of (flights w) n of
        Some (Downloading url) \<Rightarrow>
          evict_on cfg n url (cached_objects (the_cache w)) now (w\<lparr>the_cache := store_entry url bytes now (the_cache w)\<rparr>)
      | _ \<Rightarrow> w)"
| "web_step (DownloadFailed n) w = (case map_of (flights w) n of Some (Downloading url) \<Rightarrow> land n w | _ \<Rightarrow> w)"
| "web_step CleanUp w = w\<lparr>the_cache := cleanup (the_cache w)\<rparr>"

definition new_web :: web where "new_web = \<lparr>the_cache = new_cache, flights = []\<rparr>"

end
