(* ===== verification/Web_Cache_Spec.thy ===== *)
theory Web_Cache_Spec
  imports Web_Cache
begin

text \<open>
  What the cache of pages promises.  However fetches overlap, the bytes it counts are at least the bytes
  it holds, so a fetch that is done leaves it within its limits.  They can be more: two overlapping
  fetches of one URL count the page that the second overwrites, and nothing takes those bytes back.
\<close>

definition disk_bytes :: "(string \<times> cache_entry) list \<Rightarrow> nat" where
  "disk_bytes es = (\<Sum>e\<leftarrow>es. ce_diskBytes (snd e))"

definition cache_inv :: "cache \<Rightarrow> bool" where
  "cache_inv c \<longleftrightarrow> distinct (map fst (entries c)) \<and> disk_bytes (entries c) \<le> totalBytes c"

definition within_limits :: "cache_config \<Rightarrow> cache \<Rightarrow> bool" where
  "within_limits cfg c \<longleftrightarrow> length (entries c) \<le> cacheMaxEntries cfg \<and> disk_bytes (entries c) \<le> cacheMaxBytes cfg"

inductive web_moves :: "web \<Rightarrow> web \<Rightarrow> bool" where
  move: "web_moves w (web_step ev w)"

inductive_cases web_movesE: "web_moves w w'"

lemma disk_bytes_simps [simp]:
  "disk_bytes [] = 0" "disk_bytes (e # es) = ce_diskBytes (snd e) + disk_bytes es"
  by (simp_all add: disk_bytes_def)

lemma delete_notin: "u \<notin> fst ` set es \<Longrightarrow> AList.delete u es = es"
  by (induction es) auto

lemma disk_bytes_delete:
  "distinct (map fst es) \<Longrightarrow> map_of es u = Some e \<Longrightarrow> disk_bytes es = ce_diskBytes e + disk_bytes (AList.delete u es)"
proof (induction es)
  case (Cons x es)
  then show ?case by (cases "fst x = u") (auto simp: delete_notin)
qed simp

lemma disk_bytes_update: "disk_bytes (AList.update u e es) \<le> ce_diskBytes e + disk_bytes es"
  by (induction es) auto

lemma disk_bytes_touch [simp]: "disk_bytes (entries (touch obj now c)) = disk_bytes (entries c)"
  by (simp add: touch_def disk_bytes_def case_prod_unfold comp_def) (rule arg_cong [where f = sum_list], simp)

lemma touch_simps [simp]:
  "totalBytes (touch obj now c) = totalBytes c" "map fst (entries (touch obj now c)) = map fst (entries c)"
  "length (entries (touch obj now c)) = length (entries c)"
  by (simp_all add: touch_def case_prod_unfold comp_def)

lemma inv_touch [simp]: "cache_inv (touch obj now c) = cache_inv c"
  by (simp add: cache_inv_def)

lemma within_touch [simp]: "within_limits cfg (touch obj now c) = within_limits cfg c"
  by (simp add: within_limits_def)

lemma inv_removeEntry [intro]: "cache_inv c \<Longrightarrow> cache_inv (removeEntry u c)"
  using disk_bytes_delete [of "entries c" u]
  by (auto simp: cache_inv_def removeEntry_def AList.distinct_delete simp del: map_of_eq_Some_iff split: option.splits)

lemma inv_store [intro]: "cache_inv c \<Longrightarrow> cache_inv (store_entry u bytes now c)"
  using disk_bytes_update [of u "\<lparr>ce_id = cached_objects c, ce_diskBytes = bytes, ce_lastAccessedAt = now\<rparr>" "entries c"]
  by (simp add: cache_inv_def store_entry_def Let_def AList.distinct_update)

lemma inv_cleanup [simp]: "cache_inv (cleanup c)" by (simp add: cache_inv_def cleanup_def)

lemma inv_new [simp]: "cache_inv new_cache" by (simp add: cache_inv_def new_cache_def)

lemma inv_evict_turn [intro]: "cache_inv c \<Longrightarrow> cache_inv (fst (evict_turn cfg url c))"
  by (auto simp: evict_turn_def split: option.splits)

lemma the_cache_fly [simp]: "the_cache (fly n f w) = the_cache w" "the_cache (land n w) = the_cache w"
  by (simp_all add: fly_def land_def)

lemma inv_evict_on [intro]: "cache_inv (the_cache w) \<Longrightarrow> cache_inv (the_cache (evict_on cfg n url obj now w))"
  using inv_evict_turn [of "the_cache w" cfg url] by (simp add: evict_on_def case_prod_unfold Let_def)

lemma inv_start_fetch [intro]: "cache_inv (the_cache w) \<Longrightarrow> cache_inv (the_cache (start_fetch n url refresh now w))"
  by (auto simp: start_fetch_def split: option.splits)

lemma inv_web_step: "cache_inv (the_cache w) \<Longrightarrow> cache_inv (the_cache (web_step ev w))"
  by (cases ev) (auto split: option.splits flight.splits intro!: inv_evict_on intro: inv_store)

interpretation cached: guarded_system "\<lambda>w. w = new_web" web_moves "\<lambda>w. cache_inv (the_cache w)"
  by unfold_locales (auto simp: new_web_def elim!: web_movesE intro: inv_web_step)

lemma run_moves: "web_moves\<^sup>*\<^sup>* w (fold web_step evs w)"
  by (induction evs arbitrary: w) (auto intro: converse_rtranclp_into_rtranclp web_moves.intros)

subsection \<open>The end of an eviction\<close>

lemma single_entry:
  "distinct (map fst es) \<Longrightarrow> filter (\<lambda>e. fst e \<noteq> u \<or> length es = 1) es = [] \<Longrightarrow> es = []"
  by (cases es; cases "tl es") (auto simp: filter_empty_conv split: if_splits)

lemma evictable_protected:
  assumes "cache_inv c" "oldest (evictable url c) = Some (url, e)"
  shows "entries (removeEntry url c) = []"
proof -
  have "(url, e) \<in> set (entries c)" "length (entries c) = 1"
    using oldest_in [OF assms(2)] by (auto simp: evictable_def)
  then have "entries c = [(url, e)]" by (cases "entries c") auto
  then show ?thesis by (simp add: removeEntry_def)
qed

lemma not_over_within: "cache_inv c \<Longrightarrow> \<not> over_limit cfg c \<Longrightarrow> within_limits cfg c"
  by (auto simp: cache_inv_def over_limit_def within_limits_def)

lemma empty_within: "entries c = [] \<Longrightarrow> within_limits cfg c"
  by (simp add: within_limits_def)

lemma last_turn_cases:
  assumes "cache_inv c" "evict_turn cfg url c = (c', False)"
  shows "entries c' = [] \<or> c' = c \<and> \<not> over_limit cfg c"
  using assms single_entry [of "entries c" url]
  by (auto simp: evict_turn_def oldest_None evictable_def [of url c] cache_inv_def
      intro: evictable_protected [unfolded cache_inv_def] split: if_splits option.splits)

lemma last_turn_within: "cache_inv c \<Longrightarrow> evict_turn cfg url c = (c', False) \<Longrightarrow> within_limits cfg c'"
  using last_turn_cases [of c cfg url c'] not_over_within [of c cfg] empty_within by blast

lemma evict_on_within:
  assumes "cache_inv (the_cache w)" "map_of (flights (evict_on cfg n url obj now w)) n = None"
  shows "within_limits cfg (the_cache (evict_on cfg n url obj now w))"
  using assms last_turn_within [of "the_cache w" cfg url]
  by (auto simp: evict_on_def fly_def AList.update_conv' split: prod.splits if_splits)

lemma evict_within: "cache_inv c \<Longrightarrow> within_limits cfg (evict cfg url c)"
proof (induction cfg url c rule: evict.induct)
  case (1 cfg url c)
  then show ?case using inv_evict_turn [OF "1.prems", of cfg url]
    by (subst evict.simps) (auto split: prod.splits intro: last_turn_within)
qed

subsection \<open>Bytes that are counted for ever\<close>

lemma turn_keeps_excess:
  assumes "cache_inv c" shows "totalBytes (removeEntry u c) - disk_bytes (entries (removeEntry u c)) = totalBytes c - disk_bytes (entries c)"
  using assms disk_bytes_delete [of "entries c" u]
  by (auto simp: cache_inv_def removeEntry_def simp del: map_of_eq_Some_iff split: option.splits)

lemma evict_turn_excess:
  "cache_inv c \<Longrightarrow> evict_turn cfg url c = (c', again)
    \<Longrightarrow> totalBytes c' - disk_bytes (entries c') = totalBytes c - disk_bytes (entries c)"
  by (auto simp: evict_turn_def turn_keeps_excess split: if_splits option.splits)

lemma excess_empties_cache:
  "cache_inv c \<Longrightarrow> cacheMaxBytes cfg < totalBytes c - disk_bytes (entries c) \<Longrightarrow> entries (evict cfg url c) = []"
proof (induction cfg url c rule: evict.induct)
  case (1 cfg url c)
  obtain c' again where t: "evict_turn cfg url c = (c', again)" by fastforce
  have over: "over_limit cfg c" using "1.prems"(2) unfolding over_limit_def by linarith
  show ?case
  proof (cases again)
    case True
    then show ?thesis
      using "1.IH" [OF t [symmetric]] "1.prems" t inv_evict_turn [OF "1.prems"(1), of cfg url] evict_turn_excess [OF "1.prems"(1) t]
      by (subst evict.simps) simp
  next
    case False
    then show ?thesis using last_turn_cases [of c cfg url c'] t over "1.prems"(1) by (subst evict.simps) auto
  qed
qed

text \<open>Two fetches of one page that overlap, and a third page that the cache could hold and does not keep.\<close>

definition overlap :: "web_event list" where
  "overlap = (let cfg = \<lparr>cacheMaxEntries = 8, cacheMaxBytes = 5\<rparr> in
     [Fetch 0 ''p'' False 1, Fetch 1 ''p'' False 1, Downloaded 0 cfg 3 2, Downloaded 1 cfg 3 3,
      FilesRemoved 1 cfg 4, Fetch 2 ''q'' False 5, Downloaded 2 cfg 3 6])"

lemma overwritten_page_is_counted:
  "entries (the_cache (fold web_step overlap new_web)) = [] \<and> totalBytes (the_cache (fold web_step overlap new_web)) = 3"
  unfolding overlap_def by code_simp

subsection \<open>Properties\<close>

text \<open>
  C23. Whatever fetches overlap and whatever the sizes, a fetch that is done with its eviction leaves the
  cache within the configured number of pages and the configured bytes on disk; and so does a whole
  eviction at any moment.
\<close>

theorem cache_stays_within_limits:
  assumes "web_moves\<^sup>*\<^sup>* new_web w" "map_of (flights w) n \<in> {Some (Downloading url), Some (Evicting url obj)}"
    and "ev \<in> {Downloaded n cfg bytes now, FilesRemoved n cfg now}" "map_of (flights (web_step ev w)) n = None"
  shows "within_limits cfg (the_cache (web_step ev w)) \<and> within_limits cfg (evict cfg other (the_cache w))"
proof
  have inv: "cache_inv (the_cache w)" by (rule cached.reachable_inv [OF refl assms(1)])
  then show "within_limits cfg (evict cfg other (the_cache w))" by (rule evict_within)
  show "within_limits cfg (the_cache (web_step ev w))" using assms(2-4) inv
    by (auto simp: inv_store intro!: evict_on_within)
qed

lemma cache_stays_within_limits_witness:
  "let cfg = \<lparr>cacheMaxEntries = 1, cacheMaxBytes = 9\<rparr>;
       w = fold web_step [Fetch 0 ''p'' False 1, Downloaded 0 cfg 3 2, Fetch 1 ''q'' False 3, Downloaded 1 cfg 4 5] new_web
   in map_of (flights w) 1 = Some (Evicting ''q'' 1) \<and> within_limits cfg (the_cache (web_step (FilesRemoved 1 cfg 6) w))"
proof -
  let ?cfg = "\<lparr>cacheMaxEntries = 1, cacheMaxBytes = 9\<rparr>"
  let ?w = "fold web_step [Fetch 0 ''p'' False 1, Downloaded 0 ?cfg 3 2, Fetch 1 ''q'' False 3, Downloaded 1 ?cfg 4 5] new_web"
  have f: "map_of (flights ?w) 1 = Some (Evicting ''q'' 1)" by code_simp
  have l: "map_of (flights (web_step (FilesRemoved 1 ?cfg 6) ?w)) 1 = None" by code_simp
  have "within_limits ?cfg (the_cache (web_step (FilesRemoved 1 ?cfg 6) ?w))"
    using cache_stays_within_limits [of ?w 1 "''q''" 1 "FilesRemoved 1 ?cfg 6" ?cfg 0 6 "''q''"] f l run_moves by blast
  with f show ?thesis by (simp only: Let_def)
qed

end
