(* ===== verification/Browser_Permissions.thy ===== *)
theory Browser_Permissions
  imports Prelude "HOL-Library.AList"
begin

text \<open>
  The permissions a web page may be granted in the managed browser: \<open>src/src/web/browser-permissions.ts\<close>
  with the policy of \<open>browser-capabilities.ts\<close> and its callers in \<open>interactive-browser.ts\<close>.  The session
  keeps a table of what it granted to each origin; every change of the table is a mutation, mutations run
  one at a time in the order they were requested, and a mutation waits for the browser, which can refuse.
  A task is a caller between two of its awaits.  The texts of errors are left out.

  The calls to the browser are logged with what it answered; what it then holds is not under \<open>src/\<close>.
\<close>

datatype approval_mode = Ask | Automatically_Accept | Automatically_Deny

record browser_permissions =
  may_yolo :: bool
  may_credentialEntry :: bool
  may_credentialSubmission :: bool
  may_uploads :: bool
  may_downloadSaving :: bool
  may_clipboard :: bool
  may_camera :: bool
  may_microphone :: bool
  may_geolocation :: bool
  may_serviceWorkers :: bool
  may_popupRestrictionOverride :: bool
  may_localNetworks :: bool

record browser_policy =
  yolo :: bool
  interactionApproval :: approval_mode
  modelCredentialEntry :: bool
  modelCredentialSubmission :: bool
  modelUploads :: bool
  modelDownloadSaving :: bool
  modelClipboard :: bool
  modelCamera :: bool
  modelMicrophone :: bool
  modelGeolocation :: bool
  modelServiceWorkers :: bool
  modelPopupRestrictionOverride :: bool
  localNetworks :: bool

definition effectiveBrowserPolicy :: "browser_permissions \<Rightarrow> approval_mode \<Rightarrow> browser_policy" where
  "effectiveBrowserPolicy p approval =
     (let y = may_yolo p in
      \<lparr>yolo = y, interactionApproval = (if y then Automatically_Accept else approval),
       modelCredentialEntry = (y \<or> may_credentialEntry p), modelCredentialSubmission = (y \<or> may_credentialSubmission p),
       modelUploads = (y \<or> may_uploads p), modelDownloadSaving = (y \<or> may_downloadSaving p),
       modelClipboard = (y \<or> may_clipboard p), modelCamera = (y \<or> may_camera p),
       modelMicrophone = (y \<or> may_microphone p), modelGeolocation = (y \<or> may_geolocation p),
       modelServiceWorkers = (y \<or> may_serviceWorkers p),
       modelPopupRestrictionOverride = (y \<or> may_popupRestrictionOverride p),
       localNetworks = (y \<or> may_localNetworks p)\<rparr>)"

datatype permission_group = ClipboardRead | ClipboardWrite | Camera | Microphone | Geolocation

fun BROWSER_PERMISSION_GROUP_GRANTS :: "permission_group \<Rightarrow> string list" where
  "BROWSER_PERMISSION_GROUP_GRANTS ClipboardRead = [''clipboard-read'']"
| "BROWSER_PERMISSION_GROUP_GRANTS ClipboardWrite = [''clipboard-write'']"
| "BROWSER_PERMISSION_GROUP_GRANTS Camera = [''camera'']"
| "BROWSER_PERMISSION_GROUP_GRANTS Microphone = [''microphone'']"
| "BROWSER_PERMISSION_GROUP_GRANTS Geolocation = [''geolocation'']"

definition CLIPBOARD_PERMISSION_GROUPS :: "permission_group list" where
  "CLIPBOARD_PERMISSION_GROUPS = [ClipboardRead, ClipboardWrite]"

definition DEVICE_PERMISSION_GROUPS :: "(permission_group \<times> (browser_policy \<Rightarrow> bool)) list" where
  "DEVICE_PERMISSION_GROUPS = [(Camera, modelCamera), (Microphone, modelMicrophone), (Geolocation, modelGeolocation)]"

definition enabledDeviceGroups :: "browser_policy \<Rightarrow> permission_group list" where
  "enabledDeviceGroups pol = map fst (filter (\<lambda>(g, enabled). enabled pol) DEVICE_PERMISSION_GROUPS)"

definition permissionGroupEnabled :: "permission_group \<Rightarrow> browser_policy \<Rightarrow> bool" where
  "permissionGroupEnabled g pol =
     (if g = ClipboardRead \<or> g = ClipboardWrite then modelClipboard pol
      else case map_of DEVICE_PERMISSION_GROUPS g of Some enabled \<Rightarrow> enabled pol | None \<Rightarrow> False)"

text \<open>The groups a save of the settings revokes: all that are off, whether or not they were on before.\<close>

definition revokedGroups :: "browser_policy \<Rightarrow> permission_group list" where
  "revokedGroups pol =
     (if modelClipboard pol then [] else CLIPBOARD_PERMISSION_GROUPS)
     @ map fst (filter (\<lambda>(g, enabled). \<not> enabled pol) DEVICE_PERMISSION_GROUPS)"

subsection \<open>The session\<close>

datatype mutation = EnsureGrant string permission_group | RevokeGrants "permission_group list"

datatype revocation_outcome = NoGrant | Superseded | Revoked "string list" | Unconfirmed | InFlight

datatype settlement = Granted | GrantRefused | Outcome revocation_outcome

text \<open>Where the body of the running mutation waits for the browser.\<close>

datatype progress =
    Granting string permission_group
  | Clearing "permission_group list"
  | Regranting string "(string \<times> permission_group list) list" "string list"

datatype browser_call = GrantPermissions "string list" string | ClearPermissions

text \<open>Where a caller waits.\<close>

datatype task =
    PageGranting string permission_group "permission_group list"
  | PageRevoking string
  | ReapplyGranting string permission_group "permission_group list" "(string \<times> permission_group list) list"
  | ReapplyRevoking string "permission_group list" "(string \<times> permission_group list) list"
  | ClipboardGranting
  | ClipboardRevoking
  | Saving

datatype broker_note =
    DeviceGrantFailed string
  | DeviceRevocationUnconfirmed string
  | RegrantFailed "string list"
  | CarriedRevocationUnconfirmed string
  | CarriedPartially string permission_group

record session =
  policy :: browser_policy
  permissionGrants :: "(string \<times> permission_group list) list"
  mutations :: "(nat \<times> mutation) list"
  running :: "progress option"
  settled :: "(nat \<times> settlement) list"
  tasks :: "(nat \<times> task) list"
  next_task :: nat
  teardown :: bool
  fatalError :: bool
  calls :: "(browser_call \<times> bool) list"
  awaited :: "browser_call option"
  broker_notes :: "broker_note list"
  reports :: "revocation_outcome list"

definition new_session :: "browser_policy \<Rightarrow> session" where
  "new_session pol = \<lparr>policy = pol, permissionGrants = [], mutations = [], running = None, settled = [], tasks = [],
     next_task = 0, teardown = False, fatalError = False, calls = [], awaited = None, broker_notes = [], reports = []\<rparr>"

definition closing :: "session \<Rightarrow> bool" where
  "closing s \<longleftrightarrow> teardown s \<or> fatalError s"

definition failSession :: "session \<Rightarrow> session" where
  "failSession s = s\<lparr>fatalError := True, teardown := True\<rparr>"

definition granted_at :: "session \<Rightarrow> string \<Rightarrow> permission_group list" where
  "granted_at s origin = (case map_of (permissionGrants s) origin of None \<Rightarrow> [] | Some gs \<Rightarrow> gs)"

definition descriptors :: "permission_group list \<Rightarrow> string list" where
  "descriptors gs = remdups (concat (map BROWSER_PERMISSION_GROUP_GRANTS gs))"

definition add_note :: "broker_note \<Rightarrow> session \<Rightarrow> session" where
  "add_note n s = s\<lparr>broker_notes := broker_notes s @ [n]\<rparr>"

subsection \<open>Mutations\<close>

text \<open>The end of the running mutation: its caller has its result, and the next can start.\<close>

definition settle :: "settlement \<Rightarrow> session \<Rightarrow> session" where
  "settle r s = (case mutations s of
     [] \<Rightarrow> s
   | (n, m) # q \<Rightarrow> s\<lparr>mutations := q, running := None, awaited := None, settled := settled s @ [(n, r)]\<rparr>)"

definition wait_for :: "progress \<Rightarrow> browser_call \<Rightarrow> session \<Rightarrow> session" where
  "wait_for p c s = s\<lparr>running := Some p, awaited := Some c\<rparr>"

fun regrant :: "(string \<times> permission_group list) list \<Rightarrow> string list \<Rightarrow> session \<Rightarrow> session" where
  "regrant [] failures s =
     settle (Outcome (Revoked failures)) (if failures = [] then s else add_note (RegrantFailed failures) s)"
| "regrant ((origin, granted) # rest) failures s =
     (if granted = [] then regrant rest failures (s\<lparr>permissionGrants := AList.delete origin (permissionGrants s)\<rparr>)
      else wait_for (Regranting origin rest failures) (GrantPermissions (descriptors granted) origin) s)"

definition start_grant :: "string \<Rightarrow> permission_group \<Rightarrow> session \<Rightarrow> session" where
  "start_grant origin g s =
     (if g \<in> set (granted_at s origin) then settle Granted s
      else wait_for (Granting origin g) (GrantPermissions (descriptors (granted_at s origin @ [g])) origin) s)"

definition start_revocation :: "permission_group list \<Rightarrow> session \<Rightarrow> session" where
  "start_revocation gs s =
     (if \<not> list_ex (\<lambda>(origin, granted). list_ex (\<lambda>g. g \<in> set gs) granted) (permissionGrants s) then settle (Outcome NoGrant) s
      else if closing s then settle (Outcome Superseded) s
      else wait_for (Clearing gs) ClearPermissions s)"

definition start_mutation :: "session \<Rightarrow> session" where
  "start_mutation s =
     (if running s \<noteq> None then s
      else case mutations s of
        [] \<Rightarrow> s
      | (n, EnsureGrant origin g) # q \<Rightarrow> start_grant origin g s
      | (n, RevokeGrants gs) # q \<Rightarrow> start_revocation gs s)"

definition forget :: "permission_group list \<Rightarrow> session \<Rightarrow> session" where
  "forget gs s = s\<lparr>permissionGrants := map (\<lambda>(origin, granted). (origin, filter (\<lambda>g. g \<notin> set gs) granted)) (permissionGrants s)\<rparr>"

text \<open>What the running mutation does when the browser has accepted or refused its call.\<close>

definition browser_answers :: "bool \<Rightarrow> session \<Rightarrow> session" where
  "browser_answers accepted s0 =
     (case (running s0, awaited s0) of
        (Some p, Some c) \<Rightarrow>
          (let s = s0\<lparr>calls := calls s0 @ [(c, accepted)], awaited := None\<rparr> in
           case p of
             Granting origin g \<Rightarrow>
               (if accepted
                then settle Granted (s\<lparr>permissionGrants := AList.update origin (granted_at s origin @ [g]) (permissionGrants s)\<rparr>)
                else settle GrantRefused s)
           | Clearing gs \<Rightarrow>
               (if accepted then (let s' = forget gs s in regrant (permissionGrants s') [] s')
                else if closing s then settle (Outcome Superseded) s
                else settle (Outcome Unconfirmed) (failSession s))
           | Regranting origin rest failures \<Rightarrow>
               (if accepted then regrant rest failures s
                else regrant rest (failures @ [origin]) (s\<lparr>permissionGrants := AList.delete origin (permissionGrants s)\<rparr>)))
      | _ \<Rightarrow> s0)"

subsection \<open>The callers\<close>

definition request :: "nat \<Rightarrow> mutation \<Rightarrow> task \<Rightarrow> session \<Rightarrow> session" where
  "request n m t s = s\<lparr>mutations := mutations s @ [(n, m)], tasks := AList.update n t (tasks s)\<rparr>"

definition finish_task :: "nat \<Rightarrow> session \<Rightarrow> session" where
  "finish_task n s = s\<lparr>tasks := AList.delete n (tasks s)\<rparr>"

text \<open>\<open>grantDevicePermissionsForPage\<close>, whose URL parses to a protocol and an origin or does not parse.\<close>

fun page_groups :: "nat \<Rightarrow> string \<Rightarrow> permission_group list \<Rightarrow> session \<Rightarrow> session" where
  "page_groups n origin [] s = finish_task n s"
| "page_groups n origin (g # gs) s =
     (if closing s \<or> \<not> permissionGroupEnabled g (policy s) then finish_task n s
      else request n (EnsureGrant origin g) (PageGranting origin g gs) s)"

definition grantDevicePermissionsForPage :: "nat \<Rightarrow> (string \<times> string) option \<Rightarrow> session \<Rightarrow> session" where
  "grantDevicePermissionsForPage n url s =
     (if closing s then s
      else if enabledDeviceGroups (policy s) = [] then s
      else case url of
        None \<Rightarrow> s
      | Some (protocol, origin) \<Rightarrow>
          if protocol \<noteq> ''http:'' \<and> protocol \<noteq> ''https:'' then s
          else page_groups n origin (enabledDeviceGroups (policy s)) s)"

text \<open>\<open>reapplyCarriedPermissionGrants\<close>; the flag says that the loop enters the first of the origins.\<close>

function reapply :: "nat \<Rightarrow> bool \<Rightarrow> (string \<times> permission_group list) list \<Rightarrow> session \<Rightarrow> session" where
  "reapply n enters [] s = finish_task n s"
| "reapply n enters ((origin, []) # rest) s = (if enters \<and> closing s then finish_task n s else reapply n True rest s)"
| "reapply n enters ((origin, g # gs) # rest) s =
     (if enters \<and> closing s then finish_task n s
      else if \<not> permissionGroupEnabled g (policy s) then reapply n False ((origin, gs) # rest) s
      else request n (EnsureGrant origin g) (ReapplyGranting origin g gs rest) s)"
  by pat_completeness auto
termination
  by (relation "measure (\<lambda>(n, enters, carried, s). \<Sum>e\<leftarrow>carried. Suc (length (snd e)))") auto

text \<open>The grant of an approved clipboard operation; the checks of its permit and document can only refuse it.\<close>

definition clipboard_grant :: "nat \<Rightarrow> string \<Rightarrow> permission_group \<Rightarrow> session \<Rightarrow> session" where
  "clipboard_grant n origin g s =
     (if closing s \<or> \<not> modelClipboard (policy s) then s
      else request n (EnsureGrant origin g) ClipboardGranting s)"

text \<open>A save of the settings, as far as it concerns the permissions of the session.\<close>

definition updateConfig :: "nat \<Rightarrow> browser_policy \<Rightarrow> session \<Rightarrow> session" where
  "updateConfig n pol s0 =
     (let s = s0\<lparr>policy := pol\<rparr> in
      if revokedGroups pol = [] then s else request n (RevokeGrants (revokedGroups pol)) Saving s)"

text \<open>The wait of a save is bounded.\<close>

definition save_expires :: "session \<Rightarrow> session" where
  "save_expires s = (if closing s then s else failSession s)\<lparr>reports := reports s @ [InFlight]\<rparr>"

text \<open>A caller goes on with the result of its mutation.\<close>

definition report :: "revocation_outcome \<Rightarrow> session \<Rightarrow> session" where
  "report r s = s\<lparr>reports := reports s @ [r]\<rparr>"

fun resume :: "nat \<Rightarrow> task \<Rightarrow> settlement \<Rightarrow> session \<Rightarrow> session" where
  "resume n (PageGranting origin g gs) r s =
     (if r = GrantRefused then finish_task n (add_note (DeviceGrantFailed origin) s)
      else if \<not> permissionGroupEnabled g (policy s) then request n (RevokeGrants [g]) (PageRevoking origin) s
      else page_groups n origin gs s)"
| "resume n (PageRevoking origin) r s =
     finish_task n (if r = Outcome Unconfirmed then add_note (DeviceRevocationUnconfirmed origin) s else s)"
| "resume n (ReapplyGranting origin g gs rest) r s =
     (if r = GrantRefused then reapply n True rest (add_note (CarriedPartially origin g) s)
      else if \<not> permissionGroupEnabled g (policy s) then request n (RevokeGrants [g]) (ReapplyRevoking origin gs rest) s
      else reapply n False ((origin, gs) # rest) s)"
| "resume n (ReapplyRevoking origin gs rest) r s =
     (if r = Outcome Unconfirmed then finish_task n (add_note (CarriedRevocationUnconfirmed origin) s)
      else reapply n False ((origin, gs) # rest) s)"
| "resume n ClipboardGranting r s =
     (if r = GrantRefused \<or> modelClipboard (policy s) then finish_task n s
      else request n (RevokeGrants CLIPBOARD_PERMISSION_GROUPS) ClipboardRevoking s)"
| "resume n ClipboardRevoking r s =
     finish_task n (if r = Outcome Unconfirmed \<or> fatalError s then failSession s else s)"
| "resume n Saving r s = finish_task n (case r of Outcome out \<Rightarrow> report out s | _ \<Rightarrow> s)"

datatype session_event =
    Committed "(string \<times> string) option"
  | Replaced "(string \<times> permission_group list) list"
  | ClipboardApproved string bool
  | Saved browser_permissions approval_mode
  | SaveExpires nat
  | Abandoned nat
  | Starts
  | Answered bool
  | Resumes nat
  | Fails
  | Closes

definition new_task :: "(nat \<Rightarrow> session \<Rightarrow> session) \<Rightarrow> session \<Rightarrow> session" where
  "new_task f s = f (next_task s) (s\<lparr>next_task := Suc (next_task s)\<rparr>)"

fun session_step :: "session_event \<Rightarrow> session \<Rightarrow> session" where
  "session_step (Committed url) s = new_task (\<lambda>n. grantDevicePermissionsForPage n url) s"
| "session_step (Replaced carried) s = new_task (\<lambda>n. reapply n True carried) s"
| "session_step (ClipboardApproved origin reads) s =
     new_task (\<lambda>n. clipboard_grant n origin (if reads then ClipboardRead else ClipboardWrite)) s"
| "session_step (Saved p approval) s = new_task (\<lambda>n. updateConfig n (effectiveBrowserPolicy p approval)) s"
| "session_step (SaveExpires n) s = (if map_of (tasks s) n = Some Saving then finish_task n (save_expires s) else s)"
| "session_step (Abandoned n) s = (if map_of (tasks s) n = Some ClipboardGranting then finish_task n s else s)"
| "session_step Starts s = start_mutation s"
| "session_step (Answered accepted) s = browser_answers accepted s"
| "session_step (Resumes n) s =
     (case (map_of (tasks s) n, map_of (settled s) n) of
        (Some t, Some r) \<Rightarrow> resume n t r (s\<lparr>settled := AList.delete n (settled s)\<rparr>)
      | _ \<Rightarrow> s)"
| "session_step Fails s = failSession s"
| "session_step Closes s = s\<lparr>teardown := True\<rparr>"

end
