(* ===== verification/Browser_Permissions_Spec.thy ===== *)
theory Browser_Permissions_Spec
  imports Browser_Permissions
begin

text \<open>
  What the permissions of the managed browser promise: a group that the settings turn off is gone from
  every origin once the mutations that were requested are done, or the session is being closed; and what a
  revocation reports is what happened.

  The browser is a parameter.  \<open>documented_browser\<close> states what its documentation promises: an accepted
  grant replaces what one origin holds, an accepted clear leaves nothing, and a refused call adds nothing.
\<close>

type_synonym holdings = "string \<Rightarrow> string set"
type_synonym browser = "browser_call \<Rightarrow> bool \<Rightarrow> holdings \<Rightarrow> holdings"

definition held :: "browser \<Rightarrow> session \<Rightarrow> holdings" where
  "held b s = fold (\<lambda>(c, accepted). b c accepted) (calls s) (\<lambda>_. {})"

definition documented_browser :: "browser \<Rightarrow> bool" where
  "documented_browser b \<longleftrightarrow>
     (\<forall>ds origin h. b (GrantPermissions ds origin) True h origin \<subseteq> set ds)
     \<and> (\<forall>ds origin h other. other \<noteq> origin \<longrightarrow> b (GrantPermissions ds origin) True h other \<subseteq> h other)
     \<and> (\<forall>h other. b ClearPermissions True h other = {})
     \<and> (\<forall>c h other. b c False h other \<subseteq> h other)"

lemma documented_browserD:
  assumes "documented_browser b"
  shows "b (GrantPermissions ds origin) True h origin \<subseteq> set ds"
    and "other \<noteq> origin \<Longrightarrow> b (GrantPermissions ds origin) True h other \<subseteq> h other"
    and "b ClearPermissions True h other = {}" and "b c False h other \<subseteq> h other"
  using assms by (simp_all add: documented_browser_def)

text \<open>Whether a group may be held anywhere once the mutations of a queue have run.\<close>

fun may_hold :: "permission_group \<Rightarrow> bool \<Rightarrow> mutation list \<Rightarrow> bool" where
  "may_hold g now [] = now"
| "may_hold g now (EnsureGrant origin g' # q) = may_hold g (now \<or> g = g') q"
| "may_hold g now (RevokeGrants gs # q) = may_hold g (now \<and> g \<notin> set gs) q"

definition holds :: "session \<Rightarrow> permission_group \<Rightarrow> bool" where
  "holds s g \<longleftrightarrow> (\<exists>e \<in> set (permissionGrants s). g \<in> set (snd e))"

definition table_ok :: "browser \<Rightarrow> session \<Rightarrow> bool" where
  "table_ok b s \<longleftrightarrow>
     distinct (map fst (permissionGrants s)) \<and> (\<forall>origin. held b s origin \<subseteq> set (descriptors (granted_at s origin)))"

definition regrant_ok :: "browser \<Rightarrow> permission_group list \<Rightarrow> (string \<times> permission_group list) list \<Rightarrow> session \<Rightarrow> bool" where
  "regrant_ok b gs rest s \<longleftrightarrow>
     (\<forall>g \<in> set gs. \<not> holds s g) \<and> distinct (map fst rest)
     \<and> (\<forall>e \<in> set rest. held b s (fst e) = {} \<and> map_of (permissionGrants s) (fst e) = Some (snd e))"

definition progress_ok :: "browser \<Rightarrow> session \<Rightarrow> bool" where
  "progress_ok b s \<longleftrightarrow> (case running s of
       None \<Rightarrow> True
     | Some (Granting origin g) \<Rightarrow> (\<exists>n q. mutations s = (n, EnsureGrant origin g) # q)
         \<and> awaited s = Some (GrantPermissions (descriptors (granted_at s origin @ [g])) origin)
     | Some (Clearing gs) \<Rightarrow> (\<exists>n q. mutations s = (n, RevokeGrants gs) # q) \<and> awaited s = Some ClearPermissions
     | Some (Regranting origin rest failures) \<Rightarrow>
         (\<exists>n gs q. mutations s = (n, RevokeGrants gs) # q \<and> regrant_ok b gs ((origin, granted_at s origin) # rest) s)
         \<and> awaited s = Some (GrantPermissions (descriptors (granted_at s origin)) origin))"

definition policy_ok :: "session \<Rightarrow> bool" where
  "policy_ok s \<longleftrightarrow>
     closing s \<or> (\<forall>g. permissionGroupEnabled g (policy s) \<or> \<not> may_hold g (holds s g) (map snd (mutations s)))"

definition session_inv :: "browser \<Rightarrow> session \<Rightarrow> bool" where
  "session_inv b s \<longleftrightarrow> table_ok b s \<and> progress_ok b s \<and> policy_ok s"

inductive session_moves :: "session \<Rightarrow> session \<Rightarrow> bool" where
  move: "session_moves s (session_step ev s)"

inductive_cases session_movesE: "session_moves s t"

subsection \<open>The queue\<close>

lemma may_hold_mono: "may_hold g a q \<Longrightarrow> (a \<Longrightarrow> b) \<Longrightarrow> may_hold g b q"
proof (induction q arbitrary: a b)
  case (Cons m q)
  show ?case
  proof (cases m)
    case (EnsureGrant origin g')
    then show ?thesis using Cons.prems Cons.IH [of "a \<or> g = g'" "b \<or> g = g'"] by auto
  next
    case (RevokeGrants gs)
    then show ?thesis using Cons.prems Cons.IH [of "a \<and> g \<notin> set gs" "b \<and> g \<notin> set gs"] by auto
  qed
qed simp

lemma may_hold_append: "may_hold g now (q @ q') = may_hold g (may_hold g now q) q'"
proof (induction q arbitrary: now)
  case (Cons m q)
  then show ?case by (cases m) auto
qed simp

lemma revoked_iff [simp]: "g \<in> set (revokedGroups pol) \<longleftrightarrow> \<not> permissionGroupEnabled g pol"
  by (cases g) (auto simp: revokedGroups_def permissionGroupEnabled_def CLIPBOARD_PERMISSION_GROUPS_def DEVICE_PERMISSION_GROUPS_def)

lemma enabledDeviceGroups_enabled: "g \<in> set (enabledDeviceGroups pol) \<Longrightarrow> permissionGroupEnabled g pol"
  by (auto simp: enabledDeviceGroups_def permissionGroupEnabled_def DEVICE_PERMISSION_GROUPS_def split: if_splits)

lemma set_descriptors: "set (descriptors gs) = (\<Union>g \<in> set gs. set (BROWSER_PERMISSION_GROUP_GRANTS g))"
  by (simp add: descriptors_def)

lemma descriptor_of_one_group:
  "x \<in> set (BROWSER_PERMISSION_GROUP_GRANTS g) \<Longrightarrow> x \<in> set (BROWSER_PERMISSION_GROUP_GRANTS g') \<Longrightarrow> g = g'"
  by (cases g; cases g') auto

subsection \<open>Steps that leave the table and the running mutation alone\<close>

lemma held_simps [simp]:
  "held b (s\<lparr>tasks := x\<rparr>) = held b s" "held b (s\<lparr>settled := r\<rparr>) = held b s" "held b (s\<lparr>next_task := k\<rparr>) = held b s"
  "held b (s\<lparr>broker_notes := y\<rparr>) = held b s" "held b (s\<lparr>reports := z\<rparr>) = held b s" "held b (s\<lparr>mutations := q\<rparr>) = held b s"
  "held b (s\<lparr>policy := p\<rparr>) = held b s" "held b (s\<lparr>teardown := t\<rparr>) = held b s" "held b (s\<lparr>fatalError := t\<rparr>) = held b s"
  "held b (s\<lparr>running := u\<rparr>) = held b s" "held b (s\<lparr>awaited := v\<rparr>) = held b s" "held b (s\<lparr>permissionGrants := w\<rparr>) = held b s"
  by (simp_all add: held_def)

lemma granted_at_simps [simp]:
  "granted_at (s\<lparr>tasks := x\<rparr>) = granted_at s" "granted_at (s\<lparr>settled := r\<rparr>) = granted_at s"
  "granted_at (s\<lparr>next_task := k\<rparr>) = granted_at s" "granted_at (s\<lparr>broker_notes := y\<rparr>) = granted_at s"
  "granted_at (s\<lparr>reports := z\<rparr>) = granted_at s" "granted_at (s\<lparr>mutations := q\<rparr>) = granted_at s"
  "granted_at (s\<lparr>policy := p\<rparr>) = granted_at s" "granted_at (s\<lparr>teardown := t\<rparr>) = granted_at s"
  "granted_at (s\<lparr>fatalError := t\<rparr>) = granted_at s" "granted_at (s\<lparr>running := u\<rparr>) = granted_at s"
  "granted_at (s\<lparr>awaited := v\<rparr>) = granted_at s" "granted_at (s\<lparr>calls := c\<rparr>) = granted_at s"
  by (simp_all add: granted_at_def fun_eq_iff)

lemma inv_cong:
  assumes "policy t = policy s" "permissionGrants t = permissionGrants s" "mutations t = mutations s"
    "running t = running s" "awaited t = awaited s" "calls t = calls s" "closing t = closing s"
  shows "session_inv b t = session_inv b s"
proof -
  have "held b t = held b s" "granted_at t = granted_at s" "holds t = holds s"
    using assms by (simp_all add: held_def granted_at_def holds_def fun_eq_iff)
  then show ?thesis using assms
    by (simp add: session_inv_def table_ok_def progress_ok_def policy_ok_def regrant_ok_def split: option.splits progress.splits)
qed

lemma inv_idle_updates [simp]:
  "session_inv b (s\<lparr>tasks := x\<rparr>) = session_inv b s" "session_inv b (s\<lparr>settled := r\<rparr>) = session_inv b s"
  "session_inv b (s\<lparr>next_task := k\<rparr>) = session_inv b s" "session_inv b (s\<lparr>broker_notes := y\<rparr>) = session_inv b s"
  "session_inv b (s\<lparr>reports := z\<rparr>) = session_inv b s"
  by (rule inv_cong; simp add: closing_def)+

lemma idle_updates [simp]:
  "session_inv b (finish_task n s) = session_inv b s" "session_inv b (add_note x s) = session_inv b s"
  "session_inv b (report r s) = session_inv b s"
  by (simp_all add: finish_task_def add_note_def report_def)

lemma table_cong:
  "permissionGrants t = permissionGrants s \<Longrightarrow> calls t = calls s \<Longrightarrow> table_ok b t = table_ok b s"
  by (simp add: table_ok_def held_def granted_at_def)

lemma progress_append:
  assumes "permissionGrants t = permissionGrants s" "calls t = calls s" "running t = running s" "awaited t = awaited s"
    and "mutations t = mutations s @ q" and "progress_ok b s"
  shows "progress_ok b t"
proof -
  have "held b t = held b s" "granted_at t = granted_at s" "holds t = holds s"
    using assms by (simp_all add: held_def granted_at_def holds_def fun_eq_iff)
  then show ?thesis using assms
    by (auto simp: progress_ok_def regrant_ok_def split: option.splits progress.splits)
qed

lemma closes_inv:
  assumes "session_inv b s" "closing t" "permissionGrants t = permissionGrants s" "calls t = calls s"
    and "running t = running s" "awaited t = awaited s" "mutations t = mutations s"
  shows "session_inv b t"
  using assms table_cong [of t s b] progress_append [of t s "[]" b] by (simp add: session_inv_def policy_ok_def)

lemma fails_inv: "session_inv b s \<Longrightarrow> session_inv b (failSession s)"
  by (erule closes_inv) (simp_all add: failSession_def closing_def)

definition may_request :: "mutation \<Rightarrow> session \<Rightarrow> bool" where
  "may_request m s \<longleftrightarrow> (case m of EnsureGrant origin g \<Rightarrow> permissionGroupEnabled g (policy s) | RevokeGrants gs \<Rightarrow> True)"

lemma request_inv:
  assumes "session_inv b s" "may_request m s" shows "session_inv b (request n m t s)"
proof -
  have "progress_ok b (request n m t s)"
    by (rule progress_append [where s = s and q = "[(n, m)]"]) (use assms(1) in \<open>simp_all add: request_def session_inv_def\<close>)
  moreover have "policy_ok (request n m t s)" using assms
    by (auto simp: session_inv_def policy_ok_def request_def closing_def holds_def may_request_def may_hold_append split: mutation.splits)
  ultimately show ?thesis using assms(1) table_cong [of "request n m t s" s b] by (simp add: session_inv_def request_def)
qed

lemma save_inv:
  assumes "session_inv b s" shows "session_inv b (updateConfig n pol s)"
proof -
  let ?t = "updateConfig n pol s"
  have "progress_ok b ?t"
    by (rule progress_append [where s = s and q = "if revokedGroups pol = [] then [] else [(n, RevokeGrants (revokedGroups pol))]"])
      (use assms in \<open>simp_all add: request_def session_inv_def updateConfig_def Let_def\<close>)
  moreover have "permissionGroupEnabled g pol" if "revokedGroups pol = []" for g using revoked_iff [of g pol] that by simp
  then have "policy_ok ?t" by (simp add: updateConfig_def Let_def policy_ok_def request_def may_hold_append)
  moreover have "table_ok b ?t" using assms table_cong [of ?t s b] by (simp add: session_inv_def updateConfig_def Let_def request_def)
  ultimately show ?thesis by (simp add: session_inv_def)
qed

subsection \<open>The callers\<close>

lemma page_groups_inv: "session_inv b s \<Longrightarrow> session_inv b (page_groups n origin gs s)"
  by (cases gs) (auto intro!: request_inv simp: may_request_def)

lemma page_inv: "session_inv b s \<Longrightarrow> session_inv b (grantDevicePermissionsForPage n url s)"
  by (auto simp: grantDevicePermissionsForPage_def intro: page_groups_inv split: option.splits)

lemma reapply_inv: "session_inv b s \<Longrightarrow> session_inv b (reapply n enters carried s)"
  by (induction n enters carried s rule: reapply.induct) (auto intro!: request_inv simp: may_request_def)

lemma clipboard_inv: "g \<in> {ClipboardRead, ClipboardWrite} \<Longrightarrow> session_inv b s \<Longrightarrow> session_inv b (clipboard_grant n origin g s)"
  by (auto simp: clipboard_grant_def may_request_def permissionGroupEnabled_def intro!: request_inv)

lemma resume_inv: "session_inv b s \<Longrightarrow> session_inv b (resume n t r s)"
  by (cases t) (auto simp: may_request_def intro!: request_inv page_groups_inv reapply_inv fails_inv split: settlement.splits)

lemma expires_inv: "session_inv b s \<Longrightarrow> session_inv b (save_expires s)"
  by (simp add: save_expires_def fails_inv)

subsection \<open>Mutations\<close>

lemma settle_simps:
  "mutations s = (n, m) # q \<Longrightarrow> settle r s = s\<lparr>mutations := q, running := None, awaited := None, settled := settled s @ [(n, r)]\<rparr>"
  by (simp add: settle_def)

text \<open>A mutation may end when what its queue entry promised is true of the table.\<close>

lemma mutation_settle_inv:
  assumes "table_ok b s" "policy_ok s" "mutations s = (n, m) # q"
    and "\<And>g. may_hold g (holds s g) (map snd q) \<Longrightarrow> \<not> closing s \<Longrightarrow> may_hold g (holds s g) (m # map snd q)"
  shows "session_inv b (settle r s)"
proof -
  have "policy_ok (settle r s)" using assms(2-4)
    by (auto simp: policy_ok_def settle_simps closing_def holds_def)
  then show ?thesis using assms(1,3) table_cong [of "settle r s" s b]
    by (simp add: session_inv_def progress_ok_def settle_simps)
qed

lemma granted_at_delete [simp]:
  "granted_at (s\<lparr>permissionGrants := AList.delete origin (permissionGrants s)\<rparr>) other
    = (if other = origin then [] else granted_at s other)"
  by (simp add: granted_at_def delete_conv')

lemma table_delete:
  assumes "table_ok b s" "held b s origin = {}"
  shows "table_ok b (s\<lparr>permissionGrants := AList.delete origin (permissionGrants s)\<rparr>)"
  using assms by (simp add: table_ok_def AList.distinct_delete)

lemma holds_delete: "holds (s\<lparr>permissionGrants := AList.delete origin (permissionGrants s)\<rparr>) g \<Longrightarrow> holds s g"
  unfolding holds_def AList.delete_eq by force

lemma policy_mono:
  assumes "policy_ok s" "policy t = policy s" "mutations t = mutations s" "closing s \<Longrightarrow> closing t"
    and "\<And>g. holds t g \<Longrightarrow> holds s g"
  shows "policy_ok t"
  using assms may_hold_mono [of _ "holds t _" "map snd (mutations s)" "holds s _"] by (simp add: policy_ok_def) blast

lemma granted_at_entry: "map_of (permissionGrants s) origin = Some gs \<Longrightarrow> granted_at s origin = gs"
  by (simp add: granted_at_def)

lemma wait_inv:
  "table_ok b s \<Longrightarrow> policy_ok s \<Longrightarrow> progress_ok b (wait_for p c s) \<Longrightarrow> session_inv b (wait_for p c s)"
  using table_cong [of "wait_for p c s" s b]
  by (simp add: session_inv_def policy_ok_def wait_for_def holds_def closing_def)

lemma inv_parts: "session_inv b s \<Longrightarrow> table_ok b s" "session_inv b s \<Longrightarrow> policy_ok s" "session_inv b s \<Longrightarrow> progress_ok b s"
  by (simp_all add: session_inv_def)

lemma regrant_inv:
  assumes "table_ok b s" "policy_ok s" "mutations s = (n, RevokeGrants gs) # q" "regrant_ok b gs rest s"
  shows "session_inv b (regrant rest failures s)"
  using assms
proof (induction rest failures s rule: regrant.induct)
  case (1 failures s)
  let ?s = "if failures = [] then s else add_note (RegrantFailed failures) s"
  have h: "holds ?s = holds s" and ok: "table_ok b ?s" "policy_ok ?s" "mutations ?s = (n, RevokeGrants gs) # q"
    using 1 by (simp_all add: add_note_def table_ok_def policy_ok_def closing_def holds_def [abs_def])
  have "session_inv b (settle (Outcome (Revoked failures)) ?s)"
    by (rule mutation_settle_inv [OF ok], unfold h) (use "1.prems"(4) in \<open>auto simp: regrant_ok_def elim: may_hold_mono\<close>)
  then show ?case by simp
next
  case (2 origin granted rest failures s)
  let ?s = "s\<lparr>permissionGrants := AList.delete origin (permissionGrants s)\<rparr>"
  show ?case
  proof (cases "granted = []")
    case True
    have "table_ok b ?s" "policy_ok ?s" "regrant_ok b gs rest ?s"
      using "2.prems" holds_delete [where s = s and origin = origin]
      by (auto simp: regrant_ok_def delete_conv' intro: table_delete policy_mono [of s] simp: closing_def)
    then show ?thesis using True "2.IH" [OF True] "2.prems"(3) by simp
  next
    case False
    have "granted_at s origin = granted" using "2.prems"(4) by (simp add: regrant_ok_def granted_at_entry)
    then have "session_inv b (wait_for (Regranting origin rest failures) (GrantPermissions (descriptors granted) origin) s)"
      using "2.prems" by (intro wait_inv) (simp_all add: progress_ok_def wait_for_def regrant_ok_def holds_def)
    then show ?thesis using False by simp
  qed
qed

lemma holds_settle [simp]: "holds (settle r s) = holds s" "holds (add_note x s) = holds s" "holds (wait_for p c s) = holds s"
  by (simp_all add: settle_def add_note_def wait_for_def holds_def fun_eq_iff split: list.split)

lemma regrant_holds: "holds (regrant rest failures s) g \<Longrightarrow> holds s g"
  by (induction rest failures s rule: regrant.induct) (auto dest: holds_delete split: if_splits)


lemma granted_at_holds: "g \<in> set (granted_at s origin) \<Longrightarrow> holds s g"
  by (cases "map_of (permissionGrants s) origin") (force simp: granted_at_def holds_def dest: map_of_SomeD)+

lemma start_grant_inv:
  assumes "session_inv b s" "mutations s = (n, EnsureGrant origin g) # q" shows "session_inv b (start_grant origin g s)"
proof (cases "g \<in> set (granted_at s origin)")
  case True
  have "session_inv b (settle Granted s)"
    by (rule mutation_settle_inv [OF inv_parts(1,2) [OF assms(1)] assms(2)]) (simp add: may_hold_mono)
  then show ?thesis using True by (simp add: start_grant_def)
next
  case False
  have "session_inv b (wait_for (Granting origin g) (GrantPermissions (descriptors (granted_at s origin @ [g])) origin) s)"
    by (rule wait_inv [OF inv_parts(1,2) [OF assms(1)]]) (simp add: progress_ok_def wait_for_def assms(2))
  then show ?thesis using False by (simp add: start_grant_def)
qed

lemma holds_any:
  "list_ex (\<lambda>(origin, granted). list_ex (\<lambda>g. g \<in> set gs) granted) (permissionGrants s) \<longleftrightarrow> (\<exists>g \<in> set gs. holds s g)"
  by (auto simp: list_ex_iff holds_def split_beta)

lemma start_revocation_inv:
  assumes "session_inv b s" "mutations s = (n, RevokeGrants gs) # q" shows "session_inv b (start_revocation gs s)"
proof -
  have "session_inv b (settle r s)" if "(\<forall>g \<in> set gs. \<not> holds s g) \<or> closing s" for r
    by (rule mutation_settle_inv [OF inv_parts(1,2) [OF assms(1)] assms(2)]) (use that in \<open>auto elim: may_hold_mono\<close>)
  moreover have "session_inv b (wait_for (Clearing gs) ClearPermissions s)"
    by (rule wait_inv [OF inv_parts(1,2) [OF assms(1)]]) (simp add: progress_ok_def wait_for_def assms(2))
  ultimately show ?thesis by (simp add: start_revocation_def holds_any)
qed

lemma start_inv: "session_inv b s \<Longrightarrow> session_inv b (start_mutation s)"
  by (auto simp: start_mutation_def intro: start_grant_inv start_revocation_inv split: list.splits mutation.splits)

text \<open>The answer of the browser.\<close>

definition answered :: "browser_call \<Rightarrow> bool \<Rightarrow> session \<Rightarrow> session" where
  "answered c accepted s = s\<lparr>calls := calls s @ [(c, accepted)], awaited := None\<rparr>"

lemma answered_simps [simp]:
  "held b (answered c accepted s) = b c accepted (held b s)" "granted_at (answered c accepted s) = granted_at s"
  "holds (answered c accepted s) = holds s" "permissionGrants (answered c accepted s) = permissionGrants s"
  "mutations (answered c accepted s) = mutations s" "policy_ok (answered c accepted s) = policy_ok s"
  "closing (answered c accepted s) = closing s" "policy (answered c accepted s) = policy s"
  by (simp_all add: answered_def held_def granted_at_def holds_def policy_ok_def closing_def fun_eq_iff)

lemma table_subset:
  "table_ok b s \<Longrightarrow> (\<And>origin. held b t origin \<subseteq> held b s origin \<or> held b t origin \<subseteq> set (descriptors (granted_at t origin)))
    \<Longrightarrow> (\<And>origin. set (descriptors (granted_at s origin)) \<subseteq> set (descriptors (granted_at t origin)))
    \<Longrightarrow> distinct (map fst (permissionGrants t)) \<Longrightarrow> table_ok b t"
  unfolding table_ok_def by (meson order_trans)

lemma table_distinct: "table_ok b s \<Longrightarrow> distinct (map fst (permissionGrants s))"
  by (simp add: table_ok_def)

lemma table_refused:
  assumes "documented_browser b" "table_ok b s" shows "table_ok b (answered c False s)"
  by (rule table_subset [OF assms(2)]) (simp_all add: documented_browserD(4) [OF assms(1)] table_distinct [OF assms(2)])

lemma table_regranted:
  assumes "documented_browser b" "table_ok b s"
  shows "table_ok b (answered (GrantPermissions (descriptors (granted_at s origin)) origin) True s)" (is "table_ok b ?t")
proof (rule table_subset [OF assms(2)])
  show "held b ?t other \<subseteq> held b s other \<or> held b ?t other \<subseteq> set (descriptors (granted_at ?t other))" for other
    using documented_browserD(1,2) [OF assms(1)] by (cases "other = origin") simp_all
qed (simp_all add: table_distinct [OF assms(2)])

lemma granted_at_update [simp]:
  "granted_at (s\<lparr>permissionGrants := AList.update origin gs (permissionGrants s)\<rparr>) other = (if other = origin then gs else granted_at s other)"
  by (simp add: granted_at_def update_conv')

lemma table_granted:
  assumes "documented_browser b" "table_ok b s"
  shows "table_ok b ((answered (GrantPermissions (descriptors (granted_at s origin @ gs)) origin) True s)
           \<lparr>permissionGrants := AList.update origin (granted_at s origin @ gs) (permissionGrants s)\<rparr>)"
    (is "table_ok b (?a\<lparr>permissionGrants := _\<rparr>)")
proof -
  let ?t = "?a\<lparr>permissionGrants := AList.update origin (granted_at s origin @ gs) (permissionGrants ?a)\<rparr>"
  have g: "granted_at ?t other = (if other = origin then granted_at s origin @ gs else granted_at s other)" for other
    by (simp del: answered_simps(4))
  have d: "distinct (map fst (permissionGrants ?a))" using table_distinct [OF assms(2)] by simp
  have "table_ok b ?t"
  proof (rule table_subset [OF assms(2)])
    show "held b ?t other \<subseteq> held b s other \<or> held b ?t other \<subseteq> set (descriptors (granted_at ?t other))" for other
      using documented_browserD(1,2) [OF assms(1)] unfolding g by (cases "other = origin") simp_all
  qed (use d in \<open>auto simp: g set_descriptors AList.distinct_update simp del: answered_simps(4)\<close>)
  then show ?thesis by simp
qed

lemma forget_simps [simp]:
  "held b (forget gs s) = held b s" "mutations (forget gs s) = mutations s" "closing (forget gs s) = closing s"
  "map fst (permissionGrants (forget gs s)) = map fst (permissionGrants s)" "policy (forget gs s) = policy s"
  by (simp_all add: forget_def closing_def split_beta comp_def)

lemma holds_forget: "holds (forget gs s) g \<longleftrightarrow> holds s g \<and> g \<notin> set gs"
  by (auto simp: holds_def forget_def split_beta)

lemma clear_regrant_ok:
  assumes "documented_browser b" "table_ok b s"
  shows "regrant_ok b gs (permissionGrants (forget gs (answered ClearPermissions True s))) (forget gs (answered ClearPermissions True s))"
proof -
  have "distinct (map fst (permissionGrants (forget gs (answered ClearPermissions True s))))"
    using assms(2) by (simp add: table_ok_def)
  then show ?thesis using documented_browserD(3) [OF assms(1)] by (simp add: regrant_ok_def holds_forget)
qed

lemma forget_parts:
  assumes "documented_browser b" "table_ok b s" "policy_ok s"
  shows "table_ok b (forget gs (answered ClearPermissions True s))" "policy_ok (forget gs (answered ClearPermissions True s))"
proof -
  let ?t = "forget gs (answered ClearPermissions True s)"
  have "distinct (map fst (permissionGrants ?t))" using assms(2) by (simp add: table_ok_def)
  then show "table_ok b ?t" using documented_browserD(3) [OF assms(1)] by (simp add: table_ok_def)
  show "policy_ok ?t"
    by (rule policy_mono [OF assms(3)]) (simp_all add: holds_forget)
qed

lemma clearing_inv:
  assumes "documented_browser b" "session_inv b s" "mutations s = (n, RevokeGrants gs) # q"
    and "a = answered ClearPermissions accepted s"
  shows "session_inv b (if accepted then (let s' = forget gs a in regrant (permissionGrants s') [] s')
            else if closing a then settle (Outcome Superseded) a else settle (Outcome Unconfirmed) (failSession a))"
proof (cases accepted)
  case True
  then show ?thesis using regrant_inv [OF forget_parts [OF assms(1) inv_parts(1,2) [OF assms(2)], of gs], of n gs q] assms
      clear_regrant_ok [OF assms(1) inv_parts(1) [OF assms(2)]]
    by (simp add: Let_def)
next
  case False
  have t: "table_ok b a" using table_refused [OF assms(1) inv_parts(1) [OF assms(2)]] False assms(4) by simp
  have p: "policy_ok a" using inv_parts(2) [OF assms(2)] assms(4) by simp
  have f: "table_ok b (failSession a)" "policy_ok (failSession a)" "closing (failSession a)" "mutations (failSession a) = mutations a"
    using t table_cong [of "failSession a" a b] by (simp_all add: failSession_def policy_ok_def closing_def)
  show ?thesis
  proof (cases "closing a")
    case True
    then show ?thesis using False assms(3,4) mutation_settle_inv [OF t p] by simp
  next
    case False
    then show ?thesis using \<open>\<not> accepted\<close> assms(3,4) mutation_settle_inv [OF f(1,2)] f(3,4) by simp
  qed
qed

lemma update_entries: "set (AList.update k v al) \<subseteq> insert (k, v) (set al)"
  by (induction al) auto

lemma holds_update:
  "holds (s\<lparr>permissionGrants := AList.update origin gs (permissionGrants s)\<rparr>) g \<Longrightarrow> holds s g \<or> g \<in> set gs"
  using update_entries [of origin gs "permissionGrants s"] by (fastforce simp: holds_def)

lemma granting_inv:
  assumes "documented_browser b" "session_inv b s" "mutations s = (n, EnsureGrant origin g) # q"
    and "a = answered (GrantPermissions (descriptors (granted_at s origin @ [g])) origin) accepted s"
  shows "session_inv b (if accepted
           then settle Granted (a\<lparr>permissionGrants := AList.update origin (granted_at a origin @ [g]) (permissionGrants a)\<rparr>)
           else settle GrantRefused a)"
proof (cases accepted)
  case True
  let ?t = "a\<lparr>permissionGrants := AList.update origin (granted_at a origin @ [g]) (permissionGrants a)\<rparr>"
  have t: "table_ok b ?t" using table_granted [OF assms(1) inv_parts(1) [OF assms(2)], of origin "[g]"] True assms(4) by simp
  have h: "holds ?t g' \<Longrightarrow> holds s g' \<or> g' = g" for g'
    using holds_update [of origin "granted_at a origin @ [g]" a g'] assms(4) by (auto dest: granted_at_holds simp del: answered_simps(4))
  have "may_hold g' (holds ?t g') (map snd q) \<Longrightarrow> may_hold g' (holds s g') (EnsureGrant origin g # map snd q)" for g'
    using h [of g'] by (auto elim: may_hold_mono)
  then have "policy_ok (settle Granted ?t)" using inv_parts(2) [OF assms(2)] assms(3,4)
    by (auto simp: policy_ok_def settle_simps closing_def answered_def holds_def)
  then have "session_inv b (settle Granted ?t)"
    using t table_cong [of "settle Granted ?t" ?t b] assms(3,4) by (simp add: session_inv_def progress_ok_def settle_simps)
  then show ?thesis using True by simp
next
  case False
  have "session_inv b (settle GrantRefused a)"
    by (rule mutation_settle_inv [where s = a]) (use table_refused [OF assms(1)] inv_parts [OF assms(2)] assms(3,4) False in \<open>auto elim: may_hold_mono\<close>)
  then show ?thesis using False by simp
qed

lemma regranting_inv:
  assumes "documented_browser b" "session_inv b s" "mutations s = (n, RevokeGrants gs) # q"
    and "regrant_ok b gs ((origin, granted_at s origin) # rest) s"
    and "a = answered (GrantPermissions (descriptors (granted_at s origin)) origin) accepted s"
  shows "session_inv b (if accepted then regrant rest failures a
           else regrant rest (failures @ [origin]) (a\<lparr>permissionGrants := AList.delete origin (permissionGrants a)\<rparr>))"
proof (cases accepted)
  case True
  have "held b a (fst e) = {}" if e: "e \<in> set rest" for e
  proof -
    have "fst e \<noteq> origin" "held b s (fst e) = {}" using assms(4) e by (auto simp: regrant_ok_def)
    then show ?thesis
      using documented_browserD(2) [OF assms(1), of "fst e" origin "descriptors (granted_at s origin)" "held b s"] assms(5) True
      by simp
  qed
  then have "regrant_ok b gs rest a" using assms(4,5) by (simp add: regrant_ok_def)
  then have "session_inv b (regrant rest failures a)"
    using table_regranted [OF assms(1) inv_parts(1) [OF assms(2)], of origin] inv_parts(2) [OF assms(2)] assms(3,5) True
    by (intro regrant_inv [where n = n and gs = gs and q = q]) simp_all
  then show ?thesis using True by simp
next
  case False
  let ?t = "a\<lparr>permissionGrants := AList.delete origin (permissionGrants a)\<rparr>"
  have e: "held b a other = {}" if "held b s other = {}" for other
    
    using documented_browserD(4) [OF assms(1), of _ "held b s" other] that assms(5) False by simp
  have "table_ok b ?t" using table_refused [OF assms(1) inv_parts(1) [OF assms(2)]] assms(4,5) False e
    by (intro table_delete) (simp_all add: regrant_ok_def)
  moreover have "policy_ok ?t"
    by (rule policy_mono [of a]) (use inv_parts(2) [OF assms(2)] assms(5) holds_delete [of origin a] in \<open>auto simp: closing_def\<close>)
  moreover have "regrant_ok b gs rest ?t" using assms(4) e holds_delete [of origin a] assms(5)
    by (auto simp: regrant_ok_def delete_conv')
  ultimately have "session_inv b (regrant rest (failures @ [origin]) ?t)"
    using assms(3,5) by (intro regrant_inv [where n = n and gs = gs and q = q]) simp_all
  then show ?thesis using False by simp
qed

lemma answers_inv:
  assumes "documented_browser b" "session_inv b s" shows "session_inv b (browser_answers accepted s)"
proof (cases "running s")
  case (Some p)
  then obtain c where c: "awaited s = Some c" using inv_parts(3) [OF assms(2)] by (auto simp: progress_ok_def split: progress.splits)
  show ?thesis
  proof (cases p)
    case (Granting origin g)
    then obtain n q where m: "mutations s = (n, EnsureGrant origin g) # q"
      and a: "awaited s = Some (GrantPermissions (descriptors (granted_at s origin @ [g])) origin)"
      using Some inv_parts(3) [OF assms(2)] by (auto simp: progress_ok_def)
    show ?thesis using granting_inv [OF assms m refl] unfolding browser_answers_def
      by (simp only: Some Granting a answered_def option.case progress.case prod.case Let_def)
  next
    case (Clearing gs)
    then obtain n q where m: "mutations s = (n, RevokeGrants gs) # q" and a: "awaited s = Some ClearPermissions"
      using Some inv_parts(3) [OF assms(2)] by (auto simp: progress_ok_def)
    show ?thesis using clearing_inv [OF assms m refl] unfolding browser_answers_def
      by (simp only: Some Clearing a answered_def option.case progress.case prod.case Let_def)
  next
    case (Regranting origin rest failures)
    then obtain n gs q where m: "mutations s = (n, RevokeGrants gs) # q"
      and r: "regrant_ok b gs ((origin, granted_at s origin) # rest) s"
      and a: "awaited s = Some (GrantPermissions (descriptors (granted_at s origin)) origin)"
      using Some inv_parts(3) [OF assms(2)] by (auto simp: progress_ok_def)
    show ?thesis using regranting_inv [OF assms m r refl] unfolding browser_answers_def
      by (simp only: Some Regranting a answered_def option.case progress.case prod.case Let_def)
  qed
qed (simp add: browser_answers_def assms(2))


lemma step_inv: "documented_browser b \<Longrightarrow> session_inv b s \<Longrightarrow> session_inv b (session_step ev s)"
  by (cases ev)
    (auto simp: new_task_def closing_def intro!: page_inv reapply_inv clipboard_inv save_inv expires_inv start_inv answers_inv resume_inv fails_inv
      intro: closes_inv split: option.splits)

lemma new_session_inv: "session_inv b (new_session pol)"
  by (simp add: session_inv_def table_ok_def progress_ok_def policy_ok_def new_session_def held_def holds_def)

interpretation granted: guarded_system "\<lambda>s. \<exists>pol. s = new_session pol" session_moves "\<lambda>s. documented_browser b \<longrightarrow> session_inv b s" for b
  by unfold_locales (auto simp: new_session_inv elim!: session_movesE intro: step_inv)

lemma session_run: "session_moves\<^sup>*\<^sup>* s (fold session_step evs s)"
  by (induction evs arbitrary: s) (auto intro: converse_rtranclp_into_rtranclp session_moves.intros)

subsection \<open>What a settlement says\<close>

definition says_truth :: "browser \<Rightarrow> permission_group list \<Rightarrow> revocation_outcome \<Rightarrow> session \<Rightarrow> bool" where
  "says_truth b gs r s \<longleftrightarrow>
     (if r = Superseded \<or> r = Unconfirmed then closing s else \<forall>origin. set (descriptors gs) \<inter> held b s origin = {})"

lemma nothing_held:
  assumes "table_ok b s" "\<And>g. g \<in> set gs \<Longrightarrow> \<not> holds s g" shows "set (descriptors gs) \<inter> held b s origin = {}"
proof -
  have "set (descriptors gs) \<inter> set (descriptors (granted_at s origin)) = {}"
    using assms(2) by (auto simp: set_descriptors dest: granted_at_holds descriptor_of_one_group)
  then show ?thesis using assms(1) by (auto simp: table_ok_def)
qed

lemma regrant_settled:
  "mutations s = (n, m) # q \<Longrightarrow>
     settled (regrant rest failures s) = settled s \<or> (\<exists>fs. settled (regrant rest failures s) = settled s @ [(n, Outcome (Revoked fs))])"
  by (induction rest failures s rule: regrant.induct) (auto simp: settle_def add_note_def wait_for_def)

lemma regrant_truth:
  assumes "mutations s = (n, m) # q" "settled (regrant rest failures s) = settled s @ [(n, Outcome r)]"
    and "\<And>g. g \<in> set gs \<Longrightarrow> \<not> holds s g" "table_ok b (regrant rest failures s)"
  shows "says_truth b gs r (regrant rest failures s)"
proof -
  have "\<exists>fs. r = Revoked fs" using regrant_settled [OF assms(1), of rest failures] assms(2) by auto
  moreover have "set (descriptors gs) \<inter> held b (regrant rest failures s) origin = {}" for origin
    by (rule nothing_held [OF assms(4)]) (use assms(3) regrant_holds in blast)
  ultimately show ?thesis by (auto simp: says_truth_def)
qed

lemma start_truth:
  assumes "session_inv b s" "mutations s = (n, RevokeGrants gs) # q" "settled (start_mutation s) = settled s @ [(n, Outcome r)]"
  shows "says_truth b gs r (start_mutation s)"
proof -
  have idle: "running s = None" using assms(3) by (auto simp: start_mutation_def split: if_splits)
  have "set (descriptors gs) \<inter> held b (settle (Outcome r) s) origin = {}" if "\<forall>g \<in> set gs. \<not> holds s g" for origin
    using that assms(2) nothing_held [OF inv_parts(1) [OF assms(1)], of gs origin] by (simp add: settle_simps)
  then show ?thesis using assms(2,3) idle
    by (auto simp: start_mutation_def start_revocation_def holds_any says_truth_def settle_simps wait_for_def closing_def split: if_splits)
qed

lemma answer_truth:
  assumes "documented_browser b" "session_inv b s" "mutations s = (n, RevokeGrants gs) # q"
    and "settled (browser_answers accepted s) = settled s @ [(n, Outcome r)]"
  shows "says_truth b gs r (browser_answers accepted s)"
proof (cases "running s")
  case None
  then show ?thesis using assms(4) by (simp add: browser_answers_def)
next
  case (Some p)
  have t: "table_ok b (browser_answers accepted s)" by (rule inv_parts(1) [OF answers_inv [OF assms(1,2)]])
  show ?thesis
  proof (cases p)
    case (Granting origin g)
    then show ?thesis using inv_parts(3) [OF assms(2)] Some assms(3) by (auto simp: progress_ok_def)
  next
    case (Clearing gs')
    then have g: "gs' = gs" and a: "awaited s = Some ClearPermissions"
      using inv_parts(3) [OF assms(2)] Some assms(3) by (auto simp: progress_ok_def)
    let ?a = "answered ClearPermissions accepted s"
    have e: "browser_answers accepted s =
        (if accepted then regrant (permissionGrants (forget gs ?a)) [] (forget gs ?a)
         else if closing s then settle (Outcome Superseded) ?a else settle (Outcome Unconfirmed) (failSession ?a))"
      using Some Clearing a g by (simp add: browser_answers_def Let_def closing_def answered_def forget_def)
    show ?thesis
    proof (cases accepted)
      case True
      then have s: "settled (regrant (permissionGrants (forget gs ?a)) [] (forget gs ?a)) = settled (forget gs ?a) @ [(n, Outcome r)]"
        using assms(4) e by (simp add: forget_def answered_def)
      have "says_truth b gs r (regrant (permissionGrants (forget gs ?a)) [] (forget gs ?a))"
        by (rule regrant_truth [OF _ s]) (use t e True assms(3) in \<open>simp_all add: holds_forget\<close>)
      then show ?thesis using True e by simp
    next
      case False
      then show ?thesis using e assms(3,4)
        by (cases "closing s") (auto simp: says_truth_def settle_def closing_def failSession_def answered_def)
    qed
  next
    case (Regranting origin rest failures)
    then have ok: "regrant_ok b gs ((origin, granted_at s origin) # rest) s"
      and a: "awaited s = Some (GrantPermissions (descriptors (granted_at s origin)) origin)"
      using inv_parts(3) [OF assms(2)] Some assms(3) by (auto simp: progress_ok_def)
    let ?a = "answered (GrantPermissions (descriptors (granted_at s origin)) origin) accepted s"
    let ?d = "?a\<lparr>permissionGrants := AList.delete origin (permissionGrants ?a)\<rparr>"
    have e: "browser_answers accepted s = (if accepted then regrant rest failures ?a else regrant rest (failures @ [origin]) ?d)"
      using Some Regranting a by (simp add: browser_answers_def Let_def answered_def)
    have none: "\<not> holds s g" "\<not> holds ?d g" if "g \<in> set gs" for g
      using ok that holds_delete [of origin ?a g] by (auto simp: regrant_ok_def)
    have l: "settled ?a = settled s" "settled ?d = settled s" "mutations ?d = (n, RevokeGrants gs) # q" "mutations ?a = (n, RevokeGrants gs) # q"
      using assms(3) by (simp_all add: answered_def)
    show ?thesis
    proof (cases accepted)
      case True
      have "says_truth b gs r (regrant rest failures ?a)"
        by (rule regrant_truth [OF l(4)]) (use t e True assms(4) l none in simp_all)
      then show ?thesis using True e by simp
    next
      case False
      have "says_truth b gs r (regrant rest (failures @ [origin]) ?d)"
        by (rule regrant_truth [OF l(3)]) (use t e False assms(4) l none in simp_all)
      then show ?thesis using False e by simp
    qed
  qed
qed

subsection \<open>Properties\<close>

definition exact_browser :: browser where
  "exact_browser c accepted h =
     (if \<not> accepted then h else case c of GrantPermissions ds origin \<Rightarrow> h(origin := set ds) | ClearPermissions \<Rightarrow> \<lambda>_. {})"

lemma exact_browser_documented: "documented_browser exact_browser"
  by (simp add: documented_browser_def exact_browser_def)

definition only :: "bool \<Rightarrow> browser_permissions" where
  "only camera = \<lparr>may_yolo = False, may_credentialEntry = False, may_credentialSubmission = False, may_uploads = False,
     may_downloadSaving = False, may_clipboard = False, may_camera = camera, may_microphone = False, may_geolocation = False,
     may_serviceWorkers = False, may_popupRestrictionOverride = False, may_localNetworks = False\<rparr>"

text \<open>A page gets the camera, and the settings take it away.\<close>

definition camera_run :: "session_event list" where
  "camera_run =
     [Saved (only True) Ask, Starts, Resumes 0, Committed (Some (''https:'', ''o'')), Starts, Answered True, Resumes 1,
      Saved (only False) Ask, Starts]"

definition after_camera :: session where
  "after_camera = fold session_step camera_run (new_session (effectiveBrowserPolicy (only False) Ask))"

text \<open>
  C11. When no mutation is left and the session is not being closed, the browser holds for no origin a
  permission that the present settings turn off: whatever pages load, approved clipboard operations,
  replacements and saves overlap, whatever calls the browser refuses, and whatever waits are given up.
\<close>

theorem revoked_groups_are_gone:
  assumes "documented_browser b" "session_moves\<^sup>*\<^sup>* (new_session pol) s" "mutations s = []" "\<not> closing s"
    and "permission \<in> held b s origin"
  shows "\<exists>g. permissionGroupEnabled g (policy s) \<and> permission \<in> set (BROWSER_PERMISSION_GROUP_GRANTS g)"
proof -
  have inv: "session_inv b s" using granted.reachable_inv [OF exI [of _ pol, OF refl] assms(2)] assms(1) by blast
  obtain g where g: "g \<in> set (granted_at s origin)" "permission \<in> set (BROWSER_PERMISSION_GROUP_GRANTS g)"
    using inv_parts(1) [OF inv] assms(5) by (auto simp: table_ok_def set_descriptors)
  have "permissionGroupEnabled g (policy s)"
    using inv_parts(2) [OF inv] assms(3,4) granted_at_holds [OF g(1)] by (auto simp: policy_ok_def)
  then show ?thesis using g(2) by blast
qed

lemma revoked_groups_are_gone_witness:
  "''camera'' \<in> held exact_browser after_camera ''o''
   \<and> (''camera'' \<notin> held exact_browser (session_step (Answered True) after_camera) ''o'')"
proof -
  let ?s = "session_step (Answered True) after_camera"
  have m: "mutations ?s = []" "\<not> closing ?s" unfolding after_camera_def camera_run_def only_def by code_simp+
  have c: "calls after_camera = [(GrantPermissions [''camera''] ''o'', True)]"
    unfolding after_camera_def camera_run_def only_def by code_simp
  have off: "policy ?s = effectiveBrowserPolicy (only False) Ask" unfolding after_camera_def camera_run_def only_def by code_simp
  have reach: "session_moves\<^sup>*\<^sup>* (new_session (effectiveBrowserPolicy (only False) Ask)) ?s"
    using session_run [of _ "camera_run @ [Answered True]"] by (simp add: after_camera_def)
  have none: "\<not> permissionGroupEnabled g (policy ?s)" for g 
    unfolding off by (cases g) (simp_all add: permissionGroupEnabled_def effectiveBrowserPolicy_def Let_def only_def DEVICE_PERMISSION_GROUPS_def)
  have "''camera'' \<notin> held exact_browser ?s ''o''"
    using revoked_groups_are_gone [OF exact_browser_documented reach m] none by blast
  then show ?thesis using c by (simp add: held_def exact_browser_def)
qed

text \<open>
  C29. What a revocation is reported to have done is what happened: if it is neither superseded nor
  unconfirmed, no origin holds a permission of the revoked groups at that moment; otherwise the session is
  being closed.
\<close>

theorem revocation_reported_truthfully:
  assumes "documented_browser b" "session_moves\<^sup>*\<^sup>* (new_session pol) s" "mutations s = (n, RevokeGrants gs) # q"
    and "ev \<in> {Starts, Answered accepted}" "settled (session_step ev s) = settled s @ [(n, Outcome r)]"
  shows "if r = Superseded \<or> r = Unconfirmed then closing (session_step ev s)
         else \<forall>origin. set (descriptors gs) \<inter> held b (session_step ev s) origin = {}"
proof -
  have inv: "session_inv b s" using granted.reachable_inv [OF exI [of _ pol, OF refl] assms(2)] assms(1) by blast
  then have "says_truth b gs r (session_step ev s)"
    using assms(4,5) start_truth [OF inv assms(3)] answer_truth [OF assms(1) inv assms(3)] by auto
  then show ?thesis by (simp add: says_truth_def)
qed

lemma revocation_reported_truthfully_witness:
  "settled (session_step (Answered True) after_camera) = [(2, Outcome (Revoked []))]
   \<and> set (descriptors (revokedGroups (effectiveBrowserPolicy (only False) Ask)))
       \<inter> held exact_browser (session_step (Answered True) after_camera) ''o'' = {}"
proof -
  let ?gs = "revokedGroups (effectiveBrowserPolicy (only False) Ask)"
  have m: "mutations after_camera = (2, RevokeGrants ?gs) # []" unfolding after_camera_def camera_run_def only_def by code_simp
  have r: "settled (session_step (Answered True) after_camera) = [(2, Outcome (Revoked []))]"
    unfolding after_camera_def camera_run_def only_def by code_simp
  have e: "settled after_camera = []" unfolding after_camera_def camera_run_def only_def by code_simp
  have reach: "session_moves\<^sup>*\<^sup>* (new_session (effectiveBrowserPolicy (only False) Ask)) after_camera"
    unfolding after_camera_def by (rule session_run)
  show ?thesis
    using revocation_reported_truthfully [OF exact_browser_documented reach m, of "Answered True" True "Revoked []"] r e by simp
qed

end
