(* ===== verification/Spec2Isabelle.thy ===== *)
theory Spec2Isabelle
  imports Web_Ip_Blocks Patch_Roundtrip Patch_Envelope_Roundtrip Review_State_Spec Durable_Delivery_Spec Jsonl_Spec Evidence_Reads_Spec Task_State_Spec Scheduler_Spec Executor_Pool_Spec Source_Lease_Spec Scheduled_Dispatch_Spec
    Review_Gate_Spec Tool_Decision_Spec Pending_Questions_Spec Terminal_Spec Web_Cache_Spec Browser_Permissions_Spec
begin

text \<open>
  A model of the core logic of pi-review-gate, an extension of the pi coding agent that reviews the
  changes of every agent turn before they count as done, delegates work to background workers, and hosts
  agent sessions in one terminal.  The definitions are translated from the TypeScript under
  \<open>src/src/\<close>; this theory imports all the others and holds no definitions of its own.

  The parts of the program, the files they live in, and the theories that model them.

  \<^item> The shared vocabulary is \<open>Prelude\<close>: the JavaScript library functions the program uses on strings and
    arrays, decimal numbers, and the locales \<open>guarded_system\<close> (an invariant that every step keeps) and
    \<open>refined_system\<close> (a simulation of an abstract machine), which every state machine below interprets.
    \<open>Json\<close> has the values of \<open>JSON.parse\<close>.
  \<^item> ApplyPatch, the tool that edits files.  \<open>Patch_Engine\<close> is \<open>apply-patch/engine.ts\<close>: a headerless V4A
    diff is parsed into chunks against the input and the chunks are applied.  \<open>Patch_Envelope\<close> is
    \<open>apply-patch/envelope.ts\<close>: the envelope of several file operations.  \<open>Unified_Diff\<close> is \<open>diff.ts\<close>: the
    line diff and unified patch the reviewers see.
  \<^item> Web access.  \<open>Web_Ip\<close> is \<open>web/ip.ts\<close>, the decision which addresses a fetch may reach; \<open>Web_Cache\<close> is
    the page cache of \<open>web/cache.ts\<close>; \<open>Browser_Permissions\<close> is \<open>web/browser-permissions.ts\<close> with
    \<open>web/browser-capabilities.ts\<close>, the permissions that pages in the managed browser are granted.
  \<^item> The review gate.  \<open>Review_State\<close> and \<open>Review_Feedback\<close> are \<open>state.ts\<close>: the review window, the
    exchanges in it, its baselines, the reviewer questions and the feedback.  \<open>Reviewer_Adapters\<close> is what
    each of the four adapters under \<open>adapters/\<close> makes of an ended reviewer process; \<open>Review_Verdict\<close> is
    \<open>schema.ts\<close>, from a reply to a verdict; \<open>Review_Outcome\<close> and \<open>Review_Gate\<close> are \<open>review.ts\<close> and
    \<open>review-report.ts\<close>: whether to review, the invocation of the reviewers, and the decision.
    \<open>Durable_Delivery\<close> is \<open>durable-delivery.ts\<close> with \<open>activation/pending-delivery.ts\<close>: how the outcome
    reaches the model across failures and restarts.
  \<^item> Delegated execution.  \<open>Executor_Pool\<close> (\<open>execution/executor-pool.ts\<close>) hands out executor slots,
    \<open>Source_Lease\<close> (\<open>execution/source-mutation-lease.ts\<close>) serialises the writers of a source tree,
    \<open>Task_State\<close> (\<open>execution/task-state.ts\<close>) keeps the life of a task,
    \<open>Evidence_Cursor\<close> and \<open>Evidence_Navigation\<close> (\<open>execution/evidence/\<close>) read the evidence of a task,
    \<open>Jsonl\<close> (\<open>jsonl.ts\<close>) decodes the streams of the workers.
  \<^item> Scheduling.  \<open>Cron\<close> (\<open>scheduling/cron.ts\<close>), \<open>Scheduler\<close> (\<open>dispatcher.ts\<close>, \<open>runtime.ts\<close>,
    \<open>one-shot.ts\<close>), \<open>Scheduled_Dispatch\<close> (\<open>dispatch.ts\<close>) and \<open>Orchestrator_Turn\<close>
    (\<open>orchestrator-turn.ts\<close>): when an entry is due, where it goes, and when its turn counts.
  \<^item> The user.  \<open>Tool_Decision\<close> (\<open>tool-protection/decision.ts\<close>) reads the verdict on a tool call;
    \<open>Pending_Questions\<close> (\<open>user-question/controller.ts\<close>) keeps what waits for the user;
    \<open>Terminal_Input\<close>, \<open>Terminal_Output\<close> and \<open>Keyboard_Observer\<close> (\<open>session-host/input.ts\<close>) translate what
    is typed for the session that has the focus.

  State is a record with the fields of the class it models and every method is a function on it; a
  method that awaits is cut at its awaits, and the order of the pieces is the order of events in a
  sequence or a step relation.  Errors are values: an \<open>option\<close>, a sum, or a datatype with a constructor
  for each message.  Promises are numbers, with a log of the settled ones.  Object identities are numbers.

  What the lemmas show, in the theories named \<open>_Spec\<close>, \<open>_Roundtrip\<close> and \<open>_Blocks\<close> beside each model.

  \<^item> Patches: a successful application replaces exactly the deleted lines (\<open>Patch_Engine_Spec\<close>); the diff
    spells both files and keeps a longest common subsequence (\<open>Unified_Diff_Spec\<close>); the two dialects
    agree (\<open>Patch_Roundtrip\<close>); printed envelopes parse back (\<open>Patch_Envelope_Roundtrip\<close>).
  \<^item> The gate: a pass is earned by a reviewer whose process ended cleanly and whose own words are valid
    JSON without blocking findings, which joins \<open>Reviewer_Adapters\<close>, \<open>Review_Verdict\<close> and
    \<open>Review_Outcome\<close> through the locale \<open>reviewer_adapter\<close>, interpreted for each adapter; work is left
    unreviewed only when there is none; corrections are reviewed again (\<open>Review_Gate_Spec\<close>).
  \<^item> State machines: invariants by rule induction over all sequences of events, and for the delivery a
    refinement of an append-only log (\<open>Durable_Delivery_Spec\<close>); mutual exclusion and progress of the
    leases and the pool; a scheduled minute is sampled once and an entry launched once; a cache within its
    limits (\<open>Web_Cache_Spec\<close>); no page keeps a permission that the settings took away
    (\<open>Browser_Permissions_Spec\<close>).
  \<^item> Streams and reads: the decoded records do not depend on the chunks; reads that follow a cursor see
    each entry once while the sources grow.
  \<^item> The user: an answer is the user's, no wait outlives its session, and the suspend key never
    reaches a hosted session in any spelling.

  Bounds and recursion.  Loops whose end the types show are structural, the others have a measure.  The
  loop of the cron ranges may run for ever in the source and is a \<open>partial_function\<close>; that it ends is
  proved for every input whose steps are not zero.  No model uses fuel.  Numbers the source checks to be
  safe integers are natural numbers; code units are 16 bits wide where the width matters (\<open>Jsonl\<close>), and
  modifier sets are 8 bits wide (\<open>Terminal_Input\<close>).

  Parameters.  \<open>JSON.parse\<close>, SHA-256, base64url, Unicode lower case, clocks, random identities, the
  file system's answers, host callbacks and the replies of models are arguments.  Nothing is assumed of
  \<open>JSON.parse\<close>; a law that is needed (an injective digest on what was seen, a parser that inverts the
  printer of a cursor, a browser that does what its documentation says) is a named hypothesis of the
  theorem, with a concrete instance beside it.

  Findings.  Modelling showed a cron step that makes parsing run for ever and a day field read otherwise
  than promised (\<open>Cron_Spec\<close>), end markers of envelopes that drop an update (\<open>Patch_Envelope_Spec\<close>), a
  bounded buffer with a hole (\<open>Jsonl_Spec\<close>), a report that wakes an unsafe host
  (\<open>Scheduled_Dispatch_Spec\<close>), and a cache that counts an overwritten page for ever (\<open>Web_Cache_Spec\<close>).

  Not modelled.  The screens and the network of the session host and the settings menus are mostly
  rendering and input of widgets; the browser tools drive a Chrome process; the process start and
  streaming of reviewers, workers and shells, the git plumbing of worktrees, checkpoints and landing, and
  the persistence of sessions and settings are sequences of calls to the operating system, of which the
  decisions in memory are what could be modelled next: the background controller and the wave lifecycle
  first, then the capture of workspace snapshots, the redaction patterns, and the peer protocol codecs.
  Usage accounting, prompts and the policy texts are data without laws.
\<close>

end
